(* ===== verification/Prelude.thy ===== *)
theory Prelude
  imports Main "HOL-Library.Word"
begin

text \<open>
  What every theory of the development shares: the fixed-width integer types of the
  kernel's C code, the outcomes of kernel code that does not return, the sequencing of
  code that may not return, and the alignment arithmetic of pages and machine words.

  A kernel function that can hang, panic or fault is modelled as a function into
  \<open>kerror + 'a\<close>: \<open>Inr\<close> is a normal return, \<open>Inl\<close> says how the code failed to return.
\<close>

unbundle bit_operations_syntax

type_synonym u8 = "8 word"
type_synonym u16 = "16 word"
type_synonym u32 = "32 word"
type_synonym u64 = "64 word"

section \<open>Facts collections\<close>

named_theorems mem_simps \<open>reads over writes of the machine memory\<close>
named_theorems frame_simps \<open>parts of the state an operation leaves alone\<close>
named_theorems res_simps \<open>sequencing of kernel code\<close>

section \<open>Outcomes\<close>

text \<open>
  \<open>Halted\<close>: the code runs \<open>cli; for (;;) hlt\<close>. \<open>Panicked\<close>: it calls \<open>kpanic\<close>, which never
  returns. \<open>PageFault\<close>: it dereferences a NULL pointer, which the page fault handler turns
  into a panic. \<open>Undefined\<close>: the C behaviour is undefined at this point. \<open>Diverges\<close>: a loop
  that never ends.
\<close>

datatype kerror = Halted | Panicked | PageFault | Undefined | Diverges

type_synonym 'a res = "kerror + 'a"

definition andthen :: "'a res \<Rightarrow> ('a \<Rightarrow> 'b res) \<Rightarrow> 'b res" where
  "andthen r f = (case r of Inl e \<Rightarrow> Inl e | Inr a \<Rightarrow> f a)"

lemma andthen_Inl [simp, res_simps]: "andthen (Inl e) f = Inl e"
  by (simp add: andthen_def)

lemma andthen_Inr [simp, res_simps]: "andthen (Inr a) f = f a"
  by (simp add: andthen_def)

lemma andthen_eq_Inr: "andthen r f = Inr b \<longleftrightarrow> (\<exists>a. r = Inr a \<and> f a = Inr b)"
  by (cases r) auto

lemma andthen_assoc: "andthen (andthen r f) g = andthen r (\<lambda>a. andthen (f a) g)"
  by (cases r) auto

lemma andthen_cong [fundef_cong]:
  "r = r' \<Longrightarrow> (\<And>a. r' = Inr a \<Longrightarrow> f a = f' a) \<Longrightarrow> andthen r f = andthen r' f'"
  by (cases r') auto

text \<open>A counted C loop \<open>for (i = 0; i < n; i++) body\<close>, with the state threaded through.\<close>

fun for_upto :: "nat \<Rightarrow> nat \<Rightarrow> (nat \<Rightarrow> 's \<Rightarrow> 's res) \<Rightarrow> 's \<Rightarrow> 's res" where
  "for_upto i 0 body s = Inr s"
| "for_upto i (Suc n) body s = andthen (body i s) (for_upto (Suc i) n body)"

text \<open>
  An invariant rule for these loops: the body takes an invariant at \<open>i\<close> to the invariant
  at \<open>Suc i\<close>, so a loop of \<open>n\<close> rounds that starts at \<open>i\<close> establishes it at \<open>i + n\<close>.
\<close>

lemma for_upto_invariant:
  assumes "for_upto i n body s = Inr s'" and "P i s"
    and "\<And>k t t'. i \<le> k \<Longrightarrow> k < i + n \<Longrightarrow> P k t \<Longrightarrow> body k t = Inr t' \<Longrightarrow> P (Suc k) t'"
  shows "P (i + n) s'"
  using assms
proof (induction n arbitrary: i s)
  case 0
  then show ?case by simp
next
  case (Suc n)
  then obtain t where t: "body i s = Inr t" "for_upto (Suc i) n body t = Inr s'"
    by (auto simp: andthen_eq_Inr)
  have "P (Suc i) t" using Suc.prems t(1) by simp
  moreover have "P (Suc k) v" if "Suc i \<le> k" "k < Suc i + n" "P k u" "body k u = Inr v" for k u v
    using Suc.prems(3) [of k u v] that by simp
  ultimately have "P (Suc i + n) s'" using Suc.IH [OF t(2)] by blast
  then show ?case by simp
qed

text \<open>
  The matching rule for termination: if every round from a state with the invariant
  returns, so does the loop.
\<close>

lemma for_upto_total:
  assumes "P i s"
    and "\<And>k t. i \<le> k \<Longrightarrow> k < i + n \<Longrightarrow> P k t \<Longrightarrow> \<exists>t'. body k t = Inr t' \<and> P (Suc k) t'"
  shows "\<exists>s'. for_upto i n body s = Inr s' \<and> P (i + n) s'"
  using assms
proof (induction n arbitrary: i s)
  case 0
  then show ?case by simp
next
  case (Suc n)
  then obtain t where t: "body i s = Inr t" "P (Suc i) t" by fastforce
  then obtain s' where "for_upto (Suc i) n body t = Inr s'" "P (Suc i + n) s'"
    using Suc.IH [of "Suc i" t] Suc.prems(2) by auto
  with t show ?case by simp
qed

text \<open>The last round of a loop.\<close>

lemma for_upto_snoc: "for_upto i (Suc n) body s = andthen (for_upto i n body s) (body (i + n))"
proof (induction n arbitrary: i s)
  case 0
  then show ?case by (cases "body i s") auto
next
  case (Suc n)
  have "for_upto i (Suc (Suc n)) body s = andthen (body i s) (\<lambda>t. for_upto (Suc i) (Suc n) body t)"
    by (rule for_upto.simps(2))
  also have "\<dots> = andthen (body i s) (\<lambda>t. andthen (for_upto (Suc i) n body t) (body (Suc i + n)))"
    by (simp only: Suc.IH)
  also have "\<dots> = andthen (andthen (body i s) (\<lambda>t. for_upto (Suc i) n body t)) (body (i + Suc n))"
    by (simp add: andthen_assoc)
  also have "\<dots> = andthen (for_upto i (Suc n) body s) (body (i + Suc n))" by (simp only: for_upto.simps(2))
  finally show ?case .
qed

section \<open>Alignment\<close>

abbreviation null :: u64 where "null \<equiv> 0"

definition aligned :: "nat \<Rightarrow> u64 \<Rightarrow> bool" where
  "aligned n a \<longleftrightarrow> take_bit n a = 0"

abbreviation page_aligned :: "u64 \<Rightarrow> bool" where
  "page_aligned \<equiv> aligned 12"

text \<open>The page an address lies in.\<close>

definition page_of :: "u64 \<Rightarrow> u64" where
  "page_of a = a - take_bit 12 a"

lemma word_take_bit_add: "take_bit n (take_bit n a + take_bit n b) = take_bit n (a + b)"
  for a b :: "'a::len word"
  apply transfer
  apply (simp add: take_bit_take_bit)
  by (metis (no_types, opaque_lifting) min.commute take_bit_add take_bit_take_bit)

lemma word_take_bit_diff: "take_bit n (take_bit n a - take_bit n b) = take_bit n (a - b)"
  for a b :: "'a::len word"
  apply transfer
  apply (simp add: take_bit_take_bit)
  by (metis (no_types, opaque_lifting) min.commute take_bit_diff take_bit_take_bit)

lemma unat_take_bit: "unat (take_bit n a) = unat a mod 2 ^ n" for a :: "'a::len word"
  by (metis take_bit_eq_mod unsigned_take_bit_eq)

lemma unat_u64_less: "unat (n :: u64) < 2 ^ 64"
  using unsigned_less [of n] by simp

text \<open>A sum that is not smaller than its first summand did not wrap around.\<close>

lemma unat_add_no_wrap: "\<not> a + b < a \<Longrightarrow> unat (a + b) = unat a + unat b" for a b :: u64
  using unat_add_lem [of a b] no_olen_add_nat [of a b] by (auto simp: not_less)

lemma add_no_wrap: "unat a + unat b < 2 ^ 64 \<Longrightarrow> \<not> a + b < a" for a b :: u64
  using no_olen_add_nat [of a b] by (auto simp: not_less)

lemma aligned_0 [simp]: "aligned n 0"
  by (simp add: aligned_def)

lemma aligned_add: "aligned n a \<Longrightarrow> aligned n b \<Longrightarrow> aligned n (a + b)"
  unfolding aligned_def using word_take_bit_add [of n a b] by simp

lemma aligned_diff: "aligned n a \<Longrightarrow> aligned n b \<Longrightarrow> aligned n (a - b)"
  unfolding aligned_def using word_take_bit_diff [of n a b] by simp

lemma aligned_weaken: "aligned n a \<Longrightarrow> m \<le> n \<Longrightarrow> aligned m a"
  unfolding aligned_def using take_bit_take_bit [of m n a] by (simp add: min_def)

lemma aligned_unat: "aligned n a \<longleftrightarrow> unat a mod 2 ^ n = 0"
  unfolding aligned_def by (metis unat_eq_0 unat_take_bit)

lemma page_aligned_8: "page_aligned a \<Longrightarrow> aligned 3 a"
  by (rule aligned_weaken) auto

lemma aligned_of_nat:
  assumes "n \<le> 64"
  shows "aligned n (of_nat (2 ^ n * k))"
proof -
  from assms have "(2::nat) ^ n dvd 2 ^ 64" by (rule le_imp_power_dvd)
  then have "(2 ^ n * k) mod 2 ^ 64 mod 2 ^ n = 0"
    by (metis dvd_triv_left mod_mod_cancel mod_0_imp_dvd dvd_imp_mod_0)
  then show ?thesis by (simp only: aligned_unat unat_of_nat) simp
qed

lemma unat_of_nat_u64: "n < 2 ^ 64 \<Longrightarrow> unat (of_nat n :: u64) = n"
  by (simp only: unat_of_nat) simp

lemma aligned_mult:
  assumes "aligned n b" and "n \<le> 64"
  shows "aligned n (a * b)"
proof -
  have d: "(2::nat) ^ n dvd 2 ^ 64" using assms(2) by (rule le_imp_power_dvd)
  have "2 ^ n dvd unat b" using assms(1) by (simp add: aligned_unat dvd_eq_mod_eq_0)
  then have "2 ^ n dvd unat a * unat b mod 2 ^ 64" using d by (intro dvd_mod dvd_mult)
  moreover have "unat (a * b) = unat a * unat b mod 2 ^ 64" by (simp add: unat_word_ariths)
  ultimately show ?thesis by (simp add: aligned_unat dvd_eq_mod_eq_0)
qed

text \<open>An offset below the alignment is exactly the low bits of the sum.\<close>

lemma take_bit_aligned_add:
  assumes "aligned n p" and "unat d < 2 ^ n"
  shows "take_bit n (p + d) = d"
proof -
  have "take_bit n d = d"
    using assms(2) by (metis mod_less unat_take_bit word_unat_eq_iff)
  then show ?thesis
    using assms(1) word_take_bit_add [of n p d] by (simp add: aligned_def)
qed

lemma unat_take_bit_less: "unat (take_bit n a) < 2 ^ n" for a :: u64
  by (simp add: unat_take_bit)

text \<open>Two different \<open>n\<close>-bit aligned addresses are at least \<open>2 ^ n\<close> apart, both ways round.\<close>

lemma aligned_ge:
  assumes "aligned n d" and "d \<noteq> 0"
  shows "2 ^ n \<le> unat d"
proof (rule ccontr)
  assume "\<not> 2 ^ n \<le> unat d"
  then have "unat d mod 2 ^ n = unat d" by simp
  with assms show False by (simp add: aligned_unat unat_eq_0)
qed

lemma aligned_apart:
  assumes "aligned n a" and "aligned n b" and "a \<noteq> b"
  shows "2 ^ n \<le> unat (a - b)"
  using assms by (intro aligned_ge aligned_diff) auto

lemma page_of_aligned [simp]: "page_aligned (page_of a)"
  unfolding page_of_def aligned_def
  using word_take_bit_diff [of 12 a "take_bit 12 a"] by simp

lemma page_of_page [simp]: "page_aligned p \<Longrightarrow> page_of p = p"
  by (simp add: page_of_def aligned_def)

lemma page_of_offset:
  assumes "page_aligned p" and "unat d < 4096"
  shows "page_of (p + d) = p"
  using take_bit_aligned_add [of 12 p d] assms by (simp add: page_of_def)

lemma page_of_iff:
  assumes "page_aligned p"
  shows "page_of a = p \<longleftrightarrow> unat (a - p) < 4096"
proof
  assume "page_of a = p"
  then have "a - p = take_bit 12 a" by (auto simp: page_of_def)
  then show "unat (a - p) < 4096" using unat_take_bit_less [of 12 a] by simp
next
  assume "unat (a - p) < 4096"
  then show "page_of a = p" using page_of_offset [OF assms, of "a - p"] by simp
qed

text \<open>An aligned machine word lies in one page.\<close>

lemma page_of_word:
  assumes "aligned 3 a" and "unat d < 8"
  shows "page_of (a + d) = page_of a"
proof -
  define p where "p = page_of a"
  define t where "t = take_bit 12 a"
  have a: "a = p + t" by (simp add: p_def t_def page_of_def)
  have "aligned 3 t"
    using assms(1) by (simp add: aligned_def t_def take_bit_take_bit min_def)
  then obtain k where k: "unat t = 8 * k" by (auto simp: aligned_unat)
  moreover have "unat t < 4096" unfolding t_def using unat_take_bit_less [of 12 a] by simp
  ultimately have t: "unat t + unat d < 4096" using assms(2) by presburger
  then have "unat (t + d) = unat t + unat d"
    by (subst unat_add_lem [THEN iffD1]) simp_all
  with t have "page_of (p + (t + d)) = p"
    by (intro page_of_offset) (simp_all add: p_def)
  then show ?thesis by (simp add: a p_def [symmetric] add.assoc)
     (metis a p_def)
qed

section \<open>String literals\<close>

text \<open>The bytes of a C string literal, without the final NUL.\<close>

definition bytes_of :: "string \<Rightarrow> u8 list" where
  "bytes_of name = map (\<lambda>c. of_nat (of_char c)) name"

lemma length_bytes_of [simp]: "length (bytes_of name) = length name"
  by (simp add: bytes_of_def)

lemma bytes_of_append: "bytes_of (xs @ ys) = bytes_of xs @ bytes_of ys"
  by (simp add: bytes_of_def)

end
