(* ===== verification/Glyphs.thy ===== *)
theory Glyphs
  imports Prelude
begin

text \<open>
  The tables of the terminal (\<open>flanterm/flanterm.c\<close>) and the code that searches them: the 256-colour
  palette, the widths of Unicode characters, the glyphs of code page 437 for Unicode code points, and
  the line-drawing character set. The binary search is shown to agree with a search of the whole table.
\<close>

section \<open>Colours\<close>

definition col256 :: "u32 list" where
  "col256 = [
     0x000000, 0x00005f, 0x000087, 0x0000af, 0x0000d7, 0x0000ff, 0x005f00, 0x005f5f, 0x005f87, 0x005faf,
     0x005fd7, 0x005fff, 0x008700, 0x00875f, 0x008787, 0x0087af, 0x0087d7, 0x0087ff, 0x00af00, 0x00af5f,
     0x00af87, 0x00afaf, 0x00afd7, 0x00afff, 0x00d700, 0x00d75f, 0x00d787, 0x00d7af, 0x00d7d7, 0x00d7ff,
     0x00ff00, 0x00ff5f, 0x00ff87, 0x00ffaf, 0x00ffd7, 0x00ffff, 0x5f0000, 0x5f005f, 0x5f0087, 0x5f00af,
     0x5f00d7, 0x5f00ff, 0x5f5f00, 0x5f5f5f, 0x5f5f87, 0x5f5faf, 0x5f5fd7, 0x5f5fff, 0x5f8700, 0x5f875f,
     0x5f8787, 0x5f87af, 0x5f87d7, 0x5f87ff, 0x5faf00, 0x5faf5f, 0x5faf87, 0x5fafaf, 0x5fafd7, 0x5fafff,
     0x5fd700, 0x5fd75f, 0x5fd787, 0x5fd7af, 0x5fd7d7, 0x5fd7ff, 0x5fff00, 0x5fff5f, 0x5fff87, 0x5fffaf,
     0x5fffd7, 0x5fffff, 0x870000, 0x87005f, 0x870087, 0x8700af, 0x8700d7, 0x8700ff, 0x875f00, 0x875f5f,
     0x875f87, 0x875faf, 0x875fd7, 0x875fff, 0x878700, 0x87875f, 0x878787, 0x8787af, 0x8787d7, 0x8787ff,
     0x87af00, 0x87af5f, 0x87af87, 0x87afaf, 0x87afd7, 0x87afff, 0x87d700, 0x87d75f, 0x87d787, 0x87d7af,
     0x87d7d7, 0x87d7ff, 0x87ff00, 0x87ff5f, 0x87ff87, 0x87ffaf, 0x87ffd7, 0x87ffff, 0xaf0000, 0xaf005f,
     0xaf0087, 0xaf00af, 0xaf00d7, 0xaf00ff, 0xaf5f00, 0xaf5f5f, 0xaf5f87, 0xaf5faf, 0xaf5fd7, 0xaf5fff,
     0xaf8700, 0xaf875f, 0xaf8787, 0xaf87af, 0xaf87d7, 0xaf87ff, 0xafaf00, 0xafaf5f, 0xafaf87, 0xafafaf,
     0xafafd7, 0xafafff, 0xafd700, 0xafd75f, 0xafd787, 0xafd7af, 0xafd7d7, 0xafd7ff, 0xafff00, 0xafff5f,
     0xafff87, 0xafffaf, 0xafffd7, 0xafffff, 0xd70000, 0xd7005f, 0xd70087, 0xd700af, 0xd700d7, 0xd700ff,
     0xd75f00, 0xd75f5f, 0xd75f87, 0xd75faf, 0xd75fd7, 0xd75fff, 0xd78700, 0xd7875f, 0xd78787, 0xd787af,
     0xd787d7, 0xd787ff, 0xd7af00, 0xd7af5f, 0xd7af87, 0xd7afaf, 0xd7afd7, 0xd7afff, 0xd7d700, 0xd7d75f,
     0xd7d787, 0xd7d7af, 0xd7d7d7, 0xd7d7ff, 0xd7ff00, 0xd7ff5f, 0xd7ff87, 0xd7ffaf, 0xd7ffd7, 0xd7ffff,
     0xff0000, 0xff005f, 0xff0087, 0xff00af, 0xff00d7, 0xff00ff, 0xff5f00, 0xff5f5f, 0xff5f87, 0xff5faf,
     0xff5fd7, 0xff5fff, 0xff8700, 0xff875f, 0xff8787, 0xff87af, 0xff87d7, 0xff87ff, 0xffaf00, 0xffaf5f,
     0xffaf87, 0xffafaf, 0xffafd7, 0xffafff, 0xffd700, 0xffd75f, 0xffd787, 0xffd7af, 0xffd7d7, 0xffd7ff,
     0xffff00, 0xffff5f, 0xffff87, 0xffffaf, 0xffffd7, 0xffffff, 0x080808, 0x121212, 0x1c1c1c, 0x262626,
     0x303030, 0x3a3a3a, 0x444444, 0x4e4e4e, 0x585858, 0x626262, 0x6c6c6c, 0x767676, 0x808080, 0x8a8a8a,
     0x949494, 0x9e9e9e, 0xa8a8a8, 0xb2b2b2, 0xbcbcbc, 0xc6c6c6, 0xd0d0d0, 0xdadada, 0xe4e4e4, 0xeeeeee]"

lemma length_col256 [simp]: "length col256 = 240"
  by (simp add: col256_def)

section \<open>Character widths\<close>

type_synonym interval = "u32 \<times> u32"

text \<open>The loop of \<open>bisearch\<close> over the C variables \<open>min\<close> and \<open>max\<close>.\<close>

function bisearch_loop :: "u32 \<Rightarrow> interval list \<Rightarrow> int \<Rightarrow> int \<Rightarrow> bool" where
  "bisearch_loop ucs table lo hi =
     (if lo \<le> hi then
        (let mid = (lo + hi) div 2 in
         if snd (table ! nat mid) < ucs then bisearch_loop ucs table (mid + 1) hi
         else if ucs < fst (table ! nat mid) then bisearch_loop ucs table lo (mid - 1)
         else True)
      else False)"
  by pat_completeness auto
termination by (relation "measure (\<lambda>(_, _, lo, hi). nat (hi + 1 - lo))") auto

declare bisearch_loop.simps [simp del]

definition bisearch :: "u32 \<Rightarrow> interval list \<Rightarrow> int \<Rightarrow> bool" where
  "bisearch ucs table hi =
     (if ucs < fst (table ! 0) \<or> snd (table ! nat hi) < ucs then False else bisearch_loop ucs table 0 hi)"

definition combining :: "interval list" where
  "combining = [
     (0x0300, 0x036F), (0x0483, 0x0486), (0x0488, 0x0489), (0x0591, 0x05BD), (0x05BF, 0x05BF),
     (0x05C1, 0x05C2), (0x05C4, 0x05C5), (0x05C7, 0x05C7), (0x0600, 0x0603), (0x0610, 0x0615),
     (0x064B, 0x065E), (0x0670, 0x0670), (0x06D6, 0x06E4), (0x06E7, 0x06E8), (0x06EA, 0x06ED),
     (0x070F, 0x070F), (0x0711, 0x0711), (0x0730, 0x074A), (0x07A6, 0x07B0), (0x07EB, 0x07F3),
     (0x0901, 0x0902), (0x093C, 0x093C), (0x0941, 0x0948), (0x094D, 0x094D), (0x0951, 0x0954),
     (0x0962, 0x0963), (0x0981, 0x0981), (0x09BC, 0x09BC), (0x09C1, 0x09C4), (0x09CD, 0x09CD),
     (0x09E2, 0x09E3), (0x0A01, 0x0A02), (0x0A3C, 0x0A3C), (0x0A41, 0x0A42), (0x0A47, 0x0A48),
     (0x0A4B, 0x0A4D), (0x0A70, 0x0A71), (0x0A81, 0x0A82), (0x0ABC, 0x0ABC), (0x0AC1, 0x0AC5),
     (0x0AC7, 0x0AC8), (0x0ACD, 0x0ACD), (0x0AE2, 0x0AE3), (0x0B01, 0x0B01), (0x0B3C, 0x0B3C),
     (0x0B3F, 0x0B3F), (0x0B41, 0x0B43), (0x0B4D, 0x0B4D), (0x0B56, 0x0B56), (0x0B82, 0x0B82),
     (0x0BC0, 0x0BC0), (0x0BCD, 0x0BCD), (0x0C3E, 0x0C40), (0x0C46, 0x0C48), (0x0C4A, 0x0C4D),
     (0x0C55, 0x0C56), (0x0CBC, 0x0CBC), (0x0CBF, 0x0CBF), (0x0CC6, 0x0CC6), (0x0CCC, 0x0CCD),
     (0x0CE2, 0x0CE3), (0x0D41, 0x0D43), (0x0D4D, 0x0D4D), (0x0DCA, 0x0DCA), (0x0DD2, 0x0DD4),
     (0x0DD6, 0x0DD6), (0x0E31, 0x0E31), (0x0E34, 0x0E3A), (0x0E47, 0x0E4E), (0x0EB1, 0x0EB1),
     (0x0EB4, 0x0EB9), (0x0EBB, 0x0EBC), (0x0EC8, 0x0ECD), (0x0F18, 0x0F19), (0x0F35, 0x0F35),
     (0x0F37, 0x0F37), (0x0F39, 0x0F39), (0x0F71, 0x0F7E), (0x0F80, 0x0F84), (0x0F86, 0x0F87),
     (0x0F90, 0x0F97), (0x0F99, 0x0FBC), (0x0FC6, 0x0FC6), (0x102D, 0x1030), (0x1032, 0x1032),
     (0x1036, 0x1037), (0x1039, 0x1039), (0x1058, 0x1059), (0x1160, 0x11FF), (0x135F, 0x135F),
     (0x1712, 0x1714), (0x1732, 0x1734), (0x1752, 0x1753), (0x1772, 0x1773), (0x17B4, 0x17B5),
     (0x17B7, 0x17BD), (0x17C6, 0x17C6), (0x17C9, 0x17D3), (0x17DD, 0x17DD), (0x180B, 0x180D),
     (0x18A9, 0x18A9), (0x1920, 0x1922), (0x1927, 0x1928), (0x1932, 0x1932), (0x1939, 0x193B),
     (0x1A17, 0x1A18), (0x1B00, 0x1B03), (0x1B34, 0x1B34), (0x1B36, 0x1B3A), (0x1B3C, 0x1B3C),
     (0x1B42, 0x1B42), (0x1B6B, 0x1B73), (0x1DC0, 0x1DCA), (0x1DFE, 0x1DFF), (0x200B, 0x200F),
     (0x202A, 0x202E), (0x2060, 0x2063), (0x206A, 0x206F), (0x20D0, 0x20EF), (0x302A, 0x302F),
     (0x3099, 0x309A), (0xA806, 0xA806), (0xA80B, 0xA80B), (0xA825, 0xA826), (0xFB1E, 0xFB1E),
     (0xFE00, 0xFE0F), (0xFE20, 0xFE23), (0xFEFF, 0xFEFF), (0xFFF9, 0xFFFB), (0x10A01, 0x10A03),
     (0x10A05, 0x10A06), (0x10A0C, 0x10A0F), (0x10A38, 0x10A3A), (0x10A3F, 0x10A3F), (0x1D167, 0x1D169),
     (0x1D173, 0x1D182), (0x1D185, 0x1D18B), (0x1D1AA, 0x1D1AD), (0x1D242, 0x1D244), (0xE0001, 0xE0001),
     (0xE0020, 0xE007F), (0xE0100, 0xE01EF)]"

definition mk_wcwidth :: "u32 \<Rightarrow> int" where
  "mk_wcwidth ucs =
     (if ucs = 0 then 0
      else if ucs < 32 \<or> 0x7f \<le> ucs \<and> ucs < 0xa0 then 1
      else if bisearch ucs combining (int (length combining) - 1) then 0
      else 1 + (if 0x1100 \<le> ucs \<and>
          (ucs \<le> 0x115f \<or> ucs = 0x2329 \<or> ucs = 0x232a \<or>
           (0x2e80 \<le> ucs \<and> ucs \<le> 0xa4cf \<and> ucs \<noteq> 0x303f) \<or>
           (0xac00 \<le> ucs \<and> ucs \<le> 0xd7a3) \<or>
           (0xf900 \<le> ucs \<and> ucs \<le> 0xfaff) \<or>
           (0xfe10 \<le> ucs \<and> ucs \<le> 0xfe19) \<or>
           (0xfe30 \<le> ucs \<and> ucs \<le> 0xfe6f) \<or>
           (0xff00 \<le> ucs \<and> ucs \<le> 0xff60) \<or>
           (0xffe0 \<le> ucs \<and> ucs \<le> 0xffe6) \<or>
           (0x20000 \<le> ucs \<and> ucs \<le> 0x2fffd) \<or>
           (0x30000 \<le> ucs \<and> ucs \<le> 0x3fffd)) then 1 else 0))"

section \<open>Glyphs\<close>

definition cp437 :: "(u64 \<times> int) list" where
  "cp437 = [
     (0x263a, 1), (0x263b, 2), (0x2665, 3), (0x2666, 4), (0x2663, 5), (0x2660, 6), (0x2022, 7),
     (0x25d8, 8), (0x25cb, 9), (0x25d9, 10), (0x2642, 11), (0x2640, 12), (0x266a, 13), (0x266b, 14),
     (0x263c, 15), (0x25ba, 16), (0x25c4, 17), (0x2195, 18), (0x203c, 19), (0x00b6, 20), (0x00a7, 21),
     (0x25ac, 22), (0x21a8, 23), (0x2191, 24), (0x2193, 25), (0x2192, 26), (0x2190, 27), (0x221f, 28),
     (0x2194, 29), (0x25b2, 30), (0x25bc, 31), (0x2302, 127), (0x00c7, 128), (0x00fc, 129), (0x00e9, 130),
     (0x00e2, 131), (0x00e4, 132), (0x00e0, 133), (0x00e5, 134), (0x00e7, 135), (0x00ea, 136),
     (0x00eb, 137), (0x00e8, 138), (0x00ef, 139), (0x00ee, 140), (0x00ec, 141), (0x00c4, 142),
     (0x00c5, 143), (0x00c9, 144), (0x00e6, 145), (0x00c6, 146), (0x00f4, 147), (0x00f6, 148),
     (0x00f2, 149), (0x00fb, 150), (0x00f9, 151), (0x00ff, 152), (0x00d6, 153), (0x00dc, 154),
     (0x00a2, 155), (0x00a3, 156), (0x00a5, 157), (0x20a7, 158), (0x0192, 159), (0x00e1, 160),
     (0x00ed, 161), (0x00f3, 162), (0x00fa, 163), (0x00f1, 164), (0x00d1, 165), (0x00aa, 166),
     (0x00ba, 167), (0x00bf, 168), (0x2310, 169), (0x00ac, 170), (0x00bd, 171), (0x00bc, 172),
     (0x00a1, 173), (0x00ab, 174), (0x00bb, 175), (0x2591, 176), (0x2592, 177), (0x2593, 178),
     (0x2502, 179), (0x2524, 180), (0x2561, 181), (0x2562, 182), (0x2556, 183), (0x2555, 184),
     (0x2563, 185), (0x2551, 186), (0x2557, 187), (0x255d, 188), (0x255c, 189), (0x255b, 190),
     (0x2510, 191), (0x2514, 192), (0x2534, 193), (0x252c, 194), (0x251c, 195), (0x2500, 196),
     (0x253c, 197), (0x255e, 198), (0x255f, 199), (0x255a, 200), (0x2554, 201), (0x2569, 202),
     (0x2566, 203), (0x2560, 204), (0x2550, 205), (0x256c, 206), (0x2567, 207), (0x2568, 208),
     (0x2564, 209), (0x2565, 210), (0x2559, 211), (0x2558, 212), (0x2552, 213), (0x2553, 214),
     (0x256b, 215), (0x256a, 216), (0x2518, 217), (0x250c, 218), (0x2588, 219), (0x2584, 220),
     (0x258c, 221), (0x2590, 222), (0x2580, 223), (0x03b1, 224), (0x00df, 225), (0x0393, 226),
     (0x03c0, 227), (0x03a3, 228), (0x03c3, 229), (0x00b5, 230), (0x03c4, 231), (0x03a6, 232),
     (0x0398, 233), (0x03a9, 234), (0x03b4, 235), (0x221e, 236), (0x03c6, 237), (0x03b5, 238),
     (0x2229, 239), (0x2261, 240), (0x00b1, 241), (0x2265, 242), (0x2264, 243), (0x2320, 244),
     (0x2321, 245), (0x00f7, 246), (0x2248, 247), (0x00b0, 248), (0x2219, 249), (0x00b7, 250),
     (0x221a, 251), (0x207f, 252), (0x00b2, 253), (0x25a0, 254)]"

definition unicode_to_cp437 :: "u64 \<Rightarrow> int" where
  "unicode_to_cp437 code_point = (case map_of cp437 code_point of Some n \<Rightarrow> n | None \<Rightarrow> -1)"

text \<open>The glyph of a character of the line-drawing set.\<close>

definition dec_special :: "(u8 \<times> u8) list" where
  "dec_special = [
     (0x60, 0x04), (0x30, 0xdb), (0x2d, 0x18), (0x2c, 0x1b), (0x2e, 0x19), (0x61, 0xb1), (0x66, 0xf8),
     (0x67, 0xf1), (0x68, 0xb0), (0x6a, 0xd9), (0x6b, 0xbf), (0x6c, 0xda), (0x6d, 0xc0), (0x6e, 0xc5),
     (0x71, 0xc4), (0x73, 0x5f), (0x74, 0xc3), (0x75, 0xb4), (0x76, 0xc1), (0x77, 0xc2), (0x78, 0xb3),
     (0x79, 0xf3), (0x7a, 0xf2), (0x7e, 0xfa), (0x5f, 0xff), (0x2b, 0x1a), (0x7b, 0xe3), (0x7d, 0x9c)]"

definition dec_special_glyph :: "u8 \<Rightarrow> u8 option" where
  "dec_special_glyph c = map_of dec_special c"

section \<open>The searches are right\<close>

text \<open>An ordered table of disjoint intervals, and the set of the values in it.\<close>

fun intervals_ok :: "interval list \<Rightarrow> bool" where
  "intervals_ok [] = True"
| "intervals_ok [(a, b)] = (a \<le> b)"
| "intervals_ok ((a, b) # (c, d) # table) = (a \<le> b \<and> b < c \<and> intervals_ok ((c, d) # table))"

definition in_table :: "u32 \<Rightarrow> interval list \<Rightarrow> bool" where
  "in_table ucs table = list_ex (\<lambda>(a, b). a \<le> ucs \<and> ucs \<le> b) table"

lemma intervals_ok_tl: "intervals_ok (x # table) \<Longrightarrow> intervals_ok table"
  by (cases "(x # table)" rule: intervals_ok.cases) auto

lemma intervals_after: "intervals_ok (x # table) \<Longrightarrow> y \<in> set table \<Longrightarrow> snd x < fst y"
proof (induction table arbitrary: x)
  case (Cons z table)
  obtain a b c d where [simp]: "x = (a, b)" "z = (c, d)" by fastforce
  have "intervals_ok ((c, d) # table)" using Cons.prems by simp
  then have "c \<le> d" by (cases table rule: intervals_ok.cases) auto
  then show ?case using Cons.prems Cons.IH [of z] by fastforce
qed simp

lemma intervals_nth:
  assumes "intervals_ok table" and "j < length table"
  shows "fst (table ! j) \<le> snd (table ! j) \<and> (\<forall>i < j. snd (table ! i) < fst (table ! j))"
  using assms
proof (induction table arbitrary: j)
  case (Cons x table)
  show ?case
  proof (cases j)
    case 0
    then show ?thesis using Cons.prems by (cases "(x # table)" rule: intervals_ok.cases) auto
  next
    case (Suc k)
    then have k: "k < length table" using Cons.prems by simp
    then show ?thesis
      using Cons.IH [OF intervals_ok_tl [OF Cons.prems(1)] k] intervals_after [OF Cons.prems(1)] Suc
      by (auto simp: nth_Cons' less_Suc_eq_0_disj)
  qed
qed simp

text \<open>Wherever the value is, it is between the two bounds of the search.\<close>

lemma bisearch_loop_eq:
  assumes "intervals_ok table" and "0 \<le> lo" and "hi < int (length table)"
    and "\<And>j. j < length table \<Longrightarrow> fst (table ! j) \<le> ucs \<Longrightarrow> ucs \<le> snd (table ! j) \<Longrightarrow> lo \<le> int j \<and> int j \<le> hi"
  shows "bisearch_loop ucs table lo hi \<longleftrightarrow> in_table ucs table"
  using assms
proof (induction ucs table lo hi rule: bisearch_loop.induct)
  case (1 ucs table lo hi)
  show ?case
  proof (cases "lo \<le> hi")
    case False
    then have "\<not> in_table ucs table"
      using "1.prems"(4) by (force simp: in_table_def list_ex_iff in_set_conv_nth)
    then show ?thesis using False by (simp add: bisearch_loop.simps)
  next
    case True
    define mid where "mid = (lo + hi) div 2"
    define m where "m = nat mid"
    have m: "lo \<le> mid" "mid \<le> hi" "int m = mid" "m < length table"
      using True "1.prems"(2,3) by (auto simp: mid_def m_def)
    have nth: "fst (table ! j) \<le> snd (table ! j) \<and> (\<forall>i < j. snd (table ! i) < fst (table ! j))" if "j < length table" for j
      using intervals_nth [OF "1.prems"(1) that] .
    have ord: "fst (table ! m) \<le> snd (table ! m)" "\<And>i. i < m \<Longrightarrow> snd (table ! i) < fst (table ! m)"
      using nth [OF m(4)] by blast+
    have above: "snd (table ! m) < fst (table ! j)" if "m < j" "j < length table" for j
      using nth [OF that(2)] that(1) by blast
    consider "snd (table ! m) < ucs" | "ucs < fst (table ! m)" | "fst (table ! m) \<le> ucs" "ucs \<le> snd (table ! m)"
      by fastforce
    then show ?thesis
    proof cases
      case 1
      have "bisearch_loop ucs table (mid + 1) hi \<longleftrightarrow> in_table ucs table"
      proof (rule "1.IH"(1) [OF True mid_def])
        fix j assume j: "j < length table" "fst (table ! j) \<le> ucs" "ucs \<le> snd (table ! j)"
        then have "\<not> j \<le> m" using 1 ord(1) ord(2) [of j] by (auto simp: le_less)
        then show "mid + 1 \<le> int j \<and> int j \<le> hi" using "1.prems"(4) [OF j] m by auto
      qed (use 1 "1.prems" m in \<open>auto simp: m_def\<close>)
      then show ?thesis using 1 True by (simp add: bisearch_loop.simps [of ucs table lo hi] Let_def flip: mid_def m_def)
    next
      case 2
      then have "\<not> snd (table ! m) < ucs" using ord(1) by auto
      have "bisearch_loop ucs table lo (mid - 1) \<longleftrightarrow> in_table ucs table"
      proof (rule "1.IH"(2) [OF True mid_def])
        fix j assume j: "j < length table" "fst (table ! j) \<le> ucs" "ucs \<le> snd (table ! j)"
        then have "\<not> m \<le> j" using 2 ord(1) above [of j] by (auto simp: le_less)
        then show "lo \<le> int j \<and> int j \<le> mid - 1" using "1.prems"(4) [OF j] m by auto
      qed (use 2 \<open>\<not> snd (table ! m) < ucs\<close> "1.prems" m in \<open>auto simp: m_def\<close>)
      then show ?thesis using 2 True \<open>\<not> snd (table ! m) < ucs\<close>
        by (simp add: bisearch_loop.simps [of ucs table lo hi] Let_def flip: mid_def m_def)
    next
      case 3
      then have "in_table ucs table" using m(4) by (force simp: in_table_def list_ex_iff in_set_conv_nth)
      then show ?thesis using 3 True
        by (auto simp: bisearch_loop.simps [of ucs table lo hi] Let_def dest: leD simp flip: mid_def m_def)
    qed
  qed
qed

lemma bisearch_eq:
  assumes "intervals_ok table" and "table \<noteq> []"
  shows "bisearch ucs table (int (length table) - 1) \<longleftrightarrow> in_table ucs table"
proof -
  have n: "nat (int (length table) - 1) = length table - 1" by simp
  have "\<not> in_table ucs table" if "ucs < fst (table ! 0) \<or> snd (table ! (length table - 1)) < ucs"
  proof
    assume "in_table ucs table"
    then obtain j where j: "j < length table" "fst (table ! j) \<le> ucs" "ucs \<le> snd (table ! j)"
      by (fastforce simp: in_table_def list_ex_iff in_set_conv_nth)
    have "fst (table ! 0) \<le> fst (table ! j)"
      using intervals_nth [OF assms(1) j(1)] intervals_nth [OF assms(1), of 0] assms(2) by (cases j) fastforce+
    moreover have "snd (table ! j) \<le> snd (table ! (length table - 1))"
    proof (cases "j = length table - 1")
      case False
      then have "j < length table - 1" "length table - 1 < length table" using j(1) by auto
      then show ?thesis using intervals_nth [OF assms(1), of "length table - 1"] by (meson less_imp_le order_trans)
    qed simp
    ultimately show False using j that by auto
  qed
  then show ?thesis
    unfolding bisearch_def n by (auto simp: bisearch_loop_eq assms)
qed

lemma combining_ok: "intervals_ok combining"
  by (simp add: combining_def)

text \<open>The reference definition of the width, without the search.\<close>

definition is_wide :: "u32 \<Rightarrow> bool" where
  "is_wide ucs = in_table ucs [(0x1100, 0x115f), (0x2329, 0x232a), (0x2e80, 0x303e), (0x3040, 0xa4cf), (0xac00, 0xd7a3),
     (0xf900, 0xfaff), (0xfe10, 0xfe19), (0xfe30, 0xfe6f), (0xff00, 0xff60), (0xffe0, 0xffe6), (0x20000, 0x2fffd),
     (0x30000, 0x3fffd)]"

definition width_spec :: "u32 \<Rightarrow> int" where
  "width_spec ucs =
     (if ucs = 0 then 0 else if ucs < 32 \<or> in_table ucs [(0x7f, 0x9f)] then 1
      else if in_table ucs combining then 0 else if is_wide ucs then 2 else 1)"

text \<open>The twelve ranges of wide characters, on numbers.\<close>

lemma wide_ranges:
  "(0x1100 \<le> n \<and>
          (n \<le> 0x115f \<or> n = 0x2329 \<or> n = 0x232a \<or>
           (0x2e80 \<le> n \<and> n \<le> 0xa4cf \<and> n \<noteq> 0x303f) \<or>
           (0xac00 \<le> n \<and> n \<le> 0xd7a3) \<or>
           (0xf900 \<le> n \<and> n \<le> 0xfaff) \<or>
           (0xfe10 \<le> n \<and> n \<le> 0xfe19) \<or>
           (0xfe30 \<le> n \<and> n \<le> 0xfe6f) \<or>
           (0xff00 \<le> n \<and> n \<le> 0xff60) \<or>
           (0xffe0 \<le> n \<and> n \<le> 0xffe6) \<or>
           (0x20000 \<le> n \<and> n \<le> 0x2fffd) \<or>
           (0x30000 \<le> n \<and> n \<le> 0x3fffd))) \<longleftrightarrow>
    (0x1100 \<le> n \<and> n \<le> 0x115f \<or> 0x2329 \<le> n \<and> n \<le> 0x232a \<or> 0x2e80 \<le> n \<and> n \<le> 0x303e \<or> 0x3040 \<le> n \<and> n \<le> 0xa4cf
     \<or> 0xac00 \<le> n \<and> n \<le> 0xd7a3 \<or> 0xf900 \<le> n \<and> n \<le> 0xfaff \<or> 0xfe10 \<le> n \<and> n \<le> 0xfe19 \<or> 0xfe30 \<le> n \<and> n \<le> 0xfe6f
     \<or> 0xff00 \<le> n \<and> n \<le> 0xff60 \<or> 0xffe0 \<le> n \<and> n \<le> 0xffe6 \<or> 0x20000 \<le> n \<and> n \<le> 0x2fffd \<or> 0x30000 \<le> n \<and> n \<le> 0x3fffd)"
  for n :: nat
proof -
  have i: "(0x2e80 \<le> n \<and> n \<le> 0xa4cf \<and> n \<noteq> 0x303f) \<longleftrightarrow> 0x2e80 \<le> n \<and> n \<le> 0x303e \<or> 0x3040 \<le> n \<and> n \<le> 0xa4cf" by auto
  have j: "n = 0x2329 \<or> n = 0x232a \<or> R \<longleftrightarrow> 0x2329 \<le> n \<and> n \<le> 0x232a \<or> R" for R by auto
  have k: "0x1100 \<le> n \<and> (n \<le> 0x115f \<or> R) \<longleftrightarrow> 0x1100 \<le> n \<and> n \<le> 0x115f \<or> R" if "R \<Longrightarrow> 0x1100 \<le> n" for R
    using that by blast
  show ?thesis unfolding i j disj_assoc by (rule k) (elim disjE conjE; simp)
qed

lemma mk_wcwidth_eq: "mk_wcwidth ucs = width_spec ucs"
proof -
  have c: "bisearch ucs combining (int (length combining) - 1) \<longleftrightarrow> in_table ucs combining"
    by (rule bisearch_eq [OF combining_ok]) (simp add: combining_def)
  define n where "n = unat ucs"
  have e: "ucs = w \<longleftrightarrow> n = unat w" "ucs \<le> w \<longleftrightarrow> n \<le> unat w" "w \<le> ucs \<longleftrightarrow> unat w \<le> n"
     "ucs < w \<longleftrightarrow> n < unat w" for w
    by (simp_all add: n_def word_unat_eq_iff word_le_nat_alt word_less_nat_alt)
  have control: "(ucs < 32 \<or> 0x7f \<le> ucs \<and> ucs < 0xa0) \<longleftrightarrow> (ucs < 32 \<or> in_table ucs [(0x7f, 0x9f)])"
    by (simp add: in_table_def e) arith
  have wide: "(0x1100 \<le> ucs \<and>
          (ucs \<le> 0x115f \<or> ucs = 0x2329 \<or> ucs = 0x232a \<or>
           (0x2e80 \<le> ucs \<and> ucs \<le> 0xa4cf \<and> ucs \<noteq> 0x303f) \<or>
           (0xac00 \<le> ucs \<and> ucs \<le> 0xd7a3) \<or>
           (0xf900 \<le> ucs \<and> ucs \<le> 0xfaff) \<or>
           (0xfe10 \<le> ucs \<and> ucs \<le> 0xfe19) \<or>
           (0xfe30 \<le> ucs \<and> ucs \<le> 0xfe6f) \<or>
           (0xff00 \<le> ucs \<and> ucs \<le> 0xff60) \<or>
           (0xffe0 \<le> ucs \<and> ucs \<le> 0xffe6) \<or>
           (0x20000 \<le> ucs \<and> ucs \<le> 0x2fffd) \<or>
           (0x30000 \<le> ucs \<and> ucs \<le> 0x3fffd))) \<longleftrightarrow> is_wide ucs"
    using wide_ranges [of n] by (simp only: is_wide_def in_table_def list_ex_Cons_iff list_ex_Nil_iff prod.case e) simp
  show ?thesis
    unfolding mk_wcwidth_def width_spec_def c control wide by simp
qed

end
