(* ===== verification/Flanterm.thy ===== *)
theory Flanterm
  imports Glyphs
begin

text \<open>
  The front end of the terminal, \<open>flanterm/flanterm.c\<close>: what it does with every byte that is written.
  It decodes UTF-8, escape and control sequences, and works on the screen only through the function
  pointers of its context. The pointers are the record \<open>backend\<close>, an argument of every function that
  calls through them; the state of the back end is the field \<open>screen\<close> of the context, of which the
  front end knows nothing. The last section states as a locale what it relies on: the operations
  return and keep their invariant. Under this contract every sequence of bytes is handled without
  a fault, and the invariant of the front end holds after it.
\<close>

section \<open>The context\<close>

abbreviation (input) FLANTERM_MAX_ESC_VALUES :: nat where "FLANTERM_MAX_ESC_VALUES \<equiv> 16"
abbreviation (input) FLANTERM_OOB_OUTPUT_ONLCR :: u64 where "FLANTERM_OOB_OUTPUT_ONLCR \<equiv> 16"

text \<open>What the client's callback is told; the kernel sets no callback.\<close>

datatype term_callback =
    CB_DEC u64 "u32 list" u8 | CB_BELL | CB_PRIVATE_ID | CB_STATUS_REPORT | CB_POS_REPORT u64 u64
  | CB_KBD_LEDS u32 | CB_MODE u64 "u32 list" u8 | CB_LINUX u64 "u32 list"

datatype charset = CHARSET_DEFAULT | CHARSET_DEC_SPECIAL

record 'b terminal =
  tab_size :: u64
  autoflush :: bool
  cursor_enabled :: bool
  scroll_enabled :: bool
  control_sequence :: bool
  escape :: bool
  osc :: bool
  osc_escape :: bool
  rrr :: bool
  discard_next :: bool
  bold :: bool
  bg_bold :: bool
  reverse_video :: bool
  dec_private :: bool
  insert_mode :: bool
  code_point :: u64
  unicode_remaining :: u64
  g_select :: u8
  charsets :: "charset list"
  current_charset :: u64
  escape_offset :: u64
  esc_values_i :: u64
  saved_cursor_x :: u64
  saved_cursor_y :: u64
  current_primary :: u64
  current_bg :: u64
  scroll_top_margin :: u64
  scroll_bottom_margin :: u64
  esc_values :: "u32 list"
  oob_output :: u64
  saved_state_bold :: bool
  saved_state_bg_bold :: bool
  saved_state_reverse_video :: bool
  saved_state_current_charset :: u64
  saved_state_current_primary :: u64
  saved_state_current_bg :: u64
  rows :: u64
  cols :: u64
  callback :: bool
  callbacks :: "term_callback list"
  screen :: 'b

text \<open>The function pointers. \<open>get_cursor_pos\<close> writes the position to its two arguments.\<close>

record 'b backend =
  raw_putchar :: "u8 \<Rightarrow> 'b terminal \<Rightarrow> 'b terminal res"
  clear :: "bool \<Rightarrow> 'b terminal \<Rightarrow> 'b terminal res"
  set_cursor_pos :: "u64 \<Rightarrow> u64 \<Rightarrow> 'b terminal \<Rightarrow> 'b terminal res"
  get_cursor_pos :: "'b terminal \<Rightarrow> u64 \<times> u64"
  set_text_fg :: "u64 \<Rightarrow> 'b terminal \<Rightarrow> 'b terminal res"
  set_text_bg :: "u64 \<Rightarrow> 'b terminal \<Rightarrow> 'b terminal res"
  set_text_fg_bright :: "u64 \<Rightarrow> 'b terminal \<Rightarrow> 'b terminal res"
  set_text_bg_bright :: "u64 \<Rightarrow> 'b terminal \<Rightarrow> 'b terminal res"
  set_text_fg_rgb :: "u32 \<Rightarrow> 'b terminal \<Rightarrow> 'b terminal res"
  set_text_bg_rgb :: "u32 \<Rightarrow> 'b terminal \<Rightarrow> 'b terminal res"
  set_text_fg_default :: "'b terminal \<Rightarrow> 'b terminal res"
  set_text_bg_default :: "'b terminal \<Rightarrow> 'b terminal res"
  set_text_fg_default_bright :: "'b terminal \<Rightarrow> 'b terminal res"
  set_text_bg_default_bright :: "'b terminal \<Rightarrow> 'b terminal res"
  move_character :: "u64 \<Rightarrow> u64 \<Rightarrow> u64 \<Rightarrow> u64 \<Rightarrow> 'b terminal \<Rightarrow> 'b terminal res"
  scroll :: "'b terminal \<Rightarrow> 'b terminal res"
  revscroll :: "'b terminal \<Rightarrow> 'b terminal res"
  swap_palette :: "'b terminal \<Rightarrow> 'b terminal res"
  save_state :: "'b terminal \<Rightarrow> 'b terminal res"
  restore_state :: "'b terminal \<Rightarrow> 'b terminal res"
  double_buffer_flush :: "'b terminal \<Rightarrow> 'b terminal res"

text \<open>Array accesses, undefined outside the array.\<close>

definition fetch :: "'a list \<Rightarrow> nat \<Rightarrow> 'a res" where
  "fetch xs i = (if i < length xs then Inr (xs ! i) else Inl Undefined)"

definition put :: "'a list \<Rightarrow> nat \<Rightarrow> 'a \<Rightarrow> 'a list res" where
  "put xs i v = (if i < length xs then Inr (xs[i := v]) else Inl Undefined)"

lemma fetch_Inr [simp]: "i < length xs \<Longrightarrow> fetch xs i = Inr (xs ! i)"
  by (simp add: fetch_def)

lemma put_Inr [simp]: "i < length xs \<Longrightarrow> put xs i v = Inr (xs[i := v])"
  by (simp add: put_def)

text \<open>A C loop that runs \<open>body\<close> \<open>n\<close> times and does not use its counter.\<close>

fun repeat :: "nat \<Rightarrow> ('s \<Rightarrow> 's res) \<Rightarrow> 's \<Rightarrow> 's res" where
  "repeat 0 body s = Inr s"
| "repeat (Suc n) body s = andthen (body s) (repeat n body)"

definition call_back :: "term_callback \<Rightarrow> 'b terminal \<Rightarrow> 'b terminal" where
  "call_back e t = (if callback t then t\<lparr>callbacks := callbacks t @ [e]\<rparr> else t)"

definition flanterm_context_reinit :: "'b terminal \<Rightarrow> 'b terminal" where
  "flanterm_context_reinit t =
     t\<lparr>tab_size := 8, autoflush := True, cursor_enabled := True, scroll_enabled := True, control_sequence := False,
       escape := False, osc := False, osc_escape := False, rrr := False, discard_next := False, bold := False,
       bg_bold := False, reverse_video := False, dec_private := False, insert_mode := False, unicode_remaining := 0,
       g_select := 0, charsets := [CHARSET_DEFAULT, CHARSET_DEC_SPECIAL], current_charset := 0, escape_offset := 0,
       esc_values_i := 0, saved_cursor_x := 0, saved_cursor_y := 0, current_primary := -1, current_bg := -1,
       scroll_top_margin := 0, scroll_bottom_margin := rows t, oob_output := FLANTERM_OOB_OUTPUT_ONLCR\<rparr>"

section \<open>Colours and attributes\<close>

text \<open>
  The parameters of one \<open>SGR\<close> sequence in their order. Each of the code's branches that assigns the
  colour of the text has a definition; \<open>set_fg\<close> and \<open>set_bg\<close> are the code's labels.
\<close>

definition sgr_reset :: "'b backend \<Rightarrow> 'b terminal \<Rightarrow> 'b terminal res" where
  "sgr_reset B t =
     andthen (if reverse_video t then swap_palette B (t\<lparr>reverse_video := False\<rparr>) else Inr t) (\<lambda>t.
     andthen (set_text_bg_default B (t\<lparr>bold := False, bg_bold := False, current_primary := -1, current_bg := -1\<rparr>))
       (set_text_fg_default B))"

definition sgr_bold :: "'b backend \<Rightarrow> 'b terminal \<Rightarrow> 'b terminal res" where
  "sgr_bold B t0 =
     (let t = t0\<lparr>bold := True\<rparr> in
      if current_primary t \<noteq> -1 then
        (if \<not> reverse_video t then set_text_fg_bright B (current_primary t) t
         else set_text_bg_bright B (current_primary t) t)
      else if \<not> reverse_video t then set_text_fg_default_bright B t else set_text_bg_default_bright B t)"

definition sgr_bg_bold :: "'b backend \<Rightarrow> 'b terminal \<Rightarrow> 'b terminal res" where
  "sgr_bg_bold B t0 =
     (let t = t0\<lparr>bg_bold := True\<rparr> in
      if current_bg t \<noteq> -1 then
        (if \<not> reverse_video t then set_text_bg_bright B (current_bg t) t
         else set_text_fg_bright B (current_bg t) t)
      else if \<not> reverse_video t then set_text_bg_default_bright B t else set_text_fg_default_bright B t)"

definition sgr_not_bold :: "'b backend \<Rightarrow> 'b terminal \<Rightarrow> 'b terminal res" where
  "sgr_not_bold B t0 =
     (let t = t0\<lparr>bold := False\<rparr> in
      if current_primary t \<noteq> -1 then
        (if \<not> reverse_video t then set_text_fg B (current_primary t) t
         else set_text_bg B (current_primary t) t)
      else if \<not> reverse_video t then set_text_fg_default B t else set_text_bg_default B t)"

definition sgr_bg_not_bold :: "'b backend \<Rightarrow> 'b terminal \<Rightarrow> 'b terminal res" where
  "sgr_bg_not_bold B t0 =
     (let t = t0\<lparr>bg_bold := False\<rparr> in
      if current_bg t \<noteq> -1 then
        (if \<not> reverse_video t then set_text_bg B (current_bg t) t
         else set_text_fg B (current_bg t) t)
      else if \<not> reverse_video t then set_text_bg_default B t else set_text_fg_default B t)"

definition set_fg :: "'b backend \<Rightarrow> u64 \<Rightarrow> 'b terminal \<Rightarrow> 'b terminal res" where
  "set_fg B n t =
     (if (bold t \<and> \<not> reverse_video t) \<or> (bg_bold t \<and> reverse_video t) then set_text_fg_bright B n t
      else set_text_fg B n t)"

definition set_bg :: "'b backend \<Rightarrow> u64 \<Rightarrow> 'b terminal \<Rightarrow> 'b terminal res" where
  "set_bg B n t =
     (if (bold t \<and> reverse_video t) \<or> (bg_bold t \<and> \<not> reverse_video t) then set_text_bg_bright B n t
      else set_text_bg B n t)"

definition sgr_primary :: "'b backend \<Rightarrow> u64 \<Rightarrow> 'b terminal \<Rightarrow> 'b terminal res" where
  "sgr_primary B n t0 =
     (let t = t0\<lparr>current_primary := n\<rparr> in if reverse_video t then set_bg B n t else set_fg B n t)"

definition sgr_background :: "'b backend \<Rightarrow> u64 \<Rightarrow> 'b terminal \<Rightarrow> 'b terminal res" where
  "sgr_background B n t0 =
     (let t = t0\<lparr>current_bg := n\<rparr> in if reverse_video t then set_fg B n t else set_bg B n t)"

definition sgr_primary_bright :: "'b backend \<Rightarrow> u64 \<Rightarrow> 'b terminal \<Rightarrow> 'b terminal res" where
  "sgr_primary_bright B n t0 =
     (let t = t0\<lparr>current_primary := n\<rparr> in
      if reverse_video t then set_text_bg_bright B n t else set_text_fg_bright B n t)"

definition sgr_background_bright :: "'b backend \<Rightarrow> u64 \<Rightarrow> 'b terminal \<Rightarrow> 'b terminal res" where
  "sgr_background_bright B n t0 =
     (let t = t0\<lparr>current_bg := n\<rparr> in
      if reverse_video t then set_text_fg_bright B n t else set_text_bg_bright B n t)"

definition sgr_default_fg :: "'b backend \<Rightarrow> 'b terminal \<Rightarrow> 'b terminal res" where
  "sgr_default_fg B t0 =
     (let t = t0\<lparr>current_primary := -1\<rparr> in
      andthen (if reverse_video t then swap_palette B t else Inr t) (\<lambda>t.
      andthen (if \<not> bold t then set_text_fg_default B t else set_text_fg_default_bright B t) (\<lambda>t.
      if reverse_video t then swap_palette B t else Inr t)))"

definition sgr_default_bg :: "'b backend \<Rightarrow> 'b terminal \<Rightarrow> 'b terminal res" where
  "sgr_default_bg B t0 =
     (let t = t0\<lparr>current_bg := -1\<rparr> in
      andthen (if reverse_video t then swap_palette B t else Inr t) (\<lambda>t.
      andthen (if \<not> bg_bold t then set_text_bg_default B t else set_text_bg_default_bright B t) (\<lambda>t.
      if reverse_video t then swap_palette B t else Inr t)))"

definition sgr_reverse :: "'b backend \<Rightarrow> bool \<Rightarrow> 'b terminal \<Rightarrow> 'b terminal res" where
  "sgr_reverse B on t =
     (if reverse_video t \<noteq> on then swap_palette B (t\<lparr>reverse_video := on\<rparr>) else Inr t)"

text \<open>The colours of the 256-colour palette.\<close>

definition sgr_256 :: "'b backend \<Rightarrow> bool \<Rightarrow> u32 \<Rightarrow> 'b terminal \<Rightarrow> 'b terminal res" where
  "sgr_256 B fg col t =
     (if col < 8 then (if fg then set_text_fg B else set_text_bg B) (ucast col) t
      else if col < 16 then (if fg then set_text_fg_bright B else set_text_bg_bright B) (ucast (col - 8)) t
      else if col < 256 then
        andthen (fetch col256 (unat (col - 16))) (\<lambda>rgb. (if fg then set_text_fg_rgb B else set_text_bg_rgb B) rgb t)
      else Inr t)"

text \<open>A parameter that stands alone.\<close>

definition sgr_single :: "'b backend \<Rightarrow> u32 \<Rightarrow> 'b terminal \<Rightarrow> 'b terminal res" where
  "sgr_single B v t =
     (if v = 0 then sgr_reset B t
      else if v = 1 then sgr_bold B t
      else if v = 5 then sgr_bg_bold B t
      else if v = 22 then sgr_not_bold B t
      else if v = 25 then sgr_bg_not_bold B t
      else if 30 \<le> v \<and> v \<le> 37 then sgr_primary B (ucast v - 30) t
      else if 40 \<le> v \<and> v \<le> 47 then sgr_background B (ucast v - 40) t
      else if 90 \<le> v \<and> v \<le> 97 then sgr_primary_bright B (ucast v - 90) t
      else if 100 \<le> v \<and> v \<le> 107 then sgr_background_bright B (ucast v - 100) t
      else if v = 39 then sgr_default_fg B t
      else if v = 49 then sgr_default_bg B t
      else if v = 7 then sgr_reverse B True t
      else if v = 27 then sgr_reverse B False t
      else Inr t)"

text \<open>The loop over the parameters; 38 and 48 take the parameters that follow them.\<close>

fun sgr_values :: "'b backend \<Rightarrow> u32 list \<Rightarrow> 'b terminal \<Rightarrow> 'b terminal res" where
  "sgr_values B [] t = Inr t"
| "sgr_values B (v # vs) t =
     (if v = 38 \<or> v = 48 then
        (case vs of
           [] \<Rightarrow> Inr t
         | mode # ws \<Rightarrow>
             if mode = 2 then
               (case ws of
                  r # g # b # rest \<Rightarrow>
                    andthen ((if v = 38 then set_text_fg_rgb B else set_text_bg_rgb B) (push_bit 16 r OR push_bit 8 g OR b) t)
                      (sgr_values B rest)
                | _ \<Rightarrow> Inr t)
             else if mode = 5 then
               (case ws of
                  col # rest \<Rightarrow> andthen (sgr_256 B (v = 38) col t) (sgr_values B rest)
                | [] \<Rightarrow> Inr t)
             else sgr_values B ws t)
      else andthen (sgr_single B v t) (sgr_values B vs))"

definition sgr :: "'b backend \<Rightarrow> 'b terminal \<Rightarrow> 'b terminal res" where
  "sgr B t =
     (if esc_values_i t = 0 then sgr_reset B t
      else sgr_values B (take (unat (esc_values_i t)) (esc_values t)) t)"

section \<open>Escape and control sequences\<close>

definition dec_private_parse :: "u8 \<Rightarrow> 'b terminal \<Rightarrow> 'b terminal" where
  "dec_private_parse c t0 =
     (let t = t0\<lparr>dec_private := False\<rparr> in
      if esc_values_i t = 0 then t
      else if c \<noteq> 0x68 \<and> c \<noteq> 0x6c then t
      else if esc_values t ! 0 = 25 then t\<lparr>cursor_enabled := (c = 0x68)\<rparr>
      else call_back (CB_DEC (esc_values_i t) (esc_values t) c) t)"

definition linux_private_parse :: "'b terminal \<Rightarrow> 'b terminal" where
  "linux_private_parse t =
     (if esc_values_i t = 0 then t else call_back (CB_LINUX (esc_values_i t) (esc_values t)) t)"

definition mode_toggle :: "u8 \<Rightarrow> 'b terminal \<Rightarrow> 'b terminal" where
  "mode_toggle c t =
     (if esc_values_i t = 0 then t
      else if c \<noteq> 0x68 \<and> c \<noteq> 0x6c then t
      else if esc_values t ! 0 = 4 then t\<lparr>insert_mode := (c = 0x68)\<rparr>
      else call_back (CB_MODE (esc_values_i t) (esc_values t) c) t)"

definition osc_parse :: "u8 \<Rightarrow> 'b terminal \<Rightarrow> 'b terminal" where
  "osc_parse c t =
     (if osc_escape t \<and> c = 0x5c then t\<lparr>osc_escape := False, osc := False, escape := False\<rparr>
      else if c = 0x1b then t\<lparr>osc_escape := True\<rparr>
      else if c = 7 then t\<lparr>osc_escape := False, osc := False, escape := False\<rparr>
      else t\<lparr>osc_escape := False\<rparr>)"

text \<open>The cases of \<open>control_sequence_parse\<close>; \<open>n\<close> is \<open>esc_values[0]\<close>, \<open>(x, y)\<close> the cursor.\<close>

definition set_value :: "nat \<Rightarrow> u32 \<Rightarrow> 'b terminal \<Rightarrow> 'b terminal" where
  "set_value i v t = t\<lparr>esc_values := (esc_values t)[i := v]\<rparr>"

definition csi_up :: "'b backend \<Rightarrow> u64 \<Rightarrow> u64 \<Rightarrow> 'b terminal \<Rightarrow> 'b terminal res" where
  "csi_up B x y t0 =
     (let t = (if y < ucast (esc_values t0 ! 0) then set_value 0 (ucast y) t0 else t0);
          dest_y = y - ucast (esc_values t ! 0);
          will_be_in_scroll_region =
            (dest_y \<le> scroll_top_margin t \<and> scroll_top_margin t \<le> y) \<or>
            (dest_y \<le> scroll_bottom_margin t \<and> scroll_bottom_margin t \<le> y);
          dest_y = (if will_be_in_scroll_region \<and> dest_y < scroll_top_margin t then scroll_top_margin t else dest_y)
      in set_cursor_pos B x dest_y t)"

definition csi_down :: "'b backend \<Rightarrow> u64 \<Rightarrow> u64 \<Rightarrow> 'b terminal \<Rightarrow> 'b terminal res" where
  "csi_down B x y t0 =
     (let t = (if rows t0 - 1 < y + ucast (esc_values t0 ! 0) then set_value 0 (ucast ((rows t0 - 1) - y)) t0 else t0);
          dest_y = y + ucast (esc_values t ! 0);
          will_be_in_scroll_region =
            (y \<le> scroll_top_margin t \<and> scroll_top_margin t \<le> dest_y) \<or>
            (y \<le> scroll_bottom_margin t \<and> scroll_bottom_margin t \<le> dest_y);
          dest_y = (if will_be_in_scroll_region \<and> scroll_bottom_margin t \<le> dest_y then scroll_bottom_margin t - 1
                    else dest_y)
      in set_cursor_pos B x dest_y t)"

definition csi_right :: "'b backend \<Rightarrow> u64 \<Rightarrow> u64 \<Rightarrow> 'b terminal \<Rightarrow> 'b terminal res" where
  "csi_right B x y t0 =
     (let t = (if cols t0 - 1 < x + ucast (esc_values t0 ! 0) then set_value 0 (ucast ((cols t0 - 1) - x)) t0 else t0)
      in set_cursor_pos B (x + ucast (esc_values t ! 0)) y t)"

definition csi_left :: "'b backend \<Rightarrow> u64 \<Rightarrow> u64 \<Rightarrow> 'b terminal \<Rightarrow> 'b terminal res" where
  "csi_left B x y t0 =
     (let t = (if x < ucast (esc_values t0 ! 0) then set_value 0 (ucast x) t0 else t0)
      in set_cursor_pos B (x - ucast (esc_values t ! 0)) y t)"

definition csi_row :: "'b backend \<Rightarrow> u64 \<Rightarrow> 'b terminal \<Rightarrow> 'b terminal res" where
  "csi_row B x t0 =
     (let t1 = set_value 0 (esc_values t0 ! 0 - 1) t0;
          t = (if rows t1 \<le> ucast (esc_values t1 ! 0) then set_value 0 (ucast (rows t1 - 1)) t1 else t1)
      in set_cursor_pos B x (ucast (esc_values t ! 0)) t)"

definition csi_column :: "'b backend \<Rightarrow> u64 \<Rightarrow> 'b terminal \<Rightarrow> 'b terminal res" where
  "csi_column B y t0 =
     (let t1 = set_value 0 (esc_values t0 ! 0 - 1) t0;
          t = (if cols t1 \<le> ucast (esc_values t1 ! 0) then set_value 0 (ucast (cols t1 - 1)) t1 else t1)
      in set_cursor_pos B (ucast (esc_values t ! 0)) y t)"

definition csi_position :: "'b backend \<Rightarrow> 'b terminal \<Rightarrow> 'b terminal res" where
  "csi_position B t0 =
     (let t1 = (if esc_values t0 ! 0 \<noteq> 0 then set_value 0 (esc_values t0 ! 0 - 1) t0 else t0);
          t2 = (if esc_values t1 ! 1 \<noteq> 0 then set_value 1 (esc_values t1 ! 1 - 1) t1 else t1);
          t3 = (if cols t2 \<le> ucast (esc_values t2 ! 1) then set_value 1 (ucast (cols t2 - 1)) t2 else t2);
          t = (if rows t3 \<le> ucast (esc_values t3 ! 0) then set_value 0 (ucast (rows t3 - 1)) t3 else t3)
      in set_cursor_pos B (ucast (esc_values t ! 1)) (ucast (esc_values t ! 0)) t)"

text \<open>\<open>count\<close>: a parameter cut to the number of rows or columns.\<close>

definition cut :: "u32 \<Rightarrow> u64 \<Rightarrow> nat" where
  "cut n limit = (if limit < ucast n then unat limit else unat n)"

definition csi_delete_lines :: "'b backend \<Rightarrow> 'b terminal \<Rightarrow> 'b terminal res" where
  "csi_delete_lines B t = repeat (cut (esc_values t ! 0) (rows t)) (scroll B) t"

definition csi_insert_lines :: "'b backend \<Rightarrow> u64 \<Rightarrow> 'b terminal \<Rightarrow> 'b terminal res" where
  "csi_insert_lines B y t0 =
     (let t = t0\<lparr>scroll_top_margin := y\<rparr> in
      andthen (repeat (cut (esc_values t ! 0) (rows t)) (revscroll B) t) (\<lambda>t.
        Inr (t\<lparr>scroll_top_margin := scroll_top_margin t0\<rparr>)))"

definition csi_report :: "u64 \<Rightarrow> u64 \<Rightarrow> 'b terminal \<Rightarrow> 'b terminal" where
  "csi_report x y t =
     (if esc_values t ! 0 = 5 then call_back CB_STATUS_REPORT t
      else if esc_values t ! 0 = 6 then call_back (CB_POS_REPORT (x + 1) (y + 1)) t
      else t)"

abbreviation (input) blank :: "'b backend \<Rightarrow> 'b terminal \<Rightarrow> 'b terminal res" where
  "blank B \<equiv> raw_putchar B 0x20"

text \<open>
  The two nested loops of \<open>ESC [ 1 J\<close>: \<open>raw_putchar\<close> for every column of the rows in turn, until
  the loop reaches the old position. \<open>yc\<close> and \<open>xc\<close> are the loops' counters, as numbers.
\<close>

function erase_to :: "'b backend \<Rightarrow> u64 \<Rightarrow> u64 \<Rightarrow> nat \<Rightarrow> nat \<Rightarrow> nat \<Rightarrow> nat \<Rightarrow> 'b terminal \<Rightarrow> 'b terminal res" where
  "erase_to B x y R C yc xc t =
     (if yc < R then
        (if xc < C then
           andthen (blank B t) (\<lambda>t.
             if xc = unat x \<and> yc = unat y then set_cursor_pos B x y t
             else erase_to B x y R C yc (Suc xc) t)
         else erase_to B x y R C (Suc yc) 0 t)
      else Inr t)"
  by pat_completeness auto
termination
  by (relation "measures [\<lambda>(B, x, y, R, C, yc, xc, t). R - yc, \<lambda>(B, x, y, R, C, yc, xc, t). C - xc]") auto

declare erase_to.simps [simp del]

definition csi_erase_display :: "'b backend \<Rightarrow> u64 \<Rightarrow> u64 \<Rightarrow> 'b terminal \<Rightarrow> 'b terminal res" where
  "csi_erase_display B x y t =
     (if esc_values t ! 0 = 0 then
        (let rows_remaining = rows t - (y + 1);
             cols_diff = cols t - (x + 1);
             to_clear = rows_remaining * cols t + cols_diff + 1
         in andthen (repeat (unat to_clear) (blank B) t) (set_cursor_pos B x y))
      else if esc_values t ! 0 = 1 then
        andthen (set_cursor_pos B 0 0 t) (\<lambda>t. erase_to B x y (unat (rows t)) (unat (cols t)) 0 0 t)
      else if esc_values t ! 0 = 2 \<or> esc_values t ! 0 = 3 then clear B False t
      else Inr t)"

text \<open>
  The loops that run from the last column down to the cursor. The counter is a number that starts at
  \<open>cols - 1\<close>; the loop leaves at \<open>i == x\<close>, so a cursor to the right of it would make it run on
  through all values of a machine word, which is written \<open>Diverges\<close>.
\<close>

fun down_to :: "nat \<Rightarrow> nat \<Rightarrow> (nat \<Rightarrow> 's \<Rightarrow> 's res) \<Rightarrow> 's \<Rightarrow> 's res" where
  "down_to x 0 body s = (if x = 0 then body 0 s else Inl Diverges)"
| "down_to x (Suc i) body s = andthen (body (Suc i) s) (\<lambda>s. if Suc i = x then Inr s else down_to x i body s)"

definition csi_insert_characters :: "'b backend \<Rightarrow> u64 \<Rightarrow> u64 \<Rightarrow> 'b terminal \<Rightarrow> 'b terminal res" where
  "csi_insert_characters B x y t =
     andthen (down_to (unat x) (unat (cols t - 1)) (\<lambda>i t.
        andthen (move_character B (of_nat i + ucast (esc_values t ! 0)) y (of_nat i) y t) (\<lambda>t.
        andthen (set_cursor_pos B (of_nat i) y t) (blank B))) t)
       (set_cursor_pos B x y)"

definition csi_erase_characters :: "'b backend \<Rightarrow> u64 \<Rightarrow> u64 \<Rightarrow> 'b terminal \<Rightarrow> 'b terminal res" where
  "csi_erase_characters B x y t =
     andthen (repeat (cut (esc_values t ! 0) (cols t)) (blank B) t) (set_cursor_pos B x y)"

definition csi_delete_characters :: "'b backend \<Rightarrow> u64 \<Rightarrow> u64 \<Rightarrow> 'b terminal \<Rightarrow> 'b terminal res" where
  "csi_delete_characters B x y t =
     (let first = unat (x + ucast (esc_values t ! 0)) in
      andthen (for_upto first (unat (cols t) - first) (\<lambda>i t.
          move_character B (of_nat i - ucast (esc_values t ! 0)) y (of_nat i) y t) t) (\<lambda>t.
      andthen (set_cursor_pos B (cols t - ucast (esc_values t ! 0)) y t)
        (csi_erase_characters B x y)))"

definition csi_erase_line :: "'b backend \<Rightarrow> u64 \<Rightarrow> u64 \<Rightarrow> 'b terminal \<Rightarrow> 'b terminal res" where
  "csi_erase_line B x y t =
     (if esc_values t ! 0 = 0 then
        andthen (repeat (unat (cols t) - unat x) (blank B) t) (set_cursor_pos B x y)
      else if esc_values t ! 0 = 1 then
        andthen (set_cursor_pos B 0 y t) (repeat (unat x) (blank B))
      else if esc_values t ! 0 = 2 then
        andthen (set_cursor_pos B 0 y t) (\<lambda>t.
        andthen (repeat (unat (cols t)) (blank B) t) (set_cursor_pos B x y))
      else Inr t)"

definition csi_margins :: "'b backend \<Rightarrow> 'b terminal \<Rightarrow> 'b terminal res" where
  "csi_margins B t0 =
     (let t1 = (if esc_values t0 ! 0 = 0 then set_value 0 1 t0 else t0);
          t2 = (if esc_values t1 ! 1 = 0 then set_value 1 1 t1 else t1);
          top = (if 0 < esc_values_i t2 then ucast (esc_values t2 ! 0 - 1) else 0);
          bottom = (if 1 < esc_values_i t2 then ucast (esc_values t2 ! 1) else rows t2);
          t = (if rows t2 \<le> top \<or> rows t2 < bottom \<or> bottom - 1 \<le> top
               then t2\<lparr>scroll_top_margin := 0, scroll_bottom_margin := rows t2\<rparr>
               else t2\<lparr>scroll_top_margin := top, scroll_bottom_margin := bottom\<rparr>)
      in set_cursor_pos B 0 0 t)"

definition csi_save_cursor :: "'b backend \<Rightarrow> 'b terminal \<Rightarrow> 'b terminal" where
  "csi_save_cursor B t =
     t\<lparr>saved_cursor_x := fst (get_cursor_pos B t), saved_cursor_y := snd (get_cursor_pos B t)\<rparr>"

text \<open>The \<open>switch\<close> over the final byte; the letters are those of the comments.\<close>

definition csi_command :: "'b backend \<Rightarrow> u8 \<Rightarrow> u64 \<Rightarrow> u64 \<Rightarrow> 'b terminal \<Rightarrow> 'b terminal res" where
  "csi_command B c x y t =
     (if c = 0x46 then csi_up B 0 y t
      else if c = 0x41 then csi_up B x y t
      else if c = 0x45 then csi_down B 0 y t
      else if c = 0x65 \<or> c = 0x42 then csi_down B x y t
      else if c = 0x61 \<or> c = 0x43 then csi_right B x y t
      else if c = 0x44 then csi_left B x y t
      else if c = 0x63 then Inr (call_back CB_PRIVATE_ID t)
      else if c = 0x64 then csi_row B x t
      else if c = 0x47 \<or> c = 0x60 then csi_column B y t
      else if c = 0x48 \<or> c = 0x66 then csi_position B t
      else if c = 0x4d then csi_delete_lines B t
      else if c = 0x4c then csi_insert_lines B y t
      else if c = 0x6e then Inr (csi_report x y t)
      else if c = 0x71 then Inr (call_back (CB_KBD_LEDS (esc_values t ! 0)) t)
      else if c = 0x4a then csi_erase_display B x y t
      else if c = 0x40 then csi_insert_characters B x y t
      else if c = 0x50 then csi_delete_characters B x y t
      else if c = 0x58 then csi_erase_characters B x y t
      else if c = 0x6d then sgr B t
      else if c = 0x73 then Inr (csi_save_cursor B t)
      else if c = 0x75 then set_cursor_pos B (saved_cursor_x t) (saved_cursor_y t) t
      else if c = 0x4b then csi_erase_line B x y t
      else if c = 0x72 then csi_margins B t
      else if c = 0x6c \<or> c = 0x68 then Inr (mode_toggle c t)
      else if c = 0x5d then Inr (linux_private_parse t)
      else Inr t)"

text \<open>The missing parameters get the default of the final byte.\<close>

definition fill_values :: "u8 \<Rightarrow> 'b terminal \<Rightarrow> 'b terminal" where
  "fill_values c t =
     (let esc_default = (if c = 0x4a \<or> c = 0x4b \<or> c = 0x71 then 0 else 1); n = unat (esc_values_i t)
      in t\<lparr>esc_values := take n (esc_values t) @ replicate (FLANTERM_MAX_ESC_VALUES - n) esc_default\<rparr>)"

definition leave_sequence :: "'b terminal \<Rightarrow> 'b terminal" where
  "leave_sequence t = t\<lparr>control_sequence := False, escape := False\<rparr>"

text \<open>The part after the parameters: the final byte \<open>c\<close>.\<close>

definition csi_final :: "'b backend \<Rightarrow> u8 \<Rightarrow> 'b terminal \<Rightarrow> 'b terminal res" where
  "csi_final B c t0 =
     (let t = fill_values c t0 in
      if dec_private t then Inr (leave_sequence (dec_private_parse c t))
      else
        (let r = scroll_enabled t; t = t\<lparr>scroll_enabled := False\<rparr>; (x, y) = get_cursor_pos B t
         in andthen (csi_command B c x y t) (\<lambda>t. Inr (leave_sequence (t\<lparr>scroll_enabled := r\<rparr>)))))"

definition csi_digit :: "u8 \<Rightarrow> 'b terminal \<Rightarrow> 'b terminal res" where
  "csi_digit c t =
     (if esc_values_i t = of_nat FLANTERM_MAX_ESC_VALUES then Inr t
      else
        andthen (fetch (esc_values t) (unat (esc_values_i t))) (\<lambda>v.
        andthen (put (esc_values t) (unat (esc_values_i t)) (v * 10 + (ucast c - 0x30))) (\<lambda>vs.
        Inr (t\<lparr>rrr := True, esc_values := vs\<rparr>))))"

definition control_sequence_parse :: "'b backend \<Rightarrow> u8 \<Rightarrow> 'b terminal \<Rightarrow> 'b terminal res" where
  "control_sequence_parse B c t =
     (if escape_offset t = 2 \<and> c = 0x5b then Inr (leave_sequence (t\<lparr>discard_next := True\<rparr>))
      else if escape_offset t = 2 \<and> c = 0x3f then Inr (t\<lparr>dec_private := True\<rparr>)
      else if 0x30 \<le> c \<and> c \<le> 0x39 then csi_digit c t
      else if rrr t then
        (let t = t\<lparr>esc_values_i := esc_values_i t + 1, rrr := False\<rparr>
         in if c = 0x3b then Inr t else csi_final B c t)
      else if c = 0x3b then
        (if esc_values_i t = of_nat FLANTERM_MAX_ESC_VALUES then Inr t
         else
           andthen (put (esc_values t) (unat (esc_values_i t)) 0) (\<lambda>vs.
           Inr (t\<lparr>esc_values := vs, esc_values_i := esc_values_i t + 1\<rparr>)))
      else csi_final B c t)"

definition restore_term_state :: "'b backend \<Rightarrow> 'b terminal \<Rightarrow> 'b terminal res" where
  "restore_term_state B t =
     restore_state B (t\<lparr>bold := saved_state_bold t, bg_bold := saved_state_bg_bold t,
       reverse_video := saved_state_reverse_video t, current_charset := saved_state_current_charset t,
       current_primary := saved_state_current_primary t, current_bg := saved_state_current_bg t\<rparr>)"

definition save_term_state :: "'b backend \<Rightarrow> 'b terminal \<Rightarrow> 'b terminal res" where
  "save_term_state B t =
     andthen (save_state B t) (\<lambda>t.
       Inr (t\<lparr>saved_state_bold := bold t, saved_state_bg_bold := bg_bold t,
         saved_state_reverse_video := reverse_video t, saved_state_current_charset := current_charset t,
         saved_state_current_primary := current_primary t, saved_state_current_bg := current_bg t\<rparr>))"

text \<open>\<open>ESC D\<close>, \<open>ESC E\<close> and \<open>ESC M\<close>.\<close>

definition esc_index :: "'b backend \<Rightarrow> u64 \<Rightarrow> u64 \<Rightarrow> 'b terminal \<Rightarrow> 'b terminal res" where
  "esc_index B x y t =
     (if y = scroll_bottom_margin t - 1 then andthen (scroll B t) (set_cursor_pos B x y)
      else set_cursor_pos B x (y + 1) t)"

definition esc_reverse_index :: "'b backend \<Rightarrow> u64 \<Rightarrow> 'b terminal \<Rightarrow> 'b terminal res" where
  "esc_reverse_index B y t =
     (if y = scroll_top_margin t then andthen (revscroll B t) (set_cursor_pos B 0 y)
      else set_cursor_pos B 0 (y - 1) t)"

definition escape_command :: "'b backend \<Rightarrow> u8 \<Rightarrow> u64 \<Rightarrow> u64 \<Rightarrow> 'b terminal \<Rightarrow> 'b terminal res" where
  "escape_command B c x y t =
     (if c = 0x37 then save_term_state B t
      else if c = 0x38 then restore_term_state B t
      else if c = 0x63 then clear B True (flanterm_context_reinit t)
      else if c = 0x44 then esc_index B x y t
      else if c = 0x45 then esc_index B 0 y t
      else if c = 0x4d then esc_reverse_index B y t
      else if c = 0x5a then Inr (call_back CB_PRIVATE_ID t)
      else if c = 0x28 \<or> c = 0x29 then Inr (t\<lparr>g_select := c - 0x27\<rparr>)
      else Inr t)"

definition escape_parse :: "'b backend \<Rightarrow> u8 \<Rightarrow> 'b terminal \<Rightarrow> 'b terminal res" where
  "escape_parse B c t0 =
     (let t = t0\<lparr>escape_offset := escape_offset t0 + 1\<rparr> in
      if osc t then Inr (osc_parse c t)
      else if control_sequence t then control_sequence_parse B c t
      else
        (let (x, y) = get_cursor_pos B t in
         if c = 0x5d then Inr (t\<lparr>osc_escape := False, osc := True\<rparr>)
         else if c = 0x5b then
           Inr (t\<lparr>esc_values := replicate FLANTERM_MAX_ESC_VALUES 0, esc_values_i := 0, rrr := False,
             control_sequence := True\<rparr>)
         else andthen (escape_command B c x y t) (\<lambda>t. Inr (t\<lparr>escape := False\<rparr>))))"

section \<open>Characters\<close>

definition dec_special_print :: "'b backend \<Rightarrow> u8 \<Rightarrow> 'b terminal \<Rightarrow> (bool \<times> 'b terminal) res" where
  "dec_special_print B c t =
     (case dec_special_glyph c of
        Some g \<Rightarrow> andthen (raw_putchar B g t) (\<lambda>t. Inr (True, t))
      | None \<Rightarrow> Inr (False, t))"

text \<open>The end of a multi-byte character.\<close>

definition put_code_point :: "'b backend \<Rightarrow> u64 \<Rightarrow> 'b terminal \<Rightarrow> 'b terminal res" where
  "put_code_point B cp t =
     (let cc = unicode_to_cp437 cp in
      if cc = -1 then
        (let replacement_width = nat (mk_wcwidth (ucast cp)) in
         andthen (if 0 < replacement_width then raw_putchar B 0xfe t else Inr t)
           (repeat (replacement_width - 1) (blank B)))
      else raw_putchar B (of_int cc) t)"

definition unicode_continue :: "'b backend \<Rightarrow> u8 \<Rightarrow> 'b terminal \<Rightarrow> 'b terminal res" where
  "unicode_continue B c t0 =
     (let n = unicode_remaining t0 - 1;
          t = t0\<lparr>unicode_remaining := n, code_point := code_point t0 OR push_bit (6 * unat n) (ucast (c AND 0x3f))\<rparr>
      in if n \<noteq> 0 then Inr t else put_code_point B (code_point t) t)"

definition unicode_start :: "u8 \<Rightarrow> 'b terminal \<Rightarrow> 'b terminal" where
  "unicode_start c t =
     (if c \<le> 0xdf then t\<lparr>unicode_remaining := 1, code_point := push_bit 6 (ucast (c AND 0x1f))\<rparr>
      else if c \<le> 0xef then t\<lparr>unicode_remaining := 2, code_point := push_bit 12 (ucast (c AND 0x0f))\<rparr>
      else t\<lparr>unicode_remaining := 3, code_point := push_bit 18 (ucast (c AND 0x07))\<rparr>)"

text \<open>The byte after \<open>ESC (\<close> or \<open>ESC )\<close>.\<close>

definition select_charset :: "u8 \<Rightarrow> 'b terminal \<Rightarrow> 'b terminal res" where
  "select_charset c t =
     (let g = g_select t - 1 in
      andthen
        (if c = 0x42 then put (charsets t) (unat g) CHARSET_DEFAULT
         else if c = 0x30 then put (charsets t) (unat g) CHARSET_DEC_SPECIAL
         else Inr (charsets t)) (\<lambda>cs.
      Inr (t\<lparr>charsets := cs, g_select := 0\<rparr>)))"

definition put_tab :: "'b backend \<Rightarrow> u64 \<Rightarrow> u64 \<Rightarrow> 'b terminal \<Rightarrow> 'b terminal res" where
  "put_tab B x y t =
     (if cols t \<le> x div tab_size t + 1 then set_cursor_pos B (cols t - 1) y t
      else set_cursor_pos B ((x div tab_size t + 1) * tab_size t) y t)"

definition put_newline :: "'b backend \<Rightarrow> u64 \<Rightarrow> u64 \<Rightarrow> 'b terminal \<Rightarrow> 'b terminal res" where
  "put_newline B x y t =
     (let column = (\<lambda>t. if oob_output t AND FLANTERM_OOB_OUTPUT_ONLCR \<noteq> 0 then 0 else x) in
      if y = scroll_bottom_margin t - 1 then andthen (scroll B t) (\<lambda>t. set_cursor_pos B (column t) y t)
      else set_cursor_pos B (column t) (y + 1) t)"

text \<open>The printable characters, after the insertion of a blank in insert mode.\<close>

definition put_printable :: "'b backend \<Rightarrow> u8 \<Rightarrow> u64 \<Rightarrow> u64 \<Rightarrow> 'b terminal \<Rightarrow> 'b terminal res" where
  "put_printable B c x y t =
     andthen
       (if insert_mode t then
          down_to (unat x) (unat (cols t - 1)) (\<lambda>i. move_character B (of_nat i + 1) y (of_nat i) y) t
        else Inr t) (\<lambda>t.
     andthen (fetch (charsets t) (unat (current_charset t))) (\<lambda>cs.
     andthen (if cs = CHARSET_DEC_SPECIAL then dec_special_print B c t else Inr (False, t)) (\<lambda>(printed, t).
     if printed then Inr t
     else if 0x20 \<le> c \<and> c \<le> 0x7e then raw_putchar B c t
     else raw_putchar B 0xfe t)))"

definition put_plain :: "'b backend \<Rightarrow> u8 \<Rightarrow> 'b terminal \<Rightarrow> 'b terminal res" where
  "put_plain B c t =
     (let (x, y) = get_cursor_pos B t in
      if c = 0 \<or> c = 0x7f then Inr t
      else if c = 0x1b then Inr (t\<lparr>escape_offset := 0, escape := True\<rparr>)
      else if c = 9 then put_tab B x y t
      else if c = 0xb \<or> c = 0xc \<or> c = 0xa then put_newline B x y t
      else if c = 8 then set_cursor_pos B (x - 1) y t
      else if c = 0xd then set_cursor_pos B 0 y t
      else if c = 7 then Inr (call_back CB_BELL t)
      else if c = 14 then Inr (t\<lparr>current_charset := 1\<rparr>)
      else if c = 15 then Inr (t\<lparr>current_charset := 0\<rparr>)
      else put_printable B c x y t)"

text \<open>From the label \<open>unicode_error\<close> on.\<close>

definition put_byte_fresh :: "'b backend \<Rightarrow> u8 \<Rightarrow> 'b terminal \<Rightarrow> 'b terminal res" where
  "put_byte_fresh B c t =
     (if 0xc0 \<le> c \<and> c \<le> 0xf7 then Inr (unicode_start c t)
      else if escape t then escape_parse B c t
      else if g_select t \<noteq> 0 then select_charset c t
      else put_plain B c t)"

definition flanterm_putchar :: "'b backend \<Rightarrow> u8 \<Rightarrow> 'b terminal \<Rightarrow> 'b terminal res" where
  "flanterm_putchar B c t =
     (if discard_next t \<or> c = 0x18 \<or> c = 0x1a then
        Inr (t\<lparr>discard_next := False, escape := False, control_sequence := False, unicode_remaining := 0,
          osc := False, osc_escape := False, g_select := 0\<rparr>)
      else if unicode_remaining t \<noteq> 0 then
        (if c AND 0xc0 \<noteq> 0x80 then put_byte_fresh B c (t\<lparr>unicode_remaining := 0\<rparr>)
         else unicode_continue B c t)
      else put_byte_fresh B c t)"

fun putchars :: "'b backend \<Rightarrow> u8 list \<Rightarrow> 'b terminal \<Rightarrow> 'b terminal res" where
  "putchars B [] t = Inr t"
| "putchars B (c # cs) t = andthen (flanterm_putchar B c t) (putchars B cs)"

definition flanterm_write :: "'b backend \<Rightarrow> u8 list \<Rightarrow> 'b terminal \<Rightarrow> 'b terminal res" where
  "flanterm_write B buf t =
     andthen (putchars B buf t) (\<lambda>t. if autoflush t then double_buffer_flush B t else Inr t)"

section \<open>What the front end relies on\<close>

text \<open>
  \<open>ready\<close>: the state that a back end may rely on when it is called, with the back end's own
  invariant \<open>I\<close> of the dimensions and its state. \<open>kept\<close>: it returns, and has changed its own state only.
\<close>

definition ready :: "(u64 \<Rightarrow> u64 \<Rightarrow> 'b \<Rightarrow> bool) \<Rightarrow> 'b terminal \<Rightarrow> bool" where
  "ready I t \<longleftrightarrow> 0 < rows t \<and> 0 < cols t \<and> scroll_top_margin t < rows t \<and> 0 < scroll_bottom_margin t
     \<and> scroll_bottom_margin t \<le> rows t \<and> I (rows t) (cols t) (screen t)"

definition kept :: "(u64 \<Rightarrow> u64 \<Rightarrow> 'b \<Rightarrow> bool) \<Rightarrow> 'b terminal \<Rightarrow> 'b terminal res \<Rightarrow> bool" where
  "kept I t r \<longleftrightarrow> (\<exists>b. r = Inr (t\<lparr>screen := b\<rparr>) \<and> I (rows t) (cols t) b)"

text \<open>The invariant of the front end: every index that it uses is inside its array.\<close>

definition colour_ok :: "u64 \<Rightarrow> bool" where
  "colour_ok n \<longleftrightarrow> n < 8 \<or> n = -1"

definition front_ok :: "'b terminal \<Rightarrow> bool" where
  "front_ok t \<longleftrightarrow> length (charsets t) = 2 \<and> current_charset t < 2 \<and> saved_state_current_charset t < 2 \<and> g_select t \<le> 2
     \<and> length (esc_values t) = FLANTERM_MAX_ESC_VALUES \<and> esc_values_i t \<le> 16 \<and> (rrr t \<longrightarrow> esc_values_i t < 16)
     \<and> colour_ok (current_primary t) \<and> colour_ok (current_bg t)
     \<and> colour_ok (saved_state_current_primary t) \<and> colour_ok (saved_state_current_bg t) \<and> tab_size t = 8"

text \<open>
  \<open>good\<close>: both invariants, on a screen of \<open>R\<close> rows and \<open>C\<close> columns. \<open>fine\<close>: the code returns a good state.
\<close>

definition good :: "(u64 \<Rightarrow> u64 \<Rightarrow> 'b \<Rightarrow> bool) \<Rightarrow> u64 \<Rightarrow> u64 \<Rightarrow> 'b terminal \<Rightarrow> bool" where
  "good I R C t \<longleftrightarrow> front_ok t \<and> ready I t \<and> rows t = R \<and> cols t = C"

definition fine :: "(u64 \<Rightarrow> u64 \<Rightarrow> 'b \<Rightarrow> bool) \<Rightarrow> u64 \<Rightarrow> u64 \<Rightarrow> 'b terminal res \<Rightarrow> bool" where
  "fine I R C r \<longleftrightarrow> (\<exists>t. r = Inr t \<and> good I R C t)"

lemma fine_Inr [simp]: "fine I R C (Inr t) \<longleftrightarrow> good I R C t"
  by (auto simp: fine_def)

lemma fine_andthen: "fine I R C r \<Longrightarrow> (\<And>t. good I R C t \<Longrightarrow> fine I R C (f t)) \<Longrightarrow> fine I R C (andthen r f)"
  by (auto simp: fine_def)

lemma fine_if: "(b \<Longrightarrow> fine I R C r) \<Longrightarrow> (\<not> b \<Longrightarrow> fine I R C r') \<Longrightarrow> fine I R C (if b then r else r')"
  by simp

lemma fine_kept: "good I R C t \<Longrightarrow> (ready I t \<Longrightarrow> kept I t r) \<Longrightarrow> fine I R C r"
  by (auto simp: fine_def good_def kept_def front_ok_def ready_def)

lemma fine_repeat:
  assumes "good I R C t" and "\<And>t. good I R C t \<Longrightarrow> fine I R C (body t)"
  shows "fine I R C (repeat n body t)"
  using assms(1) by (induction n arbitrary: t) (simp_all add: fine_andthen assms(2))

lemma fine_for_upto:
  assumes "good I R C t" and "\<And>i t. good I R C t \<Longrightarrow> fine I R C (body i t)"
  shows "fine I R C (for_upto i n body t)"
  using assms(1) by (induction n arbitrary: i t) (simp_all add: fine_andthen assms(2))

lemma fine_down_to:
  assumes "good I R C t" and "x \<le> i" and "\<And>i t. good I R C t \<Longrightarrow> fine I R C (body i t)"
  shows "fine I R C (down_to x i body t)"
  using assms(1,2)
proof (induction i arbitrary: t)
  case 0
  then show ?case by (simp add: assms(3))
next
  case (Suc i)
  show ?case using Suc.prems by (auto intro!: fine_andthen assms(3) Suc.IH)
qed

lemma unat_pred: "0 < C \<Longrightarrow> unat (C - 1) = unat C - 1" for C :: u64
  by (simp add: unat_sub word_le_nat_alt word_less_nat_alt)
lemma less_le_pred: "x < C \<Longrightarrow> unat x \<le> unat (C - 1)" for x C :: u64
  using unat_pred [of C] word_gt_0 [of C] by (auto simp: word_less_nat_alt)

lemma unat_of_u32 [simp]: "unat (ucast v :: u64) = unat v" for v :: u32
proof -
  have "unat v < 2 ^ 32" using unsigned_less [of v] by simp
  then show ?thesis by (simp add: unsigned_ucast_eq take_bit_nat_eq_self)
qed

locale terminal_backend =
  fixes B :: "'b backend" and I :: "u64 \<Rightarrow> u64 \<Rightarrow> 'b \<Rightarrow> bool"
  assumes cursor_in_range: "ready I t \<Longrightarrow> fst (get_cursor_pos B t) < cols t \<and> snd (get_cursor_pos B t) < rows t"
    and raw_putchar_kept: "ready I t \<Longrightarrow> kept I t (raw_putchar B c t)"
    and clear_kept: "ready I t \<Longrightarrow> kept I t (clear B move t)"
    and set_cursor_pos_kept: "ready I t \<Longrightarrow> kept I t (set_cursor_pos B x y t)"
    and set_text_fg_kept: "ready I t \<Longrightarrow> n < 8 \<Longrightarrow> kept I t (set_text_fg B n t)"
    and set_text_bg_kept: "ready I t \<Longrightarrow> n < 8 \<Longrightarrow> kept I t (set_text_bg B n t)"
    and set_text_fg_bright_kept: "ready I t \<Longrightarrow> n < 8 \<Longrightarrow> kept I t (set_text_fg_bright B n t)"
    and set_text_bg_bright_kept: "ready I t \<Longrightarrow> n < 8 \<Longrightarrow> kept I t (set_text_bg_bright B n t)"
    and set_text_fg_rgb_kept: "ready I t \<Longrightarrow> kept I t (set_text_fg_rgb B rgb t)"
    and set_text_bg_rgb_kept: "ready I t \<Longrightarrow> kept I t (set_text_bg_rgb B rgb t)"
    and set_text_fg_default_kept: "ready I t \<Longrightarrow> kept I t (set_text_fg_default B t)"
    and set_text_bg_default_kept: "ready I t \<Longrightarrow> kept I t (set_text_bg_default B t)"
    and set_text_fg_default_bright_kept: "ready I t \<Longrightarrow> kept I t (set_text_fg_default_bright B t)"
    and set_text_bg_default_bright_kept: "ready I t \<Longrightarrow> kept I t (set_text_bg_default_bright B t)"
    and move_character_kept: "ready I t \<Longrightarrow> kept I t (move_character B nx ny ox oy t)"
    and scroll_kept: "ready I t \<Longrightarrow> kept I t (scroll B t)"
    and revscroll_kept: "ready I t \<Longrightarrow> kept I t (revscroll B t)"
    and swap_palette_kept: "ready I t \<Longrightarrow> kept I t (swap_palette B t)"
    and save_state_kept: "ready I t \<Longrightarrow> kept I t (save_state B t)"
    and restore_state_kept: "ready I t \<Longrightarrow> kept I t (restore_state B t)"
    and flush_kept: "ready I t \<Longrightarrow> kept I t (double_buffer_flush B t)"
begin

lemma fine_call:
  assumes "good I R C t"
  shows "fine I R C (raw_putchar B c t)" "fine I R C (clear B move t)" "fine I R C (set_cursor_pos B x y t)"
    "n < 8 \<Longrightarrow> fine I R C (set_text_fg B n t)" "n < 8 \<Longrightarrow> fine I R C (set_text_bg B n t)"
    "n < 8 \<Longrightarrow> fine I R C (set_text_fg_bright B n t)" "n < 8 \<Longrightarrow> fine I R C (set_text_bg_bright B n t)"
    "fine I R C (set_text_fg_rgb B rgb t)" "fine I R C (set_text_bg_rgb B rgb t)"
    "fine I R C (set_text_fg_default B t)" "fine I R C (set_text_bg_default B t)"
    "fine I R C (set_text_fg_default_bright B t)" "fine I R C (set_text_bg_default_bright B t)"
    "fine I R C (move_character B nx ny ox oy t)" "fine I R C (scroll B t)" "fine I R C (revscroll B t)"
    "fine I R C (swap_palette B t)" "fine I R C (save_state B t)" "fine I R C (restore_state B t)"
    "fine I R C (double_buffer_flush B t)"
  by (rule fine_kept [OF assms]; erule raw_putchar_kept clear_kept set_cursor_pos_kept set_text_fg_kept set_text_bg_kept
      set_text_fg_bright_kept set_text_bg_bright_kept set_text_fg_rgb_kept set_text_bg_rgb_kept
      set_text_fg_default_kept set_text_bg_default_kept set_text_fg_default_bright_kept
      set_text_bg_default_bright_kept move_character_kept scroll_kept revscroll_kept swap_palette_kept
      save_state_kept restore_state_kept flush_kept; assumption?)+

lemmas fine_intros = fine_andthen fine_if fine_repeat fine_for_upto fine_call
lemmas ok_defs = good_def front_ok_def ready_def colour_ok_def

text \<open>Changes of the front end's own fields.\<close>

lemma good_update:
  assumes "good I R C t"
  shows "good I R C (t\<lparr>bold := b\<rparr>)" "good I R C (t\<lparr>bg_bold := b\<rparr>)" "good I R C (t\<lparr>reverse_video := b\<rparr>)"
    "good I R C (t\<lparr>dec_private := b\<rparr>)" "good I R C (t\<lparr>insert_mode := b\<rparr>)" "good I R C (t\<lparr>cursor_enabled := b\<rparr>)"
    "good I R C (t\<lparr>scroll_enabled := b\<rparr>)" "good I R C (t\<lparr>discard_next := b\<rparr>)" "good I R C (t\<lparr>escape := b\<rparr>)"
    "good I R C (t\<lparr>control_sequence := b\<rparr>)" "good I R C (t\<lparr>osc := b\<rparr>)" "good I R C (t\<lparr>osc_escape := b\<rparr>)"
    "good I R C (t\<lparr>unicode_remaining := w\<rparr>)" "good I R C (t\<lparr>code_point := w\<rparr>)" "good I R C (t\<lparr>escape_offset := w\<rparr>)"
    "good I R C (t\<lparr>saved_cursor_x := w\<rparr>)" "good I R C (t\<lparr>saved_cursor_y := w\<rparr>)"
    "good I R C (t\<lparr>saved_state_bold := b\<rparr>)" "good I R C (t\<lparr>saved_state_bg_bold := b\<rparr>)"
    "good I R C (t\<lparr>saved_state_reverse_video := b\<rparr>)" "good I R C (t\<lparr>callbacks := es\<rparr>)"
    "good I R C (set_value i v t)" "good I R C (call_back e t)"
    "colour_ok n \<Longrightarrow> good I R C (t\<lparr>current_primary := n\<rparr>)" "colour_ok n \<Longrightarrow> good I R C (t\<lparr>current_bg := n\<rparr>)"
    "g \<le> 2 \<Longrightarrow> good I R C (t\<lparr>g_select := g\<rparr>)"
    "y < R \<Longrightarrow> good I R C (t\<lparr>scroll_top_margin := y\<rparr>)"
    "s < 2 \<Longrightarrow> good I R C (t\<lparr>current_charset := s\<rparr>)"
  using assms by (auto simp: good_def front_ok_def ready_def set_value_def call_back_def)

lemma colour_ok_simps [simp]: "colour_ok (-1)" "n < 8 \<Longrightarrow> colour_ok n"
  by (simp_all add: colour_ok_def)

lemma good_colour: "good I R C t \<Longrightarrow> current_primary t \<noteq> -1 \<Longrightarrow> current_primary t < 8"
    "good I R C t \<Longrightarrow> current_bg t \<noteq> -1 \<Longrightarrow> current_bg t < 8"
  by (auto simp: good_def front_ok_def colour_ok_def)

lemma colour_offset:
  "30 \<le> v \<Longrightarrow> v \<le> 37 \<Longrightarrow> (ucast v :: u64) - 30 < 8" "40 \<le> v \<Longrightarrow> v \<le> 47 \<Longrightarrow> (ucast v :: u64) - 40 < 8"
  "90 \<le> v \<Longrightarrow> v \<le> 97 \<Longrightarrow> (ucast v :: u64) - 90 < 8" "100 \<le> v \<Longrightarrow> v \<le> 107 \<Longrightarrow> (ucast v :: u64) - 100 < 8"
  for v :: u32
  by (simp_all add: word_less_nat_alt word_le_nat_alt unat_sub)

lemma sgr_single_fine:
  assumes g: "good I R C t"
  shows "fine I R C (sgr_single B v t)"
proof -
  note defs = sgr_reset_def sgr_bold_def sgr_bg_bold_def sgr_not_bold_def sgr_bg_not_bold_def set_fg_def set_bg_def
    sgr_primary_def sgr_background_def sgr_primary_bright_def sgr_background_bright_def sgr_default_fg_def
    sgr_default_bg_def sgr_reverse_def
  have "fine I R C (sgr_reset B t)" "fine I R C (sgr_bold B t)" "fine I R C (sgr_bg_bold B t)"
    "fine I R C (sgr_not_bold B t)" "fine I R C (sgr_bg_not_bold B t)" "fine I R C (sgr_default_fg B t)"
    "fine I R C (sgr_default_bg B t)" "fine I R C (sgr_reverse B on t)" for on
    unfolding defs Let_def using g
    by (intro fine_intros good_update good_colour; simp add: good_update good_colour)+
  moreover have "fine I R C (sgr_primary B n t)" "fine I R C (sgr_background B n t)"
    "fine I R C (sgr_primary_bright B n t)" "fine I R C (sgr_background_bright B n t)" if "n < 8" for n
    unfolding defs Let_def using g that
    by (intro fine_intros good_update good_colour; simp add: good_update good_colour)+
  ultimately show ?thesis
    unfolding sgr_single_def using g colour_offset [of v] by simp
qed

lemma sgr_256_fine: "good I R C t \<Longrightarrow> fine I R C (sgr_256 B fg col t)"
  by (auto simp: sgr_256_def word_less_nat_alt word_le_nat_alt unat_sub fine_call)

lemma sgr_values_fine: "good I R C t \<Longrightarrow> fine I R C (sgr_values B vs t)"
proof (induction vs arbitrary: t rule: length_induct)
  case (1 vs)
  then have IH: "good I R C u \<Longrightarrow> length ws < length vs \<Longrightarrow> fine I R C (sgr_values B ws u)" for ws u by blast
  note g = 1(2)
  show ?case
  proof (cases vs)
    case (Cons v us)
    note vs = this
    have single: "fine I R C (andthen (sgr_single B v t) (sgr_values B us))"
      using vs g by (intro fine_andthen sgr_single_fine IH) auto
    show ?thesis
    proof (cases us)
      case Nil
      then show ?thesis using vs g single by simp
    next
      case (Cons mode ws)
      have rest: "fine I R C (sgr_values B ws u)" "fine I R C (sgr_values B (tl ws) u)"
        "fine I R C (sgr_values B (drop 3 ws) u)" if "good I R C u" for u
        by (rule IH [OF that], simp add: vs Cons)+
      have rgb: "fine I R C (case ws of r # g # b # rest \<Rightarrow>
          andthen ((if v = 38 then set_text_fg_rgb B else set_text_bg_rgb B) (push_bit 16 r OR push_bit 8 g OR b) t)
            (sgr_values B rest) | _ \<Rightarrow> Inr t)"
        using g rest(3) by (auto split: list.split intro!: fine_andthen simp: fine_call)
      have palette: "fine I R C (case ws of col # rest \<Rightarrow> andthen (sgr_256 B (v = 38) col t) (sgr_values B rest) | [] \<Rightarrow> Inr t)"
        using g rest(2) by (auto split: list.split intro!: fine_andthen sgr_256_fine)
      show ?thesis
        unfolding vs sgr_values.simps(2) [of B v us] unfolding Cons list.case
        by (intro fine_if rgb palette rest(1) [OF g] single [unfolded Cons])
    qed
  qed (use g in simp)
qed

lemma sgr_fine: "good I R C t \<Longrightarrow> fine I R C (sgr B t)"
  using sgr_values_fine sgr_single_fine [of R C t 0] by (simp add: sgr_def sgr_single_def)

lemma good_values: "good I R C t \<Longrightarrow> length (esc_values t) = 16"
  by (simp add: good_def front_ok_def)

lemma good_cursor: "good I R C t \<Longrightarrow> get_cursor_pos B t = (x, y) \<Longrightarrow> x < C \<and> y < R"
  using cursor_in_range [of t] by (auto simp: good_def)

lemma erase_to_fine: "good I R C t \<Longrightarrow> fine I R C (erase_to B x y n m yc xc t)"
proof (induction "(n - yc, m - xc)" arbitrary: yc xc t rule: wf_induct_rule [OF wf_lex_prod [OF wf_less wf_less]])
  case 1
  then show ?case
    by (subst erase_to.simps) (auto intro!: fine_andthen fine_call)
qed

lemma good_margins:
  assumes "good I R C t" and "\<not> b \<Longrightarrow> p < R \<and> 0 < q \<and> q \<le> R"
  shows "good I R C (if b then t\<lparr>scroll_top_margin := 0, scroll_bottom_margin := rows t\<rparr>
    else t\<lparr>scroll_top_margin := p, scroll_bottom_margin := q\<rparr>)"
  using assms by (auto simp: good_def front_ok_def ready_def)

lemma good_old_margins: "good I R C t \<Longrightarrow> 0 < R \<and> scroll_top_margin t < R \<and> 0 < C"
  by (auto simp: good_def ready_def)

lemma good_dims: "good I R C t \<Longrightarrow> rows t = R \<and> cols t = C"
  by (simp add: good_def)

lemma csi_margins_fine:
  assumes "good I R C t"
  shows "fine I R C (csi_margins B t)"
proof -
  define t1 where "t1 = (if esc_values t ! 0 = 0 then set_value 0 1 t else t)"
  define t2 where "t2 = (if esc_values t1 ! 1 = 0 then set_value 1 1 t1 else t1)"
  define top where "top = (if 0 < esc_values_i t2 then ucast (esc_values t2 ! 0 - 1) else (0 :: u64))"
  define bottom where "bottom = (if 1 < esc_values_i t2 then ucast (esc_values t2 ! 1) else rows t2)"
  have g: "good I R C t1" "good I R C t2" using assms by (simp_all add: t1_def t2_def good_update)
  then have "esc_values t2 ! 1 \<noteq> 0" using good_values [of R C t1] by (simp add: t2_def set_value_def)
  then have "0 < bottom" using good_old_margins [OF g(2)] g(2)
    by (simp add: bottom_def word_gt_0 word_unat_eq_iff good_def)
  then have "good I R C (if rows t2 \<le> top \<or> rows t2 < bottom \<or> bottom - 1 \<le> top
               then t2\<lparr>scroll_top_margin := 0, scroll_bottom_margin := rows t2\<rparr>
               else t2\<lparr>scroll_top_margin := top, scroll_bottom_margin := bottom\<rparr>)"
    using good_dims [OF g(2)] by (intro good_margins [OF g(2)]) (auto simp: not_le not_less)
  then show ?thesis unfolding csi_margins_def Let_def t1_def [symmetric] t2_def [symmetric]
    top_def [symmetric] bottom_def [symmetric] by (rule fine_call)
qed

lemma csi_insert_lines_fine:
  assumes "good I R C t" and "y < R"
  shows "fine I R C (csi_insert_lines B y t)"
  unfolding csi_insert_lines_def Let_def
  using assms by (intro fine_intros) (auto simp: good_update good_old_margins intro!: fine_call)

lemma csi_command_fine:
  assumes g: "good I R C t" and xy: "x < C" "y < R"
  shows "fine I R C (csi_command B c x y t)"
proof -
  have "fine I R C (csi_up B z y t)" "fine I R C (csi_down B z y t)" "fine I R C (csi_right B x y t)"
    "fine I R C (csi_left B x y t)" "fine I R C (csi_row B x t)" "fine I R C (csi_column B y t)"
    "fine I R C (csi_position B t)" for z
    unfolding csi_up_def csi_down_def csi_right_def csi_left_def csi_row_def csi_column_def csi_position_def Let_def
    using g by (intro fine_call; simp add: good_update)+
  moreover have "fine I R C (csi_delete_lines B t)" "fine I R C (csi_erase_display B x y t)"
    "fine I R C (csi_erase_characters B x y u)" "fine I R C (csi_erase_line B x y t)" if "good I R C u" for u
    unfolding csi_delete_lines_def csi_erase_display_def csi_erase_characters_def csi_erase_line_def Let_def
    using g that by (intro fine_intros erase_to_fine; simp)+
  moreover from this have "fine I R C (csi_delete_characters B x y t)"
    unfolding csi_delete_characters_def Let_def using g by (intro fine_intros; simp)
  moreover have "unat x \<le> unat (cols t - 1)"
    using less_le_pred [OF xy(1)] g by (simp add: good_def)
  then have "fine I R C (csi_insert_characters B x y t)"
    unfolding csi_insert_characters_def using g by (intro fine_intros fine_down_to; simp)
  moreover note csi_margins_fine [OF g] csi_insert_lines_fine [OF g xy(2)] sgr_fine [OF g]
  ultimately show ?thesis
    unfolding csi_command_def using g
    by (intro fine_if) (simp_all add: good_update csi_report_def csi_save_cursor_def mode_toggle_def linux_private_parse_def fine_call)
qed

lemma esc_values_i_bound: "good I R C t \<Longrightarrow> unat (esc_values_i t) \<le> 16"
  by (auto simp: good_def front_ok_def word_le_nat_alt)

lemma good_parameters:
  assumes "good I R C t" and "length vs = 16" and "n \<le> 16" and "b \<Longrightarrow> n < 16"
  shows "good I R C (t\<lparr>esc_values_i := n, rrr := b, esc_values := vs\<rparr>)"
  using assms by (auto simp: good_def front_ok_def ready_def)

lemma good_fill: "good I R C t \<Longrightarrow> good I R C (fill_values c t)"
  using esc_values_i_bound [of R C t] by (auto simp: good_def front_ok_def ready_def fill_values_def Let_def)

lemma csi_final_fine:
  assumes "good I R C t"
  shows "fine I R C (csi_final B c t)"
proof -
  define u where "u = fill_values c t"
  have u: "good I R C u" using good_fill [OF assms] by (simp add: u_def)
  have "good I R C (dec_private_parse c u)"
    using u by (simp add: dec_private_parse_def Let_def good_update)
  moreover obtain x y where xy: "get_cursor_pos B (u\<lparr>scroll_enabled := False\<rparr>) = (x, y)" by fastforce
  then have "x < C \<and> y < R" using good_cursor good_update(7) [OF u] by blast
  then have "fine I R C (csi_command B c x y (u\<lparr>scroll_enabled := False\<rparr>))"
    using csi_command_fine good_update(7) [OF u] by blast
  ultimately show ?thesis
    unfolding csi_final_def Let_def u_def [symmetric] xy
    by (simp add: leave_sequence_def good_update fine_andthen)
qed

lemma control_sequence_parse_fine:
  assumes g: "good I R C t"
  shows "fine I R C (control_sequence_parse B c t)"
proof -
  note vs = good_values [OF g] and n = esc_values_i_bound [OF g]
  have less: "esc_values_i t < 16" if "esc_values_i t \<noteq> 16"
    using that g by (auto simp: good_def front_ok_def)
  have more: "esc_values_i t + 1 \<le> 16" if "esc_values_i t < 16" 
    using that by (metis inc_le)
  have "fine I R C (csi_digit c t)"
    using g vs less by (auto simp: csi_digit_def word_less_nat_alt good_def front_ok_def ready_def)
  moreover have "good I R C (t\<lparr>esc_values_i := esc_values_i t + 1, rrr := False\<rparr>)" if "rrr t"
    using g that more by (auto simp: good_def front_ok_def ready_def)
  moreover have "fine I R C (andthen (put (esc_values t) (unat (esc_values_i t)) 0) (\<lambda>vs.
           Inr (t\<lparr>esc_values := vs, esc_values_i := esc_values_i t + 1\<rparr>)))" if "esc_values_i t \<noteq> 16" "\<not> rrr t"
    using g vs less more that by (auto simp: word_less_nat_alt good_def front_ok_def ready_def)
  ultimately show ?thesis
    unfolding control_sequence_parse_def Let_def using g
    by (intro fine_if) (simp_all add: leave_sequence_def good_update csi_final_fine)
qed

lemma good_reinit: "good I R C t \<Longrightarrow> good I R C (flanterm_context_reinit t)"
  by (auto simp: good_def front_ok_def ready_def flanterm_context_reinit_def)

lemma escape_command_fine:
  assumes g: "good I R C t"
  shows "fine I R C (escape_command B c x y t)"
proof -
  have "fine I R C (restore_term_state B t)"
    unfolding restore_term_state_def using g by (intro fine_call) (auto simp: good_def front_ok_def ready_def)
  moreover have "fine I R C (save_term_state B t)"
    unfolding save_term_state_def using fine_call(18) [OF g]
    by (rule fine_andthen) (auto simp: good_def front_ok_def ready_def)
  moreover have "fine I R C (esc_index B z y t)" "fine I R C (esc_reverse_index B y t)" for z
    unfolding esc_index_def esc_reverse_index_def using g by (intro fine_intros; simp)+
  ultimately show ?thesis
    unfolding escape_command_def using g
    by (intro fine_if) (auto simp: good_update good_reinit fine_call word_le_nat_alt)
qed

lemma escape_parse_fine:
  assumes "good I R C t0"
  shows "fine I R C (escape_parse B c t0)"
proof -
  define t where "t = t0\<lparr>escape_offset := escape_offset t0 + 1\<rparr>"
  have g: "good I R C t" using assms by (simp add: t_def good_update)
  obtain x y where xy: "get_cursor_pos B t = (x, y)" by fastforce
  have "good I R C (t\<lparr>esc_values := replicate 16 0, esc_values_i := 0, rrr := False, control_sequence := True\<rparr>)"
    using g by (auto simp: good_def front_ok_def ready_def)
  then show ?thesis
    unfolding escape_parse_def Let_def t_def [symmetric] xy using g
    by (auto simp: osc_parse_def good_update control_sequence_parse_fine escape_command_fine intro!: fine_andthen)
qed

lemma put_code_point_fine: "good I R C t \<Longrightarrow> fine I R C (put_code_point B cp t)"
  unfolding put_code_point_def Let_def by (intro fine_intros; simp)

lemma put_printable_fine:
  assumes g: "good I R C t" and "x < C"
  shows "fine I R C (put_printable B c x y t)"
proof -
  have "fine I R C (andthen (fetch (charsets t) (unat (current_charset t))) (\<lambda>cs.
     andthen (if cs = CHARSET_DEC_SPECIAL then dec_special_print B c t else Inr (False, t)) (\<lambda>(printed, t).
     if printed then Inr t
     else if 0x20 \<le> c \<and> c \<le> 0x7e then raw_putchar B c t
     else raw_putchar B 0xfe t)))" if g: "good I R C t" for t
  proof -
    obtain cs where cs: "fetch (charsets t) (unat (current_charset t)) = Inr cs"
      using g by (auto simp: good_def front_ok_def word_less_nat_alt)
    show ?thesis
    proof (cases "cs = CHARSET_DEC_SPECIAL \<and> dec_special_glyph c \<noteq> None")
      case True
      then obtain gl where "dec_special_glyph c = Some gl" by blast
      moreover obtain u where "raw_putchar B gl t = Inr u" "good I R C u" using fine_call(1) [OF g] by (auto simp: fine_def)
      ultimately show ?thesis using True cs by (simp add: dec_special_print_def)
    next
      case False
      then show ?thesis using cs g by (auto simp: dec_special_print_def fine_call)
    qed
  qed
  then show ?thesis
    unfolding put_printable_def using g less_le_pred [OF assms(2)]
    by (intro fine_andthen fine_if fine_down_to fine_call) (simp_all add: good_def)
qed

lemma put_plain_fine:
  assumes g: "good I R C t"
  shows "fine I R C (put_plain B c t)"
proof -
  obtain x y where xy: "get_cursor_pos B t = (x, y)" by fastforce
  have "fine I R C (put_tab B x y t)" "fine I R C (put_newline B x y t)"
    unfolding put_tab_def put_newline_def Let_def using g by (intro fine_intros; simp)+
  then show ?thesis
    unfolding put_plain_def xy using g good_cursor [OF g xy]
    by (auto simp: good_update put_printable_fine fine_call)
qed

lemma put_byte_fresh_fine:
  assumes g: "good I R C t"
  shows "fine I R C (put_byte_fresh B c t)"
proof -
  have "fine I R C (select_charset c t)" if "g_select t \<noteq> 0"
  proof -
    have "unat (g_select t) \<le> 2" "unat (g_select t) \<noteq> 0" "length (charsets t) = 2"
      using g that by (simp_all add: good_def front_ok_def word_le_nat_alt unat_eq_0)
    then have "unat (g_select t - 1) < length (charsets t)" by (simp add: unat_sub word_le_nat_alt)
    then show ?thesis using g by (auto simp: select_charset_def Let_def good_def front_ok_def ready_def)
  qed
  then show ?thesis
    unfolding put_byte_fresh_def using g
    by (auto simp: unicode_start_def good_update escape_parse_fine put_plain_fine)
qed

theorem putchar_fine:
  assumes g: "good I R C t"
  shows "fine I R C (flanterm_putchar B c t)"
  unfolding flanterm_putchar_def unicode_continue_def Let_def
  using g by (intro fine_if put_byte_fresh_fine) (simp_all add: good_update put_code_point_fine)

lemma putchars_fine: "good I R C t \<Longrightarrow> fine I R C (putchars B cs t)"
  by (induction cs arbitrary: t) (simp_all add: fine_andthen putchar_fine)

lemma write_fine: "good I R C t \<Longrightarrow> fine I R C (flanterm_write B buf t)"
  unfolding flanterm_write_def by (intro fine_andthen putchars_fine fine_if fine_call) simp_all

end

end
