(* ===== verification/Framebuffer.thy ===== *)
theory Framebuffer
  imports Flanterm
begin

text \<open>
  The back end of the terminal that draws on a frame buffer, \<open>flanterm/backends/fb.c\<close>. The screen is a
  grid of characters. Characters are not drawn at once: they are queued, one entry for a cell, and
  \<open>ctx->map\<close> leads from a cell to its entry; \<open>double_buffer_flush\<close> draws the queue. The frame buffer,
  the grid, the queue and the map are lists with the bounds of the allocated arrays, so a write outside
  of them is \<open>Undefined\<close>. Here are the data and the operations; \<open>Framebuffer_Cells\<close> and
  \<open>Framebuffer_Pixels\<close> show what they do.
\<close>

section \<open>Data\<close>

record fb_char =
  char_c :: u32
  char_fg :: u32
  char_bg :: u32

record queue_item =
  item_x :: u64
  item_y :: u64
  item_c :: fb_char

text \<open>The pointers of \<open>ctx->map\<close> are positions in the queue, NULL is \<open>None\<close>.\<close>

record fb_context =
  font_width :: u64
  font_height :: u64
  glyph_width :: u64
  glyph_height :: u64
  font_scale_x :: u64
  font_scale_y :: u64
  offset_x :: u64
  offset_y :: u64
  framebuffer :: "u32 list"
  pitch :: u64
  width :: u64
  height :: u64
  red_mask_size :: u8
  red_mask_shift :: u8
  green_mask_size :: u8
  green_mask_shift :: u8
  blue_mask_size :: u8
  blue_mask_shift :: u8
  font_bits_size :: u64
  font_bits :: "u8 list"
  font_bool_size :: u64
  font_bool :: "bool list"
  ansi_colours :: "u32 list"
  ansi_bright_colours :: "u32 list"
  default_fg :: u32
  default_bg :: u32
  default_fg_bright :: u32
  default_bg_bright :: u32
  canvas_size :: u64
  canvas :: "u32 list option"
  grid_size :: u64
  queue_size :: u64
  map_size :: u64
  grid :: "fb_char list"
  queue :: "queue_item list"
  queue_i :: u64
  cell_map :: "nat option list"
  text_fg :: u32
  text_bg :: u32
  cursor_x :: u64
  cursor_y :: u64
  saved_state_text_fg :: u32
  saved_state_text_bg :: u32
  saved_state_cursor_x :: u64
  saved_state_cursor_y :: u64
  old_cursor_x :: u64
  old_cursor_y :: u64

type_synonym fb_terminal = "fb_context terminal"

text \<open>An operation on the back end's own state.\<close>

definition on_screen :: "(fb_context \<Rightarrow> fb_context) \<Rightarrow> fb_terminal \<Rightarrow> fb_terminal" where
  "on_screen g t = t\<lparr>screen := g (screen t)\<rparr>"

section \<open>Colours and attributes\<close>

text \<open>A shift by the width of the type or more is undefined.\<close>

definition convert_colour :: "fb_context \<Rightarrow> u32 \<Rightarrow> u32 res" where
  "convert_colour f colour =
     (let r = drop_bit 16 colour AND 0xff; g = drop_bit 8 colour AND 0xff; b = colour AND 0xff in
      if red_mask_shift f < 32 \<and> green_mask_shift f < 32 \<and> blue_mask_shift f < 32 then
        Inr (push_bit (unat (red_mask_shift f)) r OR push_bit (unat (green_mask_shift f)) g
          OR push_bit (unat (blue_mask_shift f)) b)
      else Inl Undefined)"

definition flanterm_fb_save_state :: "fb_terminal \<Rightarrow> fb_terminal res" where
  "flanterm_fb_save_state t =
     Inr (on_screen (\<lambda>f. f\<lparr>saved_state_text_fg := text_fg f, saved_state_text_bg := text_bg f,
       saved_state_cursor_x := cursor_x f, saved_state_cursor_y := cursor_y f\<rparr>) t)"

definition flanterm_fb_restore_state :: "fb_terminal \<Rightarrow> fb_terminal res" where
  "flanterm_fb_restore_state t =
     Inr (on_screen (\<lambda>f. f\<lparr>text_fg := saved_state_text_fg f, text_bg := saved_state_text_bg f,
       cursor_x := saved_state_cursor_x f, cursor_y := saved_state_cursor_y f\<rparr>) t)"

definition flanterm_fb_swap_palette :: "fb_terminal \<Rightarrow> fb_terminal res" where
  "flanterm_fb_swap_palette t = Inr (on_screen (\<lambda>f. f\<lparr>text_bg := text_fg f, text_fg := text_bg f\<rparr>) t)"

definition flanterm_fb_set_text_fg :: "u64 \<Rightarrow> fb_terminal \<Rightarrow> fb_terminal res" where
  "flanterm_fb_set_text_fg fg t =
     andthen (fetch (ansi_colours (screen t)) (unat fg)) (\<lambda>v. Inr (on_screen (\<lambda>f. f\<lparr>text_fg := v\<rparr>) t))"

definition flanterm_fb_set_text_bg :: "u64 \<Rightarrow> fb_terminal \<Rightarrow> fb_terminal res" where
  "flanterm_fb_set_text_bg bg t =
     andthen (fetch (ansi_colours (screen t)) (unat bg)) (\<lambda>v. Inr (on_screen (\<lambda>f. f\<lparr>text_bg := v\<rparr>) t))"

definition flanterm_fb_set_text_fg_bright :: "u64 \<Rightarrow> fb_terminal \<Rightarrow> fb_terminal res" where
  "flanterm_fb_set_text_fg_bright fg t =
     andthen (fetch (ansi_bright_colours (screen t)) (unat fg)) (\<lambda>v. Inr (on_screen (\<lambda>f. f\<lparr>text_fg := v\<rparr>) t))"

definition flanterm_fb_set_text_bg_bright :: "u64 \<Rightarrow> fb_terminal \<Rightarrow> fb_terminal res" where
  "flanterm_fb_set_text_bg_bright bg t =
     andthen (fetch (ansi_bright_colours (screen t)) (unat bg)) (\<lambda>v. Inr (on_screen (\<lambda>f. f\<lparr>text_bg := v\<rparr>) t))"

definition flanterm_fb_set_text_fg_rgb :: "u32 \<Rightarrow> fb_terminal \<Rightarrow> fb_terminal res" where
  "flanterm_fb_set_text_fg_rgb fg t =
     andthen (convert_colour (screen t) fg) (\<lambda>v. Inr (on_screen (\<lambda>f. f\<lparr>text_fg := v\<rparr>) t))"

definition flanterm_fb_set_text_bg_rgb :: "u32 \<Rightarrow> fb_terminal \<Rightarrow> fb_terminal res" where
  "flanterm_fb_set_text_bg_rgb bg t =
     andthen (convert_colour (screen t) bg) (\<lambda>v. Inr (on_screen (\<lambda>f. f\<lparr>text_bg := v\<rparr>) t))"

definition flanterm_fb_set_text_fg_default :: "fb_terminal \<Rightarrow> fb_terminal res" where
  "flanterm_fb_set_text_fg_default t = Inr (on_screen (\<lambda>f. f\<lparr>text_fg := default_fg f\<rparr>) t)"

definition flanterm_fb_set_text_bg_default :: "fb_terminal \<Rightarrow> fb_terminal res" where
  "flanterm_fb_set_text_bg_default t = Inr (on_screen (\<lambda>f. f\<lparr>text_bg := 0xffffffff\<rparr>) t)"

definition flanterm_fb_set_text_fg_default_bright :: "fb_terminal \<Rightarrow> fb_terminal res" where
  "flanterm_fb_set_text_fg_default_bright t = Inr (on_screen (\<lambda>f. f\<lparr>text_fg := default_fg_bright f\<rparr>) t)"

definition flanterm_fb_set_text_bg_default_bright :: "fb_terminal \<Rightarrow> fb_terminal res" where
  "flanterm_fb_set_text_bg_default_bright t = Inr (on_screen (\<lambda>f. f\<lparr>text_bg := default_bg_bright f\<rparr>) t)"

section \<open>Drawing\<close>

text \<open>One pixel of a glyph; \<open>0xffffffff\<close> is transparent, and shows the canvas or the default.\<close>

definition see_through :: "fb_context \<Rightarrow> u64 \<Rightarrow> u32 \<Rightarrow> u32 res" where
  "see_through f i v =
     (if v = 0xffffffff then (case canvas f of Some cv \<Rightarrow> fetch cv (unat i) | None \<Rightarrow> Inr (default_bg f))
      else Inr v)"

definition plot_pixel :: "fb_char \<Rightarrow> u64 \<Rightarrow> u64 \<Rightarrow> bool \<Rightarrow> u64 \<Rightarrow> u64 \<Rightarrow> fb_context \<Rightarrow> fb_context res" where
  "plot_pixel c x y draw gx gy f =
     andthen (see_through f (x + (y + gy) * width f + gx) (char_bg c)) (\<lambda>bg.
     andthen (see_through f (x + (y + gy) * width f + gx) (char_fg c)) (\<lambda>fg.
     andthen (put (framebuffer f) (unat (x + (y + gy) * (pitch f div 4) + gx)) (if draw then fg else bg)) (\<lambda>fb.
     Inr (f\<lparr>framebuffer := fb\<rparr>))))"

definition plot_glyph :: "fb_char \<Rightarrow> u64 \<Rightarrow> u64 \<Rightarrow> fb_context \<Rightarrow> fb_context res" where
  "plot_glyph c x y f0 =
     (let glyph = ucast (char_c c) * font_height f0 * font_width f0 in
      for_upto 0 (unat (glyph_height f0)) (\<lambda>gy.
        for_upto 0 (unat (font_width f0)) (\<lambda>fx f.
          let fy = ucast (of_nat gy div font_scale_y f0) :: u8 in
          andthen (fetch (font_bool f) (unat (glyph + (ucast fy * font_width f0 + of_nat fx)))) (\<lambda>draw.
          for_upto 0 (unat (font_scale_x f0)) (\<lambda>i.
            plot_pixel c x y draw (font_scale_x f0 * of_nat fx + of_nat i) (of_nat gy)) f))) f0)"

definition plot_char :: "fb_char \<Rightarrow> u64 \<Rightarrow> u64 \<Rightarrow> fb_terminal \<Rightarrow> fb_terminal res" where
  "plot_char c x y t =
     (if cols t \<le> x \<or> rows t \<le> y then Inr t
      else
        (let f = screen t in
         andthen (plot_glyph c (offset_x f + x * glyph_width f) (offset_y f + y * glyph_height f) f) (\<lambda>f.
         Inr (t\<lparr>screen := f\<rparr>))))"

section \<open>The queue\<close>

definition compare_char :: "fb_char \<Rightarrow> fb_char \<Rightarrow> bool" where
  "compare_char a b = (\<not> (char_c a \<noteq> char_c b \<or> char_bg a \<noteq> char_bg b \<or> char_fg a \<noteq> char_fg b))"

definition push_to_queue :: "fb_char \<Rightarrow> u64 \<Rightarrow> u64 \<Rightarrow> fb_terminal \<Rightarrow> fb_terminal res" where
  "push_to_queue c x y t =
     (if cols t \<le> x \<or> rows t \<le> y then Inr t
      else
        (let f = screen t; i = unat (y * cols t + x) in
         andthen (fetch (cell_map f) i) (\<lambda>q.
         case q of
           None \<Rightarrow>
             andthen (fetch (grid f) i) (\<lambda>g.
             if compare_char g c then Inr t
             else
               andthen (put (queue f) (unat (queue_i f)) \<lparr>item_x = x, item_y = y, item_c = c\<rparr>) (\<lambda>qs.
               andthen (put (cell_map f) i (Some (unat (queue_i f)))) (\<lambda>m.
               Inr (t\<lparr>screen := f\<lparr>queue := qs, queue_i := queue_i f + 1, cell_map := m\<rparr>\<rparr>))))
         | Some k \<Rightarrow>
             andthen (fetch (queue f) k) (\<lambda>item.
             andthen (put (queue f) k (item\<lparr>item_c := c\<rparr>)) (\<lambda>qs.
             Inr (t\<lparr>screen := f\<lparr>queue := qs\<rparr>\<rparr>))))))"

text \<open>The character of a cell: the queued one, or that of the grid.\<close>

definition cell_at :: "fb_context \<Rightarrow> nat \<Rightarrow> fb_char res" where
  "cell_at f i =
     andthen (fetch (cell_map f) i) (\<lambda>q.
     case q of
       Some k \<Rightarrow> andthen (fetch (queue f) k) (\<lambda>item. Inr (item_c item))
     | None \<Rightarrow> fetch (grid f) i)"

definition empty_char :: "fb_context \<Rightarrow> fb_char" where
  "empty_char f = \<lparr>char_c = 0x20, char_fg = text_fg f, char_bg = text_bg f\<rparr>"

section \<open>The operations of the back end\<close>

text \<open>The loop of \<open>revscroll\<close>: \<open>i\<close> runs down to \<open>lo\<close>; its argument is \<open>i + 1\<close>, so 0 stands for \<open>(size_t)-1\<close>.\<close>

fun revscroll_cells :: "nat \<Rightarrow> nat \<Rightarrow> fb_terminal \<Rightarrow> fb_terminal res" where
  "revscroll_cells lo 0 t = Inr t"
| "revscroll_cells lo (Suc i) t =
     (if lo \<le> i then
        andthen (cell_at (screen t) i) (\<lambda>c.
        andthen (push_to_queue c ((of_nat i + cols t) mod cols t) ((of_nat i + cols t) div cols t) t)
          (revscroll_cells lo i))
      else Inr t)"

text \<open>The loop that clears a line.\<close>

definition clear_line :: "u64 \<Rightarrow> fb_terminal \<Rightarrow> fb_terminal res" where
  "clear_line y t =
     (let empty = empty_char (screen t) in
      for_upto 0 (unat (cols t)) (\<lambda>i. push_to_queue empty (of_nat i) y) t)"

definition flanterm_fb_revscroll :: "fb_terminal \<Rightarrow> fb_terminal res" where
  "flanterm_fb_revscroll t =
     andthen (revscroll_cells (unat (scroll_top_margin t * cols t)) (unat ((scroll_bottom_margin t - 1) * cols t)) t) (\<lambda>t.
     clear_line (scroll_top_margin t) t)"

definition flanterm_fb_scroll :: "fb_terminal \<Rightarrow> fb_terminal res" where
  "flanterm_fb_scroll t =
     (let first = unat ((scroll_top_margin t + 1) * cols t); stop = unat (scroll_bottom_margin t * cols t) in
      andthen (for_upto first (stop - first) (\<lambda>i t.
          andthen (cell_at (screen t) i) (\<lambda>c.
          push_to_queue c ((of_nat i - cols t) mod cols t) ((of_nat i - cols t) div cols t) t)) t) (\<lambda>t.
      clear_line (scroll_bottom_margin t - 1) t))"

definition flanterm_fb_clear :: "bool \<Rightarrow> fb_terminal \<Rightarrow> fb_terminal res" where
  "flanterm_fb_clear move t =
     (let empty = empty_char (screen t) in
      andthen (for_upto 0 (unat (rows t * cols t)) (\<lambda>i t.
          push_to_queue empty (of_nat i mod cols t) (of_nat i div cols t) t) t) (\<lambda>t.
      Inr (if move then on_screen (\<lambda>f. f\<lparr>cursor_x := 0, cursor_y := 0\<rparr>) t else t)))"

text \<open>\<open>(int)x < 0\<close> is bit 31 of \<open>x\<close>.\<close>

definition clamp :: "u64 \<Rightarrow> u64 \<Rightarrow> u64" where
  "clamp limit x = (if limit \<le> x then (if bit x 31 then 0 else limit - 1) else x)"

definition flanterm_fb_set_cursor_pos :: "u64 \<Rightarrow> u64 \<Rightarrow> fb_terminal \<Rightarrow> fb_terminal res" where
  "flanterm_fb_set_cursor_pos x y t =
     Inr (on_screen (\<lambda>f. f\<lparr>cursor_x := clamp (cols t) x, cursor_y := clamp (rows t) y\<rparr>) t)"

definition flanterm_fb_get_cursor_pos :: "fb_terminal \<Rightarrow> u64 \<times> u64" where
  "flanterm_fb_get_cursor_pos t =
     (if cols t \<le> cursor_x (screen t) then cols t - 1 else cursor_x (screen t),
      if rows t \<le> cursor_y (screen t) then rows t - 1 else cursor_y (screen t))"

definition flanterm_fb_move_character :: "u64 \<Rightarrow> u64 \<Rightarrow> u64 \<Rightarrow> u64 \<Rightarrow> fb_terminal \<Rightarrow> fb_terminal res" where
  "flanterm_fb_move_character new_x new_y old_x old_y t =
     (if cols t \<le> old_x \<or> rows t \<le> old_y \<or> cols t \<le> new_x \<or> rows t \<le> new_y then Inr t
      else
        andthen (cell_at (screen t) (unat (old_x + old_y * cols t))) (\<lambda>c. push_to_queue c new_x new_y t))"

definition draw_cursor :: "fb_terminal \<Rightarrow> fb_terminal res" where
  "draw_cursor t =
     (let f = screen t; x = cursor_x f; y = cursor_y f; i = unat (x + y * cols t) in
      if cols t \<le> x \<or> rows t \<le> y then Inr t
      else
        andthen (fetch (cell_map f) i) (\<lambda>q.
        andthen (cell_at f i) (\<lambda>c.
        andthen (plot_char (c\<lparr>char_fg := char_bg c, char_bg := char_fg c\<rparr>) x y t) (\<lambda>t.
        case q of
          None \<Rightarrow> Inr t
        | Some k \<Rightarrow>
            andthen (put (grid (screen t)) i c) (\<lambda>g.
            andthen (put (cell_map (screen t)) i None) (\<lambda>m.
            Inr (on_screen (\<lambda>f. f\<lparr>grid := g, cell_map := m\<rparr>) t)))))))"

text \<open>One round of the loop over the queue.\<close>

definition flush_item :: "nat \<Rightarrow> fb_terminal \<Rightarrow> fb_terminal res" where
  "flush_item i t =
     andthen (fetch (queue (screen t)) i) (\<lambda>q.
     let offset = unat (item_y q * cols t + item_x q) in
     andthen (fetch (cell_map (screen t)) offset) (\<lambda>m.
     case m of
       None \<Rightarrow> Inr t
     | Some _ \<Rightarrow>
         andthen (plot_char (item_c q) (item_x q) (item_y q) t) (\<lambda>t.
         andthen (put (grid (screen t)) offset (item_c q)) (\<lambda>g.
         andthen (put (cell_map (screen t)) offset None) (\<lambda>ms.
         Inr (on_screen (\<lambda>f. f\<lparr>grid := g, cell_map := ms\<rparr>) t))))))"

text \<open>The cell where the cursor was drawn before is drawn again.\<close>

definition redraw_old_cursor :: "fb_terminal \<Rightarrow> fb_terminal res" where
  "redraw_old_cursor t =
     (let f = screen t; x = old_cursor_x f; y = old_cursor_y f in
      if ((x \<noteq> cursor_x f \<or> y \<noteq> cursor_y f) \<or> \<not> cursor_enabled t) \<and> x < cols t \<and> y < rows t then
        andthen (fetch (grid f) (unat (x + y * cols t))) (\<lambda>c. plot_char c x y t)
      else Inr t)"

definition flanterm_fb_double_buffer_flush :: "fb_terminal \<Rightarrow> fb_terminal res" where
  "flanterm_fb_double_buffer_flush t =
     andthen (if cursor_enabled t then draw_cursor t else Inr t) (\<lambda>t.
     andthen (for_upto 0 (unat (queue_i (screen t))) flush_item t) (\<lambda>t.
     andthen (redraw_old_cursor t) (\<lambda>t.
     Inr (on_screen (\<lambda>f. f\<lparr>old_cursor_x := cursor_x f, old_cursor_y := cursor_y f, queue_i := 0\<rparr>) t))))"

text \<open>The step to the next line when the cursor stands behind the last column.\<close>

definition wrap_line :: "fb_terminal \<Rightarrow> fb_terminal res" where
  "wrap_line t =
     (if cols t \<le> cursor_x (screen t) \<and> (cursor_y (screen t) < scroll_bottom_margin t - 1 \<or> scroll_enabled t) then
        (let t = on_screen (\<lambda>f. f\<lparr>cursor_x := 0, cursor_y := cursor_y f + 1\<rparr>) t in
         andthen
           (if cursor_y (screen t) = scroll_bottom_margin t then
              flanterm_fb_scroll (on_screen (\<lambda>f. f\<lparr>cursor_y := cursor_y f - 1\<rparr>) t)
            else Inr t) (\<lambda>t.
         Inr (if cols t \<le> cursor_y (screen t) then on_screen (\<lambda>f. f\<lparr>cursor_y := cols t - 1\<rparr>) t else t)))
      else Inr t)"

definition flanterm_fb_raw_putchar :: "u8 \<Rightarrow> fb_terminal \<Rightarrow> fb_terminal res" where
  "flanterm_fb_raw_putchar c t =
     andthen (wrap_line t) (\<lambda>t.
     let f = screen t; ch = \<lparr>char_c = ucast c, char_fg = text_fg f, char_bg = text_bg f\<rparr> in
     push_to_queue ch (cursor_x f) (cursor_y f) (on_screen (\<lambda>f. f\<lparr>cursor_x := cursor_x f + 1\<rparr>) t))"

text \<open>The pixels behind the text: the canvas or the default background.\<close>

definition refresh_pixel :: "nat \<Rightarrow> nat \<Rightarrow> fb_context \<Rightarrow> fb_context res" where
  "refresh_pixel y x f =
     andthen (case canvas f of Some cv \<Rightarrow> fetch cv (unat (of_nat y * width f + of_nat x)) | None \<Rightarrow> Inr (default_bg f)) (\<lambda>v.
     andthen (put (framebuffer f) (unat (of_nat y * (pitch f div 4) + of_nat x)) v) (\<lambda>fb.
     Inr (f\<lparr>framebuffer := fb\<rparr>)))"

definition flanterm_fb_full_refresh :: "fb_terminal \<Rightarrow> fb_terminal res" where
  "flanterm_fb_full_refresh t =
     andthen (for_upto 0 (unat (height (screen t))) (\<lambda>y f.
         for_upto 0 (unat (width f)) (refresh_pixel y) f) (screen t)) (\<lambda>f.
     andthen (for_upto 0 (unat (rows t * cols t)) (\<lambda>i t.
         andthen (fetch (grid (screen t)) i) (\<lambda>c.
         plot_char c (of_nat i mod cols t) (of_nat i div cols t) t)) (t\<lparr>screen := f\<rparr>)) (\<lambda>t.
     if cursor_enabled t then draw_cursor t else Inr t))"

text \<open>The function pointers that \<open>flanterm_fb_init\<close> sets.\<close>

definition fb_backend :: "fb_context backend" where
  "fb_backend =
     \<lparr>raw_putchar = flanterm_fb_raw_putchar, clear = flanterm_fb_clear, set_cursor_pos = flanterm_fb_set_cursor_pos,
      get_cursor_pos = flanterm_fb_get_cursor_pos, set_text_fg = flanterm_fb_set_text_fg,
      set_text_bg = flanterm_fb_set_text_bg, set_text_fg_bright = flanterm_fb_set_text_fg_bright,
      set_text_bg_bright = flanterm_fb_set_text_bg_bright, set_text_fg_rgb = flanterm_fb_set_text_fg_rgb,
      set_text_bg_rgb = flanterm_fb_set_text_bg_rgb, set_text_fg_default = flanterm_fb_set_text_fg_default,
      set_text_bg_default = flanterm_fb_set_text_bg_default,
      set_text_fg_default_bright = flanterm_fb_set_text_fg_default_bright,
      set_text_bg_default_bright = flanterm_fb_set_text_bg_default_bright, move_character = flanterm_fb_move_character,
      scroll = flanterm_fb_scroll, revscroll = flanterm_fb_revscroll, swap_palette = flanterm_fb_swap_palette,
      save_state = flanterm_fb_save_state, restore_state = flanterm_fb_restore_state,
      double_buffer_flush = flanterm_fb_double_buffer_flush\<rparr>"

end
