(* ===== verification/Framebuffer_Cells.thy ===== *)
theory Framebuffer_Cells
  imports Framebuffer
begin

text \<open>
  The characters on the screen. \<open>view\<close> is what the screen will show when the queue is drawn; every operation
  but the flush changes the queue only, and its effect on the view is a list function: one cell, a line that
  is cleared, lines that are moved up or down.
\<close>

section \<open>Cells\<close>

text \<open>Sums and products of machine words that do not wrap around.\<close>

lemma unat_plus: "unat a + unat b < 2 ^ 64 \<Longrightarrow> unat (a + b) = unat a + unat b" for a b :: u64
  by (subst unat_add_lem [THEN iffD1]) simp_all

lemma unat_times: "unat a * unat b < 2 ^ 64 \<Longrightarrow> unat (a * b) = unat a * unat b" for a b :: u64
  by (subst unat_mult_lem [THEN iffD1]) simp_all

text \<open>The cells of \<open>n\<close> columns in a row, numbered from the top left.\<close>

lemma cell_less: "x < n \<Longrightarrow> y < m \<Longrightarrow> y * n + x < m * n" for x y m n :: nat
proof -
  assume "x < n" "y < m"
  then have "y * n + x < Suc y * n" by simp
  also have "\<dots> \<le> m * n" using \<open>y < m\<close> by (intro mult_le_mono1) simp
  finally show ?thesis .
qed

lemma cell_div_mod: "x < n \<Longrightarrow> (y * n + x) div n = y \<and> (y * n + x) mod n = x" for x y n :: nat
  by simp

lemma unat_cell:
  fixes x y C R :: u64
  assumes "x < C" and "y < R" and "unat R * unat C < 2 ^ 62"
  shows "unat (y * C + x) = unat y * unat C + unat x \<and> unat y * unat C + unat x < unat R * unat C"
proof -
  have l: "unat y * unat C + unat x < unat R * unat C"
    using assms(1,2) by (simp add: cell_less word_less_nat_alt)
  then have "unat y * unat C < 2 ^ 64" using assms(3) by simp
  then have "unat (y * C) = unat y * unat C" by (rule unat_times)
  then show ?thesis using l assms(3) unat_plus [of "y * C" x] by simp
qed

text \<open>The number of the cell of a queue entry, and the screen: what the cells show once the queue is drawn.\<close>

definition item_cell :: "u64 \<Rightarrow> queue_item \<Rightarrow> nat" where
  "item_cell C q = unat (item_y q) * unat C + unat (item_x q)"

definition view_cell :: "fb_context \<Rightarrow> nat \<Rightarrow> fb_char" where
  "view_cell f i = (case cell_map f ! i of Some k \<Rightarrow> item_c (queue f ! k) | None \<Rightarrow> grid f ! i)"

definition view :: "fb_context \<Rightarrow> fb_char list" where
  "view f = map (view_cell f) [0..<length (grid f)]"

text \<open>
  The invariant of the queue: every entry is mapped from its cell and no other cell is mapped. It is
  indexed by the first entry that is still to be drawn, which is 0 except while the queue is drawn.
\<close>

definition queue_ok :: "u64 \<Rightarrow> u64 \<Rightarrow> fb_context \<Rightarrow> bool" where
  "queue_ok R C f \<longleftrightarrow>
     length (grid f) = unat R * unat C \<and> length (cell_map f) = unat R * unat C \<and> length (queue f) = unat R * unat C
     \<and> unat R * unat C < 2 ^ 62 \<and> unat (queue_i f) \<le> unat R * unat C
     \<and> (\<forall>k < unat (queue_i f). item_x (queue f ! k) < C \<and> item_y (queue f ! k) < R
          \<and> cell_map f ! item_cell C (queue f ! k) = Some k)
     \<and> (\<forall>i < unat R * unat C. \<forall>k. cell_map f ! i = Some k \<longrightarrow> k < unat (queue_i f) \<and> item_cell C (queue f ! k) = i)"

text \<open>The states that differ in the queue only.\<close>

definition queued :: "fb_context \<Rightarrow> fb_context \<Rightarrow> bool" where
  "queued f g \<longleftrightarrow> (\<exists>qs n m. g = f\<lparr>queue := qs, queue_i := n, cell_map := m\<rparr>)"

lemma queued_refl [simp]: "queued f f"
  unfolding queued_def by (intro exI [of _ "queue f"] exI [of _ "queue_i f"] exI [of _ "cell_map f"]) simp

lemma queued_trans: "queued f g \<Longrightarrow> queued g h \<Longrightarrow> queued f h"
  unfolding queued_def by (elim exE, simp, intro exI, rule refl)

lemma length_view [simp]: "length (view f) = length (grid f)"
  by (simp add: view_def)

lemma nth_view: "i < length (grid f) \<Longrightarrow> view f ! i = view_cell f i"
  by (simp add: view_def)

lemma queue_room:
  assumes "queue_ok R C f" and "i < unat R * unat C" and "cell_map f ! i = None"
  shows "unat (queue_i f) < unat R * unat C"
proof -
  let ?at = "\<lambda>k. item_cell C (queue f ! k)"
  have "?at ` {..<unat (queue_i f)} \<subseteq> {..<unat R * unat C} - {i}"
  proof
    fix j assume "j \<in> ?at ` {..<unat (queue_i f)}"
    then obtain k where k: "k < unat (queue_i f)" "j = ?at k" by auto
    then have "item_x (queue f ! k) < C" "item_y (queue f ! k) < R" "cell_map f ! j = Some k"
      using assms(1) by (auto simp: queue_ok_def)
    then show "j \<in> {..<unat R * unat C} - {i}"
      using assms(3) k(2) by (auto simp: item_cell_def cell_less word_less_nat_alt)
  qed
  moreover have "inj_on ?at {..<unat (queue_i f)}"
  proof (rule inj_onI)
    fix k l assume "k \<in> {..<unat (queue_i f)}" "l \<in> {..<unat (queue_i f)}" "?at k = ?at l"
    then have "Some k = Some l" using assms(1) unfolding queue_ok_def by (metis lessThan_iff)
    then show "k = l" by simp
  qed
  ultimately have "card {..<unat (queue_i f)} \<le> card ({..<unat R * unat C} - {i})"
    by (intro card_inj_on_le) auto
  then show ?thesis using assms(2) by simp
qed

lemma cell_at_view:
  assumes "queue_ok R C f" and "i < unat R * unat C"
  shows "cell_at f i = Inr (view f ! i)"
proof (cases "cell_map f ! i")
  case None
  then show ?thesis using assms by (simp add: cell_at_def queue_ok_def nth_view view_cell_def)
next
  case (Some k)
  then have "k < unat (queue_i f)" using assms unfolding queue_ok_def by blast
  then have "k < length (queue f)" using assms unfolding queue_ok_def by linarith
  then show ?thesis using Some assms by (simp add: cell_at_def queue_ok_def nth_view view_cell_def)
qed

text \<open>
  \<open>shows_view\<close>: the code returns, only the queue has changed, and the screen is \<open>v\<close>.
\<close>

definition shows_view :: "fb_terminal \<Rightarrow> fb_terminal res \<Rightarrow> fb_char list \<Rightarrow> bool" where
  "shows_view t r v \<longleftrightarrow>
     (\<exists>f. r = Inr (t\<lparr>screen := f\<rparr>) \<and> queued (screen t) f \<and> queue_ok (rows t) (cols t) f \<and> view f = v)"

lemma shows_view_Inr: "queue_ok (rows t) (cols t) (screen t) \<Longrightarrow> shows_view t (Inr t) (view (screen t))"
  unfolding shows_view_def by (intro exI [of _ "screen t"]) simp

lemma shows_view_andthen:
  assumes "shows_view t r v"
    and "\<And>f. queued (screen t) f \<Longrightarrow> queue_ok (rows t) (cols t) f \<Longrightarrow> view f = v \<Longrightarrow>
      shows_view (t\<lparr>screen := f\<rparr>) (g (t\<lparr>screen := f\<rparr>)) w"
  shows "shows_view t (andthen r g) w"
proof -
  obtain f where f: "r = Inr (t\<lparr>screen := f\<rparr>)" "queued (screen t) f" "queue_ok (rows t) (cols t) f" "view f = v"
    using assms(1) by (auto simp: shows_view_def)
  from assms(2) [OF f(2-4)] f(1,2) show ?thesis
    by (auto simp: shows_view_def intro: queued_trans)
qed

text \<open>A queued character replaces the one on the screen; positions outside of it are ignored.\<close>

lemma push_to_queue_view:
  assumes ok: "queue_ok (rows t) (cols t) (screen t)"
  shows "shows_view t (push_to_queue c x y t)
    (if x < cols t \<and> y < rows t then (view (screen t))[unat y * unat (cols t) + unat x := c] else view (screen t))"
proof (cases "x < cols t \<and> y < rows t")
  case False
  then show ?thesis using shows_view_Inr [OF ok] by (auto simp: push_to_queue_def not_less)
next
  case True
  define f i n where "f = screen t" and "i = unat (y * cols t + x)" and "n = unat (rows t) * unat (cols t)"
  have i: "i = unat y * unat (cols t) + unat x" "i < n"
    using unat_cell [of x "cols t" y "rows t"] True ok by (simp_all add: i_def n_def queue_ok_def)
  have inside: "\<not> cols t \<le> x" "\<not> rows t \<le> y" using True by auto
  have len: "length (grid f) = n" "length (cell_map f) = n" "length (queue f) = n" "n < 2 ^ 62"
    using ok by (simp_all add: queue_ok_def f_def n_def)
  have items: "k < unat (queue_i f) \<Longrightarrow> item_x (queue f ! k) < cols t \<and> item_y (queue f ! k) < rows t
      \<and> cell_map f ! item_cell (cols t) (queue f ! k) = Some k" for k
    using ok by (simp add: queue_ok_def f_def)
  have cells: "cell_map f ! j = Some k \<Longrightarrow> k < unat (queue_i f) \<and> item_cell (cols t) (queue f ! k) = j" if "j < n" for j k
    using ok that by (simp add: queue_ok_def f_def n_def)
  have upper: "unat (queue_i f) \<le> n" using ok by (simp add: queue_ok_def f_def n_def)
  show ?thesis
  proof (cases "cell_map f ! i")
    case (Some k)
    define g where "g = f\<lparr>queue := (queue f)[k := (queue f ! k)\<lparr>item_c := c\<rparr>]\<rparr>"
    have k: "k < unat (queue_i f)" "item_cell (cols t) (queue f ! k) = i" "k < length (queue f)"
      using cells [OF i(2) Some] upper len(3) by auto
    have "push_to_queue c x y t = Inr (t\<lparr>screen := g\<rparr>)"
      using inside Some i len k by (simp add: push_to_queue_def f_def g_def Let_def flip: i_def)
    moreover have "queue_ok (rows t) (cols t) g"
      unfolding queue_ok_def using len items cells k upper
      by (auto simp: g_def n_def nth_list_update item_cell_def)
    moreover have "view g = (view f)[i := c]"
    proof (rule nth_equalityI)
      fix j assume "j < length (view g)"
      then have j: "j < n" using len by (simp add: g_def)
      show "view g ! j = (view f)[i := c] ! j"
      proof (cases "j = i")
        case True
        then show ?thesis using i(2) len k Some by (simp add: nth_view g_def view_cell_def)
      next
        case False
        have "l \<noteq> k" if "cell_map f ! j = Some l" for l using that cells [OF j that] k(2) False by auto
        then show ?thesis using j len False
          by (auto simp: nth_view g_def view_cell_def split: option.split)
      qed
    qed (simp add: g_def)
    moreover have "queued f g" unfolding queued_def g_def
      by (intro exI [of _ "(queue f)[k := (queue f ! k)\<lparr>item_c := c\<rparr>]"] exI [of _ "queue_i f"] exI [of _ "cell_map f"]) simp
    ultimately show ?thesis using True by (auto simp: shows_view_def f_def i(1))
  next
    case None
    then have room: "unat (queue_i f) < n" using queue_room ok i(2) by (auto simp: f_def n_def)
    show ?thesis
    proof (cases "compare_char (grid f ! i) c")
      case True': True
      then have "grid f ! i = c" by (simp add: compare_char_def)
      then have "(view f)[i := c] = view f"
        using i(2) len None by (metis list_update_id nth_view option.simps(4) view_cell_def)
      moreover have "push_to_queue c x y t = Inr t"
        using inside None i len True' by (simp add: push_to_queue_def Let_def flip: i_def f_def)
      ultimately show ?thesis using True shows_view_Inr [OF ok] by (simp add: f_def i(1))
    next
      case False
      define q where "q = unat (queue_i f)"
      define g where "g = f\<lparr>queue := (queue f)[q := \<lparr>item_x = x, item_y = y, item_c = c\<rparr>], queue_i := queue_i f + 1,
        cell_map := (cell_map f)[i := Some q]\<rparr>"
      have "push_to_queue c x y t = Inr (t\<lparr>screen := g\<rparr>)"
        using inside None i len False room by (simp add: push_to_queue_def f_def g_def q_def Let_def flip: i_def)
      moreover have q: "unat (queue_i g) = Suc q"
        using room len(4) unat_plus [of "queue_i f" 1] by (simp add: g_def q_def)
      have ij: "item_cell (cols t) (queue f ! k) \<noteq> i" if "k < q" for k
        using items [of k] that None by (auto simp: q_def)
      have "queue_ok (rows t) (cols t) g"
        unfolding queue_ok_def q n_def [symmetric]
      proof (intro conjI allI impI)
        fix k assume "k < Suc q"
        have "queue g ! k = (if k = q then \<lparr>item_x = x, item_y = y, item_c = c\<rparr> else queue f ! k)"
          using room len by (simp add: g_def q_def nth_list_update)
        moreover have "item_cell (cols t) \<lparr>item_x = x, item_y = y, item_c = c\<rparr> = i" by (simp add: item_cell_def i(1))
        moreover have "k \<noteq> q \<Longrightarrow> k < q" using \<open>k < Suc q\<close> by simp
        ultimately show "item_x (queue g ! k) < cols t" "item_y (queue g ! k) < rows t"
          "cell_map g ! item_cell (cols t) (queue g ! k) = Some k"
          using items [of k] ij [of k] True i(2) len by (auto simp: g_def q_def)
      next
        fix j k assume j: "j < n" "cell_map g ! j = Some k"
        show "k < Suc q" "item_cell (cols t) (queue g ! k) = j"
          using j cells [OF j(1), of k] i len room by (auto simp: g_def q_def item_cell_def nth_list_update split: if_splits)
      qed (use len room in \<open>simp_all add: g_def q_def\<close>)
      moreover have "view g = (view f)[i := c]"
      proof (rule nth_equalityI)
        fix j assume "j < length (view g)"
        then have j: "j < n" using len by (simp add: g_def)
        show "view g ! j = (view f)[i := c] ! j"
        proof (cases "j = i")
          case True
          then show ?thesis using i(2) len room by (simp add: nth_view g_def view_cell_def q_def)
        next
          case False
          have "l \<noteq> q" if "cell_map f ! j = Some l" for l using that cells [OF j that] by (simp add: q_def)
          then show ?thesis using j len False
            by (auto simp: nth_view g_def view_cell_def split: option.split)
        qed
      qed (simp add: g_def)
      moreover have "queued f g" unfolding queued_def g_def by blast
      ultimately show ?thesis using True by (auto simp: shows_view_def f_def i(1))
    qed
  qed
qed

lemma shows_view_for_upto:
  assumes "queue_ok (rows t) (cols t) (screen t)" and "view (screen t) = v i"
    and "\<And>k f. i \<le> k \<Longrightarrow> k < i + n \<Longrightarrow> queued (screen t) f \<Longrightarrow> queue_ok (rows t) (cols t) f \<Longrightarrow> view f = v k \<Longrightarrow>
      shows_view (t\<lparr>screen := f\<rparr>) (body k (t\<lparr>screen := f\<rparr>)) (v (Suc k))"
  shows "shows_view t (for_upto i n body t) (v (i + n))"
  using assms
proof (induction n arbitrary: i t)
  case 0
  then show ?case using shows_view_Inr [of t] by simp
next
  case (Suc n)
  have "shows_view t (body i t) (v (Suc i))"
    using Suc.prems(3) [of i "screen t"] Suc.prems(1,2) by simp
  then show ?case
  proof (simp only: for_upto.simps, elim shows_view_andthen)
    fix f assume f: "queued (screen t) f" "queue_ok (rows t) (cols t) f" "view f = v (Suc i)"
    have "shows_view (t\<lparr>screen := f\<rparr>) (for_upto (Suc i) n body (t\<lparr>screen := f\<rparr>)) (v (Suc i + n))"
    proof (rule Suc.IH)
      fix k g assume k: "Suc i \<le> k" "k < Suc i + n" "queued (screen (t\<lparr>screen := f\<rparr>)) g"
        "queue_ok (rows (t\<lparr>screen := f\<rparr>)) (cols (t\<lparr>screen := f\<rparr>)) g" "view g = v k"
      then show "shows_view (t\<lparr>screen := f, screen := g\<rparr>) (body k (t\<lparr>screen := f, screen := g\<rparr>)) (v (Suc k))"
        using Suc.prems(3) [of k g] queued_trans [OF f(1)] by simp
    qed (use f in simp_all)
    then show "shows_view (t\<lparr>screen := f\<rparr>) (for_upto (Suc i) n body (t\<lparr>screen := f\<rparr>)) (v (i + Suc n))" by simp
  qed
qed

text \<open>What the operations do to the screen, on the numbers of the cells.\<close>

definition filled :: "nat \<Rightarrow> nat \<Rightarrow> fb_char \<Rightarrow> fb_char list \<Rightarrow> fb_char list" where
  "filled a b e v = map (\<lambda>j. if a \<le> j \<and> j < b then e else v ! j) [0..<length v]"

definition scrolled :: "nat \<Rightarrow> nat \<Rightarrow> nat \<Rightarrow> fb_char \<Rightarrow> fb_char list \<Rightarrow> fb_char list" where
  "scrolled first bottom n e v =
     filled ((bottom - 1) * n) (bottom * n) e
       (map (\<lambda>j. if first * n \<le> j \<and> j < (bottom - 1) * n then v ! (j + n) else v ! j) [0..<length v])"

definition revscrolled :: "nat \<Rightarrow> nat \<Rightarrow> nat \<Rightarrow> fb_char \<Rightarrow> fb_char list \<Rightarrow> fb_char list" where
  "revscrolled first bottom n e v =
     filled (first * n) (first * n + n) e
       (map (\<lambda>j. if first * n + n \<le> j \<and> j < bottom * n then v ! (j - n) else v ! j) [0..<length v])"

lemma length_filled [simp]: "length (filled a b e v) = length v"
  "length (scrolled first bottom n e v) = length v" "length (revscrolled first bottom n e v) = length v"
  by (simp_all add: filled_def scrolled_def revscrolled_def)

lemma filled_step: "(filled a b e v)[b := e] = filled a (Suc b) e v" if "a \<le> b"
proof (rule nth_equalityI)
  fix i assume "i < length ((filled a b e v)[b := e])"
  then show "(filled a b e v)[b := e] ! i = filled a (Suc b) e v ! i"
    using that by (cases "i = b") (auto simp: filled_def)
qed simp

lemma filled_empty: "filled a a e v = v"
  by (rule nth_equalityI) (auto simp: filled_def)

lemma set_filled: "set (filled a b e v) \<subseteq> insert e (set v)"
  by (auto simp: filled_def)

lemma set_scrolled: "bottom * n \<le> length v \<Longrightarrow> set (scrolled first bottom n e v) \<subseteq> insert e (set v)"
proof -
  assume b: "bottom * n \<le> length v"
  have "v ! (j + n) \<in> set v" if "j < (bottom - 1) * n" for j
  proof -
    have "j + n < (bottom - 1) * n + n" using that by simp
    also have "\<dots> \<le> length v" using b that by (cases bottom) auto
    finally show ?thesis by simp
  qed
  then show ?thesis unfolding scrolled_def by (intro subset_trans [OF set_filled]) auto
qed

lemma set_revscrolled: "set (revscrolled first bottom n e v) \<subseteq> insert e (set v)"
  unfolding revscrolled_def by (intro subset_trans [OF set_filled]) auto

lemma cell_of_number:
  fixes C :: u64
  assumes "i < 2 ^ 62" and "0 < C" and "unat C \<le> 2 ^ 62"
  shows "unat (of_nat i mod C) = i mod unat C" "unat (of_nat i div C) = i div unat C"
    "unat ((of_nat i + C) mod C) = i mod unat C" "unat ((of_nat i + C) div C) = i div unat C + 1"
    "unat C \<le> i \<Longrightarrow> unat ((of_nat i - C) mod C) = i mod unat C"
    "unat C \<le> i \<Longrightarrow> unat ((of_nat i - C) div C) = i div unat C - 1"
proof -
  have C: "0 < unat C" using assms(2) by (simp add: word_less_nat_alt)
  have i: "unat (of_nat i :: u64) = i" using assms(1) by (simp add: unat_of_nat_u64)
  have s: "unat (of_nat i + C) = i + unat C" using assms unat_plus [of "of_nat i" C] i by simp
  have d: "unat (of_nat i - C) = i - unat C" if "unat C \<le> i" using that i by (simp add: unat_sub word_le_nat_alt)
  show "unat (of_nat i mod C) = i mod unat C" "unat (of_nat i div C) = i div unat C"
    "unat ((of_nat i + C) mod C) = i mod unat C" "unat ((of_nat i + C) div C) = i div unat C + 1"
    using C div_add_self2 [of "unat C" i] by (simp_all add: unat_mod unat_div i s)
  show "unat ((of_nat i - C) mod C) = i mod unat C" if "unat C \<le> i"
    using that C by (simp add: unat_mod d) (metis le_mod_geq)
  show "unat ((of_nat i - C) div C) = i div unat C - 1" if "unat C \<le> i"
    using that C le_div_geq [of "unat C" i] by (simp add: unat_div d)
qed

lemma clear_line_view:
  assumes ok: "queue_ok (rows t) (cols t) (screen t)" and y: "y < rows t"
  shows "shows_view t (clear_line y t)
    (filled (unat y * unat (cols t)) (unat y * unat (cols t) + unat (cols t)) (empty_char (screen t)) (view (screen t)))"
proof -
  define a n e where "a = unat y * unat (cols t)" and "n = unat (cols t)" and "e = empty_char (screen t)"
  have "shows_view t (for_upto 0 n (\<lambda>i. push_to_queue e (of_nat i) y) t) (filled a (a + (0 + n)) e (view (screen t)))"
  proof (rule shows_view_for_upto [OF ok, of "\<lambda>k. filled a (a + k) e (view (screen t))"])
    fix k f assume k: "0 \<le> k" "k < 0 + n" "queue_ok (rows t) (cols t) f" "view f = filled a (a + k) e (view (screen t))"
    have "unat (of_nat k :: u64) = k" using k(2) unat_u64_less [of "cols t"] by (simp add: n_def unat_of_nat_u64)
    then have "of_nat k < cols t" "(unat y * unat (cols t) + unat (of_nat k :: u64)) = a + k"
      using k(2) by (simp_all add: word_less_nat_alt n_def a_def)
    then show "shows_view (t\<lparr>screen := f\<rparr>) (push_to_queue e (of_nat k) y (t\<lparr>screen := f\<rparr>)) (filled a (a + Suc k) e (view (screen t)))"
      using push_to_queue_view [of "t\<lparr>screen := f\<rparr>" e "of_nat k" y] k(3,4) y by (simp add: filled_step)
  qed (simp add: filled_empty)
  then show ?thesis by (simp add: clear_line_def Let_def a_def n_def e_def)
qed

lemma queue_ok_bounds:
  assumes "queue_ok R C f"
  shows "unat R * unat C < 2 ^ 62" and "0 < R \<Longrightarrow> unat C < 2 ^ 62" and "length (grid f) = unat R * unat C"
proof -
  show a: "unat R * unat C < 2 ^ 62" "length (grid f) = unat R * unat C" using assms by (simp_all add: queue_ok_def)
  assume "0 < R"
  then have "unat C \<le> unat R * unat C" by (simp add: word_less_nat_alt)
  then show "unat C < 2 ^ 62" using a(1) by (rule le_less_trans)
qed

text \<open>A cell's coordinates, from its number.\<close>

lemma push_to_cell:
  assumes ok: "queue_ok (rows t) (cols t) (screen t)" and "0 < cols t"
    and "unat x = i mod unat (cols t)" and "unat y = i div unat (cols t)" and "i < unat (rows t) * unat (cols t)"
  shows "shows_view t (push_to_queue c x y t) ((view (screen t))[i := c])"
proof -
  have C: "0 < unat (cols t)" using assms(2) by (simp add: word_less_nat_alt)
  have "x < cols t" "y < rows t"
    using assms(3-5) C by (simp_all add: word_less_nat_alt less_mult_imp_div_less)
  then show ?thesis using push_to_queue_view [OF ok, of c x y] assms(3,4) by simp
qed

text \<open>The margins as numbers.\<close>

lemma margin_cells:
  assumes ok: "queue_ok (rows t) (cols t) (screen t)" and r: "ready I t"
  shows "0 < unat (cols t)" "0 < unat (scroll_bottom_margin t)"
    "unat (scroll_bottom_margin t) * unat (cols t) \<le> unat (rows t) * unat (cols t)"
    "unat (scroll_top_margin t) * unat (cols t) + unat (cols t) \<le> unat (rows t) * unat (cols t)"
    "unat ((scroll_top_margin t + 1) * cols t) = unat (scroll_top_margin t) * unat (cols t) + unat (cols t)"
    "unat (scroll_top_margin t * cols t) = unat (scroll_top_margin t) * unat (cols t)"
    "unat (scroll_bottom_margin t * cols t) = unat (scroll_bottom_margin t) * unat (cols t)"
    "unat ((scroll_bottom_margin t - 1) * cols t) = (unat (scroll_bottom_margin t) - 1) * unat (cols t)"
    "unat (scroll_bottom_margin t - 1) = unat (scroll_bottom_margin t) - 1"
proof -
  show p: "0 < unat (cols t)" "0 < unat (scroll_bottom_margin t)"
    using r by (simp_all add: ready_def word_less_nat_alt)
  have b: "unat (scroll_bottom_margin t) \<le> unat (rows t)" "Suc (unat (scroll_top_margin t)) \<le> unat (rows t)"
    using r by (simp_all add: ready_def word_less_nat_alt word_le_nat_alt)
  have N: "unat (rows t) * unat (cols t) < 2 ^ 64" using queue_ok_bounds(1) [OF ok] by simp
  show m: "unat (scroll_bottom_margin t) * unat (cols t) \<le> unat (rows t) * unat (cols t)"
    using b(1) by (rule mult_le_mono1)
  have "Suc (unat (scroll_top_margin t)) * unat (cols t) \<le> unat (rows t) * unat (cols t)"
    using b(2) by (rule mult_le_mono1)
  then show m': "unat (scroll_top_margin t) * unat (cols t) + unat (cols t) \<le> unat (rows t) * unat (cols t)" by simp
  show "unat (scroll_bottom_margin t - 1) = unat (scroll_bottom_margin t) - 1"
    using p(2) by (simp add: unat_pred word_less_nat_alt)
  have top: "unat (scroll_top_margin t + 1) = Suc (unat (scroll_top_margin t))"
    using b(2) unat_u64_less [of "rows t"] unat_plus [of "scroll_top_margin t" 1] by simp
  show "unat ((scroll_top_margin t + 1) * cols t) = unat (scroll_top_margin t) * unat (cols t) + unat (cols t)"
    using unat_times [of "scroll_top_margin t + 1" "cols t"] m' N by (simp add: top)
  show "unat (scroll_top_margin t * cols t) = unat (scroll_top_margin t) * unat (cols t)"
    by (rule unat_times) (use m' N in linarith)
  show "unat (scroll_bottom_margin t * cols t) = unat (scroll_bottom_margin t) * unat (cols t)"
    by (rule unat_times) (use m N in linarith)
  have "(unat (scroll_bottom_margin t) - 1) * unat (cols t) \<le> unat (scroll_bottom_margin t) * unat (cols t)"
    by (rule mult_le_mono1) simp
  then show "unat ((scroll_bottom_margin t - 1) * cols t) = (unat (scroll_bottom_margin t) - 1) * unat (cols t)"
    using le_less_trans [OF order_trans [OF _ m] N] unat_times [of "scroll_bottom_margin t - 1" "cols t"] p(2)
    by (simp add: unat_pred word_less_nat_alt)
qed

lemma queued_fields:
  "queued f g \<Longrightarrow> text_fg g = text_fg f \<and> text_bg g = text_bg f \<and> grid g = grid f \<and> framebuffer g = framebuffer f
     \<and> cursor_x g = cursor_x f \<and> cursor_y g = cursor_y f \<and> empty_char g = empty_char f"
  by (auto simp: queued_def empty_char_def)

lemma scroll_view:
  assumes ok: "queue_ok (rows t) (cols t) (screen t)" and r: "ready I t"
  shows "shows_view t (flanterm_fb_scroll t)
    (scrolled (unat (scroll_top_margin t)) (unat (scroll_bottom_margin t)) (unat (cols t)) (empty_char (screen t)) (view (screen t)))"
proof -
  define n p b N where "n = unat (cols t)" and "p = unat (scroll_top_margin t)" and "b = unat (scroll_bottom_margin t)"
    and "N = unat (rows t) * unat (cols t)"
  define v e where "v = view (screen t)" and "e = empty_char (screen t)"
  define w where "w k = map (\<lambda>j. if p * n \<le> j \<and> j + n < k then v ! (j + n) else v ! j) [0..<length v]" for k
  note m = margin_cells [OF ok r, folded n_def p_def b_def N_def]
  have bd: "N < 2 ^ 62" "n \<le> 2 ^ 62" "length v = N"
    using queue_ok_bounds [OF ok] r by (simp_all add: ready_def N_def n_def v_def)
  have step: "(w k)[k - n := v ! k] = w (Suc k)" if "p * n + n \<le> k" for k
    by (rule nth_equalityI) (use that in \<open>auto simp: w_def nth_list_update less_Suc_eq\<close>)
  have "shows_view t (for_upto (p * n + n) (b * n - (p * n + n)) (\<lambda>i t.
          andthen (cell_at (screen t) i) (\<lambda>c.
          push_to_queue c ((of_nat i - cols t) mod cols t) ((of_nat i - cols t) div cols t) t)) t)
      (w ((p * n + n) + (b * n - (p * n + n))))"
  proof (rule shows_view_for_upto [OF ok])
    show "view (screen t) = w (p * n + n)"
      by (rule nth_equalityI) (auto simp: w_def v_def)
    fix k f assume k: "p * n + n \<le> k" "k < p * n + n + (b * n - (p * n + n))"
      "queue_ok (rows t) (cols t) f" "view f = w k"
    have kN: "k < N" using k(2) m(3) k(1) by linarith
    have "view f ! k = v ! k" using k(1,4) kN bd(3) by (simp add: w_def)
    then have c: "cell_at f k = Inr (v ! k)" using cell_at_view [OF k(3)] kN by (simp add: N_def)
    have k2: "k < 2 ^ 62" "unat (cols t) \<le> k" using kN bd(1) k(1) by (auto simp: n_def)
    have nk: "unat (cols t) = n" by (simp add: n_def)
    have cell: "(k - n) mod n = k mod n" "(k - n) div n = k div n - 1" 
      using k2(2) m(1) le_div_geq [of n k] le_mod_geq [of n k] by (simp_all add: n_def)
    have "shows_view (t\<lparr>screen := f\<rparr>) (push_to_queue (v ! k) ((of_nat k - cols t) mod cols t) ((of_nat k - cols t) div cols t)
        (t\<lparr>screen := f\<rparr>)) ((view f)[k - n := v ! k])"
      using push_to_cell [of "t\<lparr>screen := f\<rparr>" "(of_nat k - cols t) mod cols t" "k - n" "(of_nat k - cols t) div cols t" "v ! k"]
        k(3) kN m(1) cell_of_number(5,6) [OF k2(1) _ _ k2(2)] bd(2) cell
      by (simp add: n_def N_def word_less_nat_alt)
    then show "shows_view (t\<lparr>screen := f\<rparr>) (andthen (cell_at (screen (t\<lparr>screen := f\<rparr>)) k) (\<lambda>c.
          push_to_queue c ((of_nat k - cols (t\<lparr>screen := f\<rparr>)) mod cols (t\<lparr>screen := f\<rparr>))
            ((of_nat k - cols (t\<lparr>screen := f\<rparr>)) div cols (t\<lparr>screen := f\<rparr>)) (t\<lparr>screen := f\<rparr>))) (w (Suc k))"
      using c step [OF k(1)] by (simp add: k(4))
  qed
  then show ?thesis
    unfolding flanterm_fb_scroll_def Let_def m(5,7) 
  proof (rule shows_view_andthen)
    fix f assume f: "queued (screen t) f" "queue_ok (rows t) (cols t) f" "view f = w (p * n + n + (b * n - (p * n + n)))"
    have "unat (scroll_bottom_margin t - 1) = b - 1" "scroll_bottom_margin t - 1 < rows t"
      using m(2,9) r by (auto simp: ready_def word_less_nat_alt word_le_nat_alt b_def)
    then have "shows_view (t\<lparr>screen := f\<rparr>) (clear_line (scroll_bottom_margin t - 1) (t\<lparr>screen := f\<rparr>))
        (filled ((b - 1) * n) ((b - 1) * n + n) e (view f))"
      using clear_line_view [of "t\<lparr>screen := f\<rparr>" "scroll_bottom_margin t - 1"] f(2) queued_fields [OF f(1)]
      by (simp add: n_def e_def)
    moreover have "(b - 1) * n + n = b * n" using m(2) by (cases b) auto
    moreover have "w (p * n + n + (b * n - (p * n + n))) =
        map (\<lambda>j. if p * n \<le> j \<and> j < (b - 1) * n then v ! (j + n) else v ! j) [0..<length v]"
      unfolding w_def using calculation(2) by (intro map_cong) auto
    ultimately show "shows_view (t\<lparr>screen := f\<rparr>) (clear_line (scroll_bottom_margin (t\<lparr>screen := f\<rparr>) - 1) (t\<lparr>screen := f\<rparr>))
        (scrolled (unat (scroll_top_margin t)) (unat (scroll_bottom_margin t)) (unat (cols t)) (empty_char (screen t)) (view (screen t)))"
      unfolding scrolled_def f(3) n_def p_def b_def e_def v_def by (simp del: length_view)
  qed
qed

lemma revscroll_cells_view:
  assumes "queue_ok (rows t) (cols t) (screen t)" and "0 < cols t" and "unat (cols t) \<le> 2 ^ 62"
    and "i + unat (cols t) \<le> unat (rows t) * unat (cols t)"
  shows "shows_view t (revscroll_cells lo i t)
    (map (\<lambda>j. if lo + unat (cols t) \<le> j \<and> j < i + unat (cols t) then view (screen t) ! (j - unat (cols t)) else view (screen t) ! j)
      [0..<length (view (screen t))])"
  using assms
proof (induction i arbitrary: t)
  case 0
  have "map (\<lambda>j. if lo + unat (cols t) \<le> j \<and> j < 0 + unat (cols t) then view (screen t) ! (j - unat (cols t)) else view (screen t) ! j)
      [0..<length (view (screen t))] = view (screen t)" by (rule nth_equalityI) auto
  then show ?case using shows_view_Inr [OF "0.prems"(1)] by (simp del: length_view)
next
  case (Suc i)
  define n v N where "n = unat (cols t)" and "v = view (screen t)" and "N = unat (rows t) * unat (cols t)"
  define w where "w v k = map (\<lambda>j. if lo + n \<le> j \<and> j < k + n then v ! (j - n) else v ! j) [0..<length v]" for k and v :: "fb_char list"
  have bd: "N < 2 ^ 62" "length v = N" "i + n < N" "0 < n"
    using Suc.prems queue_ok_bounds [OF Suc.prems(1)] by (simp_all add: n_def v_def N_def word_less_nat_alt)
  show ?case
  proof (cases "lo \<le> i")
    case False
    then have "w v (Suc i) = v" unfolding w_def by (intro nth_equalityI) auto
    then show ?thesis
      using False shows_view_Inr [OF Suc.prems(1)] unfolding w_def v_def n_def by (simp del: length_view)
  next
    case True
    have c: "cell_at (screen t) i = Inr (v ! i)" using cell_at_view [OF Suc.prems(1)] bd by (simp add: N_def v_def)
    have "shows_view t (push_to_queue (v ! i) ((of_nat i + cols t) mod cols t) ((of_nat i + cols t) div cols t) t) (v[i + n := v ! i])"
      using push_to_cell [OF Suc.prems(1,2), of "(of_nat i + cols t) mod cols t" "i + n" "(of_nat i + cols t) div cols t" "v ! i"]
        cell_of_number(3,4) [OF _ Suc.prems(2,3), of i] bd div_add_self2 [of n i] by (simp add: n_def v_def N_def)
    then have "shows_view t (andthen (push_to_queue (v ! i) ((of_nat i + cols t) mod cols t) ((of_nat i + cols t) div cols t) t)
        (revscroll_cells lo i)) (w (v[i + n := v ! i]) i)"
    proof (rule shows_view_andthen)
      fix f assume f: "queued (screen t) f" "queue_ok (rows t) (cols t) f" "view f = v[i + n := v ! i]"
      show "shows_view (t\<lparr>screen := f\<rparr>) (revscroll_cells lo i (t\<lparr>screen := f\<rparr>)) (w (v[i + n := v ! i]) i)"
        using Suc.IH [of "t\<lparr>screen := f\<rparr>"] f(2,3) Suc.prems(2-4)
        unfolding w_def n_def by (simp del: length_view cong: if_cong)
    qed
    moreover have "w (v[i + n := v ! i]) i = w v (Suc i)"
      unfolding w_def using True bd by (intro nth_equalityI) (auto simp: nth_list_update less_Suc_eq)
    ultimately have "shows_view t (revscroll_cells lo (Suc i) t) (w v (Suc i))" using True c by simp
    then show ?thesis unfolding w_def v_def n_def by simp
  qed
qed

lemma revscroll_view:
  assumes ok: "queue_ok (rows t) (cols t) (screen t)" and r: "ready I t"
  shows "shows_view t (flanterm_fb_revscroll t)
    (revscrolled (unat (scroll_top_margin t)) (unat (scroll_bottom_margin t)) (unat (cols t)) (empty_char (screen t)) (view (screen t)))"
proof -
  define n p b where "n = unat (cols t)" and "p = unat (scroll_top_margin t)" and "b = unat (scroll_bottom_margin t)"
  define v e where "v = view (screen t)" and "e = empty_char (screen t)"
  note m = margin_cells [OF ok r, folded n_def p_def b_def]
  have bn: "(b - 1) * n + n = b * n" using m(2) by (cases b) auto
  have "shows_view t (revscroll_cells (p * n) ((b - 1) * n) t)
    (map (\<lambda>j. if p * n + n \<le> j \<and> j < b * n then v ! (j - n) else v ! j) [0..<length v])"
    using revscroll_cells_view [OF ok, of "(b - 1) * n" "p * n"] r queue_ok_bounds(2) [OF ok] m(3) bn
    unfolding n_def v_def by (simp add: ready_def less_imp_le del: length_view)
  then show ?thesis
    unfolding flanterm_fb_revscroll_def m(6,8)
  proof (rule shows_view_andthen)
    fix f assume f: "queued (screen t) f" "queue_ok (rows t) (cols t) f"
      "view f = map (\<lambda>j. if p * n + n \<le> j \<and> j < b * n then v ! (j - n) else v ! j) [0..<length v]"
    have "shows_view (t\<lparr>screen := f\<rparr>) (clear_line (scroll_top_margin t) (t\<lparr>screen := f\<rparr>)) (filled (p * n) (p * n + n) e (view f))"
      using clear_line_view [of "t\<lparr>screen := f\<rparr>" "scroll_top_margin t"] f(2) queued_fields [OF f(1)] r
      by (simp add: n_def e_def p_def ready_def)
    then show "shows_view (t\<lparr>screen := f\<rparr>) (clear_line (scroll_top_margin (t\<lparr>screen := f\<rparr>)) (t\<lparr>screen := f\<rparr>))
        (revscrolled (unat (scroll_top_margin t)) (unat (scroll_bottom_margin t)) (unat (cols t)) (empty_char (screen t)) (view (screen t)))"
      unfolding revscrolled_def f(3) n_def p_def b_def e_def v_def by (simp del: length_view)
  qed
qed

lemma clear_view:
  assumes ok: "queue_ok (rows t) (cols t) (screen t)" and r: "ready I t"
  shows "shows_view t (flanterm_fb_clear False t) (replicate (unat (rows t) * unat (cols t)) (empty_char (screen t)))"
proof -
  define N v e where "N = unat (rows t) * unat (cols t)" and "v = view (screen t)" and "e = empty_char (screen t)"
  note q = queue_ok_bounds [OF ok]
  have bd: "N < 2 ^ 62" "unat (cols t) \<le> 2 ^ 62" "length v = N" "0 < cols t"
    using q r by (simp_all add: ready_def N_def v_def)
  have "unat (rows t * cols t) = N" using unat_times [of "rows t" "cols t"] bd(1) by (simp add: N_def)
  moreover have "shows_view t (for_upto 0 N (\<lambda>i t. push_to_queue e (of_nat i mod cols t) (of_nat i div cols t) t) t) (filled 0 (0 + N) e v)"
  proof (rule shows_view_for_upto [OF ok])
    fix k f assume k: "0 \<le> k" "k < 0 + N" "queue_ok (rows t) (cols t) f" "view f = filled 0 k e v"
    then show "shows_view (t\<lparr>screen := f\<rparr>) (push_to_queue e (of_nat k mod cols (t\<lparr>screen := f\<rparr>)) (of_nat k div cols (t\<lparr>screen := f\<rparr>)) (t\<lparr>screen := f\<rparr>)) (filled 0 (Suc k) e v)"
      using push_to_cell [of "t\<lparr>screen := f\<rparr>" "of_nat k mod cols t" k "of_nat k div cols t" e] cell_of_number(1,2) [of k "cols t"] bd
      by (simp add: N_def filled_step)
  qed (simp add: filled_empty v_def)
  moreover have "filled 0 N e v = replicate N e" by (rule nth_equalityI) (simp_all add: filled_def bd(3))
  ultimately show ?thesis
    by (auto simp: flanterm_fb_clear_def Let_def shows_view_def N_def e_def)
qed

lemma move_character_view:
  assumes ok: "queue_ok (rows t) (cols t) (screen t)"
  shows "shows_view t (flanterm_fb_move_character nx ny ox oy t)
    (if nx < cols t \<and> ny < rows t \<and> ox < cols t \<and> oy < rows t
     then (view (screen t))[unat ny * unat (cols t) + unat nx := view (screen t) ! (unat oy * unat (cols t) + unat ox)]
     else view (screen t))"
proof (cases "nx < cols t \<and> ny < rows t \<and> ox < cols t \<and> oy < rows t")
  case True
  then have "unat (ox + oy * cols t) = unat oy * unat (cols t) + unat ox"
    "unat oy * unat (cols t) + unat ox < unat (rows t) * unat (cols t)"
    using unat_cell [of ox "cols t" oy "rows t"] queue_ok_bounds(1) [OF ok] by (simp_all add: add.commute)
  then show ?thesis
    using True cell_at_view [OF ok] push_to_queue_view [OF ok, of _ nx ny]
    by (simp add: flanterm_fb_move_character_def not_le [symmetric])
next
  case False
  then show ?thesis using shows_view_Inr [OF ok] by (auto simp: flanterm_fb_move_character_def not_less)
qed

end
