(* ===== verification/Framebuffer_Pixels.thy ===== *)
theory Framebuffer_Pixels
  imports Framebuffer_Cells
begin

section \<open>Pixels\<close>

text \<open>
  The glyphs fit: every cell lies inside the visible part of the frame buffer, the font has 256 glyphs,
  and nothing wraps around.
\<close>

definition geo_ok :: "u64 \<Rightarrow> u64 \<Rightarrow> fb_context \<Rightarrow> bool" where
  "geo_ok R C f \<longleftrightarrow>
     unat (width f) \<le> unat (pitch f div 4) \<and> unat (pitch f div 4) < 2 ^ 30 \<and> unat (height f) < 2 ^ 30
     \<and> unat (height f) * unat (pitch f div 4) + unat (width f) \<le> length (framebuffer f) + unat (pitch f div 4)
     \<and> unat (offset_x f) + unat C * unat (glyph_width f) \<le> unat (width f)
     \<and> unat (offset_y f) + unat R * unat (glyph_height f) \<le> unat (height f)
     \<and> unat (glyph_width f) = unat (font_width f) * unat (font_scale_x f)
     \<and> unat (glyph_height f) = unat (font_height f) * unat (font_scale_y f)
     \<and> 0 < font_scale_x f \<and> 0 < font_scale_y f \<and> unat (font_height f) \<le> 256
     \<and> 256 * unat (font_height f) * unat (font_width f) \<le> length (font_bool f)
     \<and> (case canvas f of Some cv \<Rightarrow> unat (height f) * unat (width f) \<le> length cv | None \<Rightarrow> True)"

text \<open>The colour of a pixel of a glyph whose top left corner is at column \<open>X\<close> and row \<open>Y\<close>.\<close>

definition glyph_bit :: "fb_context \<Rightarrow> fb_char \<Rightarrow> nat \<Rightarrow> nat \<Rightarrow> bool" where
  "glyph_bit f c gx gy =
     font_bool f ! ((unat (char_c c) * unat (font_height f) + gy div unat (font_scale_y f)) * unat (font_width f)
       + gx div unat (font_scale_x f))"

definition tone :: "fb_context \<Rightarrow> nat \<Rightarrow> nat \<Rightarrow> u32 \<Rightarrow> u32" where
  "tone f a b v =
     (if v = 0xffffffff then (case canvas f of Some cv \<Rightarrow> cv ! (b * unat (width f) + a) | None \<Rightarrow> default_bg f) else v)"

definition glyph_pixel :: "fb_context \<Rightarrow> fb_char \<Rightarrow> nat \<Rightarrow> nat \<Rightarrow> nat \<Rightarrow> nat \<Rightarrow> u32" where
  "glyph_pixel f c X Y a b = tone f a b (if glyph_bit f c (a - X) (b - Y) then char_fg c else char_bg c)"

definition pixel :: "fb_context \<Rightarrow> nat \<Rightarrow> nat \<Rightarrow> u32" where
  "pixel f a b = framebuffer f ! (b * unat (pitch f div 4) + a)"

text \<open>\<open>drawn f A V g\<close>: of all of \<open>f\<close>, only the pixels of the area \<open>A\<close> have changed; they have the colours \<open>V\<close>.\<close>

definition drawn :: "fb_context \<Rightarrow> (nat \<Rightarrow> nat \<Rightarrow> bool) \<Rightarrow> (nat \<Rightarrow> nat \<Rightarrow> u32) \<Rightarrow> fb_context \<Rightarrow> bool" where
  "drawn f A V g \<longleftrightarrow>
     (\<exists>fb. g = f\<lparr>framebuffer := fb\<rparr> \<and> length fb = length (framebuffer f))
     \<and> (\<forall>a b. a < unat (pitch f div 4) \<longrightarrow> b < unat (height f) \<longrightarrow> pixel g a b = (if A a b then V a b else pixel f a b))"

lemma drawn_fields:
  assumes "drawn f A V g"
  shows "width g = width f" "pitch g = pitch f" "height g = height f" "font_bool g = font_bool f" "canvas g = canvas f"
    "length (framebuffer g) = length (framebuffer f)" "default_bg g = default_bg f"
  using assms by (auto simp: drawn_def)

lemma drawn_nothing: "(\<And>a b. \<not> A a b) \<Longrightarrow> drawn f A V f"
  unfolding drawn_def by (intro conjI exI [of _ "framebuffer f"]) simp_all

lemma drawn_cong: "drawn f A V g \<Longrightarrow> (\<And>a b. A a b = A' a b) \<Longrightarrow> drawn f A' V g"
  by (simp add: drawn_def)

lemma pixel_index:
  fixes x y :: u64
  assumes "unat x + unat gx < unat w" and "unat y + unat gy < h" and "unat w < 2 ^ 30" and "h < 2 ^ 30"
  shows "unat (x + (y + gy) * w + gx) = (unat y + unat gy) * unat w + (unat x + unat gx)"
    and "(unat y + unat gy) * unat w + (unat x + unat gx) < h * unat w"
proof -
  show l: "(unat y + unat gy) * unat w + (unat x + unat gx) < h * unat w"
    using assms(1,2) by (rule cell_less)
  have "h * unat w \<le> 2 ^ 30 * 2 ^ 30" using assms(3,4) by (intro mult_le_mono) auto
  then have b: "(unat y + unat gy) * unat w + (unat x + unat gx) < 2 ^ 60" using l by simp
  have s: "unat (y + gy) = unat y + unat gy" using assms(2,4) by (intro unat_plus) simp
  have m: "unat ((y + gy) * w) = (unat y + unat gy) * unat w"
    using unat_times [of "y + gy" w] b by (simp add: s)
  have "unat (x + (y + gy) * w) = unat x + (unat y + unat gy) * unat w"
    using unat_plus [of x "(y + gy) * w"] b by (simp add: m)
  then show "unat (x + (y + gy) * w + gx) = (unat y + unat gy) * unat w + (unat x + unat gx)"
    using unat_plus [of "x + (y + gy) * w" gx] b by simp
qed

lemma see_through_tone:
  assumes "unat i = b * unat (width f) + a" and "a < unat (width f)" and "b < unat (height f)"
    and "case canvas f of Some cv \<Rightarrow> unat (height f) * unat (width f) \<le> length cv | None \<Rightarrow> True"
  shows "see_through f i v = Inr (tone f a b v)"
  using cell_less [OF assms(2,3)] assms(1,4) by (auto simp: see_through_def tone_def split: option.splits)

lemma cell_eq_iff: "x < n \<Longrightarrow> x' < n \<Longrightarrow> y' * n + x' = y * n + x \<longleftrightarrow> x' = x \<and> y' = y" for x y n :: nat
  by (metis cell_div_mod)

lemma pixel_inside: "b < h \<Longrightarrow> a < w \<Longrightarrow> h * S + w \<le> n + S \<Longrightarrow> b * S + a < n" for a b h n w S :: nat
  using mult_le_mono1 [of "Suc b" h S] by simp

lemma plot_pixel_drawn:
  assumes geo: "geo_ok R C f" and d: "drawn f A V g"
    and a: "a = unat x + unat gx" "a < unat (width f)" and b: "b = unat y + unat gy" "b < unat (height f)"
    and V: "V a b = tone f a b (if draw then char_fg c else char_bg c)"
  shows "\<exists>h. plot_pixel c x y draw gx gy g = Inr h \<and> drawn f (\<lambda>a' b'. A a' b' \<or> (a' = a \<and> b' = b)) V h"
proof -
  let ?S = "unat (pitch f div 4)"
  have S: "unat (width f) \<le> ?S" "?S < 2 ^ 30" "unat (height f) < 2 ^ 30" "unat (height f) * ?S + unat (width f) \<le> length (framebuffer f) + ?S"
    "case canvas f of Some cv \<Rightarrow> unat (height f) * unat (width f) \<le> length cv | None \<Rightarrow> True"
    using geo by (simp_all add: geo_ok_def)
  have i: "unat (x + (y + gy) * width f + gx) = b * unat (width f) + a"
    using pixel_index(1) [of x gx "width f" y gy "unat (height f)"] a b S by simp
  have j: "unat (x + (y + gy) * (pitch f div 4) + gx) = b * ?S + a" "b * ?S + a < length (framebuffer f)"
    using pixel_index [of x gx "pitch f div 4" y gy "unat (height f)"] pixel_inside [OF b(2) a(2) S(4)] a b S by auto
  have t: "see_through g (x + (y + gy) * width f + gx) v = Inr (tone f a b v)" for v
  proof -
    have "tone g a b v = tone f a b v" using drawn_fields [OF d] by (simp add: tone_def split: option.split)
    then show ?thesis using see_through_tone [of "x + (y + gy) * width f + gx" b g a v] i a(2) b(2) S(5) drawn_fields [OF d]
      by (simp cong: option.case_cong)
  qed
  define v where "v = tone f a b (if draw then char_fg c else char_bg c)"
  define h where "h = g\<lparr>framebuffer := (framebuffer g)[b * ?S + a := v]\<rparr>"
  have "plot_pixel c x y draw gx gy g = Inr h"
    using j drawn_fields [OF d] by (simp add: plot_pixel_def t h_def v_def)
  moreover have "pixel h a' b' = (if a' = a \<and> b' = b then v else pixel g a' b')" if "a' < ?S" for a' b'
  proof -
    have "b' * ?S + a' = b * ?S + a \<longleftrightarrow> a' = a \<and> b' = b"
      using cell_eq_iff [OF _ that] a(2) S(1) by simp
    then show ?thesis
      using j(2) drawn_fields [OF d] by (auto simp: pixel_def h_def nth_list_update)
  qed
  then have "drawn f (\<lambda>a' b'. A a' b' \<or> (a' = a \<and> b' = b)) V h"
    using d V by (auto simp: drawn_def h_def v_def)
  ultimately show ?thesis by blast
qed

definition glyph_area :: "fb_context \<Rightarrow> nat \<Rightarrow> nat \<Rightarrow> nat \<Rightarrow> nat \<Rightarrow> bool" where
  "glyph_area f X Y a b \<longleftrightarrow> X \<le> a \<and> a < X + unat (glyph_width f) \<and> Y \<le> b \<and> b < Y + unat (glyph_height f)"

text \<open>The index of a row of a glyph.\<close>

lemma font_index:
  assumes geo: "geo_ok R C f" and "0 < C" and ch: "char_c c < 256" and "fx < unat (font_width f)" and "gy < unat (glyph_height f)"
    and "unat (glyph_width f) \<le> unat (width f)"
  shows "fetch (font_bool f) (unat (ucast (char_c c) * font_height f * font_width f
      + (ucast (ucast (of_nat gy div font_scale_y f) :: u8) * font_width f + of_nat fx)))
    = Inr (font_bool f ! ((unat (char_c c) * unat (font_height f) + gy div unat (font_scale_y f)) * unat (font_width f) + fx))"
proof -
  let ?h = "unat (font_height f)" and ?w = "unat (font_width f)"
  define q where "q = gy div unat (font_scale_y f)"
  have g: "unat (glyph_height f) = ?h * unat (font_scale_y f)" "0 < unat (font_scale_y f)" "?h \<le> 256"
    "256 * ?h * ?w \<le> length (font_bool f)" "?w \<le> unat (glyph_width f)" "unat (width f) < 2 ^ 30"
    using geo by (auto simp: geo_ok_def word_less_nat_alt)
  have q: "q < ?h" unfolding q_def using assms(5) g(1,2) by (simp add: less_mult_imp_div_less)
  have w: "?w < 2 ^ 30" using g(5,6) assms(6) by linarith
  have c: "unat (char_c c) < 256" using ch by (simp add: word_less_nat_alt)
  have "gy < 2 ^ 64" using assms(5) unat_u64_less [of "glyph_height f"] by linarith
  then have d: "unat (of_nat gy div font_scale_y f) = q" by (simp add: unat_div unat_of_nat_u64 q_def)
  have y: "unat (ucast (ucast (of_nat gy div font_scale_y f) :: u8) :: u64) = q"
    using q g(3) d by (simp add: unsigned_ucast_eq take_bit_nat_eq_self unat_take_bit)
  have x: "unat (of_nat fx :: u64) = fx" using assms(4) w by (intro unat_of_nat_u64) simp
  have r: "unat (char_c c) * ?h + q < 256 * ?h" using c q by (simp add: cell_less)
  have r2: "(unat (char_c c) * ?h + q) * ?w + fx < 256 * ?h * ?w" using assms(4) r by (rule cell_less)
  have lim: "unat (char_c c) * ?h \<le> 256 * 256" using c g(3) by (intro mult_le_mono) auto
  have lim2: "unat (char_c c) * ?h * ?w \<le> 256 * 256 * 2 ^ 30" by (rule mult_le_mono [OF lim less_imp_le [OF w]])
  have lim3: "q * ?w \<le> 256 * 2 ^ 30" using q g(3) w by (intro mult_le_mono) auto
  have m1: "unat (ucast (char_c c) * font_height f) = unat (char_c c) * ?h"
    using unat_times [of "ucast (char_c c)" "font_height f"] lim by simp
  have m2: "unat (ucast (char_c c) * font_height f * font_width f) = unat (char_c c) * ?h * ?w"
    using unat_times [of "ucast (char_c c) * font_height f" "font_width f"] lim2 by (simp add: m1)
  let ?y = "ucast (ucast (of_nat gy div font_scale_y f) :: u8) :: u64"
  have m3: "unat (?y * font_width f) = q * ?w" using unat_times [of ?y "font_width f"] lim3 by (simp add: y)
  have m4: "unat (?y * font_width f + of_nat fx) = q * ?w + fx"
    using unat_plus [of "?y * font_width f" "of_nat fx"] lim3 w assms(4) by (simp add: m3 x)
  have "unat (ucast (char_c c) * font_height f * font_width f + (?y * font_width f + of_nat fx))
      = (unat (char_c c) * ?h + q) * ?w + fx"
    using unat_plus [of "ucast (char_c c) * font_height f * font_width f" "?y * font_width f + of_nat fx"] lim2 lim3 w assms(4)
    by (simp add: m2 m4 distrib_right)
  then show ?thesis using r2 g(4) by (simp add: q_def)
qed

lemma plot_glyph_drawn:
  assumes geo: "geo_ok R C f" and "0 < C" and ch: "char_c c < 256"
    and X: "unat x + unat (glyph_width f) \<le> unat (width f)" and Y: "unat y + unat (glyph_height f) \<le> unat (height f)"
  shows "\<exists>g. plot_glyph c x y f = Inr g \<and> drawn f (glyph_area f (unat x) (unat y)) (glyph_pixel f c (unat x) (unat y)) g"
proof -
  define V where "V = glyph_pixel f c (unat x) (unat y)"
  define sx fw gw gh where "sx = unat (font_scale_x f)" and "fw = unat (font_width f)" and "gw = unat (glyph_width f)"
    and "gh = unat (glyph_height f)"
  have s: "gw = fw * sx" "0 < sx" using geo by (simp_all add: geo_ok_def sx_def fw_def gw_def word_less_nat_alt)
  define row where "row k a b \<longleftrightarrow> unat x \<le> a \<and> a < unat x + gw \<and> unat y \<le> b \<and> b < unat y + k" for k a b
  define part where "part k n a b \<longleftrightarrow> row k a b \<or> (b = unat y + k \<and> unat x \<le> a \<and> a < unat x + n)" for k n a b
  have pix: "\<exists>g'. plot_pixel c x y (glyph_bit f c (sx * fx + i) k) (font_scale_x f * of_nat fx + of_nat i) (of_nat k) g = Inr g'
      \<and> drawn f (part k (sx * fx + Suc i)) V g'"
    if k: "k < gh" "fx < fw" "i < sx" and d: "drawn f (part k (sx * fx + i)) V g" for k fx i g
  proof -
    have "sx * fx + i < gw" using cell_less [OF k(3,2)] s(1) by (simp add: mult.commute)
    moreover have "unat (font_scale_x f * of_nat fx + of_nat i) = sx * fx + i" 
    proof -
      have w: "gw < 2 ^ 64" using unat_u64_less [of "glyph_width f"] by (simp add: gw_def)
      have "fx \<le> sx * fx" using s(2) by simp
      then have u: "unat (of_nat fx :: u64) = fx" "unat (of_nat i :: u64) = i"
        using \<open>sx * fx + i < gw\<close> w by (intro unat_of_nat_u64; linarith)+
      show ?thesis
        using unat_times [of "font_scale_x f" "of_nat fx"] unat_plus [of "font_scale_x f * of_nat fx" "of_nat i"]
          \<open>sx * fx + i < gw\<close> w by (simp add: u sx_def)
    qed
    moreover have "unat (of_nat k :: u64) = k" using k(1) unat_u64_less [of "glyph_height f"] by (simp add: gh_def unat_of_nat_u64)
    ultimately have "\<exists>h. plot_pixel c x y (glyph_bit f c (sx * fx + i) k) (font_scale_x f * of_nat fx + of_nat i) (of_nat k) g = Inr h
      \<and> drawn f (\<lambda>a' b'. part k (sx * fx + i) a' b' \<or> (a' = unat x + (sx * fx + i) \<and> b' = unat y + k)) V h"
      using X Y k(1) by (intro plot_pixel_drawn [OF geo d]) (simp_all add: gw_def gh_def V_def glyph_pixel_def)
    then obtain h where h: "plot_pixel c x y (glyph_bit f c (sx * fx + i) k) (font_scale_x f * of_nat fx + of_nat i) (of_nat k) g = Inr h"
      "drawn f (\<lambda>a' b'. part k (sx * fx + i) a' b' \<or> (a' = unat x + (sx * fx + i) \<and> b' = unat y + k)) V h" by blast
    from h(2) have "drawn f (part k (sx * fx + Suc i)) V h" by (rule drawn_cong) (auto simp: part_def)
    then show ?thesis using h(1) by blast
  qed
  have column: "\<exists>g'. (let fy = ucast (of_nat k div font_scale_y f) :: u8 in
          andthen (fetch (font_bool g) (unat (ucast (char_c c) * font_height f * font_width f + (ucast fy * font_width f + of_nat fx)))) (\<lambda>draw.
          for_upto 0 (unat (font_scale_x f)) (\<lambda>i.
            plot_pixel c x y draw (font_scale_x f * of_nat fx + of_nat i) (of_nat k)) g)) = Inr g'
      \<and> drawn f (part k (sx * Suc fx)) V g'"
    if k: "k < gh" "fx < fw" and d: "drawn f (part k (sx * fx)) V g" for k fx g
  proof -
    define draw where "draw = font_bool f ! ((unat (char_c c) * unat (font_height f) + k div unat (font_scale_y f)) * fw + fx)"
    have bit: "glyph_bit f c (sx * fx + i) k = draw" if "i < sx" for i
      using that s(2) by (simp add: glyph_bit_def sx_def fw_def draw_def)
    have "\<exists>g'. for_upto 0 sx (\<lambda>i g. plot_pixel c x y draw (font_scale_x f * of_nat fx + of_nat i) (of_nat k) g) g = Inr g'
      \<and> drawn f (part k (sx * fx + (0 + sx))) V g'"
    proof (rule for_upto_total)
      fix i g assume "0 \<le> i" "i < 0 + sx" "drawn f (part k (sx * fx + i)) V g"
      then show "\<exists>g'. plot_pixel c x y draw (font_scale_x f * of_nat fx + of_nat i) (of_nat k) g = Inr g'
          \<and> drawn f (part k (sx * fx + Suc i)) V g'"
        using pix [OF k, of i g] bit [of i] by simp
    qed (use d in simp)
    then show ?thesis
      using font_index [OF geo assms(2) ch, of fx k] k X drawn_fields [OF d] s(2)
      by (simp add: Let_def fw_def gh_def draw_def sx_def [symmetric] algebra_simps)
  qed
  have line: "\<exists>g'. for_upto 0 fw (\<lambda>fx g. let fy = ucast (of_nat k div font_scale_y f) :: u8 in
          andthen (fetch (font_bool g) (unat (ucast (char_c c) * font_height f * font_width f + (ucast fy * font_width f + of_nat fx)))) (\<lambda>draw.
          for_upto 0 (unat (font_scale_x f)) (\<lambda>i.
            plot_pixel c x y draw (font_scale_x f * of_nat fx + of_nat i) (of_nat k)) g)) g = Inr g'
      \<and> drawn f (row (Suc k)) V g'"
    if k: "k < gh" and d: "drawn f (row k) V g" for k g
  proof -
    have "drawn f (part k (sx * 0)) V g" using d by (rule drawn_cong) (auto simp: part_def)
    then have "\<exists>g'. for_upto 0 fw (\<lambda>fx g. let fy = ucast (of_nat k div font_scale_y f) :: u8 in
          andthen (fetch (font_bool g) (unat (ucast (char_c c) * font_height f * font_width f + (ucast fy * font_width f + of_nat fx)))) (\<lambda>draw.
          for_upto 0 (unat (font_scale_x f)) (\<lambda>i.
            plot_pixel c x y draw (font_scale_x f * of_nat fx + of_nat i) (of_nat k)) g)) g = Inr g'
      \<and> drawn f (part k (sx * (0 + fw))) V g'"
      by (rule for_upto_total [where P = "\<lambda>fx g. drawn f (part k (sx * fx)) V g"]) (rule column [OF k], simp_all)
    then obtain g' where g': "for_upto 0 fw (\<lambda>fx g. let fy = ucast (of_nat k div font_scale_y f) :: u8 in
          andthen (fetch (font_bool g) (unat (ucast (char_c c) * font_height f * font_width f + (ucast fy * font_width f + of_nat fx)))) (\<lambda>draw.
          for_upto 0 (unat (font_scale_x f)) (\<lambda>i.
            plot_pixel c x y draw (font_scale_x f * of_nat fx + of_nat i) (of_nat k)) g)) g = Inr g'"
      "drawn f (part k (sx * (0 + fw))) V g'" by blast
    from g'(2) have "drawn f (row (Suc k)) V g'"
      by (rule drawn_cong) (auto simp: part_def row_def s(1) mult.commute [of sx])
    then show ?thesis using g'(1) by blast
  qed
  have "drawn f (row 0) V f" by (rule drawn_nothing) (simp add: row_def)
  then have "\<exists>g. plot_glyph c x y f = Inr g \<and> drawn f (row (0 + gh)) V g"
    unfolding plot_glyph_def Let_def gh_def [symmetric] fw_def [symmetric]
    by (rule for_upto_total [where P = "\<lambda>k g. drawn f (row k) V g"]) (rule line [unfolded Let_def], simp_all)
  then obtain g where g: "plot_glyph c x y f = Inr g" "drawn f (row (0 + gh)) V g" by blast
  from g(2) have "drawn f (glyph_area f (unat x) (unat y)) V g"
    by (rule drawn_cong) (auto simp: row_def glyph_area_def gw_def gh_def)
  then show ?thesis using g(1) unfolding V_def by blast
qed

section \<open>Cells and pixels\<close>

definition cell_x :: "u64 \<Rightarrow> fb_context \<Rightarrow> nat \<Rightarrow> nat" where
  "cell_x C f j = unat (offset_x f) + j mod unat C * unat (glyph_width f)"

definition cell_y :: "u64 \<Rightarrow> fb_context \<Rightarrow> nat \<Rightarrow> nat" where
  "cell_y C f j = unat (offset_y f) + j div unat C * unat (glyph_height f)"

text \<open>The frame buffer shows the character \<open>c\<close> at the cell \<open>j\<close>.\<close>

definition displays :: "u64 \<Rightarrow> fb_context \<Rightarrow> nat \<Rightarrow> fb_char \<Rightarrow> bool" where
  "displays C f j c \<longleftrightarrow>
     (\<forall>a b. glyph_area f (cell_x C f j) (cell_y C f j) a b \<longrightarrow> pixel f a b = glyph_pixel f c (cell_x C f j) (cell_y C f j) a b)"

lemma slot_eq: "p + x * n \<le> a \<Longrightarrow> a < p + x * n + n \<Longrightarrow> (a - p) div n = x" for a p x n :: nat
  using div_nat_eqI [of n x "a - p"] by (simp add: mult.commute)

lemma areas_disjoint:
  assumes "glyph_area f (cell_x C f i) (cell_y C f i) a b" and "glyph_area f (cell_x C f j) (cell_y C f j) a b"
  shows "i = j"
proof -
  have "i mod unat C = j mod unat C" "i div unat C = j div unat C"
    using assms slot_eq [of "unat (offset_x f)" _ "unat (glyph_width f)" a] slot_eq [of "unat (offset_y f)" _ "unat (glyph_height f)" b]
    by (metis cell_x_def glyph_area_def, metis cell_y_def glyph_area_def)
  then show ?thesis by (metis div_mult_mod_eq)
qed

lemma cell_inside:
  assumes geo: "geo_ok R C f" and "j < unat R * unat C"
  shows "cell_x C f j + unat (glyph_width f) \<le> unat (width f)" "cell_y C f j + unat (glyph_height f) \<le> unat (height f)" "0 < C"
proof -
  have C: "0 < unat C" using assms(2) by (cases "unat C") auto
  then show "0 < C" by (simp add: word_less_nat_alt)
  have "Suc (j mod unat C) * unat (glyph_width f) \<le> unat C * unat (glyph_width f)" using C by (intro mult_le_mono1) (simp add: Suc_leI)
  moreover have "unat (offset_x f) + unat C * unat (glyph_width f) \<le> unat (width f)" using geo unfolding geo_ok_def by blast
  ultimately show "cell_x C f j + unat (glyph_width f) \<le> unat (width f)" unfolding cell_x_def mult_Suc by linarith
  have "Suc (j div unat C) * unat (glyph_height f) \<le> unat R * unat (glyph_height f)"
    using C assms(2) by (intro mult_le_mono1) (simp add: Suc_leI less_mult_imp_div_less)
  moreover have "unat (offset_y f) + unat R * unat (glyph_height f) \<le> unat (height f)" using geo unfolding geo_ok_def by blast
  ultimately show "cell_y C f j + unat (glyph_height f) \<le> unat (height f)" unfolding cell_y_def mult_Suc by linarith
qed

lemma word_cell:
  fixes o' x g :: u64
  assumes "unat o' + unat x * unat g < 2 ^ 64"
  shows "unat (o' + x * g) = unat o' + unat x * unat g"
  using unat_times [of x g] unat_plus [of o' "x * g"] assms by simp

text \<open>Drawing a character changes its cell of the frame buffer and nothing else.\<close>

lemma plot_char_displays:
  assumes geo: "geo_ok (rows t) (cols t) (screen t)" and ch: "char_c c < 256" and x: "x < cols t" and y: "y < rows t"
  defines "i \<equiv> unat y * unat (cols t) + unat x"
  obtains g where "plot_char c x y t = Inr (t\<lparr>screen := g\<rparr>)" "\<exists>fb. g = (screen t)\<lparr>framebuffer := fb\<rparr>"
    "geo_ok (rows t) (cols t) g" "displays (cols t) g i c"
    "\<And>j d. j < unat (rows t) * unat (cols t) \<Longrightarrow> j \<noteq> i \<Longrightarrow> displays (cols t) g j d = displays (cols t) (screen t) j d"
proof -
  let ?f = "screen t" and ?C = "cols t"
  have i: "i < unat (rows t) * unat ?C" "i mod unat ?C = unat x" "i div unat ?C = unat y"
    using x y by (simp_all add: i_def word_less_nat_alt cell_less)
  note inside = cell_inside [OF geo i(1)]
  have "unat (offset_x ?f + x * glyph_width ?f) = cell_x ?C ?f i" "unat (offset_y ?f + y * glyph_height ?f) = cell_y ?C ?f i"
    using inside i unat_u64_less [of "width ?f"] unat_u64_less [of "height ?f"]
    by (simp_all add: word_cell cell_x_def cell_y_def)
  then obtain g where g: "plot_glyph c (offset_x ?f + x * glyph_width ?f) (offset_y ?f + y * glyph_height ?f) ?f = Inr g"
    "drawn ?f (glyph_area ?f (cell_x ?C ?f i) (cell_y ?C ?f i)) (glyph_pixel ?f c (cell_x ?C ?f i) (cell_y ?C ?f i)) g"
    using plot_glyph_drawn [OF geo inside(3) ch, of "offset_x ?f + x * glyph_width ?f" "offset_y ?f + y * glyph_height ?f"] inside
    by auto
  have e: "plot_char c x y t = Inr (t\<lparr>screen := g\<rparr>)" using g(1) x y by (simp add: plot_char_def Let_def not_le [symmetric])
  obtain fb where fb: "g = ?f\<lparr>framebuffer := fb\<rparr>" "length fb = length (framebuffer ?f)" using g(2) by (auto simp: drawn_def)
  have same: "cell_x ?C g = cell_x ?C ?f" "cell_y ?C g = cell_y ?C ?f" "glyph_area g = glyph_area ?f" "glyph_pixel g = glyph_pixel ?f"
    by (intro ext; simp add: fb(1) cell_x_def cell_y_def glyph_area_def glyph_pixel_def tone_def glyph_bit_def cong: option.case_cong)+
  have geo': "geo_ok (rows t) ?C g" using geo fb(2) by (auto simp: geo_ok_def fb(1) cong: option.case_cong)
  have S: "unat (width ?f) \<le> unat (pitch ?f div 4)" using geo by (simp add: geo_ok_def)
  have pix: "pixel g a b = (if glyph_area ?f (cell_x ?C ?f i) (cell_y ?C ?f i) a b
        then glyph_pixel ?f c (cell_x ?C ?f i) (cell_y ?C ?f i) a b else pixel ?f a b)"
    if "j < unat (rows t) * unat ?C" "glyph_area ?f (cell_x ?C ?f j) (cell_y ?C ?f j) a b" for a b j
    using g(2) cell_inside [OF geo that(1)] that(2) S by (auto simp: drawn_def glyph_area_def)
  have "displays ?C g i c" using pix [OF i(1)] by (simp add: displays_def same)
  moreover have "displays ?C g j d = displays ?C ?f j d" if j: "j < unat (rows t) * unat ?C" "j \<noteq> i" for j d
  proof -
    have "pixel g a b = pixel ?f a b" if "glyph_area ?f (cell_x ?C ?f j) (cell_y ?C ?f j) a b" for a b
      using pix [OF j(1) that] areas_disjoint [OF _ that, of i] j(2) by auto
    then show ?thesis by (simp add: displays_def same)
  qed
  ultimately show thesis using that [OF e _ geo'] fb(1) by blast
qed

section \<open>Drawing the queue\<close>

definition inverted :: "fb_char \<Rightarrow> fb_char" where
  "inverted c = c\<lparr>char_fg := char_bg c, char_bg := char_fg c\<rparr>"

text \<open>The cell of a position, if the position is on the screen.\<close>

definition position_cell :: "u64 \<Rightarrow> u64 \<Rightarrow> u64 \<Rightarrow> u64 \<Rightarrow> nat option" where
  "position_cell R C x y = (if x < C \<and> y < R then Some (unat y * unat C + unat x) else None)"

definition chars_ok :: "fb_context \<Rightarrow> bool" where
  "chars_ok f \<longleftrightarrow> (\<forall>c \<in> set (grid f) \<union> set (view f). char_c c < 256)"

text \<open>
  Between two flushes the frame buffer shows the grid, except that the cell where the cursor was drawn last
  may be inverted.
\<close>

definition in_sync :: "u64 \<Rightarrow> u64 \<Rightarrow> fb_context \<Rightarrow> bool" where
  "in_sync R C f \<longleftrightarrow>
     (\<forall>j < unat R * unat C. displays C f j (grid f ! j)
        \<or> position_cell R C (old_cursor_x f) (old_cursor_y f) = Some j \<and> displays C f j (inverted (grid f ! j)))"

text \<open>
  While the queue is drawn: the entries below \<open>k\<close> are done, and \<open>cur\<close> is the cell where the cursor has been drawn.
\<close>

definition flushing :: "fb_terminal \<Rightarrow> nat option \<Rightarrow> nat \<Rightarrow> fb_context \<Rightarrow> bool" where
  "flushing t cur k f \<longleftrightarrow>
     (\<exists>fb g m. f = (screen t)\<lparr>framebuffer := fb, grid := g, cell_map := m\<rparr>)
     \<and> length (grid f) = unat (rows t) * unat (cols t) \<and> length (cell_map f) = unat (rows t) * unat (cols t)
     \<and> geo_ok (rows t) (cols t) f \<and> view f = view (screen t) \<and> (\<forall>c \<in> set (grid f). char_c c < 256)
     \<and> (\<forall>j < unat (rows t) * unat (cols t). \<forall>m. cell_map f ! j = Some m \<longrightarrow>
          k \<le> m \<and> m < unat (queue_i f) \<and> item_cell (cols t) (queue f ! m) = j)
     \<and> (\<forall>j < unat (rows t) * unat (cols t).
          if cur = Some j then cell_map f ! j = None \<and> displays (cols t) f j (inverted (grid f ! j))
          else displays (cols t) f j (grid f ! j)
            \<or> position_cell (rows t) (cols t) (old_cursor_x (screen t)) (old_cursor_y (screen t)) = Some j
              \<and> displays (cols t) f j (inverted (grid f ! j)))"

lemma plot_char_at:
  assumes "geo_ok (rows t) (cols t) f" and "char_c c < 256" and "x < cols t" and "y < rows t"
  obtains g where "plot_char c x y (t\<lparr>screen := f\<rparr>) = Inr (t\<lparr>screen := g\<rparr>)" "\<exists>fb. g = f\<lparr>framebuffer := fb\<rparr>"
    "geo_ok (rows t) (cols t) g" "displays (cols t) g (unat y * unat (cols t) + unat x) c"
    "\<And>j d. j < unat (rows t) * unat (cols t) \<Longrightarrow> j \<noteq> unat y * unat (cols t) + unat x \<Longrightarrow>
      displays (cols t) g j d = displays (cols t) f j d"
  using plot_char_displays [of "t\<lparr>screen := f\<rparr>" c x y] assms by auto

lemma displays_cells [simp]: "displays C (f\<lparr>grid := g\<rparr>) = displays C f" "displays C (f\<lparr>cell_map := m\<rparr>) = displays C f"
  "displays C (f\<lparr>old_cursor_x := x\<rparr>) = displays C f" "displays C (f\<lparr>old_cursor_y := x\<rparr>) = displays C f"
  "displays C (f\<lparr>queue_i := q\<rparr>) = displays C f"
  by (intro ext; simp add: displays_def glyph_area_def cell_x_def cell_y_def pixel_def glyph_pixel_def tone_def glyph_bit_def
      cong: option.case_cong)+

lemma geo_cells [simp]: "geo_ok R C (f\<lparr>grid := g\<rparr>) = geo_ok R C f" "geo_ok R C (f\<lparr>cell_map := m\<rparr>) = geo_ok R C f"
  "geo_ok R C (f\<lparr>old_cursor_x := x\<rparr>) = geo_ok R C f" "geo_ok R C (f\<lparr>old_cursor_y := x\<rparr>) = geo_ok R C f"
  "geo_ok R C (f\<lparr>queue_i := q\<rparr>) = geo_ok R C f"
  by (simp_all add: geo_ok_def cong: option.case_cong)

text \<open>A cell whose entry has been drawn: the grid takes the character over, and the view stays.\<close>

lemma view_taken_over:
  assumes "i < length (grid f)" and "length (cell_map f) = length (grid f)" and "c = view f ! i"
  shows "view (f\<lparr>grid := (grid f)[i := c], cell_map := (cell_map f)[i := None]\<rparr>) = view f"
proof (rule nth_equalityI)
  fix j assume "j < length (view (f\<lparr>grid := (grid f)[i := c], cell_map := (cell_map f)[i := None]\<rparr>))"
  then show "view (f\<lparr>grid := (grid f)[i := c], cell_map := (cell_map f)[i := None]\<rparr>) ! j = view f ! j"
    using assms by (cases "j = i") (simp_all add: nth_view view_cell_def cong: option.case_cong)
qed simp

lemma view_framebuffer [simp]: "view (f\<lparr>framebuffer := fb\<rparr>) = view f"
  by (rule nth_equalityI) (simp_all add: nth_view view_cell_def cong: option.case_cong)

lemma view_chars:
  assumes "chars_ok f" and "i < length (grid f)"
  shows "char_c (view f ! i) < 256"
  using assms by (auto simp: chars_ok_def)

lemma flush_item_step:
  assumes ok: "queue_ok (rows t) (cols t) (screen t)" and chars: "chars_ok (screen t)"
    and k: "k < unat (queue_i (screen t))" and fl: "flushing t cur k f"
  shows "\<exists>g. flush_item k (t\<lparr>screen := f\<rparr>) = Inr (t\<lparr>screen := g\<rparr>) \<and> flushing t cur (Suc k) g"
proof -
  define q C N where "q = queue (screen t) ! k" and "C = cols t" and "N = unat (rows t) * unat (cols t)"
  define i where "i = item_cell C q"
  have items: "\<And>l. l < unat (queue_i (screen t)) \<Longrightarrow> item_x (queue (screen t) ! l) < C \<and> item_y (queue (screen t) ! l) < rows t
      \<and> cell_map (screen t) ! item_cell C (queue (screen t) ! l) = Some l"
    using ok by (simp add: queue_ok_def C_def)
  have bound: "unat (queue_i (screen t)) \<le> length (queue (screen t))" "N < 2 ^ 62" using ok by (simp_all add: queue_ok_def N_def)
  have same: "queue f = queue (screen t)" "queue_i f = queue_i (screen t)" using fl by (auto simp: flushing_def)
  have len: "length (grid f) = N" "length (cell_map f) = N" using fl by (simp_all add: flushing_def N_def)
  have xy: "item_x q < C" "item_y q < rows t" using items [OF k] by (simp_all add: q_def)
  have i: "unat (item_y q * C + item_x q) = i" "i = unat (item_y q) * unat C + unat (item_x q)" "i < N"
    using unat_cell [of "item_x q" C "item_y q" "rows t"] xy bound(2) by (simp_all add: i_def item_cell_def N_def C_def)
  have maps: "k \<le> m \<and> m < unat (queue_i f) \<and> item_cell C (queue f ! m) = j" if "j < N" "cell_map f ! j = Some m" for j m
    using fl that by (simp add: flushing_def N_def C_def)
  have only: "j = i" if "j < N" "cell_map f ! j = Some k" for j
    using maps [OF that] by (simp add: i_def q_def same)
  have fq: "fetch (queue f) k = Inr q" using k bound(1) by (simp add: same q_def)
  show ?thesis
  proof (cases "cell_map f ! i")
    case None
    have "flush_item k (t\<lparr>screen := f\<rparr>) = Inr (t\<lparr>screen := f\<rparr>)"
      using None fq i len by (simp add: flush_item_def Let_def flip: C_def)
    moreover have "Suc k \<le> m" if "j < N" "cell_map f ! j = Some m" for j m
      using maps [OF that] only [of j] that None by (cases "m = k") auto
    then have "flushing t cur (Suc k) f" using fl by (auto simp: flushing_def N_def)
    ultimately show ?thesis by blast
  next
    case (Some m)
    then have m: "item_cell C (queue (screen t) ! m) = i" "m < unat (queue_i (screen t))" using maps [OF i(3)] by (simp_all add: same)
    have "cell_map (screen t) ! i = Some m" using items [OF m(2)] unfolding m(1) by blast
    moreover have "cell_map (screen t) ! i = Some k" using items [OF k] unfolding i_def q_def by blast
    ultimately have "m = k" by simp
    then have c: "item_c q = view f ! i" using Some i(3) len by (simp add: nth_view view_cell_def same q_def)
    have ch: "char_c (item_c q) < 256"
      using view_chars [OF chars, of i] i(3) len(1) fl ok by (simp add: c flushing_def queue_ok_def N_def)
    obtain g where g: "plot_char (item_c q) (item_x q) (item_y q) (t\<lparr>screen := f\<rparr>) = Inr (t\<lparr>screen := g\<rparr>)"
      "\<exists>fb. g = f\<lparr>framebuffer := fb\<rparr>" "geo_ok (rows t) C g" "displays C g i (item_c q)"
      "\<And>j d. j < N \<Longrightarrow> j \<noteq> i \<Longrightarrow> displays C g j d = displays C f j d"
      using plot_char_at [of t f "item_c q" "item_x q" "item_y q"] fl ch xy
      unfolding flushing_def i(2) N_def C_def by blast
    obtain fb where fb: "g = f\<lparr>framebuffer := fb\<rparr>" using g(2) by blast
    define h where "h = g\<lparr>grid := (grid g)[i := item_c q], cell_map := (cell_map g)[i := None]\<rparr>"
    have "flush_item k (t\<lparr>screen := f\<rparr>) = Inr (t\<lparr>screen := h\<rparr>)"
      using Some fq i len g(1) by (simp add: flush_item_def Let_def on_screen_def h_def fb flip: C_def)
    moreover have "flushing t cur (Suc k) h"
      unfolding flushing_def
    proof (intro conjI)
      obtain fb0 g0 m0 where "f = (screen t)\<lparr>framebuffer := fb0, grid := g0, cell_map := m0\<rparr>"
        using fl unfolding flushing_def by blast
      then have "h = (screen t)\<lparr>framebuffer := fb, grid := g0[i := item_c q], cell_map := m0[i := None]\<rparr>"
        by (simp add: h_def fb)
      then show "\<exists>fb g m. h = (screen t)\<lparr>framebuffer := fb, grid := g, cell_map := m\<rparr>" by blast
      show "view h = view (screen t)"
        using view_taken_over [of i g "item_c q"] fl i(3) len c by (simp add: h_def fb flushing_def)
      show "\<forall>c\<in>set (grid h). char_c c < 256"
        using fl ch by (auto simp: flushing_def h_def fb dest!: set_update_subset_insert [THEN subsetD])
      show "\<forall>j<unat (rows t) * unat (cols t). \<forall>m. cell_map h ! j = Some m \<longrightarrow>
          Suc k \<le> m \<and> m < unat (queue_i h) \<and> item_cell (cols t) (queue h ! m) = j"
      proof (intro allI impI)
        fix j m assume j: "j < unat (rows t) * unat (cols t)" "cell_map h ! j = Some m"
        then have ne: "j \<noteq> i" "cell_map f ! j = Some m" "j < N" using len i(3) by (auto simp: h_def fb nth_list_update N_def split: if_splits)
        then show "Suc k \<le> m \<and> m < unat (queue_i h) \<and> item_cell (cols t) (queue h ! m) = j"
          using maps [of j m] only [of j] by (auto simp: h_def fb C_def le_less_Suc_eq not_less_eq_eq [symmetric])
      qed
      show "\<forall>j<unat (rows t) * unat (cols t).
          if cur = Some j then cell_map h ! j = None \<and> displays (cols t) h j (inverted (grid h ! j))
          else displays (cols t) h j (grid h ! j)
            \<or> position_cell (rows t) (cols t) (old_cursor_x (screen t)) (old_cursor_y (screen t)) = Some j
              \<and> displays (cols t) h j (inverted (grid h ! j))"
      proof (intro allI impI)
        fix j assume j: "j < unat (rows t) * unat (cols t)"
        have "cur \<noteq> Some i" using fl i(3) Some by (auto simp: flushing_def N_def)
        then show "if cur = Some j then cell_map h ! j = None \<and> displays (cols t) h j (inverted (grid h ! j))
          else displays (cols t) h j (grid h ! j)
            \<or> position_cell (rows t) (cols t) (old_cursor_x (screen t)) (old_cursor_y (screen t)) = Some j
              \<and> displays (cols t) h j (inverted (grid h ! j))"
          using fl j g(4) g(5) [of j] len i(3)
          by (cases "j = i") (simp_all add: flushing_def h_def N_def C_def fb)
      qed
    qed (use fl g(3) in \<open>simp_all add: flushing_def h_def fb C_def\<close>)
    ultimately show ?thesis by blast
  qed
qed

text \<open>Before the queue is drawn.\<close>

lemma flushing_start:
  assumes ok: "queue_ok (rows t) (cols t) (screen t)" and chars: "chars_ok (screen t)"
    and geo: "geo_ok (rows t) (cols t) (screen t)" and sync: "in_sync (rows t) (cols t) (screen t)"
  shows "flushing t None 0 (screen t)"
proof -
  have "\<exists>fb g m. screen t = (screen t)\<lparr>framebuffer := fb, grid := g, cell_map := m\<rparr>"
    by (intro exI [of _ "framebuffer (screen t)"] exI [of _ "grid (screen t)"] exI [of _ "cell_map (screen t)"]) simp
  then show ?thesis using assms by (auto simp: flushing_def queue_ok_def chars_ok_def in_sync_def)
qed

lemma draw_cursor_flushing:
  assumes ok: "queue_ok (rows t) (cols t) (screen t)" and chars: "chars_ok (screen t)"
    and geo: "geo_ok (rows t) (cols t) (screen t)" and sync: "in_sync (rows t) (cols t) (screen t)"
  shows "\<exists>g. draw_cursor t = Inr (t\<lparr>screen := g\<rparr>) \<and>
    flushing t (position_cell (rows t) (cols t) (cursor_x (screen t)) (cursor_y (screen t))) 0 g"
proof -
  define f C N where "f = screen t" and "C = cols t" and "N = unat (rows t) * unat (cols t)"
  define x y where "x = cursor_x f" and "y = cursor_y f"
  note start = flushing_start [OF assms]
  show ?thesis
  proof (cases "x < C \<and> y < rows t")
    case False
    then have "draw_cursor t = Inr t" "position_cell (rows t) (cols t) x y = None"
      by (auto simp: draw_cursor_def Let_def x_def y_def f_def C_def position_cell_def not_less)
    then show ?thesis using start by (intro exI [of _ "screen t"]) (simp add: x_def y_def f_def)
  next
    case True
    define i where "i = unat y * unat C + unat x"
    have bound: "N < 2 ^ 62" "length (grid f) = N" "length (cell_map f) = N"
      using ok by (simp_all add: queue_ok_def N_def f_def)
    have i: "unat (x + y * C) = i" "i < N"
      using unat_cell [of x C y "rows t"] True bound(1) by (simp_all add: i_def N_def C_def add.commute)
    have cur: "position_cell (rows t) (cols t) x y = Some i" using True by (simp add: position_cell_def i_def C_def)
    define c where "c = view f ! i"
    have ch: "char_c (inverted c) < 256"
      using view_chars [OF chars, of i] i(2) bound(2) by (simp add: c_def inverted_def f_def)
    have at: "cell_at f i = Inr c" using cell_at_view [OF ok, of i] i(2) by (simp add: c_def f_def N_def)
    obtain g where g: "plot_char (inverted c) x y t = Inr (t\<lparr>screen := g\<rparr>)"
      "\<exists>fb. g = f\<lparr>framebuffer := fb\<rparr>" "geo_ok (rows t) C g" "displays C g i (inverted c)"
      "\<And>j d. j < N \<Longrightarrow> j \<noteq> i \<Longrightarrow> displays C g j d = displays C f j d"
      using plot_char_displays [OF geo ch, of x y] True unfolding i_def N_def C_def f_def by blast
    obtain fb where fb: "g = f\<lparr>framebuffer := fb\<rparr>" using g(2) by blast
    define h where "h = g\<lparr>grid := (grid g)[i := c], cell_map := (cell_map g)[i := None]\<rparr>"
    have gc: "grid f ! i = c" if "cell_map f ! i = None"
      using that i(2) bound by (simp add: c_def nth_view view_cell_def)
    have "draw_cursor t = Inr (t\<lparr>screen := h\<rparr>)"
    proof (cases "cell_map f ! i")
      case None
      then have "h = g" using gc by (simp add: h_def fb list_update_same_conv bound i(2))
      then show ?thesis
        using None True at g(1) i bound
        by (simp add: draw_cursor_def Let_def not_le [symmetric] inverted_def flip: f_def x_def y_def C_def)
    next
      case (Some m)
      then show ?thesis
        using True at g(1) i bound
        by (simp add: draw_cursor_def Let_def not_le [symmetric] inverted_def on_screen_def h_def fb flip: f_def x_def y_def C_def)
    qed
    moreover have "flushing t (Some i) 0 h"
      unfolding flushing_def
    proof (intro conjI)
      show "\<exists>fb g m. h = (screen t)\<lparr>framebuffer := fb, grid := g, cell_map := m\<rparr>"
        unfolding h_def fb f_def fb_context.simps by blast
      show "view h = view (screen t)"
        using view_taken_over [of i g c] i(2) bound by (simp add: h_def fb c_def f_def)
      show "\<forall>c\<in>set (grid h). char_c c < 256"
        using chars ch by (auto simp: chars_ok_def h_def fb f_def inverted_def dest!: set_update_subset_insert [THEN subsetD])
      show "\<forall>j<unat (rows t) * unat (cols t). \<forall>m. cell_map h ! j = Some m \<longrightarrow>
          0 \<le> m \<and> m < unat (queue_i h) \<and> item_cell (cols t) (queue h ! m) = j"
      proof (intro allI impI)
        fix j m assume j: "j < unat (rows t) * unat (cols t)" "cell_map h ! j = Some m"
        then have "j \<noteq> i" "cell_map (screen t) ! j = Some m" using bound i(2) by (auto simp: h_def fb f_def nth_list_update N_def split: if_splits)
        then show "0 \<le> m \<and> m < unat (queue_i h) \<and> item_cell (cols t) (queue h ! m) = j"
          using ok j(1) by (simp add: queue_ok_def h_def fb f_def)
      qed
      show "\<forall>j<unat (rows t) * unat (cols t).
          if Some i = Some j then cell_map h ! j = None \<and> displays (cols t) h j (inverted (grid h ! j))
          else displays (cols t) h j (grid h ! j)
            \<or> position_cell (rows t) (cols t) (old_cursor_x (screen t)) (old_cursor_y (screen t)) = Some j
              \<and> displays (cols t) h j (inverted (grid h ! j))"
      proof (intro allI impI)
        fix j assume j: "j < unat (rows t) * unat (cols t)"
        show "if Some i = Some j then cell_map h ! j = None \<and> displays (cols t) h j (inverted (grid h ! j))
          else displays (cols t) h j (grid h ! j)
            \<or> position_cell (rows t) (cols t) (old_cursor_x (screen t)) (old_cursor_y (screen t)) = Some j
              \<and> displays (cols t) h j (inverted (grid h ! j))"
        proof (cases "j = i")
          case True
          then show ?thesis using g(4) bound i(2) by (simp add: h_def fb C_def)
        next
          case False
          then have "displays (cols t) h j d = displays (cols t) f j d" "grid h ! j = grid f ! j" for d
            using g(5) [of j d] j by (simp_all add: h_def fb N_def C_def)
          then show ?thesis using False sync j by (simp add: in_sync_def f_def)
        qed
      qed
    qed (use g(3) bound in \<open>simp_all add: h_def fb C_def N_def\<close>)
    ultimately show ?thesis using cur by (auto simp: x_def y_def f_def)
  qed
qed

lemma flush_queue_flushing:
  assumes ok: "queue_ok (rows t) (cols t) (screen t)" and chars: "chars_ok (screen t)"
    and "flushing t cur 0 f"
  shows "\<exists>g. for_upto 0 (unat (queue_i (screen t))) flush_item (t\<lparr>screen := f\<rparr>) = Inr (t\<lparr>screen := g\<rparr>)
    \<and> flushing t cur (unat (queue_i (screen t))) g"
proof -
  have "\<exists>s. for_upto 0 (unat (queue_i (screen t))) flush_item (t\<lparr>screen := f\<rparr>) = Inr s
      \<and> (\<exists>g. s = t\<lparr>screen := g\<rparr> \<and> flushing t cur (0 + unat (queue_i (screen t))) g)"
  proof (rule for_upto_total)
    fix k s assume k: "k < 0 + unat (queue_i (screen t))" "\<exists>g. s = t\<lparr>screen := g\<rparr> \<and> flushing t cur k g"
    then obtain f where f: "s = t\<lparr>screen := f\<rparr>" "flushing t cur k f" by blast
    obtain g where "flush_item k (t\<lparr>screen := f\<rparr>) = Inr (t\<lparr>screen := g\<rparr>)" "flushing t cur (Suc k) g"
      using flush_item_step [OF ok chars _ f(2)] k(1) by auto
    then show "\<exists>s'. flush_item k s = Inr s' \<and> (\<exists>g. s' = t\<lparr>screen := g\<rparr> \<and> flushing t cur (Suc k) g)"
      unfolding f(1) by blast
  qed (use assms(3) in blast)
  then show ?thesis by auto
qed

text \<open>After a flush: the grid is the view, and the frame buffer shows it, inverted at the cursor.\<close>

definition cursor_cell :: "fb_terminal \<Rightarrow> nat option" where
  "cursor_cell t =
     (if cursor_enabled t then position_cell (rows t) (cols t) (cursor_x (screen t)) (cursor_y (screen t)) else None)"

definition shown :: "fb_terminal \<Rightarrow> bool" where
  "shown t \<longleftrightarrow>
     grid (screen t) = view (screen t)
     \<and> (\<forall>j < unat (rows t) * unat (cols t). displays (cols t) (screen t) j
          (if cursor_cell t = Some j then inverted (grid (screen t) ! j) else grid (screen t) ! j))"

lemma position_cell_inj:
  assumes "position_cell (rows t) (cols t) x y = Some i" and "position_cell (rows t) (cols t) x' y' = Some i"
  shows "x' = x \<and> y' = y"
proof -
  have "x < cols t" "x' < cols t" "unat y' * unat (cols t) + unat x' = unat y * unat (cols t) + unat x"
    using assms by (auto simp: position_cell_def split: if_splits)
  then show ?thesis using cell_eq_iff [of "unat x" "unat (cols t)" "unat x'" "unat y'" "unat y"]
    by (simp add: word_less_nat_alt word_unat_eq_iff)
qed

lemma redraw_old_cursor_shown:
  assumes fl: "flushing t cur n f" and cur: "cur = cursor_cell t" and bound: "unat (rows t) * unat (cols t) < 2 ^ 62"
  shows "\<exists>g. redraw_old_cursor (t\<lparr>screen := f\<rparr>) = Inr (t\<lparr>screen := g\<rparr>) \<and> (\<exists>fb. g = f\<lparr>framebuffer := fb\<rparr>)
    \<and> geo_ok (rows t) (cols t) g
    \<and> (\<forall>j < unat (rows t) * unat (cols t). displays (cols t) g j (if cur = Some j then inverted (grid f ! j) else grid f ! j))"
proof -
  define x y where "x = old_cursor_x (screen t)" and "y = old_cursor_y (screen t)"
  have same: "old_cursor_x f = x" "old_cursor_y f = y" "cursor_x f = cursor_x (screen t)" "cursor_y f = cursor_y (screen t)"
    using fl by (auto simp: flushing_def x_def y_def)
  have geo: "geo_ok (rows t) (cols t) f" using fl by (simp add: flushing_def)
  have disp: "if cur = Some j then displays (cols t) f j (inverted (grid f ! j))
      else displays (cols t) f j (grid f ! j) \<or> position_cell (rows t) (cols t) x y = Some j \<and> displays (cols t) f j (inverted (grid f ! j))"
    if "j < unat (rows t) * unat (cols t)" for j
    using fl that unfolding flushing_def x_def y_def by (metis (mono_tags, lifting))
  show ?thesis
  proof (cases "((x \<noteq> cursor_x f \<or> y \<noteq> cursor_y f) \<or> \<not> cursor_enabled t) \<and> x < cols t \<and> y < rows t")
    case False
    have "displays (cols t) f j (if cur = Some j then inverted (grid f ! j) else grid f ! j)"
      if j: "j < unat (rows t) * unat (cols t)" for j
    proof (cases "position_cell (rows t) (cols t) x y = Some j")
      case True
      then have "x < cols t" "y < rows t" by (auto simp: position_cell_def split: if_splits)
      then have "x = cursor_x f" "y = cursor_y f" "cursor_enabled t" using False by auto
      then show ?thesis using True disp [OF j] by (simp add: cur cursor_cell_def same)
    next
      case False
      then show ?thesis using disp [OF j] by auto
    qed
    moreover have "redraw_old_cursor (t\<lparr>screen := f\<rparr>) = Inr (t\<lparr>screen := f\<rparr>)"
      using False by (auto simp: redraw_old_cursor_def Let_def same)
    ultimately show ?thesis using geo by (intro exI [of _ f] conjI exI [of _ "framebuffer f"]) simp_all
  next
    case True
    define i where "i = unat y * unat (cols t) + unat x"
    have i: "unat (x + y * cols t) = i" "i < unat (rows t) * unat (cols t)" "position_cell (rows t) (cols t) x y = Some i"
      using unat_cell [of x "cols t" y "rows t"] True bound by (simp_all add: i_def add.commute position_cell_def)
    have len: "length (grid f) = unat (rows t) * unat (cols t)" using fl by (simp add: flushing_def)
    have "char_c (grid f ! i) < 256" using fl i(2) len by (simp add: flushing_def)
    then obtain g where g: "plot_char (grid f ! i) x y (t\<lparr>screen := f\<rparr>) = Inr (t\<lparr>screen := g\<rparr>)" "\<exists>fb. g = f\<lparr>framebuffer := fb\<rparr>"
      "geo_ok (rows t) (cols t) g" "displays (cols t) g i (grid f ! i)"
      "\<And>j d. j < unat (rows t) * unat (cols t) \<Longrightarrow> j \<noteq> i \<Longrightarrow> displays (cols t) g j d = displays (cols t) f j d"
      using plot_char_at [OF geo, of "grid f ! i" x y] True unfolding i_def by blast
    have "cur \<noteq> Some i"
      using True position_cell_inj [OF i(3)] by (auto simp: cur cursor_cell_def same)
    then have "displays (cols t) g j (if cur = Some j then inverted (grid f ! j) else grid f ! j)"
      if j: "j < unat (rows t) * unat (cols t)" for j
    proof (cases "j = i")
      case True
      then show ?thesis using g(4) \<open>cur \<noteq> Some i\<close> by simp
    next
      case False
      then have "position_cell (rows t) (cols t) x y \<noteq> Some j" using i(3) by simp
      then show ?thesis using disp [OF j] g(5) [OF j False] by (auto split: if_splits)
    qed
    moreover have "redraw_old_cursor (t\<lparr>screen := f\<rparr>) = Inr (t\<lparr>screen := g\<rparr>)"
      using True g(1) i len by (simp add: redraw_old_cursor_def Let_def same)
    ultimately show ?thesis using g(2,3) by blast
  qed
qed

lemma flush_shown:
  assumes ok: "queue_ok (rows t) (cols t) (screen t)" and chars: "chars_ok (screen t)"
    and geo: "geo_ok (rows t) (cols t) (screen t)" and sync: "in_sync (rows t) (cols t) (screen t)"
  shows "\<exists>g. flanterm_fb_double_buffer_flush t = Inr (t\<lparr>screen := g\<rparr>) \<and> view g = view (screen t)
    \<and> queue_ok (rows t) (cols t) g \<and> chars_ok g \<and> geo_ok (rows t) (cols t) g \<and> in_sync (rows t) (cols t) g \<and> shown (t\<lparr>screen := g\<rparr>)
    \<and> (\<exists>fb gr q m x y. g = (screen t)\<lparr>framebuffer := fb, grid := gr, queue_i := q, cell_map := m, old_cursor_x := x, old_cursor_y := y\<rparr>)"
proof -
  define N where "N = unat (rows t) * unat (cols t)"
  define cur where "cur = cursor_cell t"
  have "\<exists>f. (if cursor_enabled t then draw_cursor t else Inr t) = Inr (t\<lparr>screen := f\<rparr>) \<and> flushing t cur 0 f"
    using draw_cursor_flushing [OF assms] flushing_start [OF assms]
    by (cases "cursor_enabled t") (auto simp: cur_def cursor_cell_def intro: exI [of _ "screen t"])
  then obtain f1 where f1: "(if cursor_enabled t then draw_cursor t else Inr t) = Inr (t\<lparr>screen := f1\<rparr>)" "flushing t cur 0 f1" by blast
  have qi: "queue_i f1 = queue_i (screen t)" using f1(2) by (auto simp: flushing_def)
  obtain f2 where f2: "for_upto 0 (unat (queue_i (screen t))) flush_item (t\<lparr>screen := f1\<rparr>) = Inr (t\<lparr>screen := f2\<rparr>)"
    "flushing t cur (unat (queue_i (screen t))) f2" using flush_queue_flushing [OF ok chars f1(2)] by blast
  have "N < 2 ^ 62" using ok by (simp add: queue_ok_def N_def)
  then obtain f3 where f3: "redraw_old_cursor (t\<lparr>screen := f2\<rparr>) = Inr (t\<lparr>screen := f3\<rparr>)" "\<exists>fb. f3 = f2\<lparr>framebuffer := fb\<rparr>"
    "geo_ok (rows t) (cols t) f3"
    "\<forall>j<N. displays (cols t) f3 j (if cur = Some j then inverted (grid f2 ! j) else grid f2 ! j)"
    using redraw_old_cursor_shown [OF f2(2) cur_def] by (auto simp: N_def)
  define g where "g = f3\<lparr>old_cursor_x := cursor_x f3, old_cursor_y := cursor_y f3, queue_i := 0\<rparr>"
  have run: "flanterm_fb_double_buffer_flush t = Inr (t\<lparr>screen := g\<rparr>)"
    using f1(1) f2(1) f3(1) qi by (simp add: flanterm_fb_double_buffer_flush_def on_screen_def g_def)
  obtain fb where fb: "f3 = f2\<lparr>framebuffer := fb\<rparr>" using f3(2) by blast
  obtain fb2 gr m where f2_eq: "f2 = (screen t)\<lparr>framebuffer := fb2, grid := gr, cell_map := m\<rparr>"
    using f2(2) unfolding flushing_def by blast
  have len: "length (grid f2) = N" "length (cell_map f2) = N" using f2(2) by (simp_all add: flushing_def N_def)
  have none: "cell_map f2 ! j = None" if "j < N" for j
  proof (cases "cell_map f2 ! j")
    case (Some m)
    then have "unat (queue_i (screen t)) \<le> m" "m < unat (queue_i f2)" using f2(2) that by (auto simp: flushing_def N_def)
    then show ?thesis by (simp add: f2_eq)
  qed simp
  have view: "view f2 = view (screen t)" using f2(2) by (simp add: flushing_def)
  have gv: "view g = view f2" "grid g = grid f2" by (simp_all add: g_def fb view_def view_cell_def cong: option.case_cong)
  have grid: "grid f2 = view f2" by (rule nth_equalityI) (simp_all add: nth_view view_cell_def len none)
  have q: "queue_ok (rows t) (cols t) g"
  proof -
    have "length (grid g) = N" "length (cell_map g) = N" "length (queue g) = N" "queue_i g = 0" "N < 2 ^ 62"
      using len ok by (simp_all add: g_def fb f2_eq queue_ok_def N_def)
    moreover have "cell_map g ! j = None" if "j < N" for j using none [OF that] by (simp add: g_def fb)
    ultimately show ?thesis by (simp add: queue_ok_def N_def)
  qed
  have "\<forall>c \<in> set (grid f2). char_c c < 256" using f2(2) unfolding flushing_def by blast
  then have c: "chars_ok g" unfolding chars_ok_def gv grid [symmetric] by blast
  have geo': "geo_ok (rows t) (cols t) g" using f3(3) by (simp add: g_def)
  have cursor: "cursor_cell (t\<lparr>screen := g\<rparr>) = cur" by (simp add: cursor_cell_def cur_def g_def fb f2_eq position_cell_def)
  have d: "displays (cols t) g j (if cur = Some j then inverted (grid g ! j) else grid g ! j)" if "j < N" for j
  proof -
    have "displays (cols t) g = displays (cols t) f3" by (simp add: g_def)
    then show ?thesis using f3(4) that unfolding gv by simp
  qed
  have sel: "screen (t\<lparr>screen := g\<rparr>) = g" "rows (t\<lparr>screen := g\<rparr>) = rows t" "cols (t\<lparr>screen := g\<rparr>) = cols t" by simp_all
  have shown: "shown (t\<lparr>screen := g\<rparr>)" 
    unfolding shown_def cursor sel N_def [symmetric] using d by (intro conjI allI impI) (simp_all only: gv grid)
  have "position_cell (rows t) (cols t) (old_cursor_x g) (old_cursor_y g) = Some j" if "cur = Some j" for j
    using that by (simp add: cur_def cursor_cell_def g_def fb f2_eq position_cell_def split: if_splits)
  then have sync': "in_sync (rows t) (cols t) g"
    unfolding in_sync_def N_def [symmetric] using d by metis
  have "g = (screen t)\<lparr>framebuffer := fb, grid := gr, queue_i := 0, cell_map := m, old_cursor_x := cursor_x f3, old_cursor_y := cursor_y f3\<rparr>"
    by (simp add: g_def fb f2_eq)
  then have "\<exists>fb gr q m x y. g = (screen t)\<lparr>framebuffer := fb, grid := gr, queue_i := q, cell_map := m, old_cursor_x := x, old_cursor_y := y\<rparr>"
    by (intro exI)
  then show ?thesis
    by (intro exI [of _ g] conjI run q c geo' shown sync' trans [OF gv(1) view])
qed

end
