(* ===== verification/Framebuffer_Backend.thy ===== *)
theory Framebuffer_Backend
  imports Framebuffer_Pixels
begin

section \<open>The contract of the back end\<close>

definition fb_ok :: "u64 \<Rightarrow> u64 \<Rightarrow> fb_context \<Rightarrow> bool" where
  "fb_ok R C f \<longleftrightarrow> queue_ok R C f \<and> chars_ok f \<and> geo_ok R C f \<and> in_sync R C f
     \<and> length (ansi_colours f) = 8 \<and> length (ansi_bright_colours f) = 8
     \<and> red_mask_shift f < 32 \<and> green_mask_shift f < 32 \<and> blue_mask_shift f < 32"

lemma displays_queue [simp]: "displays C (f\<lparr>queue := q\<rparr>) = displays C f"
  by (intro ext; simp add: displays_def glyph_area_def cell_x_def cell_y_def pixel_def glyph_pixel_def tone_def glyph_bit_def
      cong: option.case_cong)

lemma geo_queue [simp]: "geo_ok R C (f\<lparr>queue := q\<rparr>) = geo_ok R C f"
  by (simp add: geo_ok_def cong: option.case_cong)

text \<open>The attributes and the cursor are independent of the rest.\<close>

lemma fb_ok_update [simp]:
  "fb_ok R C (f\<lparr>text_fg := v\<rparr>) = fb_ok R C f" "fb_ok R C (f\<lparr>text_bg := v\<rparr>) = fb_ok R C f"
  "fb_ok R C (f\<lparr>cursor_x := w\<rparr>) = fb_ok R C f" "fb_ok R C (f\<lparr>cursor_y := w\<rparr>) = fb_ok R C f"
  "fb_ok R C (f\<lparr>saved_state_text_fg := v\<rparr>) = fb_ok R C f" "fb_ok R C (f\<lparr>saved_state_text_bg := v\<rparr>) = fb_ok R C f"
  "fb_ok R C (f\<lparr>saved_state_cursor_x := w\<rparr>) = fb_ok R C f" "fb_ok R C (f\<lparr>saved_state_cursor_y := w\<rparr>) = fb_ok R C f"
  unfolding fb_ok_def queue_ok_def chars_ok_def geo_ok_def in_sync_def displays_def glyph_area_def cell_x_def cell_y_def
    pixel_def glyph_pixel_def tone_def glyph_bit_def view_def view_cell_def
  by (simp_all cong: option.case_cong)

lemma fb_ok_queued:
  assumes "fb_ok R C f" and "queued f g" and "queue_ok R C g" and "\<And>c. c \<in> set (view g) \<Longrightarrow> char_c c < 256"
  shows "fb_ok R C g"
proof -
  obtain qs n m where g: "g = f\<lparr>queue := qs, queue_i := n, cell_map := m\<rparr>" using assms(2) by (auto simp: queued_def)
  have "in_sync R C g" using assms(1) by (simp add: fb_ok_def in_sync_def g)
  moreover have "chars_ok g" using assms(1,4) by (auto simp: fb_ok_def chars_ok_def g)
  ultimately show ?thesis using assms(1,3) by (simp add: fb_ok_def g)
qed

lemma kept_view:
  assumes ok: "fb_ok (rows t) (cols t) (screen t)" and "shows_view t r v" and "\<And>c. c \<in> set v \<Longrightarrow> char_c c < 256"
  shows "kept fb_ok t r"
proof -
  obtain f where "r = Inr (t\<lparr>screen := f\<rparr>)" "queued (screen t) f" "queue_ok (rows t) (cols t) f" "view f = v"
    using assms(2) by (auto simp: shows_view_def)
  then show ?thesis using fb_ok_queued [OF ok] assms(3) by (auto simp: kept_def)
qed

lemma kept_on_screen:
  "fb_ok (rows t) (cols t) (g (screen t)) \<Longrightarrow> kept fb_ok t (Inr (on_screen g t))"
  unfolding kept_def on_screen_def by blast

lemma kept_andthen:
  assumes "kept I t r" and "\<And>f. I (rows t) (cols t) f \<Longrightarrow> kept I (t\<lparr>screen := f\<rparr>) (g (t\<lparr>screen := f\<rparr>))"
  shows "kept I t (andthen r g)"
proof -
  obtain f where f: "r = Inr (t\<lparr>screen := f\<rparr>)" "I (rows t) (cols t) f" using assms(1) by (auto simp: kept_def)
  then show ?thesis using assms(2) [OF f(2)] by (auto simp: kept_def)
qed

lemma fb_ok_parts:
  "fb_ok R C f \<Longrightarrow> queue_ok R C f \<and> chars_ok f \<and> geo_ok R C f \<and> in_sync R C f"
  by (simp add: fb_ok_def)

lemma view_char:
  "fb_ok R C f \<Longrightarrow> c \<in> set (view f) \<Longrightarrow> char_c c < 256"
  by (simp add: fb_ok_def chars_ok_def)

lemma ready_fb: "ready fb_ok t \<Longrightarrow> fb_ok (rows t) (cols t) (screen t)"
  by (simp add: ready_def)

lemma empty_char_code [simp]: "char_c (empty_char f) < 256"
  by (simp add: empty_char_def)

lemma push_kept:
  assumes "fb_ok (rows t) (cols t) (screen t)" and "char_c c < 256"
  shows "kept fb_ok t (push_to_queue c x y t)"
  using assms(2) view_char [OF assms(1)]
  by (intro kept_view [OF assms(1) push_to_queue_view]) (auto simp: fb_ok_parts [OF assms(1)] split: if_splits dest!: set_update_subset_insert [THEN subsetD])

lemma scroll_kept_fb:
  assumes r: "ready fb_ok t"
  shows "kept fb_ok t (flanterm_fb_scroll t)"
proof (rule kept_view [OF ready_fb [OF r] scroll_view [OF _ r]])
  show q: "queue_ok (rows t) (cols t) (screen t)" using fb_ok_parts [OF ready_fb [OF r]] by blast
  fix c assume "c \<in> set (scrolled (unat (scroll_top_margin t)) (unat (scroll_bottom_margin t)) (unat (cols t))
    (empty_char (screen t)) (view (screen t)))"
  then have "c = empty_char (screen t) \<or> c \<in> set (view (screen t))"
    using set_scrolled [of "unat (scroll_bottom_margin t)" "unat (cols t)" "view (screen t)"] margin_cells(3) [OF q r]
      queue_ok_bounds(3) [OF q] by auto
  then show "char_c c < 256" using view_char [OF ready_fb [OF r]] by auto
qed

lemma wrap_line_kept:
  assumes r: "ready fb_ok t"
  shows "kept fb_ok t (wrap_line t)"
proof -
  define u where "u = on_screen (\<lambda>f. f\<lparr>cursor_x := 0, cursor_y := cursor_y f + 1\<rparr>) t"
  define v where "v = on_screen (\<lambda>f. f\<lparr>cursor_y := cursor_y f - 1\<rparr>) u"
  have same: "rows v = rows t" "cols v = cols t"
    by (simp_all add: u_def v_def on_screen_def)
  have ok: "fb_ok (rows t) (cols t) (screen u)" "ready fb_ok v"
    using r by (simp_all add: u_def v_def on_screen_def ready_def)
  have "kept fb_ok t (flanterm_fb_scroll v)"
  proof -
    obtain g where "flanterm_fb_scroll v = Inr (v\<lparr>screen := g\<rparr>)" "fb_ok (rows t) (cols t) g"
      using scroll_kept_fb [OF ok(2)] unfolding kept_def same by blast
    then show ?thesis unfolding kept_def by (intro exI [of _ g]) (simp add: u_def v_def on_screen_def)
  qed
  moreover have "kept fb_ok t (Inr u)"
    unfolding kept_def using ok(1) by (intro exI [of _ "screen u"]) (simp add: u_def on_screen_def)
  ultimately have "kept fb_ok t (if b then flanterm_fb_scroll v else Inr u)" for b
    by (cases b) (simp_all only: if_True if_False)
  then have "kept fb_ok t (andthen (if cursor_y (screen u) = scroll_bottom_margin u then flanterm_fb_scroll v else Inr u) (\<lambda>t.
         Inr (if cols t \<le> cursor_y (screen t) then on_screen (\<lambda>f. f\<lparr>cursor_y := cols t - 1\<rparr>) t else t)))"
    by (rule kept_andthen) (auto simp: kept_def on_screen_def)
  moreover have "kept fb_ok t (Inr t)" unfolding kept_def
    using ready_fb [OF r] by (intro exI [of _ "screen t"]) simp
  ultimately show ?thesis unfolding wrap_line_def Let_def u_def v_def by simp
qed

lemma raw_putchar_kept_fb:
  assumes r: "ready fb_ok t"
  shows "kept fb_ok t (flanterm_fb_raw_putchar c t)"
  unfolding flanterm_fb_raw_putchar_def
proof (rule kept_andthen [OF wrap_line_kept [OF r]])
  fix f assume f: "fb_ok (rows t) (cols t) f"
  define ch where "ch = \<lparr>char_c = ucast c, char_fg = text_fg f, char_bg = text_bg f\<rparr>"
  have "unat c < 256" using unsigned_less [of c] by simp
  then have "unat (ucast c :: u32) < 256" by (simp add: unsigned_ucast_eq take_bit_nat_eq_self)
  then have ch: "char_c ch < 256" by (simp add: ch_def word_less_nat_alt)
  have "kept fb_ok (t\<lparr>screen := f\<lparr>cursor_x := cursor_x f + 1\<rparr>\<rparr>)
      (push_to_queue ch (cursor_x f) (cursor_y f) (t\<lparr>screen := f\<lparr>cursor_x := cursor_x f + 1\<rparr>\<rparr>))"
    by (rule push_kept) (use f ch in simp_all)
  then obtain g where "push_to_queue ch (cursor_x f) (cursor_y f) (t\<lparr>screen := f\<lparr>cursor_x := cursor_x f + 1\<rparr>\<rparr>) = Inr (t\<lparr>screen := g\<rparr>)"
    "fb_ok (rows t) (cols t) g" by (auto simp: kept_def)
  then show "kept fb_ok (t\<lparr>screen := f\<rparr>) ((\<lambda>t. let f = screen t; ch = \<lparr>char_c = ucast c, char_fg = text_fg f, char_bg = text_bg f\<rparr>
     in push_to_queue ch (cursor_x f) (cursor_y f) (on_screen (\<lambda>f. f\<lparr>cursor_x := cursor_x f + 1\<rparr>) t)) (t\<lparr>screen := f\<rparr>))"
    by (auto simp: Let_def ch_def on_screen_def kept_def)
qed

lemma clear_kept_fb:
  assumes r: "ready fb_ok t"
  shows "kept fb_ok t (flanterm_fb_clear move t)"
proof -
  have q: "queue_ok (rows t) (cols t) (screen t)" using fb_ok_parts [OF ready_fb [OF r]] by blast
  have "kept fb_ok t (flanterm_fb_clear False t)"
    by (rule kept_view [OF ready_fb [OF r] clear_view [OF q r]]) auto
  then have "kept fb_ok t (andthen (flanterm_fb_clear False t) (\<lambda>t. Inr (if move then on_screen (\<lambda>f. f\<lparr>cursor_x := 0, cursor_y := 0\<rparr>) t else t)))"
    by (rule kept_andthen) (auto simp: kept_def on_screen_def)
  then show ?thesis by (simp add: flanterm_fb_clear_def Let_def andthen_assoc)
qed

lemma colours_kept:
  assumes r: "ready fb_ok t"
  shows "n < 8 \<Longrightarrow> kept fb_ok t (flanterm_fb_set_text_fg n t)" "n < 8 \<Longrightarrow> kept fb_ok t (flanterm_fb_set_text_bg n t)"
    "n < 8 \<Longrightarrow> kept fb_ok t (flanterm_fb_set_text_fg_bright n t)" "n < 8 \<Longrightarrow> kept fb_ok t (flanterm_fb_set_text_bg_bright n t)"
    "kept fb_ok t (flanterm_fb_set_text_fg_rgb rgb t)" "kept fb_ok t (flanterm_fb_set_text_bg_rgb rgb t)"
  using ready_fb [OF r]
  by (simp_all add: flanterm_fb_set_text_fg_def flanterm_fb_set_text_bg_def flanterm_fb_set_text_fg_bright_def
      flanterm_fb_set_text_bg_bright_def flanterm_fb_set_text_fg_rgb_def flanterm_fb_set_text_bg_rgb_def
      convert_colour_def Let_def fb_ok_def [of _ _ "screen t"] word_less_nat_alt kept_on_screen)

lemma revscroll_kept_fb:
  assumes r: "ready fb_ok t"
  shows "kept fb_ok t (flanterm_fb_revscroll t)"
proof (rule kept_view [OF ready_fb [OF r] revscroll_view [OF _ r]])
  show "queue_ok (rows t) (cols t) (screen t)" using fb_ok_parts [OF ready_fb [OF r]] by blast
  fix c assume "c \<in> set (revscrolled (unat (scroll_top_margin t)) (unat (scroll_bottom_margin t)) (unat (cols t))
    (empty_char (screen t)) (view (screen t)))"
  then have "c = empty_char (screen t) \<or> c \<in> set (view (screen t))" using set_revscrolled by blast
  then show "char_c c < 256" using view_char [OF ready_fb [OF r]] by auto
qed

lemma move_character_kept_fb:
  assumes r: "ready fb_ok t"
  shows "kept fb_ok t (flanterm_fb_move_character nx ny ox oy t)"
proof (rule kept_view [OF ready_fb [OF r] move_character_view])
  show q: "queue_ok (rows t) (cols t) (screen t)" using fb_ok_parts [OF ready_fb [OF r]] by blast
  fix c assume c: "c \<in> set (if nx < cols t \<and> ny < rows t \<and> ox < cols t \<and> oy < rows t
     then (view (screen t))[unat ny * unat (cols t) + unat nx := view (screen t) ! (unat oy * unat (cols t) + unat ox)]
     else view (screen t))"
  have "view (screen t) ! (unat oy * unat (cols t) + unat ox) \<in> set (view (screen t))" if "ox < cols t" "oy < rows t"
    using that cell_less [of "unat ox" "unat (cols t)" "unat oy" "unat (rows t)"] queue_ok_bounds(3) [OF q]
    by (simp add: word_less_nat_alt)
  then have "c \<in> set (view (screen t))"
    using c by (auto split: if_splits dest!: set_update_subset_insert [THEN subsetD])
  then show "char_c c < 256" using view_char [OF ready_fb [OF r]] by blast
qed

lemma attributes_kept:
  assumes r: "ready fb_ok t"
  shows "kept fb_ok t (flanterm_fb_set_cursor_pos x y t)" "kept fb_ok t (flanterm_fb_swap_palette t)"
    "kept fb_ok t (flanterm_fb_save_state t)" "kept fb_ok t (flanterm_fb_restore_state t)"
    "kept fb_ok t (flanterm_fb_set_text_fg_default t)" "kept fb_ok t (flanterm_fb_set_text_bg_default t)"
    "kept fb_ok t (flanterm_fb_set_text_fg_default_bright t)" "kept fb_ok t (flanterm_fb_set_text_bg_default_bright t)"
  unfolding flanterm_fb_set_cursor_pos_def flanterm_fb_swap_palette_def flanterm_fb_save_state_def
    flanterm_fb_restore_state_def flanterm_fb_set_text_fg_default_def flanterm_fb_set_text_bg_default_def
    flanterm_fb_set_text_fg_default_bright_def flanterm_fb_set_text_bg_default_bright_def
  using ready_fb [OF r] by (simp_all add: kept_on_screen)

lemma flush_kept_fb:
  assumes r: "ready fb_ok t"
  shows "kept fb_ok t (flanterm_fb_double_buffer_flush t)"
proof -
  have ok: "fb_ok (rows t) (cols t) (screen t)" by (rule ready_fb [OF r])
  obtain g fb gr q m x y where g: "flanterm_fb_double_buffer_flush t = Inr (t\<lparr>screen := g\<rparr>)"
    "queue_ok (rows t) (cols t) g" "chars_ok g" "geo_ok (rows t) (cols t) g" "in_sync (rows t) (cols t) g"
    "g = (screen t)\<lparr>framebuffer := fb, grid := gr, queue_i := q, cell_map := m, old_cursor_x := x, old_cursor_y := y\<rparr>"
    using flush_shown [of t] fb_ok_parts [OF ok] by blast
  have "length (ansi_colours g) = 8" "length (ansi_bright_colours g) = 8"
    "red_mask_shift g < 32" "green_mask_shift g < 32" "blue_mask_shift g < 32"
    using ok unfolding g(6) by (simp_all add: fb_ok_def)
  then have "fb_ok (rows t) (cols t) g" using g(2-5) by (simp add: fb_ok_def)
  then show ?thesis unfolding kept_def g(1) by blast
qed

lemma cursor_in_range_fb:
  "ready fb_ok t \<Longrightarrow> fst (flanterm_fb_get_cursor_pos t) < cols t \<and> snd (flanterm_fb_get_cursor_pos t) < rows t"
  by (simp add: flanterm_fb_get_cursor_pos_def ready_def not_le word_less_nat_alt unat_pred)

interpretation fb: terminal_backend fb_backend fb_ok
  by unfold_locales
    (simp_all add: fb_backend_def cursor_in_range_fb raw_putchar_kept_fb clear_kept_fb colours_kept attributes_kept
      move_character_kept_fb scroll_kept_fb revscroll_kept_fb flush_kept_fb)

end
