(* ===== verification/Framebuffer_Refresh.thy ===== *)
theory Framebuffer_Refresh
  imports Framebuffer_Backend
begin

section \<open>Drawing the whole screen\<close>

definition repainted :: "fb_context \<Rightarrow> fb_context \<Rightarrow> bool" where
  "repainted f g \<longleftrightarrow> (\<exists>fb. g = f\<lparr>framebuffer := fb\<rparr> \<and> length fb = length (framebuffer f))"

lemma repainted_refl: "repainted f f"
  unfolding repainted_def by (intro exI [of _ "framebuffer f"]) simp

lemma repainted_geo: "repainted f g \<Longrightarrow> geo_ok R C g = geo_ok R C f"
  by (auto simp: repainted_def geo_ok_def cong: option.case_cong)

lemma refresh_pixel_repainted:
  assumes geo: "geo_ok R C f" and g: "repainted f g" and "x < unat (width f)" and "y < unat (height f)"
  shows "\<exists>h. refresh_pixel y x g = Inr h \<and> repainted f h"
proof -
  let ?S = "unat (pitch f div 4)"
  have S: "unat (width f) \<le> ?S" "?S < 2 ^ 30" "unat (height f) < 2 ^ 30"
    "unat (height f) * ?S + unat (width f) \<le> length (framebuffer f) + ?S"
    "case canvas f of Some cv \<Rightarrow> unat (height f) * unat (width f) \<le> length cv | None \<Rightarrow> True"
    using geo by (simp_all add: geo_ok_def)
  have w: "unat (of_nat x :: u64) = x" "unat (of_nat y :: u64) = y"
    using assms(3,4) S by (simp_all add: unsigned_of_nat take_bit_nat_eq_self)
  have i: "unat (of_nat y * width f + of_nat x) = y * unat (width f) + x" "y * unat (width f) + x < unat (height f) * unat (width f)"
    using pixel_index [of "0 :: u64" "of_nat x" "width f" 0 "of_nat y" "unat (height f)"] assms(3,4) S w by simp_all
  have j: "unat (of_nat y * (pitch f div 4) + of_nat x) = y * ?S + x" "y * ?S + x < length (framebuffer f)"
    using pixel_index [of "0 :: u64" "of_nat x" "pitch f div 4" 0 "of_nat y" "unat (height f)"]
      pixel_inside [OF assms(4,3) S(4)] assms(3,4) S w by auto
  obtain fb where fb: "g = f\<lparr>framebuffer := fb\<rparr>" "length fb = length (framebuffer f)" using g by (auto simp: repainted_def)
  obtain v where v: "(case canvas f of Some cv \<Rightarrow> fetch cv (unat (of_nat y * width f + of_nat x)) | None \<Rightarrow> Inr (default_bg f)) = Inr v"
    using S(5) i by (cases "canvas f") auto
  then have "refresh_pixel y x g = Inr (g\<lparr>framebuffer := fb[y * ?S + x := v]\<rparr>)"
    using j fb by (simp add: refresh_pixel_def cong: option.case_cong)
  then show ?thesis using fb by (auto simp: repainted_def)
qed

lemma refresh_background:
  assumes geo: "geo_ok R C f"
  shows "\<exists>g. for_upto 0 (unat (height f)) (\<lambda>y f. for_upto 0 (unat (width f)) (refresh_pixel y) f) f = Inr g \<and> repainted f g"
proof -
  have row: "\<exists>h. for_upto 0 (unat (width g)) (refresh_pixel y) g = Inr h \<and> repainted f h"
    if g: "repainted f g" and y: "y < unat (height f)" for g y
  proof -
    have "width g = width f" using g by (auto simp: repainted_def)
    moreover have "\<exists>h. for_upto 0 (unat (width f)) (refresh_pixel y) g = Inr h \<and> repainted f h"
      by (rule for_upto_total) (use g refresh_pixel_repainted [OF geo _ _ y] in auto)
    ultimately show ?thesis by simp
  qed
  show ?thesis by (rule for_upto_total) (use repainted_refl row in auto)
qed

text \<open>The state of the second loop: the cells below \<open>k\<close> are drawn.\<close>

definition painted :: "fb_terminal \<Rightarrow> fb_context \<Rightarrow> nat \<Rightarrow> fb_context \<Rightarrow> bool" where
  "painted t f k g \<longleftrightarrow>
     (\<exists>fb. g = f\<lparr>framebuffer := fb\<rparr>) \<and> geo_ok (rows t) (cols t) g \<and> (\<forall>j < k. displays (cols t) g j (grid f ! j))"

lemma paint_cell:
  assumes p: "painted t f k g" and k: "k < unat (rows t) * unat (cols t)" and bound: "unat (rows t) * unat (cols t) < 2 ^ 62"
    and len: "length (grid f) = unat (rows t) * unat (cols t)" and chars: "\<forall>c \<in> set (grid f). char_c c < 256"
  shows "\<exists>h. plot_char (grid f ! k) (of_nat k mod cols t) (of_nat k div cols t) (t\<lparr>screen := g\<rparr>) = Inr (t\<lparr>screen := h\<rparr>)
    \<and> painted t f (Suc k) h"
proof -
  have C: "0 < cols t" using k by (cases "unat (cols t)") (auto simp: word_less_nat_alt)
  have "unat (cols t) \<le> unat (rows t) * unat (cols t)" using k by (cases "unat (rows t)") auto
  then have "k < 2 ^ 62" "unat (cols t) \<le> 2 ^ 62" using k bound by linarith+
  then have c: "unat (of_nat k mod cols t) = k mod unat (cols t)" "unat (of_nat k div cols t) = k div unat (cols t)"
    using cell_of_number(1,2) [of k "cols t"] C by simp_all
  have xy: "of_nat k mod cols t < cols t" "of_nat k div cols t < rows t"
    using c k C by (simp_all add: word_less_nat_alt less_mult_imp_div_less)
  have ch: "char_c (grid f ! k) < 256" using chars len k by simp
  have geo: "geo_ok (rows t) (cols t) g" using p by (simp add: painted_def)
  have i: "unat (of_nat k div cols t) * unat (cols t) + unat (of_nat k mod cols t) = k" by (simp add: c)
  obtain h where h: "plot_char (grid f ! k) (of_nat k mod cols t) (of_nat k div cols t) (t\<lparr>screen := g\<rparr>) = Inr (t\<lparr>screen := h\<rparr>)"
    "\<exists>fb. h = g\<lparr>framebuffer := fb\<rparr>" "geo_ok (rows t) (cols t) h" "displays (cols t) h k (grid f ! k)"
    "\<And>j d. j < unat (rows t) * unat (cols t) \<Longrightarrow> j \<noteq> k \<Longrightarrow> displays (cols t) h j d = displays (cols t) g j d"
    using plot_char_at [OF geo ch xy] unfolding i by blast
  have "displays (cols t) h j (grid f ! j)" if "j < Suc k" for j
    using that h(4,5) p k by (cases "j = k") (auto simp: painted_def)
  then have "painted t f (Suc k) h" using p h(2,3) by (auto simp: painted_def)
  then show ?thesis using h(1) by blast
qed

lemma paint_cells:
  assumes geo: "geo_ok (rows t) (cols t) f" and bound: "unat (rows t) * unat (cols t) < 2 ^ 62"
    and len: "length (grid f) = unat (rows t) * unat (cols t)" and chars: "\<forall>c \<in> set (grid f). char_c c < 256"
  shows "\<exists>g. for_upto 0 (unat (rows t * cols t)) (\<lambda>i t. andthen (fetch (grid (screen t)) i) (\<lambda>c.
        plot_char c (of_nat i mod cols t) (of_nat i div cols t) t)) (t\<lparr>screen := f\<rparr>) = Inr (t\<lparr>screen := g\<rparr>)
    \<and> painted t f (unat (rows t) * unat (cols t)) g"
proof -
  have n: "unat (rows t * cols t) = unat (rows t) * unat (cols t)" using unat_times [of "rows t" "cols t"] bound by simp
  have "\<exists>s. for_upto 0 (unat (rows t * cols t)) (\<lambda>i t. andthen (fetch (grid (screen t)) i) (\<lambda>c.
        plot_char c (of_nat i mod cols t) (of_nat i div cols t) t)) (t\<lparr>screen := f\<rparr>) = Inr s
    \<and> (\<exists>g. s = t\<lparr>screen := g\<rparr> \<and> painted t f (0 + unat (rows t * cols t)) g)"
  proof (rule for_upto_total)
    show "\<exists>g. t\<lparr>screen := f\<rparr> = t\<lparr>screen := g\<rparr> \<and> painted t f 0 g"
      using geo by (intro exI [of _ f]) (auto simp: painted_def intro: exI [of _ "framebuffer f"])
    fix k s assume k: "0 \<le> k" "k < 0 + unat (rows t * cols t)" and s: "\<exists>g. s = t\<lparr>screen := g\<rparr> \<and> painted t f k g"
    then obtain g where g: "s = t\<lparr>screen := g\<rparr>" "painted t f k g" by blast
    have "grid g = grid f" using g(2) by (auto simp: painted_def)
    then show "\<exists>s'. andthen (fetch (grid (screen s)) k) (\<lambda>c. plot_char c (of_nat k mod cols s) (of_nat k div cols s) s) = Inr s'
        \<and> (\<exists>g. s' = t\<lparr>screen := g\<rparr> \<and> painted t f (Suc k) g)"
      using paint_cell [OF g(2) _ bound len chars] k n len by (auto simp: g(1))
  qed
  then show ?thesis using n by auto
qed

lemma full_refresh_shown:
  assumes geo: "geo_ok (rows t) (cols t) (screen t)" and bound: "unat (rows t) * unat (cols t) < 2 ^ 62"
    and len: "length (grid (screen t)) = unat (rows t) * unat (cols t)" "length (cell_map (screen t)) = unat (rows t) * unat (cols t)"
    and empty: "\<forall>j < unat (rows t) * unat (cols t). cell_map (screen t) ! j = None"
    and chars: "\<forall>c \<in> set (grid (screen t)). char_c c < 256"
  shows "\<exists>g fb. flanterm_fb_full_refresh t = Inr (t\<lparr>screen := g\<rparr>) \<and> g = (screen t)\<lparr>framebuffer := fb\<rparr>
    \<and> geo_ok (rows t) (cols t) g \<and> shown (t\<lparr>screen := g\<rparr>)"
proof -
  define f N where "f = screen t" and "N = unat (rows t) * unat (cols t)"
  obtain f1 where f1: "for_upto 0 (unat (height f)) (\<lambda>y f. for_upto 0 (unat (width f)) (refresh_pixel y) f) f = Inr f1" "repainted f f1"
    using refresh_background [OF geo] by (auto simp: f_def)
  have grid1: "grid f1 = grid f" and geo1: "geo_ok (rows t) (cols t) f1"
    using f1(2) geo repainted_geo [OF f1(2)] by (auto simp: repainted_def f_def)
  obtain f2 where f2: "for_upto 0 (unat (rows t * cols t)) (\<lambda>i t. andthen (fetch (grid (screen t)) i) (\<lambda>c.
        plot_char c (of_nat i mod cols t) (of_nat i div cols t) t)) (t\<lparr>screen := f1\<rparr>) = Inr (t\<lparr>screen := f2\<rparr>)" "painted t f1 N f2"
    using paint_cells [OF geo1 bound] len(1) chars by (auto simp: grid1 f_def N_def)
  obtain fb2 where fb2: "f2 = f\<lparr>framebuffer := fb2\<rparr>" using f2(2) f1(2) by (auto simp: painted_def repainted_def)
  have run: "flanterm_fb_full_refresh t = (if cursor_enabled t then draw_cursor (t\<lparr>screen := f2\<rparr>) else Inr (t\<lparr>screen := f2\<rparr>))"
    using f1(1) f2(1) by (simp add: flanterm_fb_full_refresh_def f_def)
  have geo2: "geo_ok (rows t) (cols t) f2" and d2: "\<forall>j<N. displays (cols t) f2 j (grid f ! j)"
    using f2(2) by (simp_all add: painted_def grid1)
  have view: "view f = grid f"
    using len empty by (intro nth_equalityI) (simp_all add: nth_view view_cell_def f_def)
  have "\<exists>g fb. flanterm_fb_full_refresh t = Inr (t\<lparr>screen := g\<rparr>) \<and> g = f\<lparr>framebuffer := fb\<rparr> \<and> geo_ok (rows t) (cols t) g
    \<and> (\<forall>j<N. displays (cols t) g j (if cursor_cell t = Some j then inverted (grid f ! j) else grid f ! j))"
  proof (cases "cursor_cell t")
    case None
    then have "flanterm_fb_full_refresh t = Inr (t\<lparr>screen := f2\<rparr>)"
      by (auto simp: run cursor_cell_def position_cell_def draw_cursor_def Let_def fb2 f_def not_less split: if_splits)
    then show ?thesis using None fb2 geo2 d2 by (intro exI [of _ f2] exI [of _ fb2]) simp
  next
    case (Some i)
    define x y where "x = cursor_x f" and "y = cursor_y f"
    have xy: "x < cols t" "y < rows t" "i = unat y * unat (cols t) + unat x" "cursor_enabled t"
      using Some by (auto simp: cursor_cell_def position_cell_def x_def y_def f_def split: if_splits)
    have i: "unat (x + y * cols t) = i" "i < N"
      using unat_cell [OF xy(1,2)] bound by (simp_all add: xy(3) N_def add.commute)
    have c: "char_c (inverted (grid f ! i)) < 256" using chars i(2) len by (simp add: f_def N_def inverted_def)
    obtain g where g: "plot_char (inverted (grid f ! i)) x y (t\<lparr>screen := f2\<rparr>) = Inr (t\<lparr>screen := g\<rparr>)"
      "\<exists>fb. g = f2\<lparr>framebuffer := fb\<rparr>" "geo_ok (rows t) (cols t) g" "displays (cols t) g i (inverted (grid f ! i))"
      "\<And>j d. j < N \<Longrightarrow> j \<noteq> i \<Longrightarrow> displays (cols t) g j d = displays (cols t) f2 j d"
      using plot_char_at [OF geo2 c xy(1,2)] unfolding xy(3) [symmetric] N_def by blast
    have "flanterm_fb_full_refresh t = Inr (t\<lparr>screen := g\<rparr>)"
      using g(1) xy i len empty
      by (simp add: run draw_cursor_def Let_def fb2 f_def N_def x_def y_def cell_at_def inverted_def not_le [symmetric])
    moreover obtain fb where "g = f\<lparr>framebuffer := fb\<rparr>" using g(2) fb2 by auto
    ultimately show ?thesis using g(3-5) d2 Some by (intro exI [of _ g] exI [of _ fb]) auto
  qed
  then obtain g fb where g: "flanterm_fb_full_refresh t = Inr (t\<lparr>screen := g\<rparr>)" "g = f\<lparr>framebuffer := fb\<rparr>"
    "geo_ok (rows t) (cols t) g" "\<forall>j<N. displays (cols t) g j (if cursor_cell t = Some j then inverted (grid f ! j) else grid f ! j)"
    by blast
  have "cursor_cell (t\<lparr>screen := g\<rparr>) = cursor_cell t" by (simp add: cursor_cell_def g(2) f_def)
  then have "shown (t\<lparr>screen := g\<rparr>)" using g(4) view unfolding shown_def N_def g(2)
    by (auto split: if_splits)
  then show ?thesis using g(1-3) unfolding f_def by blast
qed

end
