(* ===== verification/Framebuffer_Init.thy ===== *)
theory Framebuffer_Init
  imports Font Framebuffer_Refresh
begin

text \<open>
  The life of the frame buffer terminal: \<open>fb_bump_alloc\<close> (\<open>bump_alloc\<close>), \<open>flanterm_fb_init\<close> and \<open>flanterm_fb_deinit\<close> of
  \<open>flanterm/backends/fb.c\<close>. The caller's \<open>_malloc\<close> and \<open>_free\<close> are parameters over a state of their own;
  the kernel passes NULL for both, which is \<open>None\<close>, and gets the pool of the file. Every array is a
  value of the model, so of an allocation only its success and its size matter.
\<close>

section \<open>Allocation\<close>

abbreviation (input) FLANTERM_FB_BUMP_ALLOC_POOL_SIZE :: u64 where "FLANTERM_FB_BUMP_ALLOC_POOL_SIZE \<equiv> 873000"
abbreviation (input) FLANTERM_FB_WIDTH_LIMIT :: u64 where "FLANTERM_FB_WIDTH_LIMIT \<equiv> 1920"
abbreviation (input) FLANTERM_FB_HEIGHT_LIMIT :: u64 where "FLANTERM_FB_HEIGHT_LIMIT \<equiv> 1200"
abbreviation (input) FLANTERM_FB_FONT_GLYPHS :: u64 where "FLANTERM_FB_FONT_GLYPHS \<equiv> 256"

text \<open>The sizes of the structures on this machine (LP64, natural alignment).\<close>

abbreviation (input) sizeof_context :: u64 where "sizeof_context \<equiv> 792"
abbreviation (input) sizeof_char :: u64 where "sizeof_char \<equiv> 12"
abbreviation (input) sizeof_queue_item :: u64 where "sizeof_queue_item \<equiv> 32"
abbreviation (input) sizeof_pointer :: u64 where "sizeof_pointer \<equiv> 8"

datatype fb_block = CONTEXT | FONT_BITS | FONT_BOOL | GRID | QUEUE | MAP | CANVAS

text \<open>The two static variables of the file, and the state of the caller's allocator.\<close>

record 'm fb_heap =
  bump_alloc_ptr :: u64
  bump_allocated_instance :: bool
  client :: 'm

type_synonym 'm malloc = "u64 \<Rightarrow> 'm \<Rightarrow> bool \<times> 'm"
type_synonym 'm release = "fb_block \<Rightarrow> u64 \<Rightarrow> 'm \<Rightarrow> 'm"

text \<open>True: an address, False: NULL.\<close>

definition fb_bump_alloc :: "u64 \<Rightarrow> 'm fb_heap \<Rightarrow> bool \<times> 'm fb_heap" where
  "fb_bump_alloc s h =
     (let next_ptr = bump_alloc_ptr h + s in
      if FLANTERM_FB_BUMP_ALLOC_POOL_SIZE < next_ptr then (False, h) else (True, h\<lparr>bump_alloc_ptr := next_ptr\<rparr>))"

definition get_block :: "'m malloc option \<Rightarrow> u64 \<Rightarrow> 'm fb_heap \<Rightarrow> bool \<times> 'm fb_heap" where
  "get_block m s h =
     (case m of None \<Rightarrow> fb_bump_alloc s h | Some f \<Rightarrow> (case f s (client h) of (ok, c) \<Rightarrow> (ok, h\<lparr>client := c\<rparr>)))"

text \<open>The size that the context records for a block.\<close>

fun block_size :: "fb_context \<Rightarrow> fb_block \<Rightarrow> u64" where
  "block_size f CONTEXT = sizeof_context"
| "block_size f FONT_BITS = font_bits_size f"
| "block_size f FONT_BOOL = font_bool_size f"
| "block_size f GRID = grid_size f"
| "block_size f QUEUE = queue_size f"
| "block_size f MAP = map_size f"
| "block_size f CANVAS = canvas_size f"

fun release_blocks :: "'m release \<Rightarrow> fb_context \<Rightarrow> fb_block list \<Rightarrow> 'm \<Rightarrow> 'm" where
  "release_blocks free f [] m = m"
| "release_blocks free f (b # bs) m = release_blocks free f bs (free b (block_size f b) m)"

definition flanterm_fb_deinit :: "'m release option \<Rightarrow> fb_terminal \<Rightarrow> 'm fb_heap \<Rightarrow> 'm fb_heap" where
  "flanterm_fb_deinit release t h =
     (case release of
        None \<Rightarrow> if bump_allocated_instance h then h\<lparr>bump_alloc_ptr := 0, bump_allocated_instance := False\<rparr> else h
      | Some free \<Rightarrow>
          h\<lparr>client := release_blocks free (screen t)
              ([FONT_BITS, FONT_BOOL, GRID, QUEUE, MAP] @ (if canvas (screen t) \<noteq> None then [CANVAS] else []) @ [CONTEXT])
              (client h)\<rparr>)"

section \<open>The arguments of \<open>flanterm_fb_init\<close>\<close>

record fb_args =
  arg_framebuffer :: "u32 list"
  arg_width :: u64
  arg_height :: u64
  arg_pitch :: u64
  arg_red_mask_size :: u8
  arg_red_mask_shift :: u8
  arg_green_mask_size :: u8
  arg_green_mask_shift :: u8
  arg_blue_mask_size :: u8
  arg_blue_mask_shift :: u8
  arg_canvas :: "u32 list option"
  arg_ansi_colours :: "u32 list option"
  arg_ansi_bright_colours :: "u32 list option"
  arg_default_bg :: "u32 option"
  arg_default_fg :: "u32 option"
  arg_default_bg_bright :: "u32 option"
  arg_default_fg_bright :: "u32 option"
  arg_font :: "u8 list option"
  arg_font_width :: u64
  arg_font_height :: u64
  arg_font_spacing :: u64
  arg_font_scale_x :: u64
  arg_font_scale_y :: u64
  arg_margin :: u64

text \<open>Scaling by the resolution.\<close>

definition choose_scale :: "fb_args \<Rightarrow> fb_args" where
  "choose_scale a =
     (if arg_font_scale_x a = 0 \<or> arg_font_scale_y a = 0 then
        (let s = (if 3840 + 3840 div 3 \<le> arg_width a \<and> 2160 + 2160 div 3 \<le> arg_height a then 4
                  else if 1920 + 1920 div 3 \<le> arg_width a \<and> 1080 + 1080 div 3 \<le> arg_height a then 2 else 1) in
         a\<lparr>arg_font_scale_x := s, arg_font_scale_y := s\<rparr>)
      else a)"

text \<open>The window in the middle of a screen that is too large for the pool. A misaligned pointer is undefined.\<close>

definition limit_size :: "fb_args \<Rightarrow> fb_args res" where
  "limit_size a =
     (let w = arg_width a; h = arg_height a in
      if FLANTERM_FB_WIDTH_LIMIT < w \<or> FLANTERM_FB_HEIGHT_LIMIT < h then
        (let width_limit = (if FLANTERM_FB_WIDTH_LIMIT < w then FLANTERM_FB_WIDTH_LIMIT else w);
             height_limit = (if FLANTERM_FB_HEIGHT_LIMIT < h then FLANTERM_FB_HEIGHT_LIMIT else h);
             offset = (h div 2 - height_limit div 2) * arg_pitch a + (w div 2 - width_limit div 2) * 4 in
         if offset mod 4 = 0 then
           Inr (a\<lparr>arg_framebuffer := drop (unat (offset div 4)) (arg_framebuffer a),
                  arg_width := width_limit, arg_height := height_limit\<rparr>)
         else Inl Undefined)
      else Inr a)"

section \<open>Filling the context\<close>

text \<open>The context after \<open>memset\<close>.\<close>

definition zero_context :: fb_context where
  "zero_context =
     \<lparr>font_width = 0, font_height = 0, glyph_width = 0, glyph_height = 0, font_scale_x = 0, font_scale_y = 0,
      offset_x = 0, offset_y = 0, framebuffer = [], pitch = 0, width = 0, height = 0,
      red_mask_size = 0, red_mask_shift = 0, green_mask_size = 0, green_mask_shift = 0,
      blue_mask_size = 0, blue_mask_shift = 0, font_bits_size = 0, font_bits = [], font_bool_size = 0, font_bool = [],
      ansi_colours = replicate 8 0, ansi_bright_colours = replicate 8 0,
      default_fg = 0, default_bg = 0, default_fg_bright = 0, default_bg_bright = 0,
      canvas_size = 0, canvas = None, grid_size = 0, queue_size = 0, map_size = 0, grid = [], queue = [], queue_i = 0,
      cell_map = [], text_fg = 0, text_bg = 0, cursor_x = 0, cursor_y = 0,
      saved_state_text_fg = 0, saved_state_text_bg = 0, saved_state_cursor_x = 0, saved_state_cursor_y = 0,
      old_cursor_x = 0, old_cursor_y = 0\<rparr>"

definition zero_terminal :: "fb_context \<Rightarrow> fb_terminal" where
  "zero_terminal f =
     \<lparr>tab_size = 0, autoflush = False, cursor_enabled = False, scroll_enabled = False, control_sequence = False,
      escape = False, osc = False, osc_escape = False, rrr = False, discard_next = False, bold = False, bg_bold = False,
      reverse_video = False, dec_private = False, insert_mode = False, code_point = 0, unicode_remaining = 0,
      g_select = 0, charsets = [CHARSET_DEFAULT, CHARSET_DEFAULT], current_charset = 0, escape_offset = 0,
      esc_values_i = 0, saved_cursor_x = 0, saved_cursor_y = 0, current_primary = 0, current_bg = 0,
      scroll_top_margin = 0, scroll_bottom_margin = 0, esc_values = replicate FLANTERM_MAX_ESC_VALUES 0, oob_output = 0,
      saved_state_bold = False, saved_state_bg_bold = False, saved_state_reverse_video = False,
      saved_state_current_charset = 0, saved_state_current_primary = 0, saved_state_current_bg = 0,
      rows = 0, cols = 0, callback = False, callbacks = [], screen = f\<rparr>"

definition default_ansi :: "u32 list" where
  "default_ansi =
     [0x00000000, 0x00aa0000, 0x0000aa00, 0x00aa5500, 0x000000aa, 0x00aa00aa, 0x0000aaaa, 0x00aaaaaa]"

definition default_ansi_bright :: "u32 list" where
  "default_ansi_bright =
     [0x00555555, 0x00ff5555, 0x0055ff55, 0x00ffff55, 0x005555ff, 0x00ff55ff, 0x0055ffff, 0x00ffffff]"

text \<open>The eight assignments to a palette.\<close>

definition convert_palette :: "fb_context \<Rightarrow> u32 list \<Rightarrow> u32 list res" where
  "convert_palette f cs =
     for_upto 0 8 (\<lambda>i out. andthen (fetch cs i) (\<lambda>c. andthen (convert_colour f c) (put out i))) (replicate 8 0)"

definition given :: "'a option \<Rightarrow> 'a \<Rightarrow> 'a" where
  "given x d = (case x of None \<Rightarrow> d | Some v \<Rightarrow> v)"

definition init_masks :: "fb_args \<Rightarrow> fb_context \<Rightarrow> fb_context" where
  "init_masks a f =
     f\<lparr>red_mask_size := arg_red_mask_size a, red_mask_shift := arg_red_mask_shift a + (arg_red_mask_size a - 8),
       green_mask_size := arg_green_mask_size a, green_mask_shift := arg_green_mask_shift a + (arg_green_mask_size a - 8),
       blue_mask_size := arg_blue_mask_size a, blue_mask_shift := arg_blue_mask_shift a + (arg_blue_mask_size a - 8)\<rparr>"

definition init_colours :: "fb_args \<Rightarrow> fb_context \<Rightarrow> fb_context res" where
  "init_colours a f =
     andthen (convert_palette f (given (arg_ansi_colours a) default_ansi)) (\<lambda>ansi.
     andthen (convert_palette f (given (arg_ansi_bright_colours a) default_ansi_bright)) (\<lambda>bright.
     andthen (case arg_default_bg a of Some c \<Rightarrow> convert_colour f c | None \<Rightarrow> Inr 0x00000000) (\<lambda>bg.
     andthen (convert_colour f (given (arg_default_fg a) 0x00aaaaaa)) (\<lambda>fg.
     andthen (convert_colour f (given (arg_default_bg_bright a) 0x00555555)) (\<lambda>bgb.
     andthen (convert_colour f (given (arg_default_fg_bright a) 0x00ffffff)) (\<lambda>fgb.
     Inr (f\<lparr>ansi_colours := ansi, ansi_bright_colours := bright, default_bg := bg, default_fg := fg,
       default_bg_bright := bgb, default_fg_bright := fgb, text_fg := fg, text_bg := 0xffffffff\<rparr>)))))))"

definition init_framebuffer :: "fb_args \<Rightarrow> fb_context \<Rightarrow> fb_context" where
  "init_framebuffer a f =
     f\<lparr>framebuffer := arg_framebuffer a, width := arg_width a, height := arg_height a, pitch := arg_pitch a\<rparr>"

text \<open>The font that is used: the argument, or the built-in one with its size.\<close>

definition choose_font :: "fb_args \<Rightarrow> fb_args" where
  "choose_font a =
     (case arg_font a of
        Some _ \<Rightarrow> a
      | None \<Rightarrow> a\<lparr>arg_font := Some builtin_font, arg_font_width := 8, arg_font_height := 16, arg_font_spacing := 1\<rparr>)"

definition init_font_size :: "fb_args \<Rightarrow> fb_context \<Rightarrow> fb_context" where
  "init_font_size a f =
     f\<lparr>font_width := arg_font_width a, font_height := arg_font_height a,
       font_bits_size := (arg_font_width a * arg_font_height a * FLANTERM_FB_FONT_GLYPHS) div 8\<rparr>"

text \<open>The \<open>memcpy\<close> of the font reads \<open>font_bits_size\<close> bytes.\<close>

definition init_font_bits :: "fb_args \<Rightarrow> fb_context \<Rightarrow> fb_context res" where
  "init_font_bits a f =
     (let font = given (arg_font a) []; n = unat (font_bits_size f) in
      if n \<le> length font then
        (let f = f\<lparr>font_bits := take n font, font_width := font_width f + arg_font_spacing a\<rparr> in
         Inr (f\<lparr>font_bool_size := FLANTERM_FB_FONT_GLYPHS * arg_font_height a * font_width f\<rparr>))
      else Inl Undefined)"

text \<open>The dot in column \<open>x\<close> of a row of glyph \<open>i\<close>.\<close>

definition glyph_dot :: "nat \<Rightarrow> u8 \<Rightarrow> nat \<Rightarrow> bool" where
  "glyph_dot i row x =
     (if x < 8 then row AND drop_bit x 0x80 \<noteq> 0
      else if 0xc0 \<le> i \<and> i \<le> 0xdf then row AND 1 \<noteq> 0 else False)"

definition set_dot :: "nat \<Rightarrow> nat \<Rightarrow> nat \<Rightarrow> fb_context \<Rightarrow> fb_context res" where
  "set_dot i y x f =
     (let offset = of_nat i * font_height f * font_width f + of_nat y * font_width f + of_nat x in
      andthen (fetch (font_bits f) (unat (of_nat i * font_height f) + y)) (\<lambda>row.
      andthen (put (font_bool f) (unat offset) (glyph_dot i row x)) (\<lambda>bs.
      Inr (f\<lparr>font_bool := bs\<rparr>))))"

text \<open>What \<open>malloc\<close> leaves in \<open>font_bool\<close> is arbitrary, and the loops write all of it.\<close>

definition init_font_bool :: "fb_context \<Rightarrow> fb_context res" where
  "init_font_bool f =
     for_upto 0 (unat FLANTERM_FB_FONT_GLYPHS) (\<lambda>i.
       for_upto 0 (unat (font_height f)) (\<lambda>y g.
         andthen (for_upto 0 8 (set_dot i y) g)
           (for_upto 8 (unat (font_width f) - 8) (set_dot i y))))
       (f\<lparr>font_bool := replicate (unat (font_bool_size f)) False\<rparr>)"

text \<open>A glyph without an extent makes the division fault.\<close>

definition init_cells :: "fb_args \<Rightarrow> fb_terminal \<Rightarrow> fb_terminal res" where
  "init_cells a t =
     (let f = screen t; gw = font_width f * arg_font_scale_x a; gh = arg_font_height a * arg_font_scale_y a;
          w = width f - arg_margin a * 2; h = height f - arg_margin a * 2 in
      if gw = 0 \<or> gh = 0 then Inl Undefined
      else
        (let C = w div gw; R = h div gh in
         Inr (t\<lparr>rows := R, cols := C, screen := f\<lparr>font_scale_x := arg_font_scale_x a, font_scale_y := arg_font_scale_y a,
           glyph_width := gw, glyph_height := gh,
           offset_x := arg_margin a + (w mod gw) div 2, offset_y := arg_margin a + (h mod gh) div 2,
           grid_size := R * C * sizeof_char\<rparr>\<rparr>)))"

text \<open>The loop that initialises an array, from whatever the allocation leaves in it.\<close>

definition fill_array :: "u64 \<Rightarrow> u64 \<Rightarrow> 'a \<Rightarrow> 'a list res" where
  "fill_array bytes n v = for_upto 0 (unat n) (\<lambda>i xs. put xs i v) (replicate (unat bytes) v)"

definition init_grid :: "fb_terminal \<Rightarrow> fb_terminal res" where
  "init_grid t =
     (let f = screen t; n = rows t * cols t in
      andthen (fill_array (grid_size f div sizeof_char) n \<lparr>char_c = 0x20, char_fg = text_fg f, char_bg = text_bg f\<rparr>) (\<lambda>cs.
      Inr (t\<lparr>screen := f\<lparr>grid := cs, queue_size := n * sizeof_queue_item\<rparr>\<rparr>)))"

definition init_queue :: "fb_terminal \<Rightarrow> fb_terminal" where
  "init_queue t =
     (let f = screen t in
      t\<lparr>screen := f\<lparr>queue_i := 0,
        queue := replicate (unat (queue_size f div sizeof_queue_item))
          \<lparr>item_x = 0, item_y = 0, item_c = \<lparr>char_c = 0, char_fg = 0, char_bg = 0\<rparr>\<rparr>,
        map_size := rows t * cols t * sizeof_pointer\<rparr>\<rparr>)"

definition init_map :: "fb_args \<Rightarrow> fb_terminal \<Rightarrow> fb_terminal" where
  "init_map a t =
     (let f = screen t in
      t\<lparr>screen := f\<lparr>cell_map := replicate (unat (map_size f div sizeof_pointer)) None,
        canvas_size := (if arg_canvas a = None then canvas_size f else width f * height f * 4)\<rparr>\<rparr>)"

definition init_canvas :: "u32 list \<Rightarrow> fb_terminal \<Rightarrow> fb_terminal res" where
  "init_canvas picture t =
     (let f = screen t in
      andthen (for_upto 0 (unat (width f * height f)) (\<lambda>i cv.
          andthen (fetch picture i) (\<lambda>c. andthen (convert_colour f c) (put cv i)))
          (replicate (unat (canvas_size f div 4)) 0)) (\<lambda>cv.
      Inr (t\<lparr>screen := f\<lparr>canvas := Some cv\<rparr>\<rparr>)))"

section \<open>\<open>flanterm_fb_init\<close>\<close>

text \<open>
  The context under construction, the blocks that it owns, the last one first, and the heap; \<open>Failing\<close>
  is the jump to the label \<open>fail\<close>.
\<close>

record 'm fb_setup =
  built :: fb_terminal
  owned :: "fb_block list"
  pool :: "'m fb_heap"

datatype 'm progress = Going "'m fb_setup" | Failing "'m fb_setup"

definition going :: "'m progress res \<Rightarrow> ('m fb_setup \<Rightarrow> 'm progress res) \<Rightarrow> 'm progress res" where
  "going r g = andthen r (\<lambda>p. case p of Going s \<Rightarrow> g s | Failing s \<Rightarrow> Inr (Failing s))"

definition allocate :: "'m malloc option \<Rightarrow> fb_block \<Rightarrow> 'm fb_setup \<Rightarrow> 'm progress" where
  "allocate m b s =
     (case get_block m (block_size (screen (built s)) b) (pool s) of
        (True, h) \<Rightarrow> Going (s\<lparr>owned := b # owned s, pool := h\<rparr>)
      | (False, h) \<Rightarrow> Failing (s\<lparr>pool := h\<rparr>))"

definition build :: "(fb_terminal \<Rightarrow> fb_terminal res) \<Rightarrow> 'm fb_setup \<Rightarrow> 'm progress res" where
  "build g s = andthen (g (built s)) (\<lambda>t. Inr (Going (s\<lparr>built := t\<rparr>)))"

definition build_screen :: "(fb_context \<Rightarrow> fb_context res) \<Rightarrow> fb_terminal \<Rightarrow> fb_terminal res" where
  "build_screen g t = andthen (g (screen t)) (\<lambda>f. Inr (t\<lparr>screen := f\<rparr>))"

text \<open>Everything from the first allocation to the last.\<close>

definition fb_build :: "'m malloc option \<Rightarrow> fb_args \<Rightarrow> 'm fb_heap \<Rightarrow> 'm progress res" where
  "fb_build m a h =
     (let alloc = (\<lambda>b s. Inr (allocate m b s)) in
      going (alloc CONTEXT \<lparr>built = zero_terminal zero_context, owned = [], pool = h\<rparr>) (\<lambda>s.
      going (build (build_screen (\<lambda>f. andthen (init_colours a (init_masks a f)) (\<lambda>f.
        Inr (init_font_size (choose_font a) (init_framebuffer a f))))) s) (\<lambda>s.
      going (alloc FONT_BITS s) (\<lambda>s.
      going (build (build_screen (init_font_bits (choose_font a))) s) (\<lambda>s.
      going (alloc FONT_BOOL s) (\<lambda>s.
      going (build (build_screen init_font_bool) s) (\<lambda>s.
      going (build (init_cells (choose_font a)) s) (\<lambda>s.
      going (alloc GRID s) (\<lambda>s.
      going (build init_grid s) (\<lambda>s.
      going (alloc QUEUE s) (\<lambda>s.
      going (build (\<lambda>t. Inr (init_queue t)) s) (\<lambda>s.
      going (alloc MAP s) (\<lambda>s.
      going (build (\<lambda>t. Inr (init_map a t)) s) (\<lambda>s.
      case arg_canvas a of
        None \<Rightarrow> Inr (Going s)
      | Some picture \<Rightarrow> going (alloc CANVAS s) (build (init_canvas picture))))))))))))))))"

text \<open>The label \<open>fail\<close>. It reads the context to find the other blocks, also when there is none.\<close>

definition fb_fail :: "'m malloc option \<Rightarrow> 'm release option \<Rightarrow> 'm fb_setup \<Rightarrow> 'm fb_heap res" where
  "fb_fail m release s =
     (case m of
        None \<Rightarrow> Inr ((pool s)\<lparr>bump_alloc_ptr := 0\<rparr>)
      | Some _ \<Rightarrow>
          (case release of
             None \<Rightarrow> Inr (pool s)
           | Some free \<Rightarrow>
               if owned s = [] then Inl PageFault
               else Inr ((pool s)\<lparr>client := release_blocks free (screen (built s)) (owned s) (client (pool s))\<rparr>)))"

definition flanterm_fb_init ::
  "'m malloc option \<Rightarrow> 'm release option \<Rightarrow> fb_args \<Rightarrow> 'm fb_heap \<Rightarrow> (fb_terminal option \<times> 'm fb_heap) res" where
  "flanterm_fb_init m release a h =
     (let a = choose_scale a in
      if arg_red_mask_size a < 8 \<or> arg_red_mask_size a \<noteq> arg_green_mask_size a \<or> arg_red_mask_size a \<noteq> arg_blue_mask_size a
        \<or> m = None \<and> bump_allocated_instance h then Inr (None, h)
      else
        andthen (if m = None then andthen (limit_size a) (\<lambda>a. Inr (a\<lparr>arg_canvas := None\<rparr>)) else Inr a) (\<lambda>a.
        andthen (fb_build m a h) (\<lambda>p.
        case p of
          Failing s \<Rightarrow> andthen (fb_fail m release s) (\<lambda>h. Inr (None, h))
        | Going s \<Rightarrow>
            andthen (flanterm_fb_full_refresh (flanterm_context_reinit (built s))) (\<lambda>t.
            Inr (Some t, if m = None then (pool s)\<lparr>bump_allocated_instance := True\<rparr> else pool s)))))"

end
