(* ===== verification/Framebuffer_Boot.thy ===== *)
theory Framebuffer_Boot
  imports Framebuffer_Init
begin

section \<open>The dots of the font\<close>

definition font_dot :: "fb_context \<Rightarrow> nat \<Rightarrow> bool" where
  "font_dot f j =
     (let fh = unat (font_height f); fw = unat (font_width f) in
      glyph_dot (j div (fh * fw)) (font_bits f ! (j div fw)) (j mod fw))"

definition font_fits :: "fb_context \<Rightarrow> bool" where
  "font_fits f \<longleftrightarrow>
     8 \<le> unat (font_width f) \<and> 256 * unat (font_height f) * unat (font_width f) < 2 ^ 62
     \<and> 256 * unat (font_height f) \<le> length (font_bits f)
     \<and> unat (font_bool_size f) = 256 * unat (font_height f) * unat (font_width f)"

text \<open>The entries of \<open>font_bool\<close> below \<open>k\<close> are set.\<close>

definition dotted :: "fb_context \<Rightarrow> nat \<Rightarrow> fb_context \<Rightarrow> bool" where
  "dotted f k g \<longleftrightarrow>
     (\<exists>bs. g = f\<lparr>font_bool := bs\<rparr> \<and> length bs = unat (font_bool_size f) \<and> (\<forall>j<k. bs ! j = font_dot f j))"

lemma dot_index:
  fixes fh fw :: u64
  assumes "i < 256" and "y < unat fh" and "x < unat fw" and "256 * unat fh * unat fw < 2 ^ 62"
  shows "unat (of_nat i * fh * fw + of_nat y * fw + of_nat x) = (i * unat fh + y) * unat fw + x"
    and "unat (of_nat i * fh) = i * unat fh" and "(i * unat fh + y) * unat fw + x < 256 * unat fh * unat fw"
    and "i * unat fh + y < 256 * unat fh"
    and "((i * unat fh + y) * unat fw + x) div unat fw = i * unat fh + y"
    and "((i * unat fh + y) * unat fw + x) mod unat fw = x"
    and "((i * unat fh + y) * unat fw + x) div (unat fh * unat fw) = i"
proof -
  show r: "i * unat fh + y < 256 * unat fh" using cell_less [OF assms(2,1)] .
  show l: "(i * unat fh + y) * unat fw + x < 256 * unat fh * unat fw" using cell_less [OF assms(3) r] .
  have w: "unat (of_nat i :: u64) = i" "unat (of_nat y :: u64) = y" "unat (of_nat x :: u64) = x"
    using assms(1) unsigned_less [of fh, where ?'a = nat] unsigned_less [of fw, where ?'a = nat] assms(2,3)
    by (simp_all add: unsigned_of_nat take_bit_nat_eq_self)
  have b: "i * unat fh * unat fw + y * unat fw + x < 2 ^ 62" using l assms(4) by (simp add: algebra_simps)
  have "i * unat fh \<le> i * unat fh * unat fw" using assms(3) by (cases "unat fw") auto
  then have "i * unat fh < 2 ^ 62" using b by linarith
  then have "i * unat fh < 2 ^ 64" by simp
  then show ifh: "unat (of_nat i * fh) = i * unat fh" using unat_times [of "of_nat i" fh] by (simp add: w)
  have "unat (of_nat i * fh * fw) = i * unat fh * unat fw" using unat_times [of "of_nat i * fh" fw] b by (simp add: ifh)
  moreover have "unat (of_nat y * fw) = y * unat fw" using unat_times [of "of_nat y" fw] b by (simp add: w)
  ultimately show "unat (of_nat i * fh * fw + of_nat y * fw + of_nat x) = (i * unat fh + y) * unat fw + x"
    using unat_plus [of "of_nat i * fh * fw" "of_nat y * fw"] unat_plus [of "of_nat i * fh * fw + of_nat y * fw" "of_nat x"] b
    by (simp add: w algebra_simps)
  show d: "((i * unat fh + y) * unat fw + x) div unat fw = i * unat fh + y" "((i * unat fh + y) * unat fw + x) mod unat fw = x"
    using cell_div_mod [OF assms(3)] by blast+
  then show "((i * unat fh + y) * unat fw + x) div (unat fh * unat fw) = i"
    unfolding mult.commute [of "unat fh" "unat fw"] div_mult2_eq d(1) using cell_div_mod [OF assms(2), of i] by blast
qed

lemma set_dot_dotted:
  assumes f: "font_fits f" and "i < 256" and "y < unat (font_height f)" and "x < unat (font_width f)"
    and d: "dotted f ((i * unat (font_height f) + y) * unat (font_width f) + x) g"
  shows "\<exists>h. set_dot i y x g = Inr h \<and> dotted f ((i * unat (font_height f) + y) * unat (font_width f) + Suc x) h"
proof -
  define k where "k = (i * unat (font_height f) + y) * unat (font_width f) + x"
  note ix = dot_index [OF assms(2-4), folded k_def]
  have bd: "256 * unat (font_height f) * unat (font_width f) < 2 ^ 62" "256 * unat (font_height f) \<le> length (font_bits f)"
    "unat (font_bool_size f) = 256 * unat (font_height f) * unat (font_width f)" using f by (simp_all add: font_fits_def)
  obtain bs where g: "g = f\<lparr>font_bool := bs\<rparr>" and bs: "length bs = unat (font_bool_size f)" "\<forall>j<k. bs ! j = font_dot f j"
    using d by (auto simp: dotted_def k_def)
  define v where "v = glyph_dot i (font_bits f ! (i * unat (font_height f) + y)) x"
  have k: "k < length bs" using ix(3) [OF bd(1)] by (simp add: bs(1) bd(3))
  have "set_dot i y x g = Inr (f\<lparr>font_bool := bs[k := v]\<rparr>)"
    using ix(1,2,4) [OF bd(1)] bd(2) k by (simp add: set_dot_def Let_def g v_def)
  moreover have "font_dot f k = v" using ix(5-7) [OF bd(1)] by (simp add: font_dot_def Let_def v_def)
  then have "dotted f (Suc k) (f\<lparr>font_bool := bs[k := v]\<rparr>)"
    using bs k by (auto simp: dotted_def nth_list_update less_Suc_eq)
  ultimately show ?thesis by (simp add: k_def)
qed

lemma set_dots_dotted:
  assumes f: "font_fits f" and "i < 256" and "y < unat (font_height f)" and "x + n \<le> unat (font_width f)"
    and "dotted f ((i * unat (font_height f) + y) * unat (font_width f) + x) g"
  shows "\<exists>h. for_upto x n (set_dot i y) g = Inr h \<and> dotted f ((i * unat (font_height f) + y) * unat (font_width f) + (x + n)) h"
  by (rule for_upto_total [where P = "\<lambda>x g. dotted f ((i * unat (font_height f) + y) * unat (font_width f) + x) g"])
    (use assms set_dot_dotted [OF f assms(2,3)] in auto)

lemma init_font_bool_dotted:
  assumes f: "font_fits f"
  shows "\<exists>g. init_font_bool f = Inr g \<and> dotted f (256 * unat (font_height f) * unat (font_width f)) g"
proof -
  define fh fw where "fh = unat (font_height f)" and "fw = unat (font_width f)"
  have fw: "8 \<le> fw" using f by (simp add: font_fits_def fw_def)
  have row: "\<exists>h. andthen (for_upto 0 8 (set_dot i y) g) (for_upto 8 (unat (font_width f) - 8) (set_dot i y)) = Inr h
      \<and> dotted f ((i * fh + Suc y) * fw) h"
    if i: "i < 256" and y: "y < fh" and d: "dotted f ((i * fh + y) * fw) g" for i y g
  proof -
    obtain g1 where g1: "for_upto 0 8 (set_dot i y) g = Inr g1" "dotted f ((i * fh + y) * fw + 8) g1"
      using set_dots_dotted [OF f i, of y 0 8 g] y d fw by (auto simp: fh_def fw_def)
    obtain g2 where g2: "for_upto 8 (fw - 8) (set_dot i y) g1 = Inr g2" "dotted f ((i * fh + y) * fw + (8 + (fw - 8))) g2"
      using set_dots_dotted [OF f i, of y 8 "fw - 8" g1] y g1(2) fw unfolding fh_def fw_def by auto
    have "dotted f ((i * fh + Suc y) * fw) g2" using g2(2) fw by (simp add: algebra_simps)
    then show ?thesis using g1(1) g2(1) by (simp add: fw_def)
  qed
  have glyph: "\<exists>h. for_upto 0 (unat (font_height f)) (\<lambda>y g. andthen (for_upto 0 8 (set_dot i y) g)
        (for_upto 8 (unat (font_width f) - 8) (set_dot i y))) g = Inr h \<and> dotted f (Suc i * fh * fw) h"
    if i: "i < 256" and d: "dotted f (i * fh * fw) g" for i g
  proof -
    have "\<exists>h. for_upto 0 fh (\<lambda>y g. andthen (for_upto 0 8 (set_dot i y) g)
        (for_upto 8 (unat (font_width f) - 8) (set_dot i y))) g = Inr h \<and> dotted f ((i * fh + (0 + fh)) * fw) h"
      by (rule for_upto_total [where P = "\<lambda>y g. dotted f ((i * fh + y) * fw) g"]) (use d row [OF i] in auto)
    then show ?thesis by (simp add: fh_def algebra_simps)
  qed
  have "dotted f 0 (f\<lparr>font_bool := replicate (unat (font_bool_size f)) False\<rparr>)" by (auto simp: dotted_def)
  then have "\<exists>g. for_upto 0 256 (\<lambda>i. for_upto 0 (unat (font_height f)) (\<lambda>y g. andthen (for_upto 0 8 (set_dot i y) g)
        (for_upto 8 (unat (font_width f) - 8) (set_dot i y)))) (f\<lparr>font_bool := replicate (unat (font_bool_size f)) False\<rparr>) = Inr g
      \<and> dotted f ((0 + 256) * fh * fw) g"
    by (intro for_upto_total [where P = "\<lambda>i g. dotted f (i * fh * fw) g"]) (use glyph in auto)
  then have "\<exists>g. init_font_bool f = Inr g \<and> dotted f ((0 + 256) * fh * fw) g" by (simp add: init_font_bool_def)
  then show ?thesis by (simp add: fh_def fw_def)
qed

section \<open>Colours and arrays\<close>

lemma convert_colour_returns:
  assumes "red_mask_shift f < 32" and "green_mask_shift f < 32" and "blue_mask_shift f < 32"
  shows "\<exists>v. convert_colour f c = Inr v"
  using assms by (simp add: convert_colour_def Let_def)

lemma convert_palette_returns:
  assumes "red_mask_shift f < 32" and "green_mask_shift f < 32" and "blue_mask_shift f < 32" and "8 \<le> length cs"
  shows "\<exists>out. convert_palette f cs = Inr out \<and> length out = 8"
  unfolding convert_palette_def
proof (rule for_upto_total [where P = "\<lambda>_ out. length out = 8"])
  fix k out assume k: "0 \<le> k" "k < 0 + (8 :: nat)" "length (out :: u32 list) = 8"
  obtain v where "convert_colour f (cs ! k) = Inr v" using convert_colour_returns [OF assms(1-3)] by blast
  then show "\<exists>out'. andthen (fetch cs k) (\<lambda>c. andthen (convert_colour f c) (put out k)) = Inr out' \<and> length out' = 8"
    using k assms(4) by simp
qed simp

lemma init_colours_returns:
  assumes "red_mask_shift f < 32" and "green_mask_shift f < 32" and "blue_mask_shift f < 32"
    and "arg_ansi_colours a = None" and "arg_ansi_bright_colours a = None"
  shows "\<exists>ansi bright bg fg bgb fgb. init_colours a f =
      Inr (f\<lparr>ansi_colours := ansi, ansi_bright_colours := bright, default_bg := bg, default_fg := fg,
        default_bg_bright := bgb, default_fg_bright := fgb, text_fg := fg, text_bg := 0xffffffff\<rparr>)
    \<and> length ansi = 8 \<and> length bright = 8"
proof -
  obtain ansi where 1: "convert_palette f (given (arg_ansi_colours a) default_ansi) = Inr ansi" "length ansi = 8"
    using convert_palette_returns [OF assms(1-3), of default_ansi] by (auto simp: assms(4) given_def default_ansi_def)
  obtain bright where 2: "convert_palette f (given (arg_ansi_bright_colours a) default_ansi_bright) = Inr bright" "length bright = 8"
    using convert_palette_returns [OF assms(1-3), of default_ansi_bright] by (auto simp: assms(5) given_def default_ansi_bright_def)
  obtain bg where 3: "(case arg_default_bg a of Some c \<Rightarrow> convert_colour f c | None \<Rightarrow> Inr 0x00000000) = Inr bg"
    using convert_colour_returns [OF assms(1-3)] by (cases "arg_default_bg a") auto
  obtain fg bgb fgb where 4: "convert_colour f (given (arg_default_fg a) 0x00aaaaaa) = Inr fg"
    "convert_colour f (given (arg_default_bg_bright a) 0x00555555) = Inr bgb"
    "convert_colour f (given (arg_default_fg_bright a) 0x00ffffff) = Inr fgb"
    using convert_colour_returns [OF assms(1-3)] by blast
  show ?thesis
    unfolding init_colours_def 1(1) 2(1) 3 4 andthen_Inr using 1(2) 2(2) by blast
qed

lemma fill_array_replicate: "n \<le> b \<Longrightarrow> fill_array b n v = Inr (replicate (unat b) v)"
proof -
  assume n: "n \<le> b"
  have "\<exists>xs. fill_array b n v = Inr xs \<and> xs = replicate (unat b) v"
    unfolding fill_array_def
    by (rule for_upto_total) (use n in \<open>auto simp: word_le_nat_alt list_update_same_conv\<close>)
  then show ?thesis by simp
qed


section \<open>The pool is large enough\<close>

lemma bump_alloc_fits:
  assumes "unat (bump_alloc_ptr h) + unat s \<le> 873000"
  shows "fb_bump_alloc s h = (True, h\<lparr>bump_alloc_ptr := bump_alloc_ptr h + s\<rparr>)"
    and "unat (bump_alloc_ptr h + s) = unat (bump_alloc_ptr h) + unat s"
proof -
  show u: "unat (bump_alloc_ptr h + s) = unat (bump_alloc_ptr h) + unat s" using assms by (intro unat_plus) simp
  show "fb_bump_alloc s h = (True, h\<lparr>bump_alloc_ptr := bump_alloc_ptr h + s\<rparr>)"
    using assms by (simp add: fb_bump_alloc_def Let_def word_less_nat_alt u not_less)
qed

lemma going_allocate:
  assumes "unat (bump_alloc_ptr (pool s)) + unat (block_size (screen (built s)) b) \<le> 873000"
  shows "going (Inr (allocate None b s)) g = g (s\<lparr>owned := b # owned s,
    pool := (pool s)\<lparr>bump_alloc_ptr := bump_alloc_ptr (pool s) + block_size (screen (built s)) b\<rparr>\<rparr>)"
  using bump_alloc_fits(1) [OF assms] by (simp add: going_def allocate_def get_block_def)

lemma alloc_step:
  assumes "unat p = k" and "block_size (screen t) b = v" and "k + unat v \<le> 873000"
  shows "going (Inr (allocate None b \<lparr>built = t, owned = bs, pool = h\<lparr>bump_alloc_ptr := p\<rparr>\<rparr>)) g =
      g \<lparr>built = t, owned = b # bs, pool = h\<lparr>bump_alloc_ptr := p + v\<rparr>\<rparr>"
    and "unat (p + v) = k + unat v"
  using going_allocate [of "\<lparr>built = t, owned = bs, pool = h\<lparr>bump_alloc_ptr := p\<rparr>\<rparr>" b g]
    bump_alloc_fits(2) [of "h\<lparr>bump_alloc_ptr := p\<rparr>" v] assms by simp_all

lemma going_build: "r (built s) = Inr t \<Longrightarrow> going (build r s) g = g (s\<lparr>built := t\<rparr>)"
  by (simp add: going_def build_def)

lemma div_bound: "w \<le> W \<Longrightarrow> w div (n * s) \<le> W div n" for w W n s :: nat
  unfolding div_mult2_eq by (rule order_trans [OF div_le_dividend div_le_mono])

lemma half_rest: "m mod k div 2 + m div k * k \<le> m" for m k :: nat
  using div_mult_mod_eq [of m k] div_le_dividend [of "m mod k" 2] by linarith

text \<open>The number of cells of a screen that the pool is meant for.\<close>

lemma cells_bounded:
  fixes w h s :: u64
  assumes "w \<le> 1920" and "h \<le> 1200" and "s \<in> {1, 2, 4}" and "9 * s \<le> w" and "16 * s \<le> h"
  defines "C \<equiv> w div (9 * s)" and "R \<equiv> h div (16 * s)"
  shows "0 < C" "0 < R" "unat (R * C) = unat R * unat C" "unat R * unat C \<le> 15975"
    "unat (9 * s) = 9 * unat s" "unat (16 * s) = 16 * unat s"
    "unat C * (9 * unat s) \<le> unat w" "unat R * (16 * unat s) \<le> unat h"
    "unat ((w mod (9 * s)) div 2) + unat C * (9 * unat s) \<le> unat w"
    "unat ((h mod (16 * s)) div 2) + unat R * (16 * unat s) \<le> unat h"
proof -
  have s: "1 \<le> unat s" "unat s \<le> 4" using assms(3) by auto
  show m: "unat (9 * s) = 9 * unat s" "unat (16 * s) = 16 * unat s"
    using unat_times [of 9 s] unat_times [of 16 s] s by simp_all
  have b: "unat w \<le> 1920" "unat h \<le> 1200" "9 * unat s \<le> unat w" "16 * unat s \<le> unat h"
    using assms(1,2,4,5) by (simp_all add: word_le_nat_alt m)
  have C: "unat C = unat w div (9 * unat s)" and R: "unat R = unat h div (16 * unat s)"
    by (simp_all add: C_def R_def unat_div m)
  have "0 < unat C" "0 < unat R" using b s by (simp_all add: C R div_greater_zero_iff)
  then show "0 < C" "0 < R" by (simp_all add: word_less_nat_alt)
  have "unat C \<le> 1920 div 9" unfolding C using b(1) by (rule div_bound)
  moreover have "unat R \<le> 1200 div 16" unfolding R using b(2) by (rule div_bound)
  ultimately have "unat C \<le> 213" "unat R \<le> 75" by simp_all
  then have "unat R * unat C \<le> 75 * 213" by (intro mult_le_mono) auto
  then show n: "unat R * unat C \<le> 15975" by simp
  then show "unat (R * C) = unat R * unat C" by (intro unat_times) simp
  show "unat C * (9 * unat s) \<le> unat w" "unat R * (16 * unat s) \<le> unat h" by (simp_all add: C R)
  have "unat w mod (9 * unat s) div 2 + unat C * (9 * unat s) \<le> unat w" "unat h mod (16 * unat s) div 2 + unat R * (16 * unat s) \<le> unat h"
    unfolding C R by (rule half_rest)+
  then show "unat ((w mod (9 * s)) div 2) + unat C * (9 * unat s) \<le> unat w"
    "unat ((h mod (16 * s)) div 2) + unat R * (16 * unat s) \<le> unat h"
    by (simp_all add: unat_div unat_mod m)
qed


section \<open>A terminal as \<open>flanterm_fb_init\<close> builds it\<close>

text \<open>The context before the first drawing; \<open>f\<close> has the built-in font, and its screen is empty.\<close>

definition fresh_context :: "u64 \<Rightarrow> u64 \<Rightarrow> fb_context \<Rightarrow> bool" where
  "fresh_context R C f \<longleftrightarrow>
     geo_ok R C f \<and> unat R * unat C < 2 ^ 62
     \<and> grid f = replicate (unat R * unat C) (empty_char f) \<and> cell_map f = replicate (unat R * unat C) None
     \<and> length (queue f) = unat R * unat C \<and> queue_i f = 0
     \<and> cursor_x f = 0 \<and> cursor_y f = 0 \<and> old_cursor_x f = 0 \<and> old_cursor_y f = 0
     \<and> length (ansi_colours f) = 8 \<and> length (ansi_bright_colours f) = 8
     \<and> red_mask_shift f < 32 \<and> green_mask_shift f < 32 \<and> blue_mask_shift f < 32
     \<and> font_height f = 16 \<and> font_width f = 9 \<and> font_bits f = builtin_font
     \<and> (\<forall>j < 256 * 16 * 9. font_bool f ! j = font_dot f j)"

text \<open>The arguments after the scale has been chosen and the screen limited.\<close>

definition args_fit :: "fb_args \<Rightarrow> bool" where
  "args_fit a \<longleftrightarrow>
     arg_font a = None \<and> arg_margin a = 0 \<and> arg_canvas a = None
     \<and> arg_ansi_colours a = None \<and> arg_ansi_bright_colours a = None
     \<and> arg_red_mask_shift a + (arg_red_mask_size a - 8) < 32 \<and> arg_green_mask_shift a + (arg_green_mask_size a - 8) < 32
     \<and> arg_blue_mask_shift a + (arg_blue_mask_size a - 8) < 32
     \<and> arg_font_scale_x a \<in> {1, 2, 4} \<and> arg_font_scale_y a = arg_font_scale_x a
     \<and> arg_width a \<le> 1920 \<and> arg_height a \<le> 1200
     \<and> 9 * arg_font_scale_x a \<le> arg_width a \<and> 16 * arg_font_scale_x a \<le> arg_height a
     \<and> unat (arg_width a) \<le> unat (arg_pitch a div 4) \<and> unat (arg_pitch a div 4) < 2 ^ 30
     \<and> unat (arg_height a) * unat (arg_pitch a div 4) + unat (arg_width a)
         \<le> length (arg_framebuffer a) + unat (arg_pitch a div 4)"

lemma fb_build_fits:
  assumes a: "args_fit a" and h: "bump_alloc_ptr h = 0"
  defines "C \<equiv> arg_width a div (9 * arg_font_scale_x a)" and "R \<equiv> arg_height a div (16 * arg_font_scale_x a)"
  shows "\<exists>f p bs. fb_build None a h = Inr (Going \<lparr>built = (zero_terminal f)\<lparr>rows := R, cols := C\<rparr>, owned = bs,
      pool = h\<lparr>bump_alloc_ptr := p\<rparr>\<rparr>) \<and> fresh_context R C f"
proof -
  define s n where "s = arg_font_scale_x a" and "n = R * C"
  define T where "T f = (zero_terminal f)\<lparr>rows := R, cols := C\<rparr>" for f
  define A where "A = choose_font a"
  have A: "A = a\<lparr>arg_font := Some builtin_font, arg_font_width := 8, arg_font_height := 16, arg_font_spacing := 1\<rparr>"
    using a by (simp add: A_def choose_font_def args_fit_def)
  have s: "arg_font_scale_x a = s" "arg_font_scale_y a = s" "arg_margin a = 0" "arg_canvas a = None"
    using a by (simp_all add: args_fit_def s_def)
  note fits = a [unfolded args_fit_def s, THEN conjunct2]
  have "arg_width a \<le> 1920" "arg_height a \<le> 1200" "s \<in> {1, 2, 4}" "9 * s \<le> arg_width a" "16 * s \<le> arg_height a"
    using fits by blast+
  note cells = cells_bounded [OF this, folded C_def [unfolded s] R_def [unfolded s], folded n_def]
  have s0: "9 * s \<noteq> 0" "16 * s \<noteq> 0" "0 < s" using fits by auto
  define f0 where "f0 = init_masks a zero_context"
  have "red_mask_shift f0 < 32" "green_mask_shift f0 < 32" "blue_mask_shift f0 < 32"
    "arg_ansi_colours a = None" "arg_ansi_bright_colours a = None" using fits by (simp_all add: f0_def init_masks_def)
  from init_colours_returns [OF this] obtain ansi bright bg fg bgb fgb where colours: "init_colours a f0 =
      Inr (f0\<lparr>ansi_colours := ansi, ansi_bright_colours := bright, default_bg := bg, default_fg := fg,
        default_bg_bright := bgb, default_fg_bright := fgb, text_fg := fg, text_bg := 0xffffffff\<rparr>)"
    "length ansi = 8" "length bright = 8"
    by blast
  define fc where "fc = f0\<lparr>ansi_colours := ansi, ansi_bright_colours := bright, default_bg := bg, default_fg := fg,
        default_bg_bright := bgb, default_fg_bright := fgb, text_fg := fg, text_bg := 0xffffffff\<rparr>"
  define f1 where "f1 = init_font_size A (init_framebuffer a fc)"
  define f2 where "f2 = f1\<lparr>font_bits := builtin_font, font_width := 9, font_bool_size := 36864\<rparr>"
  have bits: "init_font_bits A f1 = Inr f2"
    by (simp add: init_font_bits_def f1_def f2_def init_font_size_def A given_def length_builtin_font)
  have "font_fits f2" by (simp add: font_fits_def f2_def f1_def init_font_size_def A length_builtin_font)
  then obtain dots where dots: "init_font_bool f2 = Inr (f2\<lparr>font_bool := dots\<rparr>)" "length dots = 36864" "\<forall>j<36864. dots ! j = font_dot f2 j"
    using init_font_bool_dotted [of f2] by (auto simp: dotted_def f2_def f1_def init_font_size_def A)
  define f3 where "f3 = f2\<lparr>font_bool := dots\<rparr>"
  define f4 where "f4 = f3\<lparr>font_scale_x := s, font_scale_y := s, glyph_width := 9 * s, glyph_height := 16 * s,
           offset_x := (arg_width a mod (9 * s)) div 2, offset_y := (arg_height a mod (16 * s)) div 2, grid_size := n * 12\<rparr>"
  have "width f3 = arg_width a" "height f3 = arg_height a" "font_width f3 = 9"
    by (simp_all add: f3_def f2_def f1_def init_font_size_def init_framebuffer_def)
  then have 4: "init_cells A (zero_terminal f3) = Inr (T f4)"
    using s0 by (simp add: init_cells_def zero_terminal_def A s T_def f4_def Let_def C_def R_def n_def mult.commute [of _ s])
  have n: "unat n \<le> 15975" using cells(3,4) by simp
  have sizes: "unat (n * 12) = unat n * 12" "unat (n * 32) = unat n * 32" "unat (n * 8) = unat n * 8"
    using n by (simp_all add: unat_times)
  then have counts: "n * 12 div 12 = n" "n * 32 div 32 = n" "n * 8 div 8 = n"
    by (simp_all add: word_unat_eq_iff unat_div)
  define f5 where "f5 = f4\<lparr>grid := replicate (unat n) (empty_char f4), queue_size := n * 32\<rparr>"
  have rc: "rows (T f) = R" "cols (T f) = C" "screen (T f) = f" "(T f)\<lparr>screen := g\<rparr> = T g" for f g
    by (simp_all add: T_def zero_terminal_def)
  have tb: "text_bg f4 = 0xffffffff" by (simp add: f4_def f3_def f2_def f1_def init_font_size_def init_framebuffer_def fc_def)
  have 5: "init_grid (T f4) = Inr (T f5)"
    using counts by (simp add: init_grid_def rc n_def [symmetric] fill_array_replicate f4_def f5_def empty_char_def)
  define f6 where "f6 = f5\<lparr>queue_i := 0, queue := replicate (unat n)
    \<lparr>item_x = 0, item_y = 0, item_c = \<lparr>char_c = 0, char_fg = 0, char_bg = 0\<rparr>\<rparr>, map_size := n * 8\<rparr>"
  have 6: "init_queue (T f5) = T f6"
    using counts by (simp add: init_queue_def rc n_def [symmetric] f6_def f5_def Let_def)
  define f7 where "f7 = f6\<lparr>cell_map := replicate (unat n) None\<rparr>"
  have 7: "init_map a (T f6) = T f7"
    using counts by (simp add: init_map_def rc n_def [symmetric] f7_def f6_def Let_def s)
  have 1: "build_screen (\<lambda>f. andthen (init_colours a (init_masks a f)) (\<lambda>f. Inr (init_font_size A (init_framebuffer a f))))
      (zero_terminal zero_context) = Inr (zero_terminal f1)"
    using colours(1) by (simp add: build_screen_def zero_terminal_def f1_def fc_def f0_def)
  have 2: "build_screen (init_font_bits A) (zero_terminal f1) = Inr (zero_terminal f2)"
    and 3: "build_screen init_font_bool (zero_terminal f2) = Inr (zero_terminal f3)"
    using bits dots(1) by (simp_all add: build_screen_def zero_terminal_def f3_def)
  have blocks: "font_bits_size f1 = 4096" "font_bool_size f2 = 36864" "grid_size f4 = n * 12" "queue_size f5 = n * 32" "map_size f6 = n * 8"
    by (simp_all add: f1_def f2_def f4_def f5_def f6_def init_font_size_def A)
  have screens: "screen (zero_terminal f) = f" for f by (simp add: zero_terminal_def)
  have run: "\<exists>p bs. fb_build None a h = Inr (Going \<lparr>built = T f7, owned = bs, pool = h\<lparr>bump_alloc_ptr := p\<rparr>\<rparr>)"
  proof -
    note A1 = alloc_step [of 0 0 "zero_terminal zero_context" CONTEXT 792, simplified]
    note A2 = alloc_step [of 792 792 "zero_terminal f1" FONT_BITS 4096, simplified screens blocks block_size.simps, simplified]
    note A3 = alloc_step [of 4888 4888 "zero_terminal f2" FONT_BOOL 36864, simplified screens blocks block_size.simps, simplified]
    have A4: "going (Inr (allocate None GRID \<lparr>built = T f4, owned = bs, pool = h\<lparr>bump_alloc_ptr := 41752\<rparr>\<rparr>)) g =
        g \<lparr>built = T f4, owned = GRID # bs, pool = h\<lparr>bump_alloc_ptr := 41752 + n * 12\<rparr>\<rparr>"
      and u4: "unat (41752 + n * 12) = 41752 + unat (n * 12)" for bs g
      using alloc_step [of 41752 41752 "T f4" GRID "n * 12"] n sizes(1) by (simp_all add: rc blocks)
    have A5: "going (Inr (allocate None QUEUE \<lparr>built = T f5, owned = bs, pool = h\<lparr>bump_alloc_ptr := 41752 + n * 12\<rparr>\<rparr>)) g =
        g \<lparr>built = T f5, owned = QUEUE # bs, pool = h\<lparr>bump_alloc_ptr := 41752 + n * 12 + n * 32\<rparr>\<rparr>"
 for bs g
      by (rule alloc_step(1) [OF u4]; use n sizes(1,2) in \<open>simp add: rc blocks\<close>)
    have u5: "unat (41752 + n * 12 + n * 32) = 41752 + unat (n * 12) + unat (n * 32)"
      using unat_plus [of "41752 + n * 12" "n * 32"] n sizes(1,2) by (simp add: u4)
    have A6: "going (Inr (allocate None MAP \<lparr>built = T f6, owned = bs, pool = h\<lparr>bump_alloc_ptr := 41752 + n * 12 + n * 32\<rparr>\<rparr>)) g =
        g \<lparr>built = T f6, owned = MAP # bs, pool = h\<lparr>bump_alloc_ptr := 41752 + n * 12 + n * 32 + n * 8\<rparr>\<rparr>" for bs g
      by (rule alloc_step(1) [OF u5]; use n sizes in \<open>simp add: rc blocks\<close>)
    have B: "going (build r \<lparr>built = t, owned = bs, pool = q\<rparr>) g = g \<lparr>built = t', owned = bs, pool = q\<rparr>"
      if "r t = Inr t'" for r t t' bs and q :: "'a fb_heap" and g
      using that by (simp add: going_build)
    have B1: "going (build (build_screen (\<lambda>f. andthen (init_colours a (init_masks a f))
          (\<lambda>f. Inr (init_font_size A (init_framebuffer a f))))) \<lparr>built = zero_terminal zero_context, owned = bs, pool = q\<rparr>) g =
        g \<lparr>built = zero_terminal f1, owned = bs, pool = q\<rparr>" for bs and q :: "'a fb_heap" and g
      by (rule B) (rule 1)
    have B2: "going (build (build_screen (init_font_bits A)) \<lparr>built = zero_terminal f1, owned = bs, pool = q\<rparr>) g =
        g \<lparr>built = zero_terminal f2, owned = bs, pool = q\<rparr>"
      and B3: "going (build (build_screen init_font_bool) \<lparr>built = zero_terminal f2, owned = bs, pool = q\<rparr>) g =
        g \<lparr>built = zero_terminal f3, owned = bs, pool = q\<rparr>"
      and B4: "going (build (init_cells A) \<lparr>built = zero_terminal f3, owned = bs, pool = q\<rparr>) g = g \<lparr>built = T f4, owned = bs, pool = q\<rparr>"
      and B5: "going (build init_grid \<lparr>built = T f4, owned = bs, pool = q\<rparr>) g = g \<lparr>built = T f5, owned = bs, pool = q\<rparr>"
      and B6: "going (build (\<lambda>t. Inr (init_queue t)) \<lparr>built = T f5, owned = bs, pool = q\<rparr>) g = g \<lparr>built = T f6, owned = bs, pool = q\<rparr>"
      and B7: "going (build (\<lambda>t. Inr (init_map a t)) \<lparr>built = T f6, owned = bs, pool = q\<rparr>) g = g \<lparr>built = T f7, owned = bs, pool = q\<rparr>"
      for bs and q :: "'a fb_heap" and g
      by (rule B; simp only: 2 3 4 5 6 7)+
    have h0: "h = h\<lparr>bump_alloc_ptr := 0\<rparr>" using h by simp
    show ?thesis
      by (subst h0, unfold fb_build_def Let_def A_def [symmetric] A1 A2 A3 A4 A5 A6 B1 B2 B3 B4 B5 B6 B7 s option.case)
        (intro exI, rule refl)
  qed
  note steps = f7_def f6_def f5_def f4_def f3_def f2_def f1_def init_font_size_def A init_framebuffer_def fc_def f0_def
    init_masks_def zero_context_def
  have geometry: "width f7 = arg_width a" "height f7 = arg_height a" "pitch f7 = arg_pitch a" "framebuffer f7 = arg_framebuffer a"
    "offset_x f7 = (arg_width a mod (9 * s)) div 2" "offset_y f7 = (arg_height a mod (16 * s)) div 2"
    "glyph_width f7 = 9 * s" "glyph_height f7 = 16 * s" "font_width f7 = 9" "font_height f7 = 16" "canvas f7 = None"
    "font_scale_x f7 = s" "font_scale_y f7 = s" "font_bool f7 = dots"
    by (simp_all add: steps)
  have "unat (arg_height a) < 2 ^ 30" using fits by (auto simp: word_le_nat_alt)
  then have geo: "geo_ok R C f7" using fits cells s0 dots(2) by (simp add: geo_ok_def geometry)
  have arrays: "grid f7 = replicate (unat n) (empty_char f4)" "empty_char f7 = empty_char f4" "cell_map f7 = replicate (unat n) None"
    "length (queue f7) = unat n" "queue_i f7 = 0" "cursor_x f7 = 0" "cursor_y f7 = 0" "old_cursor_x f7 = 0" "old_cursor_y f7 = 0"
    "length (ansi_colours f7) = 8" "length (ansi_bright_colours f7) = 8" "font_bits f7 = builtin_font"
    using colours(2,3) by (simp_all add: steps empty_char_def)
  have masks: "red_mask_shift f7 < 32" "green_mask_shift f7 < 32" "blue_mask_shift f7 < 32"
    using fits by (simp_all add: steps)
  have "font_dot f7 = font_dot f2" by (intro ext) (simp add: font_dot_def f7_def f6_def f5_def f4_def f3_def)
  then have "\<forall>j<256 * 16 * 9. font_bool f7 ! j = font_dot f7 j" using dots(3) by (simp add: geometry)
  then have fresh: "fresh_context R C f7"
    using geo cells(4) unfolding fresh_context_def by (simp add: arrays masks geometry cells(3))
  show ?thesis using run fresh unfolding T_def by blast
qed


section \<open>The screen that the boot loader hands over\<close>

definition screen_ok :: "fb_args \<Rightarrow> bool" where
  "screen_ok a \<longleftrightarrow>
     unat (arg_width a) \<le> unat (arg_pitch a div 4) \<and> unat (arg_pitch a div 4) < 2 ^ 30 \<and> arg_pitch a mod 4 = 0
     \<and> unat (arg_height a) < 2 ^ 30 \<and> unat (arg_height a) * unat (arg_pitch a div 4) \<le> length (arg_framebuffer a)"

lemma half_window:
  fixes w w' :: nat
  assumes "w' \<le> w" and "w' = w \<or> even w'"
  shows "w div 2 - w' div 2 + w' \<le> w"
proof (cases "w' = w")
  case False
  then obtain k where "w' = 2 * k" using assms(2) by (auto elim: evenE)
  then show ?thesis using assms(1) by simp
qed simp

lemma window_fits:
  fixes w h w' h' S n :: nat
  assumes "w \<le> S" and "h * S \<le> n" and "w' \<le> w" and "h' \<le> h" and "w' = w \<or> even w'" and "h' = h \<or> even h'"
  shows "h' * S + w' \<le> n - ((h div 2 - h' div 2) * S + (w div 2 - w' div 2)) + S"
proof -
  have "h div 2 - h' div 2 + h' \<le> h" and w: "w div 2 - w' div 2 + w' \<le> w" using half_window assms(3-6) by blast+
  then have "(h div 2 - h' div 2 + h') * S \<le> h * S" by (intro mult_le_mono1)
  then have "(h div 2 - h' div 2) * S + h' * S \<le> h * S" by (simp only: add_mult_distrib)
  then show ?thesis using w assms(1,2) by linarith
qed


lemma limit_offset:
  fixes p x y :: u64
  assumes "p mod 4 = 0" and "unat (p div 4) < 2 ^ 30" and "unat x < 2 ^ 30" and "unat y < 2 ^ 30"
  shows "(y * p + x * 4) mod 4 = 0" and "unat ((y * p + x * 4) div 4) = unat y * unat (p div 4) + unat x"
proof -
  define S where "S = unat (p div 4)"
  have "unat p mod 4 = 0" using assms(1) by (simp add: word_unat_eq_iff unat_mod)
  then have p: "unat p = 4 * S" using div_mult_mod_eq [of "unat p" 4] by (simp add: S_def unat_div)
  define m where "m = unat y * S"
  have "m \<le> 2 ^ 30 * 2 ^ 30" using assms(2,4) unfolding m_def by (intro mult_le_mono) (simp_all add: S_def)
  then have "4 * m \<le> 2 ^ 62" by simp
  moreover have eq: "unat y * unat p = 4 * m" by (simp add: m_def p)
  ultimately have "unat (y * p) = 4 * m" using unat_times [of y p] by simp
  moreover have "unat (x * 4) = unat x * 4" using unat_times [of x 4] assms(3) by simp
  ultimately have u: "unat (y * p + x * 4) = 4 * (m + unat x)"
    using unat_plus [of "y * p" "x * 4"] \<open>4 * m \<le> 2 ^ 62\<close> assms(3) by simp
  then show "(y * p + x * 4) mod 4 = 0" "unat ((y * p + x * 4) div 4) = unat y * unat (p div 4) + unat x"
    by (simp_all add: word_unat_eq_iff unat_mod unat_div S_def m_def)
qed

lemma limit_size_fits:
  assumes "screen_ok a"
  shows "\<exists>fb w h. limit_size a = Inr (a\<lparr>arg_framebuffer := fb, arg_width := w, arg_height := h\<rparr>)
    \<and> w = min (arg_width a) 1920 \<and> h = min (arg_height a) 1200
    \<and> unat h * unat (arg_pitch a div 4) + unat w \<le> length fb + unat (arg_pitch a div 4)"
proof -
  define w h p where "w = arg_width a" and "h = arg_height a" and "p = arg_pitch a"
  define w' h' where "w' = min w 1920" and "h' = min h 1200"
  define S where "S = unat (p div 4)"
  have ok: "unat w \<le> S" "S < 2 ^ 30" "p mod 4 = 0" "unat h < 2 ^ 30" "unat h * S \<le> length (arg_framebuffer a)"
    using assms by (simp_all add: screen_ok_def w_def h_def p_def S_def)
  have le: "w' \<le> w" "h' \<le> h" "w' = w \<or> w' = 1920" "h' = h \<or> h' = 1200"
    by (auto simp: w'_def h'_def min_def)
  then have nat: "unat w' \<le> unat w" "unat h' \<le> unat h" "unat w' = unat w \<or> even (unat w')" "unat h' = unat h \<or> even (unat h')"
    by (auto simp: word_le_nat_alt)
  have half: "unat (a div 2 - b div 2) = unat a div 2 - unat b div 2" if "b \<le> a" for a b :: u64
  proof -
    have "unat b div 2 \<le> unat a div 2" using that by (simp add: word_le_nat_alt div_le_mono)
    then show ?thesis by (simp add: unat_sub word_le_nat_alt unat_div)
  qed
  have d: "unat (w div 2 - w' div 2) = unat w div 2 - unat w' div 2" "unat (h div 2 - h' div 2) = unat h div 2 - unat h' div 2"
    using half le by simp_all
  have "unat (w div 2 - w' div 2) < 2 ^ 30" "unat (h div 2 - h' div 2) < 2 ^ 30" using ok(1,2,4) unfolding d by linarith+
  note off = limit_offset [OF ok(3) ok(2) [unfolded S_def] this, folded S_def]
  define n where "n = (unat h div 2 - unat h' div 2) * S + (unat w div 2 - unat w' div 2)"
  have "unat h' * S + unat w' \<le> length (arg_framebuffer a) - n + S"
    unfolding n_def by (rule window_fits [OF ok(1,5) nat])
  then have len: "unat h' * S + unat w' \<le> length (drop n (arg_framebuffer a)) + S" by simp
  show ?thesis
  proof (cases "1920 < w \<or> 1200 < h")
    case True
    have "(if 1920 < w then 1920 else w) = w'" "(if 1200 < h then 1200 else h) = h'"
      by (auto simp: w'_def h'_def min_def)
    then have "limit_size a = Inr (a\<lparr>arg_framebuffer := drop n (arg_framebuffer a), arg_width := w', arg_height := h'\<rparr>)"
      using True off unfolding limit_size_def Let_def w_def [symmetric] h_def [symmetric] p_def [symmetric] n_def d
      by simp
    then show ?thesis using len unfolding w'_def h'_def w_def h_def S_def p_def by blast
  next
    case False
    then have "w' = w" "h' = h" by (auto simp: w'_def h'_def min_def)
    then have "limit_size a = Inr (a\<lparr>arg_framebuffer := arg_framebuffer a, arg_width := w', arg_height := h'\<rparr>)" "n = 0"
      using False by (simp_all add: limit_size_def w_def h_def n_def)
    moreover have "unat h' * S + unat w' \<le> length (arg_framebuffer a) + S" using len \<open>n = 0\<close> by simp
    ultimately show ?thesis unfolding w'_def h'_def w_def h_def S_def p_def by blast
  qed
qed


section \<open>The terminal of the kernel\<close>

text \<open>The call in \<open>kmain\<close>: no allocator, no canvas, two colours of its own and the rest by default.\<close>

definition kmain_args ::
  "u32 list \<Rightarrow> u64 \<Rightarrow> u64 \<Rightarrow> u64 \<Rightarrow> u8 \<Rightarrow> u8 \<Rightarrow> u8 \<Rightarrow> u8 \<Rightarrow> u8 \<Rightarrow> u8 \<Rightarrow> fb_args" where
  "kmain_args fb w h p rs rsh gs gsh bs bsh =
     \<lparr>arg_framebuffer = fb, arg_width = w, arg_height = h, arg_pitch = p,
      arg_red_mask_size = rs, arg_red_mask_shift = rsh, arg_green_mask_size = gs, arg_green_mask_shift = gsh,
      arg_blue_mask_size = bs, arg_blue_mask_shift = bsh, arg_canvas = None,
      arg_ansi_colours = None, arg_ansi_bright_colours = None, arg_default_bg = Some 0x000000, arg_default_fg = Some 0xf0faf6,
      arg_default_bg_bright = None, arg_default_fg_bright = None,
      arg_font = None, arg_font_width = 0, arg_font_height = 0, arg_font_spacing = 1,
      arg_font_scale_x = 0, arg_font_scale_y = 0, arg_margin = 0\<rparr>"

definition masks_ok :: "fb_args \<Rightarrow> bool" where
  "masks_ok a \<longleftrightarrow>
     8 \<le> arg_red_mask_size a \<and> arg_green_mask_size a = arg_red_mask_size a \<and> arg_blue_mask_size a = arg_red_mask_size a
     \<and> arg_red_mask_shift a + (arg_red_mask_size a - 8) < 32 \<and> arg_green_mask_shift a + (arg_green_mask_size a - 8) < 32
     \<and> arg_blue_mask_shift a + (arg_blue_mask_size a - 8) < 32"

lemma choose_scale_eq:
  assumes "arg_font_scale_x a = 0" and "9 \<le> arg_width a" and "16 \<le> arg_height a"
  shows "\<exists>s \<in> {1, 2, 4}. choose_scale a = a\<lparr>arg_font_scale_x := s, arg_font_scale_y := s\<rparr>
    \<and> 9 * s \<le> min (arg_width a) 1920 \<and> 16 * s \<le> min (arg_height a) 1200"
proof -
  define b4 b2 where "b4 \<longleftrightarrow> 5120 \<le> arg_width a \<and> 2880 \<le> arg_height a" and "b2 \<longleftrightarrow> 2560 \<le> arg_width a \<and> 1440 \<le> arg_height a"
  define s :: u64 where "s = (if b4 then 4 else if b2 then 2 else 1)"
  have "choose_scale a = a\<lparr>arg_font_scale_x := s, arg_font_scale_y := s\<rparr>"
    using assms(1) by (simp add: choose_scale_def Let_def s_def b4_def b2_def)
  moreover have "9 * s \<le> arg_width a \<and> 16 * s \<le> arg_height a"
    using assms(2,3) by (auto simp: s_def b4_def b2_def word_le_nat_alt)
  moreover have "s \<in> {1, 2, 4}" "9 * s \<le> 1920 \<and> 16 * s \<le> 1200" by (auto simp: s_def)
  ultimately show ?thesis by (intro bexI [of _ s]) auto
qed

lemma limited_args_fit:
  assumes a: "a = kmain_args fb w h p rs rsh gs gsh bs bsh" and ok: "screen_ok a" and m: "masks_ok a" and "9 \<le> w" and "16 \<le> h"
  shows "\<exists>a'. andthen (limit_size (choose_scale a)) (\<lambda>a. Inr (a\<lparr>arg_canvas := None\<rparr>)) = Inr a' \<and> args_fit a'
    \<and> arg_width a' = min w 1920 \<and> arg_height a' = min h 1200 \<and> arg_font_scale_x a' = arg_font_scale_x (choose_scale a)"
proof -
  have k: "arg_font_scale_x a = 0" "arg_width a = w" "arg_height a = h" by (simp_all add: a kmain_args_def)
  obtain s where s: "s \<in> {1, 2, 4}" "choose_scale a = a\<lparr>arg_font_scale_x := s, arg_font_scale_y := s\<rparr>"
    "9 * s \<le> min w 1920" "16 * s \<le> min h 1200"
    using choose_scale_eq [of a, unfolded k] assms(4,5) by blast
  define a1 where "a1 = a\<lparr>arg_font_scale_x := s, arg_font_scale_y := s\<rparr>"
  have "screen_ok a1" using ok by (simp add: screen_ok_def a1_def)
  then obtain fb' where l: "limit_size a1 = Inr (a1\<lparr>arg_framebuffer := fb', arg_width := min w 1920, arg_height := min h 1200\<rparr>)"
    "unat (min h 1200) * unat (p div 4) + unat (min w 1920) \<le> length fb' + unat (p div 4)"
    using limit_size_fits [of a1] by (auto simp: a1_def a kmain_args_def)
  have "unat (min w 1920) \<le> unat w" by (simp add: min_def word_le_nat_alt)
  then have "args_fit (a1\<lparr>arg_framebuffer := fb', arg_width := min w 1920, arg_height := min h 1200, arg_canvas := None\<rparr>)"
    using ok m s(1,3,4) l(2) by (auto simp: args_fit_def a1_def a kmain_args_def screen_ok_def masks_ok_def)
  then show ?thesis using l(1) by (simp add: s(2) a1_def [symmetric])
qed

text \<open>The first drawing of a fresh context: the invariants hold from there on.\<close>

lemma fresh_terminal_good:
  assumes f: "fresh_context R C f" and "0 < R" and "0 < C"
  defines "t \<equiv> flanterm_context_reinit ((zero_terminal f)\<lparr>rows := R, cols := C\<rparr>)"
  shows "\<exists>fb. flanterm_fb_full_refresh t = Inr (t\<lparr>screen := f\<lparr>framebuffer := fb\<rparr>\<rparr>)
    \<and> good fb_ok R C (t\<lparr>screen := f\<lparr>framebuffer := fb\<rparr>\<rparr>) \<and> shown (t\<lparr>screen := f\<lparr>framebuffer := fb\<rparr>\<rparr>)"
proof -
  have t: "screen t = f" "rows t = R" "cols t = C" "cursor_enabled t" by (simp_all add: t_def flanterm_context_reinit_def zero_terminal_def)
  have f': "geo_ok R C f" "unat R * unat C < 2 ^ 62" "grid f = replicate (unat R * unat C) (empty_char f)"
    "cell_map f = replicate (unat R * unat C) None" "length (queue f) = unat R * unat C" "queue_i f = 0"
    "cursor_x f = 0" "cursor_y f = 0" "old_cursor_x f = 0" "old_cursor_y f = 0"
    using f by (simp_all add: fresh_context_def)
  have view: "view f = grid f" by (intro nth_equalityI) (simp_all add: nth_view view_cell_def f'(3,4))
  obtain g fb where g: "flanterm_fb_full_refresh t = Inr (t\<lparr>screen := g\<rparr>)" "g = f\<lparr>framebuffer := fb\<rparr>" "geo_ok R C g" "shown (t\<lparr>screen := g\<rparr>)"
    using full_refresh_shown [of t] f' by (auto simp: t)
  have "in_sync R C g"
    using g(4) by (auto simp: in_sync_def shown_def cursor_cell_def g(2) t f' split: if_splits)
  moreover have "queue_ok R C g" "chars_ok g"
    using f' view by (auto simp: queue_ok_def chars_ok_def g(2))
  ultimately have "fb_ok R C g" using g(3) f by (simp add: fb_ok_def g(2) fresh_context_def)
  then have "good fb_ok R C (t\<lparr>screen := g\<rparr>)"
    using assms(2,3) by (simp add: good_def front_ok_def ready_def t_def flanterm_context_reinit_def zero_terminal_def)
  then show ?thesis using g(1,4) unfolding g(2) by blast
qed

lemma kmain_terminal:
  assumes a: "a = kmain_args fb w h p rs rsh gs gsh bs bsh" and ok: "screen_ok a" and m: "masks_ok a" and "9 \<le> w" and "16 \<le> h"
    and "bump_alloc_ptr heap = 0" and "\<not> bump_allocated_instance heap"
  shows "\<exists>t q. flanterm_fb_init None release a heap = Inr (Some t, heap\<lparr>bump_alloc_ptr := q, bump_allocated_instance := True\<rparr>)
    \<and> good fb_ok (rows t) (cols t) t \<and> shown t \<and> fresh_context (rows t) (cols t) (screen t)
    \<and> t = flanterm_context_reinit ((zero_terminal (screen t))\<lparr>rows := rows t, cols := cols t\<rparr>)
    \<and> rows t = min h 1200 div (16 * arg_font_scale_x (choose_scale a))
    \<and> cols t = min w 1920 div (9 * arg_font_scale_x (choose_scale a))"
proof -
  obtain a' where a': "andthen (limit_size (choose_scale a)) (\<lambda>a. Inr (a\<lparr>arg_canvas := None\<rparr>)) = Inr a'" "args_fit a'"
    "arg_width a' = min w 1920" "arg_height a' = min h 1200" "arg_font_scale_x a' = arg_font_scale_x (choose_scale a)"
    using limited_args_fit [OF assms(1-5)] by blast
  define R C where "R = arg_height a' div (16 * arg_font_scale_x a')" and "C = arg_width a' div (9 * arg_font_scale_x a')"
  have rc: "0 < C" "0 < R"
    using cells_bounded(1,2) [of "arg_width a'" "arg_height a'" "arg_font_scale_x a'"] a'(2)
    by (simp_all add: args_fit_def R_def C_def)
  obtain f q owns where f: "fb_build None a' heap = Inr (Going \<lparr>built = (zero_terminal f)\<lparr>rows := R, cols := C\<rparr>, owned = owns,
      pool = heap\<lparr>bump_alloc_ptr := q\<rparr>\<rparr>)" "fresh_context R C f"
    using fb_build_fits [OF a'(2) assms(6)] unfolding R_def C_def by blast
  define t where "t = flanterm_context_reinit ((zero_terminal f)\<lparr>rows := R, cols := C\<rparr>)"
  obtain fb' where d: "flanterm_fb_full_refresh t = Inr (t\<lparr>screen := f\<lparr>framebuffer := fb'\<rparr>\<rparr>)"
    "good fb_ok R C (t\<lparr>screen := f\<lparr>framebuffer := fb'\<rparr>\<rparr>)" "shown (t\<lparr>screen := f\<lparr>framebuffer := fb'\<rparr>\<rparr>)"
    using fresh_terminal_good [OF f(2) rc(2,1)] unfolding t_def by blast
  have same: "arg_red_mask_size (choose_scale a) = arg_red_mask_size a" "arg_green_mask_size (choose_scale a) = arg_green_mask_size a"
    "arg_blue_mask_size (choose_scale a) = arg_blue_mask_size a"
    by (simp_all add: choose_scale_def Let_def)
  define u where "u = t\<lparr>screen := f\<lparr>framebuffer := fb'\<rparr>\<rparr>"
  have run: "flanterm_fb_init None release a heap = Inr (Some u, heap\<lparr>bump_alloc_ptr := q, bump_allocated_instance := True\<rparr>)"
    using m assms(7) a'(1) f(1) d(1)
    by (simp add: flanterm_fb_init_def Let_def same masks_ok_def t_def [symmetric] u_def not_less)
  have u: "rows u = R" "cols u = C" "screen u = f\<lparr>framebuffer := fb'\<rparr>"
    "u = flanterm_context_reinit ((zero_terminal (f\<lparr>framebuffer := fb'\<rparr>))\<lparr>rows := R, cols := C\<rparr>)"
    by (simp_all add: u_def t_def flanterm_context_reinit_def zero_terminal_def)
  have good: "good fb_ok R C u" "shown u" using d(2,3) by (simp_all add: u_def)
  have "geo_ok R C (f\<lparr>framebuffer := fb'\<rparr>)" using good(1) u(1-3) by (simp add: good_def ready_def fb_ok_def)
  moreover have "font_dot (f\<lparr>framebuffer := fb'\<rparr>) = font_dot f" by (intro ext) (simp add: font_dot_def)
  ultimately have "fresh_context R C (f\<lparr>framebuffer := fb'\<rparr>)"
    using f(2) by (simp add: fresh_context_def empty_char_def)
  moreover have "R = min h 1200 div (16 * arg_font_scale_x (choose_scale a))" "C = min w 1920 div (9 * arg_font_scale_x (choose_scale a))"
    by (simp_all only: R_def C_def a'(3-5))
  ultimately show ?thesis using run good u by (intro exI [of _ u] exI [of _ q]) metis
qed

end
