(* ===== verification/Machine.thy ===== *)
theory Machine
  imports Prelude
begin

text \<open>
  The processor and the devices as the kernel's C code sees them: port and memory-mapped I/O,
  model-specific and control registers, and the log of the text and the colours that the kernel
  sends to its terminal; \<open>terminal_run\<close> in \<open>Terminal_Behaviour\<close> is what they do there. A device is a function of everything that was sent to it and
  asked of it before, so that nothing is assumed about what it answers.
\<close>

datatype io_op =
    Outb u16 u8 | Outw u16 u16 | Outd u16 u32 | Inb u16 | Inw u16 | Ind u16
  | Mmio_read nat u64 | Mmio_write nat u64 u64

datatype term_op =
    Term_write "u8 list" | Term_fg_rgb u32 | Term_bg_rgb u32 | Term_fg_default | Term_bg_default

record machine =
  io_log :: "io_op list"
  device :: "io_op list \<Rightarrow> io_op \<Rightarrow> u64"
  term_log :: "term_op list"
  msr :: "u32 \<Rightarrow> u64"
  cr0 :: u64
  cr2 :: u64
  cr3 :: u64
  cr4 :: u64
  xcr0 :: u64
  interrupts_on :: bool

definition io_write :: "io_op \<Rightarrow> machine \<Rightarrow> machine" where
  "io_write op c = c\<lparr>io_log := io_log c @ [op]\<rparr>"

definition io_read :: "io_op \<Rightarrow> machine \<Rightarrow> u64 \<times> machine" where
  "io_read op c = (device c (io_log c) op, c\<lparr>io_log := io_log c @ [op]\<rparr>)"

section \<open>Ports\<close>

definition outb :: "u16 \<Rightarrow> u8 \<Rightarrow> machine \<Rightarrow> machine" where "outb port data = io_write (Outb port data)"
definition outw :: "u16 \<Rightarrow> u16 \<Rightarrow> machine \<Rightarrow> machine" where "outw port data = io_write (Outw port data)"
definition outd :: "u16 \<Rightarrow> u32 \<Rightarrow> machine \<Rightarrow> machine" where "outd port data = io_write (Outd port data)"

definition inb :: "u16 \<Rightarrow> machine \<Rightarrow> u8 \<times> machine" where
  "inb port c = (let (v, c') = io_read (Inb port) c in (ucast v, c'))"
definition inw :: "u16 \<Rightarrow> machine \<Rightarrow> u16 \<times> machine" where
  "inw port c = (let (v, c') = io_read (Inw port) c in (ucast v, c'))"
definition ind :: "u16 \<Rightarrow> machine \<Rightarrow> u32 \<times> machine" where
  "ind port c = (let (v, c') = io_read (Ind port) c in (ucast v, c'))"

section \<open>Model-specific registers\<close>

text \<open>\<open>rdmsr\<close> and \<open>wrmsr\<close> transfer the two halves in \<open>edx\<close> and \<open>eax\<close>.\<close>

definition readmsr :: "u32 \<Rightarrow> machine \<Rightarrow> u64" where
  "readmsr r c =
     (let lo = ucast (msr c r) :: u32; hi = ucast (drop_bit 32 (msr c r)) :: u32
      in ucast lo OR push_bit 32 (ucast hi))"

definition writemsr :: "u32 \<Rightarrow> u64 \<Rightarrow> machine \<Rightarrow> machine" where
  "writemsr r val c =
     (let lo = ucast (val AND 0xFFFFFFFF) :: u32; hi = ucast (drop_bit 32 val AND 0xFFFFFFFF) :: u32
      in c\<lparr>msr := (msr c)(r := ucast lo OR push_bit 32 (ucast hi))\<rparr>)"

lemma halves: "(ucast (ucast v :: u32) :: u64) OR push_bit 32 (ucast (ucast (drop_bit 32 v) :: u32)) = v" for v :: u64
  by (rule bit_word_eqI) (auto simp: bit_simps)

lemma readmsr_eq: "readmsr r c = msr c r"
  by (simp add: readmsr_def Let_def halves)

lemma low_half: "(ucast (v AND 0xFFFFFFFF) :: u32) = ucast v" for v :: u64
proof -
  have "v AND 0xFFFFFFFF = take_bit 32 v" by (simp add: take_bit_eq_mask mask_eq_exp_minus_1)
  then show ?thesis by (simp only:) (rule bit_word_eqI, auto simp: bit_simps)
qed

lemma writemsr_eq: "writemsr r v c = c\<lparr>msr := (msr c)(r := v)\<rparr>"
  by (simp add: writemsr_def Let_def low_half halves)

section \<open>The serial port\<close>

abbreviation PORT :: u16 where "PORT \<equiv> 0x3F8"
abbreviation ESC :: char where "ESC \<equiv> CHR 0x1B"

definition print_charserial :: "u8 \<Rightarrow> machine \<Rightarrow> machine" where
  "print_charserial chara = outb PORT chara"

fun serial_print :: "u8 list \<Rightarrow> machine \<Rightarrow> machine" where
  "serial_print [] c = c"
| "serial_print (b # str) c = serial_print str (print_charserial b c)"

definition serial_print_color :: "u8 list \<Rightarrow> int \<Rightarrow> machine \<Rightarrow> machine" where
  "serial_print_color str type c =
     (if type = 0 then
        serial_print str (serial_print (bytes_of (ESC # ''[40m['' @ ESC # ''[0;35mINFO'' @ ESC # ''[0;37m'' @ ESC # ''[40m] '')) c)
      else if type = 1 then
        serial_print str (serial_print (bytes_of (ESC # ''[40m['' @ ESC # ''[0;32mOK'' @ ESC # ''[0;37m'' @ ESC # ''[40m] '')) c)
      else if type = 2 then
        serial_print str (serial_print (bytes_of (ESC # ''[40m['' @ ESC # ''[0;33mWARNING'' @ ESC # ''[0;37m'' @ ESC # ''[40m] '')) c)
      else if type = 3 then
        serial_print str (serial_print (bytes_of (ESC # ''[40m['' @ ESC # ''[0;31mERROR'' @ ESC # ''[0;37m'' @ ESC # ''[40m] '')) c)
      else if type = 4 then
        serial_print (bytes_of (ESC # ''[40m''))
          (serial_print str (serial_print (bytes_of ''KPANIC: '') (serial_print (bytes_of (ESC # ''[41m'')) c)))
      else c)"

section \<open>The terminal\<close>

definition term_out :: "term_op \<Rightarrow> machine \<Rightarrow> machine" where
  "term_out op c = c\<lparr>term_log := term_log c @ [op]\<rparr>"

definition write_term :: "u8 list \<Rightarrow> machine \<Rightarrow> machine" where
  "write_term buf = term_out (Term_write buf)"

text \<open>The common text of the first four kinds of \<open>write_color\<close>.\<close>

definition write_tag :: "u32 \<Rightarrow> u8 list \<Rightarrow> machine \<Rightarrow> machine" where
  "write_tag rgb tag c =
     (let c1 = write_term (bytes_of ''[ '') c;
          c2 = term_out (Term_fg_rgb rgb) c1;
          c3 = write_term tag c2;
          c4 = term_out Term_fg_default c3;
          c5 = write_term (bytes_of '' ]'') c4
      in write_term (bytes_of '' '') c5)"

definition write_color :: "u8 list \<Rightarrow> int \<Rightarrow> machine \<Rightarrow> machine" where
  "write_color buf type c =
     (if type = 0 then write_term buf (write_tag 0xbae1ff (bytes_of ''INFO'') c)
      else if type = 1 then write_term buf (write_tag 0x00FF00 (bytes_of ''OK'') c)
      else if type = 2 then write_term buf (write_tag 0xFDFD96 (bytes_of ''WARNING'') c)
      else if type = 3 then write_term buf (write_tag 0xFF6961 (bytes_of ''ERROR'') c)
      else if type = 4 then
        term_out Term_bg_default (write_term buf (term_out (Term_bg_rgb 0xFF6961)
          (write_tag 0xFF6961 (bytes_of ''NYA KPANIC'') c)))
      else c)"

text \<open>\<open>ready\<close>: the terminal has been set up, \<open>ctx != NULL\<close>.\<close>

definition kputc :: "bool \<Rightarrow> u8 \<Rightarrow> machine \<Rightarrow> machine" where
  "kputc ready ch c =
     (if ready then print_charserial ch (term_out (Term_write [ch]) c) else c)"

text \<open>The vendored formatter \<open>npf\<close> turns a format and its arguments into the bytes it puts out.\<close>

definition kprintf :: "(string \<Rightarrow> u64 list \<Rightarrow> u8 list) \<Rightarrow> bool \<Rightarrow> string \<Rightarrow> u64 list \<Rightarrow> machine \<Rightarrow> machine" where
  "kprintf npf ready format args c = foldl (\<lambda>c ch. kputc ready ch c) c (npf format args)"

definition init_serial :: "machine \<Rightarrow> int \<times> machine" where
  "init_serial c =
     (let c1 = outb (PORT + 1) 0x00 c;
          c2 = outb (PORT + 3) 0x80 c1;
          c3 = outb (PORT + 0) 0xC c2;
          c4 = outb (PORT + 1) 0x00 c3;
          c5 = outb (PORT + 3) 0x03 c4;
          c6 = write_color (bytes_of (''Serial Driver Initialized!'' @ [CHR 0x0A])) 1 c5;
          c7 = serial_print (bytes_of (ESC # ''[40m'' @ ESC # ''[H'')) c6
      in (0, serial_print_color (bytes_of (''Serial Driver Initialized!'' @ [CHR 0x0A])) 1 c7))"

section \<open>What reaches the serial line\<close>

text \<open>The bytes sent to the data port so far.\<close>

fun sent :: "io_op list \<Rightarrow> u8 list" where
  "sent [] = []"
| "sent (op # ops) = (case op of Outb p b \<Rightarrow> if p = PORT then b # sent ops else sent ops | _ \<Rightarrow> sent ops)"

lemma sent_append: "sent (xs @ ys) = sent xs @ sent ys"
  by (induction xs) (auto split: io_op.split)

lemma serial_print_sent: "sent (io_log (serial_print str c)) = sent (io_log c) @ str"
  by (induction str arbitrary: c) (auto simp: print_charserial_def outb_def io_write_def sent_append)

lemma serial_print_frame:
  "term_log (serial_print str c) = term_log c" "msr (serial_print str c) = msr c"
  "device (serial_print str c) = device c"
  by (induction str arbitrary: c) (auto simp: print_charserial_def outb_def io_write_def)

lemma kprintf_sent:
  "sent (io_log (kprintf npf True format args c)) = sent (io_log c) @ npf format args"
proof -
  have "sent (io_log (foldl (\<lambda>c ch. kputc True ch c) c bs)) = sent (io_log c) @ bs" for bs
    by (induction bs arbitrary: c)
      (auto simp: kputc_def print_charserial_def outb_def io_write_def term_out_def sent_append)
  then show ?thesis by (simp add: kprintf_def)
qed

section \<open>Control registers\<close>

definition update_cr0 :: "u64 \<Rightarrow> machine \<Rightarrow> machine" where "update_cr0 v c = c\<lparr>cr0 := v\<rparr>"
definition update_cr3 :: "u64 \<Rightarrow> machine \<Rightarrow> machine" where "update_cr3 v c = c\<lparr>cr3 := v\<rparr>"
definition update_cr4 :: "u64 \<Rightarrow> machine \<Rightarrow> machine" where "update_cr4 v c = c\<lparr>cr4 := v\<rparr>"
definition read_cr0 :: "machine \<Rightarrow> u64" where "read_cr0 c = cr0 c"
definition read_cr2 :: "machine \<Rightarrow> u64" where "read_cr2 c = cr2 c"
definition read_cr4 :: "machine \<Rightarrow> u64" where "read_cr4 c = cr4 c"

text \<open>\<open>read_cr3\<close> reads the wrong register.\<close>

definition read_cr3 :: "machine \<Rightarrow> u64" where "read_cr3 c = cr4 c"

end
