(* ===== verification/Terminal_Behaviour.thy ===== *)
theory Terminal_Behaviour
  imports Framebuffer_Boot Machine
begin

unbundle bit_operations_syntax

section \<open>The kernel's use of the terminal\<close>

text \<open>
  One entry of the log that the kernel's side of the model keeps: the calls of \<open>write\<close> and
  \<open>write_color\<close> in \<open>main.c\<close> on \<open>ctx\<close>.
\<close>

definition terminal_op :: "term_op \<Rightarrow> fb_terminal \<Rightarrow> fb_terminal res" where
  "terminal_op op t =
     (case op of
        Term_write buf \<Rightarrow> flanterm_write fb_backend buf t
      | Term_fg_rgb rgb \<Rightarrow> set_text_fg_rgb fb_backend rgb t
      | Term_bg_rgb rgb \<Rightarrow> set_text_bg_rgb fb_backend rgb t
      | Term_fg_default \<Rightarrow> set_text_fg_default fb_backend t
      | Term_bg_default \<Rightarrow> set_text_bg_default fb_backend t)"

fun terminal_run :: "term_op list \<Rightarrow> fb_terminal \<Rightarrow> fb_terminal res" where
  "terminal_run [] t = Inr t"
| "terminal_run (op # ops) t = andthen (terminal_op op t) (terminal_run ops)"

lemma terminal_op_fine: "good fb_ok R C t \<Longrightarrow> fine fb_ok R C (terminal_op op t)"
  unfolding terminal_op_def by (cases op) (simp_all add: fb.write_fine fb.fine_call)

lemma terminal_run_fine: "good fb_ok R C t \<Longrightarrow> fine fb_ok R C (terminal_run ops t)"
  by (induction ops arbitrary: t) (simp_all add: fine_andthen terminal_op_fine)

lemma good_fb: "good fb_ok R C t \<Longrightarrow> ready fb_ok t \<and> rows t = R \<and> cols t = C \<and> fb_ok R C (screen t)"
  by (auto simp: good_def ready_def)

lemma flush_good:
  assumes g: "good fb_ok R C t"
  shows "\<exists>f. flanterm_fb_double_buffer_flush t = Inr (t\<lparr>screen := f\<rparr>) \<and> good fb_ok R C (t\<lparr>screen := f\<rparr>)
    \<and> shown (t\<lparr>screen := f\<rparr>) \<and> view f = view (screen t)
    \<and> (\<exists>fb gr q m x y. f = (screen t)\<lparr>framebuffer := fb, grid := gr, queue_i := q, cell_map := m, old_cursor_x := x, old_cursor_y := y\<rparr>)"
proof -
  have ok: "fb_ok (rows t) (cols t) (screen t)" using good_fb [OF g] by auto
  obtain f where f: "flanterm_fb_double_buffer_flush t = Inr (t\<lparr>screen := f\<rparr>)" "view f = view (screen t)" "shown (t\<lparr>screen := f\<rparr>)"
    "\<exists>fb gr q m x y. f = (screen t)\<lparr>framebuffer := fb, grid := gr, queue_i := q, cell_map := m, old_cursor_x := x, old_cursor_y := y\<rparr>"
    using flush_shown [of t] fb_ok_parts [OF ok] by blast
  have "fine fb_ok R C (flanterm_fb_double_buffer_flush t)" using fb.fine_call(20) [OF g] by (simp add: fb_backend_def)
  then have "good fb_ok R C (t\<lparr>screen := f\<rparr>)" by (simp add: f(1))
  then show ?thesis using f by blast
qed

section \<open>Plain text\<close>

text \<open>The state between two characters: nothing is pending, and the default character set is in use.\<close>

definition term_idle :: "'b terminal \<Rightarrow> bool" where
  "term_idle t \<longleftrightarrow> \<not> escape t \<and> unicode_remaining t = 0 \<and> g_select t = 0 \<and> \<not> discard_next t \<and> \<not> insert_mode t
     \<and> charsets t ! unat (current_charset t) = CHARSET_DEFAULT"

definition text_byte :: "u8 \<Rightarrow> bool" where
  "text_byte c \<longleftrightarrow> 0x20 \<le> c \<and> c \<le> 0x7e"

definition drawn_as :: "fb_context \<Rightarrow> u8 \<Rightarrow> fb_char" where
  "drawn_as f c = \<lparr>char_c = ucast c, char_fg = text_fg f, char_bg = text_bg f\<rparr>"

definition overwritten :: "nat \<Rightarrow> 'a list \<Rightarrow> 'a list \<Rightarrow> 'a list" where
  "overwritten i new v = take i v @ new @ drop (i + length new) v"

lemma overwritten_Nil [simp]: "overwritten i [] v = v"
  by (simp add: overwritten_def)

lemma overwritten_Cons: "i < length v \<Longrightarrow> overwritten i (c # cs) v = overwritten (Suc i) cs (v[i := c])"
  by (simp add: overwritten_def take_Suc_conv_app_nth take_update_swap list_update_append)

lemma length_overwritten: "i + length new \<le> length v \<Longrightarrow> length (overwritten i new v) = length v"
  by (simp add: overwritten_def)

lemma nth_overwritten:
  "i + length new \<le> length v \<Longrightarrow> j < length v \<Longrightarrow>
    overwritten i new v ! j = (if i \<le> j \<and> j < i + length new then new ! (j - i) else v ! j)"
  by (auto simp: overwritten_def nth_append)

lemma text_byte_plain:
  assumes "text_byte c"
  shows "c \<noteq> 0" "c \<noteq> 0x7f" "c \<noteq> 0x1b" "c \<noteq> 9" "c \<noteq> 0xb" "c \<noteq> 0xc" "c \<noteq> 0xa" "c \<noteq> 8" "c \<noteq> 0xd" "c \<noteq> 7" "c \<noteq> 14" "c \<noteq> 15"
    "c \<noteq> 0x18" "c \<noteq> 0x1a" "\<not> 0xc0 \<le> c"
  using assms by (auto simp: text_byte_def word_le_nat_alt)

lemma putchar_text:
  assumes "term_idle t" and "front_ok t" and c: "text_byte c"
  shows "flanterm_putchar B c t = raw_putchar B c t"
proof -
  have cs: "unat (current_charset t) < length (charsets t)" using assms(2) by (simp add: front_ok_def word_less_nat_alt)
  show ?thesis
    using assms(1) c text_byte_plain [OF c] cs
    by (simp add: flanterm_putchar_def put_byte_fresh_def put_plain_def put_printable_def term_idle_def text_byte_def split: prod.split)
qed

lemma raw_putchar_in_line:
  assumes ok: "fb_ok (rows t) (cols t) (screen t)" and x: "cursor_x (screen t) < cols t" and y: "cursor_y (screen t) < rows t"
  obtains f where "flanterm_fb_raw_putchar c t = Inr (t\<lparr>screen := f\<rparr>)"
    "view f = (view (screen t))[unat (cursor_y (screen t)) * unat (cols t) + unat (cursor_x (screen t)) := drawn_as (screen t) c]"
    "\<exists>qs n m. f = (screen t)\<lparr>queue := qs, queue_i := n, cell_map := m, cursor_x := cursor_x (screen t) + 1\<rparr>"
proof -
  define g where "g = (screen t)\<lparr>cursor_x := cursor_x (screen t) + 1\<rparr>"
  define u where "u = t\<lparr>screen := g\<rparr>"
  have q: "queue_ok (rows u) (cols u) (screen u)" using ok by (simp add: fb_ok_def queue_ok_def u_def g_def)
  have vg: "view g = view (screen t)" by (simp add: view_def view_cell_def g_def cong: option.case_cong)
  obtain f where f: "push_to_queue (drawn_as (screen t) c) (cursor_x (screen t)) (cursor_y (screen t)) u = Inr (u\<lparr>screen := f\<rparr>)"
    "queued g f" "view f = (view g)[unat (cursor_y (screen t)) * unat (cols t) + unat (cursor_x (screen t)) := drawn_as (screen t) c]"
    using push_to_queue_view [OF q, of "drawn_as (screen t) c" "cursor_x (screen t)" "cursor_y (screen t)"] x y
    by (auto simp: shows_view_def u_def)
  have "flanterm_fb_raw_putchar c t = Inr (t\<lparr>screen := f\<rparr>)"
    using f(1) x by (simp add: flanterm_fb_raw_putchar_def wrap_line_def not_le [symmetric] on_screen_def Let_def drawn_as_def u_def g_def)
  moreover obtain qs n m where "f = g\<lparr>queue := qs, queue_i := n, cell_map := m\<rparr>" using f(2) by (auto simp: queued_def)
  then have "f = (screen t)\<lparr>queue := qs, queue_i := n, cell_map := m, cursor_x := cursor_x (screen t) + 1\<rparr>" by (simp add: g_def)
  ultimately show thesis using f(3) unfolding vg by (intro that [of f]) blast+
qed

lemma queue_same: "\<exists>qs n m x. f = f\<lparr>queue := qs, queue_i := n, cell_map := m, cursor_x := x\<rparr>"
  by (intro exI [of _ "queue f"] exI [of _ "queue_i f"] exI [of _ "cell_map f"] exI [of _ "cursor_x f"]) simp

lemma text_printed:
  assumes "good fb_ok R C t" and "term_idle t" and "list_all text_byte s"
    and "unat (cursor_x (screen t)) + length s \<le> unat C" and "cursor_y (screen t) < R"
  shows "\<exists>f. putchars fb_backend s t = Inr (t\<lparr>screen := f\<rparr>)
    \<and> view f = overwritten (unat (cursor_y (screen t)) * unat C + unat (cursor_x (screen t))) (map (drawn_as (screen t)) s) (view (screen t))
    \<and> unat (cursor_x f) = unat (cursor_x (screen t)) + length s
    \<and> (\<exists>qs n m x. f = (screen t)\<lparr>queue := qs, queue_i := n, cell_map := m, cursor_x := x\<rparr>)"
  using assms
proof (induction s arbitrary: t)
  case Nil
  then show ?case by (intro exI [of _ "screen t"] conjI) (rule queue_same | simp)+
next
  case (Cons c s)
  note g = good_fb [OF Cons.prems(1)]
  have x: "cursor_x (screen t) < cols t" and y: "cursor_y (screen t) < rows t"
    using Cons.prems(4,5) g by (simp_all add: word_less_nat_alt)
  have ok: "fb_ok (rows t) (cols t) (screen t)" and C: "cols t = C" using g by simp_all
  have c: "text_byte c" using Cons.prems(3) by simp
  have fo: "front_ok t" using Cons.prems(1) by (simp add: good_def)
  define i where "i = unat (cursor_y (screen t)) * unat C + unat (cursor_x (screen t))"
  obtain f where f: "flanterm_fb_raw_putchar c t = Inr (t\<lparr>screen := f\<rparr>)"
    "view f = (view (screen t))[i := drawn_as (screen t) c]"
    "\<exists>qs n m. f = (screen t)\<lparr>queue := qs, queue_i := n, cell_map := m, cursor_x := cursor_x (screen t) + 1\<rparr>"
    by (rule raw_putchar_in_line [OF ok x y, of c, unfolded C, folded i_def])
  then have same: "cursor_x f = cursor_x (screen t) + 1" "cursor_y f = cursor_y (screen t)" "drawn_as f = drawn_as (screen t)"
    by (auto simp: drawn_as_def)
  have run: "flanterm_putchar fb_backend c t = Inr (t\<lparr>screen := f\<rparr>)"
    using putchar_text [OF Cons.prems(2) fo c, of fb_backend] f(1) by (simp add: fb_backend_def)
  have "fine fb_ok R C (flanterm_putchar fb_backend c t)" by (rule fb.putchar_fine [OF Cons.prems(1)])
  then have good: "good fb_ok R C (t\<lparr>screen := f\<rparr>)" by (simp add: run)
  have ux: "unat (cursor_x f) = Suc (unat (cursor_x (screen t)))"
    using unat_plus [of "cursor_x (screen t)" 1] x unsigned_less [of "cols t", where ?'a = nat] by (simp add: same word_less_nat_alt)
  have term_idle: "term_idle (t\<lparr>screen := f\<rparr>)" using Cons.prems(2) by (simp add: term_idle_def)
  have prems: "list_all text_byte s" "unat (cursor_x (screen (t\<lparr>screen := f\<rparr>))) + length s \<le> unat C"
    "cursor_y (screen (t\<lparr>screen := f\<rparr>)) < R" using Cons.prems(3-5) ux same(2) by simp_all
  have start: "unat (cursor_y (screen (t\<lparr>screen := f\<rparr>))) * unat C + unat (cursor_x (screen (t\<lparr>screen := f\<rparr>))) = Suc i"
    using ux same(2) by (simp add: i_def)
  from Cons.IH [OF good term_idle prems] obtain h where h: "putchars fb_backend s (t\<lparr>screen := f\<rparr>) = Inr (t\<lparr>screen := f, screen := h\<rparr>)"
    "view h = overwritten (Suc i) (map (drawn_as (screen (t\<lparr>screen := f\<rparr>))) s) (view (screen (t\<lparr>screen := f\<rparr>)))"
    "unat (cursor_x h) = unat (cursor_x (screen (t\<lparr>screen := f\<rparr>))) + length s"
    "\<exists>qs n m x. h = (screen (t\<lparr>screen := f\<rparr>))\<lparr>queue := qs, queue_i := n, cell_map := m, cursor_x := x\<rparr>"
    unfolding start by (erule_tac exE) (elim conjE, rule that)
  have "\<exists>qs n m x. h = (screen t)\<lparr>queue := qs, queue_i := n, cell_map := m, cursor_x := x\<rparr>"
  proof -
    obtain qs n m where f': "f = (screen t)\<lparr>queue := qs, queue_i := n, cell_map := m, cursor_x := cursor_x (screen t) + 1\<rparr>"
      using f(3) by blast
    obtain qs' n' m' x' where "h = f\<lparr>queue := qs', queue_i := n', cell_map := m', cursor_x := x'\<rparr>" using h(4) by auto
    then have "h = (screen t)\<lparr>queue := qs', queue_i := n', cell_map := m', cursor_x := x'\<rparr>" unfolding f' by simp
    then show ?thesis by (intro exI)
  qed
  moreover have "i < length (view (screen t))"
  proof -
    have q: "queue_ok R C (screen t)" using g fb_ok_parts by blast
    show ?thesis using cell_less [of "unat (cursor_x (screen t))" "unat C" "unat (cursor_y (screen t))" "unat R"] x y g
        queue_ok_bounds(3) [OF q] by (simp add: i_def word_less_nat_alt)
  qed
  ultimately show ?case using run h(1-3) f(2) ux same(3) by (intro exI [of _ h]) (simp add: overwritten_Cons i_def)
qed


section \<open>New lines\<close>

lemma newline_step:
  assumes g: "good fb_ok R C t" and i: "term_idle t" and o: "oob_output t AND 16 \<noteq> 0"
  shows "\<exists>f. flanterm_putchar fb_backend 0x0a t = Inr (t\<lparr>screen := f\<rparr>) \<and> cursor_x f = 0
    \<and> (let y = snd (flanterm_fb_get_cursor_pos t) in
       if y = scroll_bottom_margin t - 1 then
         view f = scrolled (unat (scroll_top_margin t)) (unat (scroll_bottom_margin t)) (unat C) (empty_char (screen t)) (view (screen t))
         \<and> cursor_y f = y
       else view f = view (screen t) \<and> cursor_y f = clamp R (y + 1))"
proof -
  note dims = good_fb [OF g]
  obtain x y where xy: "flanterm_fb_get_cursor_pos t = (x, y)" by force
  have y: "y < rows t" using cursor_in_range_fb [of t] dims xy by simp
  have 0: "flanterm_putchar fb_backend 0x0a t = put_newline fb_backend x y t"
    using i xy by (simp add: flanterm_putchar_def put_byte_fresh_def put_plain_def term_idle_def fb_backend_def)
  have keep: "view (f\<lparr>cursor_x := a, cursor_y := b\<rparr>) = view f" for f a b
    by (simp add: view_def view_cell_def cong: option.case_cong)
  have zero: "clamp (cols t) 0 = 0" using dims by (auto simp: clamp_def ready_def)
  show ?thesis
  proof (cases "y = scroll_bottom_margin t - 1")
    case True
    have q: "queue_ok (rows t) (cols t) (screen t)" using dims fb_ok_parts by auto
    obtain f where f: "flanterm_fb_scroll t = Inr (t\<lparr>screen := f\<rparr>)"
      "view f = scrolled (unat (scroll_top_margin t)) (unat (scroll_bottom_margin t)) (unat (cols t)) (empty_char (screen t)) (view (screen t))"
      using scroll_view [OF q, of fb_ok] dims by (auto simp: shows_view_def)
    have "clamp (rows t) y = y" using y by (auto simp: clamp_def)
    then have "flanterm_putchar fb_backend 0x0a t = Inr (t\<lparr>screen := f\<lparr>cursor_x := 0, cursor_y := y\<rparr>\<rparr>)"
      using f(1) o zero True unfolding 0
      by (simp add: put_newline_def Let_def fb_backend_def flanterm_fb_set_cursor_pos_def on_screen_def)
    then show ?thesis using f(2) True dims xy by (intro exI [of _ "f\<lparr>cursor_x := 0, cursor_y := y\<rparr>"]) (simp add: keep)
  next
    case False
    then have "flanterm_putchar fb_backend 0x0a t = Inr (t\<lparr>screen := (screen t)\<lparr>cursor_x := 0, cursor_y := clamp (rows t) (y + 1)\<rparr>\<rparr>)"
      using o zero unfolding 0
      by (simp add: put_newline_def Let_def fb_backend_def flanterm_fb_set_cursor_pos_def on_screen_def)
    then show ?thesis using False dims xy by (intro exI [of _ "(screen t)\<lparr>cursor_x := 0, cursor_y := clamp (rows t) (y + 1)\<rparr>"]) (simp add: keep)
  qed
qed

section \<open>UTF-8\<close>

text \<open>A byte after the first one carries six bits.\<close>

definition continuation :: "u64 \<Rightarrow> u8" where
  "continuation v = 0x80 OR ucast (v AND 0x3f)"

lemma below_eight: "n < 8 \<longleftrightarrow> n = 0 \<or> n = 1 \<or> n = 2 \<or> n = 3 \<or> n = 4 \<or> n = 5 \<or> n = 6 \<or> n = (7::nat)"
  by arith

lemma c1: "continuation v AND 0xc0 = 0x80"
  by (rule bit_word_eqI) (auto simp: continuation_def bit_simps below_eight)

lemma c2: "(ucast (continuation v AND 0x3f) :: u64) = v AND 0x3f"
proof (rule bit_word_eqI)
  fix n assume "n < LENGTH(64)"
  show "bit (ucast (continuation v AND 0x3f) :: u64) n = bit (v AND 0x3f) n"
  proof (cases "n < 8")
    case True
    then show ?thesis by (auto simp: continuation_def bit_simps below_eight)
  next
    case False
    then have "\<not> bit (0x3f :: u64) n" using bit_take_bit_iff [of 6 "-1 :: u64" n] by (simp add: take_bit_minus_one_eq_mask mask_eq_exp_minus_1)
    then show ?thesis using False by (simp add: bit_simps)
  qed
qed


lemma low_bits:
  fixes v :: u64
  assumes "unat v < 2 ^ k" and "k \<le> n"
  shows "\<not> bit v n"
proof
  assume b: "bit v n"
  then have "bit (take_bit k (unat v)) n" using assms(1) by (simp add: bit_unsigned_iff take_bit_nat_eq_self)
  then show False using assms(2) by (simp add: bit_take_bit_iff)
qed

lemma lead_value:
  fixes v :: u64
  shows "unat v < 2 ^ 5 \<Longrightarrow> (ucast ((0xc0 OR (ucast v :: u8)) AND 0x1f) :: u64) = v"
    and "unat v < 2 ^ 4 \<Longrightarrow> (ucast ((0xe0 OR (ucast v :: u8)) AND 0x0f) :: u64) = v"
    and "unat v < 2 ^ 3 \<Longrightarrow> (ucast ((0xf0 OR (ucast v :: u8)) AND 0x07) :: u64) = v"
proof -
  have *: "(ucast c :: u64) = v" if "\<And>n. n < 8 \<Longrightarrow> bit c n = bit v n" and "\<And>n. 8 \<le> n \<Longrightarrow> \<not> bit v n" for c :: u8
  proof (rule bit_word_eqI)
    fix n assume "n < LENGTH(64)"
    show "bit (ucast c :: u64) n = bit v n" by (cases "n < 8") (use that in \<open>auto simp: bit_simps dest: bit_imp_le_length\<close>)
  qed
  show "(ucast ((0xc0 OR (ucast v :: u8)) AND 0x1f) :: u64) = v" if "unat v < 2 ^ 5"
    by (rule *) (use low_bits [OF that] in \<open>auto simp: bit_simps below_eight\<close>)
  show "(ucast ((0xe0 OR (ucast v :: u8)) AND 0x0f) :: u64) = v" if "unat v < 2 ^ 4"
    by (rule *) (use low_bits [OF that] in \<open>auto simp: bit_simps below_eight\<close>)
  show "(ucast ((0xf0 OR (ucast v :: u8)) AND 0x07) :: u64) = v" if "unat v < 2 ^ 3"
    by (rule *) (use low_bits [OF that] in \<open>auto simp: bit_simps below_eight\<close>)
qed

lemma small_byte: "unat v < 256 \<Longrightarrow> unat (ucast v :: u8) = unat v" for v :: u64
  by (simp add: unsigned_ucast_eq take_bit_nat_eq_self)

lemma lead_plus:
  fixes v :: u64
  shows "unat v < 2 ^ 5 \<Longrightarrow> unat (0xc0 OR (ucast v :: u8)) = 0xc0 + unat v"
    and "unat v < 2 ^ 4 \<Longrightarrow> unat (0xe0 OR (ucast v :: u8)) = 0xe0 + unat v"
    and "unat v < 2 ^ 3 \<Longrightarrow> unat (0xf0 OR (ucast v :: u8)) = 0xf0 + unat v"
proof -
  have *: "unat (a OR (ucast v :: u8)) = unat a + unat v" if "a AND (ucast v :: u8) = 0" "unat a + unat v < 256" for a
  proof -
    have "unat (a + (ucast v :: u8)) = unat a + unat v"
      using that(2) small_byte [of v] unat_add_lem [of a "ucast v"] by simp
    then show ?thesis using that(1) by (simp add: disjunctive_add_eq_or)
  qed
  show "unat (0xc0 OR (ucast v :: u8)) = 0xc0 + unat v" if "unat v < 2 ^ 5"
    by (subst *) (use low_bits [OF that] that in \<open>auto intro!: bit_word_eqI simp: bit_simps below_eight\<close>)
  show "unat (0xe0 OR (ucast v :: u8)) = 0xe0 + unat v" if "unat v < 2 ^ 4"
    by (subst *) (use low_bits [OF that] that in \<open>auto intro!: bit_word_eqI simp: bit_simps below_eight\<close>)
  show "unat (0xf0 OR (ucast v :: u8)) = 0xf0 + unat v" if "unat v < 2 ^ 3"
    by (subst *) (use low_bits [OF that] that in \<open>auto intro!: bit_word_eqI simp: bit_simps below_eight\<close>)
qed

lemma u8_less: "unat c < 256" for c :: u8
  using unsigned_less [of c, where ?'a = nat] by simp

text \<open>The lead byte of a sequence of two, three or four bytes.\<close>

lemma lead_step:
  fixes v :: u64
  assumes "term_idle t"
  shows "unat v < 2 ^ 5 \<Longrightarrow> flanterm_putchar B (0xc0 OR ucast v) t = Inr (t\<lparr>unicode_remaining := 1, code_point := push_bit 6 v\<rparr>)"
    and "unat v < 2 ^ 4 \<Longrightarrow> flanterm_putchar B (0xe0 OR ucast v) t = Inr (t\<lparr>unicode_remaining := 2, code_point := push_bit 12 v\<rparr>)"
    and "unat v < 2 ^ 3 \<Longrightarrow> flanterm_putchar B (0xf0 OR ucast v) t = Inr (t\<lparr>unicode_remaining := 3, code_point := push_bit 18 v\<rparr>)"
proof -
  have *: "flanterm_putchar B c t = Inr (unicode_start c t)" if "0xc0 \<le> unat c" "unat c \<le> 0xf7" for c
  proof -
    have "0xc0 \<le> c" "c \<le> 0xf7" "c \<noteq> 0x18" "c \<noteq> 0x1a" using that by (auto simp: word_le_nat_alt)
    then show ?thesis using assms by (simp add: flanterm_putchar_def put_byte_fresh_def term_idle_def)
  qed
  show "flanterm_putchar B (0xc0 OR ucast v) t = Inr (t\<lparr>unicode_remaining := 1, code_point := push_bit 6 v\<rparr>)" if v: "unat v < 2 ^ 5"
    using lead_plus(1) [OF v] lead_value(1) [OF v] * [of "0xc0 OR ucast v"] v by (simp add: unicode_start_def word_le_nat_alt)
  show "flanterm_putchar B (0xe0 OR ucast v) t = Inr (t\<lparr>unicode_remaining := 2, code_point := push_bit 12 v\<rparr>)" if v: "unat v < 2 ^ 4"
    using lead_plus(2) [OF v] lead_value(2) [OF v] * [of "0xe0 OR ucast v"] v by (simp add: unicode_start_def word_le_nat_alt)
  show "flanterm_putchar B (0xf0 OR ucast v) t = Inr (t\<lparr>unicode_remaining := 3, code_point := push_bit 18 v\<rparr>)" if v: "unat v < 2 ^ 3"
    using lead_plus(3) [OF v] lead_value(3) [OF v] * [of "0xf0 OR ucast v"] v by (simp add: unicode_start_def word_le_nat_alt)
qed

lemma continuation_not_control: "continuation v \<noteq> 0x18" "continuation v \<noteq> 0x1a"
  using c1 [of v] by auto

text \<open>A continuation byte.\<close>

lemma continuation_step:
  assumes "\<not> discard_next t" and "unicode_remaining t = of_nat (Suc n)" and "n < 3"
  shows "flanterm_putchar B (continuation v) t =
    (let u = t\<lparr>unicode_remaining := of_nat n, code_point := code_point t OR push_bit (6 * n) (v AND 0x3f)\<rparr> in
     if n = 0 then put_code_point B (code_point u) u else Inr u)"
proof -
  have "n = 0 \<or> n = 1 \<or> n = 2" using assms(3) by arith
  then show ?thesis
    using assms(1,2) continuation_not_control [of v] c1 [of v] c2 [of v]
    by (auto simp: flanterm_putchar_def unicode_continue_def Let_def)
qed

lemma utf8_parts:
  fixes cp :: u64
  shows "push_bit 6 (drop_bit 6 cp) OR (cp AND 0x3f) = cp"
    and "(push_bit 12 (drop_bit 12 cp) OR push_bit 6 (drop_bit 6 cp AND 0x3f)) OR (cp AND 0x3f) = cp"
    and "((push_bit 18 (drop_bit 18 cp) OR push_bit 12 (drop_bit 12 cp AND 0x3f)) OR push_bit 6 (drop_bit 6 cp AND 0x3f)) OR (cp AND 0x3f) = cp"
proof -
  have m: "(0x3f :: u64) = mask 6" by (simp add: mask_eq_exp_minus_1)
  have *: "u = cp" if "\<And>n. n < 64 \<Longrightarrow> n < 6 \<Longrightarrow> bit u n = bit cp n" "\<And>n. n < 64 \<Longrightarrow> 6 \<le> n \<Longrightarrow> n < 12 \<Longrightarrow> bit u n = bit cp n"
    "\<And>n. n < 64 \<Longrightarrow> 12 \<le> n \<Longrightarrow> n < 18 \<Longrightarrow> bit u n = bit cp n" "\<And>n. n < 64 \<Longrightarrow> 18 \<le> n \<Longrightarrow> bit u n = bit cp n" for u
  proof (rule bit_word_eqI)
    fix n assume "n < LENGTH(64)"
    then show "bit u n = bit cp n"
      by (cases "n < 6"; cases "n < 12"; cases "n < 18") (simp_all add: that not_less)
  qed
  show "push_bit 6 (drop_bit 6 cp) OR (cp AND 0x3f) = cp"
    "(push_bit 12 (drop_bit 12 cp) OR push_bit 6 (drop_bit 6 cp AND 0x3f)) OR (cp AND 0x3f) = cp"
    "((push_bit 18 (drop_bit 18 cp) OR push_bit 12 (drop_bit 12 cp AND 0x3f)) OR push_bit 6 (drop_bit 6 cp AND 0x3f)) OR (cp AND 0x3f) = cp"
    unfolding m by (rule *; auto simp: bit_simps)+
qed

definition utf8 :: "u64 \<Rightarrow> u8 list" where
  "utf8 cp =
     (if unat cp < 2 ^ 7 then [ucast cp]
      else if unat cp < 2 ^ 11 then [0xc0 OR ucast (drop_bit 6 cp), continuation cp]
      else if unat cp < 2 ^ 16 then [0xe0 OR ucast (drop_bit 12 cp), continuation (drop_bit 6 cp), continuation cp]
      else [0xf0 OR ucast (drop_bit 18 cp), continuation (drop_bit 12 cp), continuation (drop_bit 6 cp), continuation cp])"

lemma unat_drop_bit: "unat (drop_bit n v) = unat v div 2 ^ n" for v :: u64
  using unsigned_less [of v, where ?'a = nat]
  by (simp only: unsigned_drop_bit_eq) (simp add: drop_bit_eq_div take_bit_nat_eq_self)

lemma putchars_end: "andthen r (putchars B []) = r"
  by (cases r) simp_all

lemma utf8_decode:
  assumes i: "term_idle t" and lo: "2 ^ 7 \<le> unat cp" and hi: "unat cp < 2 ^ 21"
  shows "putchars B (utf8 cp) t = put_code_point B cp (t\<lparr>unicode_remaining := 0, code_point := cp\<rparr>)"
proof -
  have d: "\<not> discard_next t" using i by (simp add: term_idle_def)
  consider "unat cp < 2 ^ 11" | "2 ^ 11 \<le> unat cp" "unat cp < 2 ^ 16" | "2 ^ 16 \<le> unat cp" using not_le by blast
  then show ?thesis
  proof cases
    case 1
    then have "unat (drop_bit 6 cp) < 2 ^ 5" by (simp add: unat_drop_bit less_mult_imp_div_less)
    from lead_step(1) [OF i this] show ?thesis
      using 1 lo d continuation_step [of "t\<lparr>unicode_remaining := 1, code_point := push_bit 6 (drop_bit 6 cp)\<rparr>" 0 B cp] utf8_parts(1) [of cp]
      by (simp add: utf8_def Let_def putchars_end del: putchars.simps(1))
  next
    case 2
    then have "unat (drop_bit 12 cp) < 2 ^ 4" by (simp add: unat_drop_bit less_mult_imp_div_less)
    from lead_step(2) [OF i this] show ?thesis
      using 2 lo d continuation_step [of "t\<lparr>unicode_remaining := 2, code_point := push_bit 12 (drop_bit 12 cp)\<rparr>" 1 B "drop_bit 6 cp"]
        continuation_step [of "t\<lparr>unicode_remaining := 1, code_point := push_bit 12 (drop_bit 12 cp) OR push_bit 6 (drop_bit 6 cp AND 0x3f)\<rparr>" 0 B cp]
        utf8_parts(2) [of cp]
      by (simp add: utf8_def Let_def putchars_end del: putchars.simps(1))
  next
    case 3
    then have "unat (drop_bit 18 cp) < 2 ^ 3" using hi by (simp add: unat_drop_bit less_mult_imp_div_less)
    from lead_step(3) [OF i this] show ?thesis
      using 3 lo d continuation_step [of "t\<lparr>unicode_remaining := 3, code_point := push_bit 18 (drop_bit 18 cp)\<rparr>" 2 B "drop_bit 12 cp"]
        continuation_step [of "t\<lparr>unicode_remaining := 2, code_point := push_bit 18 (drop_bit 18 cp) OR push_bit 12 (drop_bit 12 cp AND 0x3f)\<rparr>" 1 B "drop_bit 6 cp"]
        continuation_step [of "t\<lparr>unicode_remaining := 1, code_point := (push_bit 18 (drop_bit 18 cp) OR push_bit 12 (drop_bit 12 cp AND 0x3f)) OR push_bit 6 (drop_bit 6 cp AND 0x3f)\<rparr>" 0 B cp]
        utf8_parts(3) [of cp]
      by (simp add: utf8_def Let_def putchars_end del: putchars.simps(1))
  qed
qed
section \<open>Control sequences\<close>

fun decimal :: "nat \<Rightarrow> u8 list" where
  "decimal n = (if n < 10 then [0x30 + of_nat n] else decimal (n div 10) @ [0x30 + of_nat (n mod 10)])"

declare decimal.simps [simp del]

lemma putchars_append: "putchars B (xs @ ys) t = andthen (putchars B xs t) (putchars B ys)"
  by (induction xs arbitrary: t) (simp_all add: andthen_assoc cong: andthen_cong)

text \<open>The parameters are being read.\<close>

definition in_csi :: "'b terminal \<Rightarrow> bool" where
  "in_csi t \<longleftrightarrow> escape t \<and> control_sequence t \<and> \<not> osc t \<and> unicode_remaining t = 0 \<and> \<not> discard_next t
     \<and> \<not> dec_private t \<and> length (esc_values t) = 16"

lemma csi_start:
  assumes "term_idle t" and "\<not> osc t" and "\<not> control_sequence t"
  shows "putchars B [0x1b, 0x5b] t = Inr (t\<lparr>escape := True, escape_offset := 1, esc_values := replicate 16 0, esc_values_i := 0,
    rrr := False, control_sequence := True\<rparr>)"
  using assms by (simp add: flanterm_putchar_def put_byte_fresh_def put_plain_def escape_parse_def term_idle_def split: prod.split)

lemma digit_byte:
  assumes "d < 10"
  shows "0x30 \<le> (0x30 + of_nat d :: u8)" "(0x30 + of_nat d :: u8) \<le> 0x39" "(ucast (0x30 + of_nat d :: u8) :: u32) - 0x30 = of_nat d"
proof -
  have "d = 0 \<or> d = 1 \<or> d = 2 \<or> d = 3 \<or> d = 4 \<or> d = 5 \<or> d = 6 \<or> d = 7 \<or> d = 8 \<or> d = 9" using assms by arith
  then show "0x30 \<le> (0x30 + of_nat d :: u8)" "(0x30 + of_nat d :: u8) \<le> 0x39" "(ucast (0x30 + of_nat d :: u8) :: u32) - 0x30 = of_nat d"
    by auto
qed

text \<open>Bytes that \<open>flanterm_putchar\<close> hands on to \<open>control_sequence_parse\<close>.\<close>

lemma csi_byte:
  assumes "in_csi t" and "c < 0xc0" and "c \<noteq> 0x18" and "c \<noteq> 0x1a"
  shows "flanterm_putchar B c t = control_sequence_parse B c (t\<lparr>escape_offset := escape_offset t + 1\<rparr>)"
  using assms by (simp add: flanterm_putchar_def put_byte_fresh_def escape_parse_def in_csi_def not_le [symmetric])

lemma digit_step:
  assumes t: "in_csi t" and k: "unat (esc_values_i t) < 16" and d: "d < 10"
  shows "flanterm_putchar B (0x30 + of_nat d) t = Inr (t\<lparr>escape_offset := escape_offset t + 1, rrr := True,
    esc_values := (esc_values t)[unat (esc_values_i t) := esc_values t ! unat (esc_values_i t) * 10 + of_nat d]\<rparr>)"
proof -
  define c :: u8 where "c = 0x30 + of_nat d"
  have c: "0x30 \<le> c" "c \<le> 0x39" "(ucast c :: u32) - 0x30 = of_nat d" using digit_byte [OF d] by (simp_all add: c_def)
  then have n: "c < 0xc0" "c \<noteq> 0x18" "c \<noteq> 0x1a" "c \<noteq> 0x5b" "c \<noteq> 0x3f" by (auto simp: word_le_nat_alt word_less_nat_alt)
  have i: "esc_values_i t \<noteq> 16" using k by auto
  show ?thesis
    using csi_byte [OF t n(1-3), of B] c n(4,5) k i t
    by (simp add: control_sequence_parse_def csi_digit_def in_csi_def c_def [symmetric])
qed

lemma decimal_step:
  assumes "in_csi t" and "unat (esc_values_i t) < 16" and "esc_values t ! unat (esc_values_i t) = 0"
  shows "putchars B (decimal n) t = Inr (t\<lparr>escape_offset := escape_offset t + of_nat (length (decimal n)), rrr := True,
    esc_values := (esc_values t)[unat (esc_values_i t) := of_nat n]\<rparr>)"
  using assms
proof (induction n arbitrary: t rule: decimal.induct)
  case (1 n)
  show ?case
  proof (cases "n < 10")
    case True
    then show ?thesis using digit_step [OF "1.prems"(1,2) True, of B] "1.prems"(3)
      by (simp add: decimal.simps [of n])
  next
    case False
    define k where "k = unat (esc_values_i t)"
    define u where "u = t\<lparr>escape_offset := escape_offset t + of_nat (length (decimal (n div 10))), rrr := True,
      esc_values := (esc_values t)[k := of_nat (n div 10)]\<rparr>"
    have 1: "putchars B (decimal (n div 10)) t = Inr u" using "1.IH" [OF False "1.prems"] by (simp add: u_def k_def)
    have u: "in_csi u" "unat (esc_values_i u) = k" "k < 16" "length (esc_values t) = 16"
      using "1.prems"(1,2) by (simp_all add: in_csi_def u_def k_def)
    have "(of_nat (n div 10) * 10 + of_nat (n mod 10) :: u32) = of_nat (n div 10 * 10 + n mod 10)"
      by (simp only: of_nat_add of_nat_mult of_nat_numeral)
    then have v: "(of_nat (n div 10) * 10 + of_nat (n mod 10) :: u32) = of_nat n" by (simp only: div_mult_mod_eq)
    have "flanterm_putchar B (0x30 + of_nat (n mod 10)) u = Inr (u\<lparr>escape_offset := escape_offset u + 1, rrr := True,
      esc_values := (esc_values u)[k := esc_values u ! k * 10 + of_nat (n mod 10)]\<rparr>)"
      using digit_step [OF u(1), of "n mod 10" B] u(2,3) by simp
    then show ?thesis using 1 False u(3,4) v
      by (simp add: decimal.simps [of n] putchars_append u_def k_def [symmetric] add.assoc)
  qed
qed

lemma semicolon_step:
  assumes t: "in_csi t" and r: "rrr t"
  shows "flanterm_putchar B 0x3b t = Inr (t\<lparr>escape_offset := escape_offset t + 1, esc_values_i := esc_values_i t + 1, rrr := False\<rparr>)"
  using csi_byte [OF t, of "0x3b" B] r by (simp add: control_sequence_parse_def)

lemma final_step:
  assumes t: "in_csi t" and r: "rrr t" and c: "0x40 \<le> c" "c \<le> 0x7e" "c \<noteq> 0x5b"
  shows "flanterm_putchar B c t = csi_final B c (t\<lparr>escape_offset := escape_offset t + 1, esc_values_i := esc_values_i t + 1, rrr := False\<rparr>)"
proof -
  have "c < 0xc0" "c \<noteq> 0x18" "c \<noteq> 0x1a" "c \<noteq> 0x3f" "c \<noteq> 0x3b" "\<not> c \<le> 0x39" using c by (auto simp: word_le_nat_alt word_less_nat_alt)
  then show ?thesis using csi_byte [OF t, of c B] r c(3) by (simp add: control_sequence_parse_def)
qed

text \<open>A sequence with two parameters, up to its final byte.\<close>

lemma two_parameters:
  assumes i: "term_idle t" and "\<not> osc t" and "\<not> control_sequence t" and "\<not> dec_private t" and c: "0x40 \<le> c" "c \<le> 0x7e" "c \<noteq> 0x5b"
  shows "\<exists>n. putchars B ([0x1b, 0x5b] @ decimal a @ [0x3b] @ decimal b @ [c]) t =
    csi_final B c (t\<lparr>escape := True, control_sequence := True, esc_values := [of_nat a, of_nat b] @ replicate 14 0,
      escape_offset := n, esc_values_i := 2, rrr := False\<rparr>)"
proof -
  define t1 where "t1 = t\<lparr>escape := True, escape_offset := 1, esc_values := replicate 16 0, esc_values_i := 0,
    rrr := False, control_sequence := True\<rparr>"
  have 1: "putchars B [0x1b, 0x5b] t = Inr t1" using csi_start [OF assms(1-3)] by (simp add: t1_def)
  have i1: "in_csi t1" using assms by (simp add: in_csi_def t1_def term_idle_def)
  define t2 where "t2 = t1\<lparr>escape_offset := escape_offset t1 + of_nat (length (decimal a)), rrr := True,
    esc_values := of_nat a # replicate 15 0\<rparr>"
  have zeros: "replicate 16 (0 :: u32) = 0 # replicate 15 0" "replicate 15 (0 :: u32) = 0 # replicate 14 0"
    by (simp_all add: eval_nat_numeral)
  have 2: "putchars B (decimal a) t1 = Inr t2" using decimal_step [OF i1, of B a] by (simp add: t2_def t1_def zeros)
  have i2: "in_csi t2" "rrr t2" using i1 by (simp_all add: in_csi_def t2_def)
  define t3 where "t3 = t2\<lparr>escape_offset := escape_offset t2 + 1, esc_values_i := 1, rrr := False\<rparr>"
  have 3: "putchars B [0x3b] t2 = Inr t3"
    using semicolon_step [OF i2] by (simp add: t3_def t2_def t1_def)
  have i3: "in_csi t3" using i2 by (simp add: in_csi_def t3_def)
  define t4 where "t4 = t3\<lparr>escape_offset := escape_offset t3 + of_nat (length (decimal b)), rrr := True,
    esc_values := [of_nat a, of_nat b] @ replicate 14 0\<rparr>"
  have 4: "putchars B (decimal b) t3 = Inr t4"
    using decimal_step [OF i3, of B b] by (simp add: t4_def t3_def t2_def t1_def zeros(2))
  have i4: "in_csi t4" "rrr t4" using i3 by (simp_all add: in_csi_def t4_def)
  have "putchars B ([0x1b, 0x5b] @ decimal a @ [0x3b] @ decimal b @ [c]) t =
      csi_final B c (t4\<lparr>escape_offset := escape_offset t4 + 1, esc_values_i := esc_values_i t4 + 1, rrr := False\<rparr>)"
    by (simp only: putchars_append 1 2 3 4 andthen_Inr) (simp only: putchars.simps(2) putchars_end final_step [OF i4 c])
  then show ?thesis
    by (intro exI [of _ "escape_offset t4 + 1"]) (simp add: t4_def t3_def t2_def t1_def)
qed

lemma of_nat_small: "n < 2 ^ 32 \<Longrightarrow> unat (of_nat n :: u32) = n" "n < 2 ^ 32 \<Longrightarrow> unat (of_nat n :: u64) = n"
    "n < 2 ^ 32 \<Longrightarrow> (ucast (of_nat n :: u32) :: u64) = of_nat n"
  by (simp_all add: word_unat_eq_iff unsigned_of_nat take_bit_nat_eq_self)

text \<open>\<open>CSI r ; c H\<close> on the frame buffer.\<close>

lemma position_in_range:
  assumes v: "esc_values t = of_nat r # of_nat c # vs" and r: "1 \<le> r" "r \<le> unat (rows t)" "r < 2 ^ 32" and c: "1 \<le> c" "c \<le> unat (cols t)" "c < 2 ^ 32"
  shows "csi_position fb_backend t = Inr (t\<lparr>esc_values := of_nat (r - 1) # of_nat (c - 1) # vs,
    screen := (screen t)\<lparr>cursor_x := of_nat (c - 1), cursor_y := of_nat (r - 1)\<rparr>\<rparr>)"
proof -
  have nz: "(of_nat r :: u32) \<noteq> 0" "(of_nat c :: u32) \<noteq> 0" using of_nat_small(1) [OF r(3)] of_nat_small(1) [OF c(3)] r(1) c(1) by auto
  have dec: "(of_nat r :: u32) - 1 = of_nat (r - 1)" "(of_nat c :: u32) - 1 = of_nat (c - 1)" using r(1) c(1) by simp_all
  have "r - 1 < 2 ^ 32" "c - 1 < 2 ^ 32" using r(3) c(3) by simp_all
  note n = this [THEN of_nat_small(2)] and w = this [THEN of_nat_small(3)]
  have lt: "\<not> rows t \<le> of_nat (r - 1)" "\<not> cols t \<le> of_nat (c - 1)"
    unfolding word_le_nat_alt n using r c by simp_all
  show ?thesis
    using nz dec w lt v
    by (simp add: csi_position_def Let_def set_value_def fb_backend_def flanterm_fb_set_cursor_pos_def on_screen_def clamp_def
        del: of_nat_diff)
qed

lemma cursor_moved:
  assumes g: "good fb_ok R C t" and i: "term_idle t" "\<not> osc t" "\<not> control_sequence t" "\<not> dec_private t"
    and r: "1 \<le> r" "r \<le> unat R" "r < 2 ^ 32" and c: "1 \<le> c" "c \<le> unat C" "c < 2 ^ 32"
  shows "\<exists>u. putchars fb_backend ([0x1b, 0x5b] @ decimal r @ [0x3b] @ decimal c @ [0x48]) t = Inr u
    \<and> flanterm_fb_get_cursor_pos u = (of_nat (c - 1), of_nat (r - 1)) \<and> view (screen u) = view (screen t) \<and> term_idle u
    \<and> good fb_ok R C u"
proof -
  have dims: "rows t = R" "cols t = C" using g by (auto simp: good_def)
  obtain n where run: "putchars fb_backend ([0x1b, 0x5b] @ decimal r @ [0x3b] @ decimal c @ [0x48]) t =
    csi_final fb_backend 0x48 (t\<lparr>escape := True, control_sequence := True, esc_values := [of_nat r, of_nat c] @ replicate 14 0,
      escape_offset := n, esc_values_i := 2, rrr := False\<rparr>)"
    using two_parameters [OF i, of "0x48" fb_backend r c] by auto
  define s where "s = t\<lparr>escape := True, control_sequence := True, escape_offset := n, esc_values_i := 2, rrr := False,
      esc_values := of_nat r # of_nat c # replicate 14 1, scroll_enabled := False\<rparr>"
  have p: "csi_position fb_backend s = Inr (s\<lparr>esc_values := of_nat (r - 1) # of_nat (c - 1) # replicate 14 1,
    screen := (screen s)\<lparr>cursor_x := of_nat (c - 1), cursor_y := of_nat (r - 1)\<rparr>\<rparr>)"
    by (rule position_in_range) (use r c dims in \<open>simp_all add: s_def\<close>)
  obtain x y where xy: "get_cursor_pos fb_backend s = (x, y)" by force
  define u where "u = leave_sequence (s\<lparr>esc_values := of_nat (r - 1) # of_nat (c - 1) # replicate 14 1,
    screen := (screen s)\<lparr>cursor_x := of_nat (c - 1), cursor_y := of_nat (r - 1)\<rparr>, scroll_enabled := scroll_enabled t\<rparr>)"
  have "putchars fb_backend ([0x1b, 0x5b] @ decimal r @ [0x3b] @ decimal c @ [0x48]) t = Inr u"
    using p xy i(4) unfolding run csi_final_def Let_def
    by (simp add: fill_values_def csi_command_def s_def u_def split: prod.split)
  moreover have "fine fb_ok R C (putchars fb_backend ([0x1b, 0x5b] @ decimal r @ [0x3b] @ decimal c @ [0x48]) t)"
    by (rule fb.putchars_fine [OF g])
  moreover have "flanterm_fb_get_cursor_pos u = (of_nat (c - 1), of_nat (r - 1))"
  proof -
    have "r - 1 < 2 ^ 32" "c - 1 < 2 ^ 32" using r(3) c(3) by simp_all
    note n = this [THEN of_nat_small(2)]
    have "\<not> rows t \<le> of_nat (r - 1)" "\<not> cols t \<le> of_nat (c - 1)"
      unfolding word_le_nat_alt n dims using r c by simp_all
    then show ?thesis by (simp add: flanterm_fb_get_cursor_pos_def u_def leave_sequence_def s_def del: of_nat_diff)
  qed
  moreover have "view (screen u) = view (screen t)"
    by (simp add: u_def leave_sequence_def s_def view_def view_cell_def cong: option.case_cong)
  moreover have "term_idle u" using i(1) by (simp add: term_idle_def u_def leave_sequence_def s_def)
  ultimately show ?thesis by simp
qed

end
