(* ===== verification/Terminal_Display.thy ===== *)
theory Terminal_Display
  imports Terminal_Behaviour
begin

unbundle bit_operations_syntax

section \<open>From a byte to pixels\<close>

text \<open>The context uses the built-in font.\<close>

definition builtin :: "fb_context \<Rightarrow> bool" where
  "builtin f \<longleftrightarrow> font_height f = 16 \<and> font_width f = 9 \<and> font_bits f = builtin_font
     \<and> (\<forall>j < 256 * 16 * 9. font_bool f ! j = font_dot f j)"

lemma fresh_builtin: "fresh_context R C f \<Longrightarrow> builtin f"
  by (simp add: fresh_context_def builtin_def)

lemma builtin_bit:
  assumes f: "builtin f" and geo: "geo_ok R C f" and c: "unat (char_c c) < 256"
    and x: "gx < unat (glyph_width f)" and y: "gy < unat (glyph_height f)"
  shows "glyph_bit f c gx gy =
    glyph_dot (unat (char_c c)) (builtin_font ! (unat (char_c c) * 16 + gy div unat (font_scale_y f))) (gx div unat (font_scale_x f))"
proof -
  define r k where "r = gy div unat (font_scale_y f)" and "k = gx div unat (font_scale_x f)"
  have "unat (glyph_width f) = 9 * unat (font_scale_x f)" "unat (glyph_height f) = 16 * unat (font_scale_y f)"
    using geo f by (simp_all add: geo_ok_def builtin_def)
  then have r: "r < 16" and k: "k < 9" using x y by (simp_all add: r_def k_def less_mult_imp_div_less)
  have "unat (char_c c) * 16 + r < 256 * 16" using cell_less [OF r c] by simp
  then have j: "(unat (char_c c) * 16 + r) * 9 + k < 256 * 16 * 9" using cell_less [OF k, of "unat (char_c c) * 16 + r" "256 * 16"] by simp
  have "((unat (char_c c) * 16 + r) * 9 + k) div 9 = unat (char_c c) * 16 + r" "((unat (char_c c) * 16 + r) * 9 + k) mod 9 = k"
    using cell_div_mod [OF k] by blast+
  moreover have "(unat (char_c c) * 16 + r) div 16 = unat (char_c c)" using cell_div_mod [OF r] by blast
  moreover have "((unat (char_c c) * 16 + r) * 9 + k) div (16 * 9) = ((unat (char_c c) * 16 + r) * 9 + k) div 9 div 16"
    by (metis div_mult2_eq mult.commute)
  ultimately have "font_dot f ((unat (char_c c) * 16 + r) * 9 + k) = glyph_dot (unat (char_c c)) (builtin_font ! (unat (char_c c) * 16 + r)) k"
    using f by (simp add: font_dot_def builtin_def)
  then show ?thesis using f j by (simp add: glyph_bit_def builtin_def r_def k_def)
qed

text \<open>The pixel in column \<open>gx\<close> and row \<open>gy\<close> of the cell in column \<open>x\<close> and row \<open>y\<close> of the screen.\<close>

definition cell_pixel :: "fb_context \<Rightarrow> nat \<Rightarrow> nat \<Rightarrow> nat \<Rightarrow> nat \<Rightarrow> u32" where
  "cell_pixel f x y gx gy =
     pixel f (unat (offset_x f) + x * unat (glyph_width f) + gx) (unat (offset_y f) + y * unat (glyph_height f) + gy)"

lemma displays_pixel:
  assumes d: "displays C f (y * unat C + x) c" and x: "x < unat C" and "gx < unat (glyph_width f)" and "gy < unat (glyph_height f)"
  shows "cell_pixel f x y gx gy = tone f (unat (offset_x f) + x * unat (glyph_width f) + gx) (unat (offset_y f) + y * unat (glyph_height f) + gy)
    (if glyph_bit f c gx gy then char_fg c else char_bg c)"
proof -
  have c: "cell_x C f (y * unat C + x) = unat (offset_x f) + x * unat (glyph_width f)" "cell_y C f (y * unat C + x) = unat (offset_y f) + y * unat (glyph_height f)"
    using cell_div_mod [OF x, of y] by (simp_all add: cell_x_def cell_y_def)
  then have "glyph_area f (cell_x C f (y * unat C + x)) (cell_y C f (y * unat C + x)) (unat (offset_x f) + x * unat (glyph_width f) + gx)
      (unat (offset_y f) + y * unat (glyph_height f) + gy)"
    using assms(3,4) by (simp add: glyph_area_def)
  then show ?thesis using d unfolding displays_def by (simp add: c glyph_pixel_def cell_pixel_def)
qed

lemma text_written:
  assumes g: "good fb_ok R C t" and i: "term_idle t" and a: "autoflush t" and f: "builtin (screen t)" and s: "list_all text_byte s"
    and x: "unat (cursor_x (screen t)) + length s \<le> unat C" and y: "cursor_y (screen t) < R"
  obtains u where "flanterm_write fb_backend s t = Inr u"
    "\<And>k gx gy. k < length s \<Longrightarrow> gx < unat (glyph_width (screen t)) \<Longrightarrow> gy < unat (glyph_height (screen t)) \<Longrightarrow>
      cell_pixel (screen u) (unat (cursor_x (screen t)) + k) (unat (cursor_y (screen t))) gx gy =
      tone (screen t) (unat (offset_x (screen t)) + (unat (cursor_x (screen t)) + k) * unat (glyph_width (screen t)) + gx)
        (unat (offset_y (screen t)) + unat (cursor_y (screen t)) * unat (glyph_height (screen t)) + gy)
        (if glyph_dot (unat (s ! k)) (builtin_font ! (unat (s ! k) * 16 + gy div unat (font_scale_y (screen t)))) (gx div unat (font_scale_x (screen t)))
         then text_fg (screen t) else text_bg (screen t))"
proof -
  define x y where "x = unat (cursor_x (screen t))" and "y = unat (cursor_y (screen t))"
  obtain f1 where f1: "putchars fb_backend s t = Inr (t\<lparr>screen := f1\<rparr>)"
    "view f1 = overwritten (y * unat C + x) (map (drawn_as (screen t)) s) (view (screen t))"
    "unat (cursor_x f1) = x + length s" "\<exists>qs n m x. f1 = (screen t)\<lparr>queue := qs, queue_i := n, cell_map := m, cursor_x := x\<rparr>"
    using text_printed [OF g i s assms(6,7)] unfolding x_def [symmetric] y_def [symmetric] by (erule_tac exE) (elim conjE, rule that)
  have "fine fb_ok R C (putchars fb_backend s t)" by (rule fb.putchars_fine [OF g])
  then have g1: "good fb_ok R C (t\<lparr>screen := f1\<rparr>)" by (simp add: f1(1))
  from flush_good [OF g1] obtain f2 where f2: "flanterm_fb_double_buffer_flush (t\<lparr>screen := f1\<rparr>) = Inr (t\<lparr>screen := f1, screen := f2\<rparr>)"
    "good fb_ok R C (t\<lparr>screen := f1, screen := f2\<rparr>)" "shown (t\<lparr>screen := f1, screen := f2\<rparr>)" "view f2 = view (screen (t\<lparr>screen := f1\<rparr>))"
    "\<exists>fb gr q m x y. f2 = (screen (t\<lparr>screen := f1\<rparr>))\<lparr>framebuffer := fb, grid := gr, queue_i := q, cell_map := m, old_cursor_x := x, old_cursor_y := y\<rparr>"
    by (erule_tac exE) (elim conjE, rule that)
  obtain qs n m x' where f1': "f1 = (screen t)\<lparr>queue := qs, queue_i := n, cell_map := m, cursor_x := x'\<rparr>" using f1(4) by blast
  obtain fb gr q m' ox oy where f2': "f2 = f1\<lparr>framebuffer := fb, grid := gr, queue_i := q, cell_map := m', old_cursor_x := ox, old_cursor_y := oy\<rparr>"
    using f2(5) by auto
  have same: "offset_x f2 = offset_x (screen t)" "offset_y f2 = offset_y (screen t)" "glyph_width f2 = glyph_width (screen t)"
    "glyph_height f2 = glyph_height (screen t)" "font_scale_x f2 = font_scale_x (screen t)" "font_scale_y f2 = font_scale_y (screen t)"
    "cursor_x f2 = cursor_x f1" "cursor_y f2 = cursor_y (screen t)"
    by (simp_all add: f2' f1')
  have tone: "tone f2 = tone (screen t)" by (intro ext) (simp add: tone_def f2' f1' cong: option.case_cong)
  have "font_dot f2 = font_dot (screen t)" by (intro ext) (simp add: font_dot_def f2' f1')
  then have builtin: "builtin f2" using f by (simp add: builtin_def f2' f1')
  have dims: "rows t = R" "cols t = C" using g by (auto simp: good_def)
  have ok2: "fb_ok R C f2" using good_fb [OF f2(2)] dims by simp
  have geo: "geo_ok R C f2" and len: "length (view (screen t)) = unat R * unat C"
    using fb_ok_parts [OF ok2] good_fb [OF g] queue_ok_bounds(3) [of R C "screen t"] fb_ok_parts [of R C "screen t"] by simp_all
  show thesis
  proof (rule that)
    show "flanterm_write fb_backend s t = Inr (t\<lparr>screen := f2\<rparr>)"
      using f1(1) f2(1) a by (simp add: flanterm_write_def fb_backend_def)
    fix k gx gy assume k: "k < length s" and gx: "gx < unat (glyph_width (screen t))" and gy: "gy < unat (glyph_height (screen t))"
    have xk: "x + k < unat C" using assms(6) k by (simp add: x_def)
    have yR: "y < unat R" using assms(7) by (simp add: y_def word_less_nat_alt)
    have j: "y * unat C + (x + k) < unat R * unat C" by (rule cell_less [OF xk yR])
    have fits: "y * unat C + x + length s \<le> unat R * unat C"
    proof -
      have "Suc y * unat C \<le> unat R * unat C" using yR by (intro mult_le_mono1) simp
      then show ?thesis using assms(6) by (simp add: x_def)
    qed
    have c: "view f2 ! (y * unat C + (x + k)) = drawn_as (screen t) (s ! k)"
      using f2(4) f1(2) nth_overwritten [of "y * unat C + x" "map (drawn_as (screen t)) s" "view (screen t)" "y * unat C + (x + k)"] k j len fits
      by simp
    have "cursor_cell (t\<lparr>screen := f2\<rparr>) \<noteq> Some (y * unat C + (x + k))"
    proof
      assume "cursor_cell (t\<lparr>screen := f2\<rparr>) = Some (y * unat C + (x + k))"
      then have "y * unat C + unat (cursor_x f1) = y * unat C + (x + k)"
        by (auto simp: cursor_cell_def position_cell_def same dims y_def split: if_splits)
      then show False using f1(3) k by simp
    qed
    then have "displays C f2 (y * unat C + (x + k)) (drawn_as (screen t) (s ! k))"
      using f2(3) j c dims by (auto simp: shown_def split: if_splits)
    moreover have "unat (char_c (drawn_as (screen t) (s ! k))) = unat (s ! k)" "unat (s ! k) < 256"
      using u8_less [of "s ! k"] by (simp_all add: drawn_as_def unsigned_ucast_eq take_bit_nat_eq_self)
    ultimately show "cell_pixel (screen (t\<lparr>screen := f2\<rparr>)) (unat (cursor_x (screen t)) + k) (unat (cursor_y (screen t))) gx gy =
      tone (screen t) (unat (offset_x (screen t)) + (unat (cursor_x (screen t)) + k) * unat (glyph_width (screen t)) + gx)
        (unat (offset_y (screen t)) + unat (cursor_y (screen t)) * unat (glyph_height (screen t)) + gy)
        (if glyph_dot (unat (s ! k)) (builtin_font ! (unat (s ! k) * 16 + gy div unat (font_scale_y (screen t)))) (gx div unat (font_scale_x (screen t)))
         then text_fg (screen t) else text_bg (screen t))"
      using displays_pixel [of C f2 y "x + k" "drawn_as (screen t) (s ! k)" gx gy] builtin_bit [OF builtin geo, of "drawn_as (screen t) (s ! k)" gx gy]
        xk gx gy unfolding x_def [symmetric] y_def [symmetric] tone same by (simp add: drawn_as_def)
  qed
qed

end
