(* ===== verification/Terminal_Properties.thy ===== *)
theory Terminal_Properties
  imports Terminal_Display
begin

unbundle bit_operations_syntax

text \<open>The properties of the terminal: what the kernel writes is what the screen shows.\<close>

section \<open>A terminal\<close>

text \<open>A screen of 90 by 32 pixels of 32 bits, which is 10 by 2 characters.\<close>

definition example_args :: fb_args where
  "example_args = kmain_args (replicate 2880 0) 90 32 360 8 16 8 8 8 0"

definition example_heap :: "unit fb_heap" where
  "example_heap = \<lparr>bump_alloc_ptr = 0, bump_allocated_instance = False, client = ()\<rparr>"

text \<open>A terminal as \<open>flanterm_fb_init\<close> returns it.\<close>

definition brand_new :: "fb_terminal \<Rightarrow> bool" where
  "brand_new t \<longleftrightarrow>
     good fb_ok (rows t) (cols t) t \<and> shown t \<and> fresh_context (rows t) (cols t) (screen t)
     \<and> t = flanterm_context_reinit ((zero_terminal (screen t))\<lparr>rows := rows t, cols := cols t\<rparr>)"

lemma brand_new_state:
  assumes "brand_new t"
  shows "term_idle t" and "autoflush t" and "\<not> osc t" and "\<not> control_sequence t" and "\<not> dec_private t"
    and "builtin (screen t)" and "cursor_x (screen t) = 0" and "cursor_y (screen t) = 0"
    and "view (screen t) = replicate (unat (rows t) * unat (cols t)) (empty_char (screen t))"
    and "scroll_top_margin t = 0" and "scroll_bottom_margin t = rows t" and "oob_output t AND 16 \<noteq> 0"
proof -
  have t: "t = flanterm_context_reinit ((zero_terminal (screen t))\<lparr>rows := rows t, cols := cols t\<rparr>)"
    and f: "fresh_context (rows t) (cols t) (screen t)" using assms by (simp_all add: brand_new_def)
  show "term_idle t" by (subst t) (simp add: term_idle_def flanterm_context_reinit_def)
  show "autoflush t" "\<not> osc t" "\<not> control_sequence t" "\<not> dec_private t" "scroll_top_margin t = 0"
    by (subst t, simp add: flanterm_context_reinit_def)+
  show "scroll_bottom_margin t = rows t"
    by (subst t) (simp add: flanterm_context_reinit_def)
  show "oob_output t AND 16 \<noteq> 0" by (subst t) (simp add: flanterm_context_reinit_def)
  show "builtin (screen t)" by (rule fresh_builtin [OF f])
  show "cursor_x (screen t) = 0" "cursor_y (screen t) = 0" using f by (simp_all add: fresh_context_def)
  show "view (screen t) = replicate (unat (rows t) * unat (cols t)) (empty_char (screen t))"
    by (intro nth_equalityI) (use f in \<open>simp_all add: fresh_context_def nth_view view_cell_def length_view\<close>)
qed

lemma kmain_terminal_new:
  assumes "a = kmain_args fb w h p rs rsh gs gsh bs bsh" and "screen_ok a" and "masks_ok a" and "9 \<le> w" and "16 \<le> h"
    and "bump_alloc_ptr heap = 0" and "\<not> bump_allocated_instance heap"
  obtains t q where "flanterm_fb_init None release a heap = Inr (Some t, heap\<lparr>bump_alloc_ptr := q, bump_allocated_instance := True\<rparr>)"
    "brand_new t" "rows t = min h 1200 div (16 * arg_font_scale_x (choose_scale a))"
    "cols t = min w 1920 div (9 * arg_font_scale_x (choose_scale a))"
  using kmain_terminal [OF assms, of release] by (elim exE conjE) (rule that, assumption, unfold brand_new_def, intro conjI, assumption+)

lemma example_fits: "screen_ok example_args" "masks_ok example_args"
  by (simp_all add: screen_ok_def masks_ok_def example_args_def kmain_args_def)

lemma example_terminal:
  obtains t where "brand_new t" "rows t = 2" "cols t = 10" "good fb_ok 2 10 t"
proof -
  have s: "arg_font_scale_x (choose_scale example_args) = 1"
    by (simp add: choose_scale_def example_args_def kmain_args_def Let_def)
  obtain t q where t: "flanterm_fb_init None None example_args example_heap
      = Inr (Some t, example_heap\<lparr>bump_alloc_ptr := q, bump_allocated_instance := True\<rparr>)"
    "brand_new t" "rows t = min 32 1200 div (16 * arg_font_scale_x (choose_scale example_args))"
    "cols t = min 90 1920 div (9 * arg_font_scale_x (choose_scale example_args))"
    by (rule kmain_terminal_new [OF example_args_def example_fits, of example_heap None]) (simp_all add: example_heap_def)
  have d: "rows t = 2" "cols t = 10" using t(3,4) by (simp_all add: s)
  then have "good fb_ok 2 10 t" using t(2) by (simp add: brand_new_def)
  then show thesis using that t(2) d by blast
qed

section \<open>The kernel's terminal never fails\<close>

text \<open>
  C35. On a frame buffer of at least 9 by 16 pixels of 32 bits, with three colour masks of the same
  size, at least 8 bits, inside the pixel, and with a pitch of whole pixels, that is below
  \<open>2 ^ 30\<close> in both dimensions and covered by its memory, the first call of \<open>flanterm_fb_init\<close> in \<open>kmain\<close>
  succeeds within the pool of \<open>bump_alloc\<close>, with the stated numbers of rows and columns (the
  screen is cut to 1920 by 1200 pixels, and the font is scaled up on large ones); every pixel of the
  text area then shows a blank screen with the cursor, and whatever sequence of writes and colour
  changes follows, with arbitrary bytes, runs to its end: no array is indexed outside its bounds,
  nothing is divided by zero, and no loop goes on for ever.
\<close>

theorem terminal_never_fails:
  assumes "a = kmain_args fb w h p rs rsh gs gsh bs bsh" and "screen_ok a" and "masks_ok a" and "9 \<le> w" and "16 \<le> h"
    and "bump_alloc_ptr heap = 0" and "\<not> bump_allocated_instance heap"
  shows "\<exists>t heap'. flanterm_fb_init None release a heap = Inr (Some t, heap')
    \<and> rows t = min h 1200 div (16 * arg_font_scale_x (choose_scale a))
    \<and> cols t = min w 1920 div (9 * arg_font_scale_x (choose_scale a))
    \<and> view (screen t) = replicate (unat (rows t) * unat (cols t)) (empty_char (screen t))
    \<and> cursor_x (screen t) = 0 \<and> cursor_y (screen t) = 0 \<and> shown t
    \<and> (\<forall>ops. \<exists>u. terminal_run ops t = Inr u \<and> good fb_ok (rows t) (cols t) u)"
proof -
  obtain t q where t: "flanterm_fb_init None release a heap = Inr (Some t, heap\<lparr>bump_alloc_ptr := q, bump_allocated_instance := True\<rparr>)"
    "brand_new t" "rows t = min h 1200 div (16 * arg_font_scale_x (choose_scale a))"
    "cols t = min w 1920 div (9 * arg_font_scale_x (choose_scale a))"
    by (rule kmain_terminal_new [OF assms])
  have "\<exists>u. terminal_run ops t = Inr u \<and> good fb_ok (rows t) (cols t) u" for ops
    using terminal_run_fine [of "rows t" "cols t" t ops] t(2) by (simp add: brand_new_def fine_def)
  moreover have "shown t" using t(2) by (simp add: brand_new_def)
  ultimately show ?thesis using t(1,3,4) brand_new_state(7-9) [OF t(2)] by blast
qed

theorem terminal_never_fails_instance:
  "\<exists>t heap' u. flanterm_fb_init None None example_args example_heap = Inr (Some t, heap') \<and> rows t = 2 \<and> cols t = 10
    \<and> terminal_run [Term_write [72, 105, 10, 0x1b, 0x5b, 0x39, 0x39, 0x41, 0xff], Term_fg_rgb 0xff0000] t = Inr u"
proof -
  have s: "arg_font_scale_x (choose_scale example_args) = 1"
    by (simp add: choose_scale_def example_args_def kmain_args_def Let_def)
  have h: "bump_alloc_ptr example_heap = 0" "\<not> bump_allocated_instance example_heap" by (simp_all add: example_heap_def)
  have d: "(9 :: u64) \<le> 90" "(16 :: u64) \<le> 32" by simp_all
  obtain t heap' where t: "flanterm_fb_init None None example_args example_heap = Inr (Some t, heap')"
    "rows t = min 32 1200 div (16 * arg_font_scale_x (choose_scale example_args))"
    "cols t = min 90 1920 div (9 * arg_font_scale_x (choose_scale example_args))"
    "\<forall>ops. \<exists>u. terminal_run ops t = Inr u \<and> good fb_ok (rows t) (cols t) u"
    using terminal_never_fails [OF example_args_def example_fits d h, of None] by (elim exE conjE) (rule that)
  obtain u where "terminal_run [Term_write [72, 105, 10, 0x1b, 0x5b, 0x39, 0x39, 0x41, 0xff], Term_fg_rgb 0xff0000] t = Inr u"
    using t(4) by blast
  then show ?thesis using t(1-3) by (intro exI [of _ t] exI [of _ heap'] exI [of _ u]) (simp add: s)
qed

section \<open>Drawing\<close>

text \<open>
  C37. Drawing refines the logical screen. In every good state, which all of the terminal's operations
  keep, a flush succeeds, does not change the logical screen (the grid with the queued changes
  applied), leaves nothing queued, and then every pixel of every cell is the foreground or
  background colour of that cell's character, as the font's dot says, scaled; at the cell of an
  enabled cursor the two colours are exchanged, and a transparent colour gives the canvas or
  default background.
\<close>

theorem flush_shows_view:
  assumes "good fb_ok R C t"
  shows "\<exists>f. flanterm_fb_double_buffer_flush t = Inr (t\<lparr>screen := f\<rparr>) \<and> good fb_ok R C (t\<lparr>screen := f\<rparr>)
    \<and> view f = view (screen t) \<and> grid f = view (screen t)
    \<and> (\<forall>x < unat C. \<forall>y < unat R. \<forall>gx < unat (glyph_width f). \<forall>gy < unat (glyph_height f).
         let c = view (screen t) ! (y * unat C + x);
             c' = (if cursor_enabled t \<and> unat (cursor_x (screen t)) = x \<and> unat (cursor_y (screen t)) = y then inverted c else c)
         in cell_pixel f x y gx gy =
              tone f (unat (offset_x f) + x * unat (glyph_width f) + gx) (unat (offset_y f) + y * unat (glyph_height f) + gy)
                (if glyph_bit f c' gx gy then char_fg c' else char_bg c'))"
proof -
  obtain f where f: "flanterm_fb_double_buffer_flush t = Inr (t\<lparr>screen := f\<rparr>)" "good fb_ok R C (t\<lparr>screen := f\<rparr>)"
    "shown (t\<lparr>screen := f\<rparr>)" "view f = view (screen t)"
    "\<exists>fb gr q m x y. f = (screen t)\<lparr>framebuffer := fb, grid := gr, queue_i := q, cell_map := m, old_cursor_x := x, old_cursor_y := y\<rparr>"
    using flush_good [OF assms] by (erule_tac exE) (elim conjE, rule that)
  have dims: "rows t = R" "cols t = C" using assms by (auto simp: good_def)
  have cur: "cursor_x f = cursor_x (screen t)" "cursor_y f = cursor_y (screen t)" using f(5) by auto
  have gv: "grid f = view (screen t)" using f(3,4) by (simp add: shown_def)
  have px: "cell_pixel f x y gx gy =
      tone f (unat (offset_x f) + x * unat (glyph_width f) + gx) (unat (offset_y f) + y * unat (glyph_height f) + gy)
        (if glyph_bit f c' gx gy then char_fg c' else char_bg c')"
    if x: "x < unat C" and y: "y < unat R" and "gx < unat (glyph_width f)" "gy < unat (glyph_height f)"
      and c': "c' = (if cursor_enabled t \<and> unat (cursor_x (screen t)) = x \<and> unat (cursor_y (screen t)) = y
        then inverted (view (screen t) ! (y * unat C + x)) else view (screen t) ! (y * unat C + x))" for x y gx gy c'
  proof -
    have "cursor_cell (t\<lparr>screen := f\<rparr>) = Some (y * unat C + x)
        \<longleftrightarrow> cursor_enabled t \<and> unat (cursor_x (screen t)) = x \<and> unat (cursor_y (screen t)) = y"
      using x y cell_eq_iff [of x "unat C" "unat (cursor_x (screen t))" "unat (cursor_y (screen t))" y]
      by (auto simp: cursor_cell_def position_cell_def dims cur word_less_nat_alt)
    moreover have "\<forall>j < unat R * unat C. displays C f j (if cursor_cell (t\<lparr>screen := f\<rparr>) = Some j
        then inverted (view (screen t) ! j) else view (screen t) ! j)"
      using f(3) by (simp add: shown_def dims gv f(4) cong: if_cong)
    then have "displays C f (y * unat C + x) (if cursor_cell (t\<lparr>screen := f\<rparr>) = Some (y * unat C + x)
        then inverted (view (screen t) ! (y * unat C + x)) else view (screen t) ! (y * unat C + x))"
      using cell_less [OF x y] by blast
    ultimately have "displays C f (y * unat C + x) c'" unfolding c' by simp
    then show ?thesis using displays_pixel x that(3,4) by blast
  qed
  show ?thesis
    using f(1,2,4) gv px by (intro exI [of _ f] conjI allI impI) (simp_all only: Let_def)
qed

theorem flush_shows_view_instance:
  "\<exists>t f. brand_new t \<and> flanterm_fb_double_buffer_flush t = Inr (t\<lparr>screen := f\<rparr>) \<and> view f = view (screen t) \<and> grid f = view (screen t)"
proof -
  obtain t where t: "brand_new t" "good fb_ok 2 10 t" by (rule example_terminal)
  obtain f where "flanterm_fb_double_buffer_flush t = Inr (t\<lparr>screen := f\<rparr>)" "view f = view (screen t)" "grid f = view (screen t)"
    using flush_shows_view [OF t(2)] by (elim exE conjE) (rule that)
  then show ?thesis using t(1) by blast
qed




section \<open>Control characters and sequences\<close>

lemma scrolled_line:
  assumes "col < n" and "row < m" and "length v = m * n" and "0 < bottom" and "bottom \<le> m"
  shows "scrolled first bottom n e v ! (row * n + col) =
    (if row = bottom - 1 then e else if first \<le> row \<and> row < bottom - 1 then v ! (Suc row * n + col) else v ! (row * n + col))"
proof -
  have j: "row * n + col < length v" using cell_less [OF assms(1,2)] assms(3) by simp
  have le: "k * n \<le> row * n + col \<longleftrightarrow> k \<le> row" for k
    using assms(1) div_le_mono [of "k * n" "row * n + col" n] by (auto intro: trans_le_add1)
  have "bottom * n = (bottom - 1) * n + n" using assms(4) by (cases bottom) simp_all
  then have lt: "row * n + col < bottom * n \<longleftrightarrow> row \<le> bottom - 1" and lt': "row * n + col < (bottom - 1) * n \<longleftrightarrow> row < bottom - 1"
    using le [of bottom] le [of "bottom - 1"] assms(4) by linarith+
  show ?thesis
    using j le [of first] le [of "bottom - 1"] lt lt'
    by (auto simp: scrolled_def filled_def nth_append add.commute add.left_commute)
qed

text \<open>
  C38. A line feed, in the default state with newline translation on, moves the cursor to the start of
  the next line; on the last line of the scrolling region it stays there, and the lines of the
  region move up by one: the top one is lost and the bottom one is blank in the current colours,
  the lines outside the region are as before.
\<close>

theorem newline_scrolls:
  assumes "good fb_ok R C t" and "term_idle t" and "oob_output t AND 16 \<noteq> 0" and "unat R < 2 ^ 31"
  shows "\<exists>f. flanterm_putchar fb_backend 0x0a t = Inr (t\<lparr>screen := f\<rparr>) \<and> cursor_x f = 0
    \<and> (let y = snd (flanterm_fb_get_cursor_pos t); top = unat (scroll_top_margin t); bottom = unat (scroll_bottom_margin t)
       in if unat y = bottom - 1 then
            cursor_y f = y
            \<and> (\<forall>row < unat R. \<forall>col < unat C. view f ! (row * unat C + col) =
                 (if row = bottom - 1 then empty_char (screen t)
                  else if top \<le> row \<and> row < bottom - 1 then view (screen t) ! (Suc row * unat C + col)
                  else view (screen t) ! (row * unat C + col)))
          else view f = view (screen t) \<and> cursor_y f = (if unat y + 1 < unat R then y + 1 else R - 1))"
proof -
  define y top' bot where "y = snd (flanterm_fb_get_cursor_pos t)" and "top' = unat (scroll_top_margin t)"
    and "bot = unat (scroll_bottom_margin t)"
  note dims = good_fb [OF assms(1)]
  have y: "y < R" using cursor_in_range_fb [of t] dims by (simp add: y_def)
  have bot: "0 < bot" "bot \<le> unat R" "unat (scroll_bottom_margin t - 1) = bot - 1"
    using dims unat_pred [of "scroll_bottom_margin t"] by (auto simp: ready_def bot_def word_less_nat_alt word_le_nat_alt)
  obtain f where f: "flanterm_putchar fb_backend 0x0a t = Inr (t\<lparr>screen := f\<rparr>)" "cursor_x f = 0"
    "if y = scroll_bottom_margin t - 1 then
       view f = scrolled top' bot (unat C) (empty_char (screen t)) (view (screen t)) \<and> cursor_y f = y
     else view f = view (screen t) \<and> cursor_y f = clamp R (y + 1)"
    using newline_step [OF assms(1-3)] unfolding Let_def y_def [symmetric] top'_def [symmetric] bot_def [symmetric]
    by (erule_tac exE) (elim conjE, rule that)
  have len: "length (view (screen t)) = unat R * unat C"
    using dims queue_ok_bounds(3) [of R C "screen t"] fb_ok_parts [of R C "screen t"] by simp
  have e: "y = scroll_bottom_margin t - 1 \<longleftrightarrow> unat y = bot - 1" using bot(3) by (simp add: word_unat_eq_iff)
  have line: "scrolled top' bot (unat C) (empty_char (screen t)) (view (screen t)) ! (row * unat C + col) =
      (if row = bot - 1 then empty_char (screen t) else if top' \<le> row \<and> row < bot - 1 then view (screen t) ! (Suc row * unat C + col)
       else view (screen t) ! (row * unat C + col))" if "row < unat R" "col < unat C" for row col
    using scrolled_line [OF that(2,1) len bot(1,2)] .
  have c: "clamp R (y + 1) = (if unat y + 1 < unat R then y + 1 else R - 1)"
  proof -
    have u: "unat (y + 1) = unat y + 1" using y assms(4) unat_plus [of y 1] by (simp add: word_less_nat_alt)
    show ?thesis
    proof (cases "unat y + 1 < unat R")
      case True
      then show ?thesis using u by (simp add: clamp_def word_le_nat_alt not_le)
    next
      case False
      then have "y + 1 = R" using u y by (simp add: word_unat_eq_iff word_less_nat_alt)
      moreover have "\<not> bit R 31"
      proof -
        have "bit (unat R) 31 \<longleftrightarrow> odd (unat R div 2 ^ 31)" by (rule bit_iff_odd)
        then show ?thesis using assms(4) by (simp add: bit_unsigned_iff)
      qed
      ultimately show ?thesis using False by (simp add: clamp_def)
    qed
  qed
  show ?thesis
    using f line c unfolding e Let_def y_def [symmetric] top'_def [symmetric] bot_def [symmetric]
    by (intro exI [of _ f]) auto
qed

theorem newline_scrolls_instance:
  "\<exists>t f. brand_new t \<and> flanterm_putchar fb_backend 0x0a t = Inr (t\<lparr>screen := f\<rparr>) \<and> cursor_x f = 0 \<and> cursor_y f = 1"
proof -
  obtain t where t: "brand_new t" "good fb_ok 2 10 t" "rows t = 2" "cols t = 10" by (rule example_terminal)
  have r: "unat (2 :: u64) < 2 ^ 31" by simp
  have c: "flanterm_fb_get_cursor_pos t = (0, 0)" "scroll_bottom_margin t = 2"
    using brand_new_state(7,8,11) [OF t(1)] t(3,4) by (simp_all add: flanterm_fb_get_cursor_pos_def)
  obtain f where "flanterm_putchar fb_backend 0x0a t = Inr (t\<lparr>screen := f\<rparr>)" "cursor_x f = 0" "cursor_y f = 1"
    using newline_scrolls [OF t(2) brand_new_state(1,12) [OF t(1)] r] by (auto simp: c Let_def)
  then show ?thesis using t(1) by blast
qed

text \<open>
  C40. UTF-8: the bytes that encode a code point beyond ASCII, up to 21 bits, sent one by one, decode to
  that code point: it is drawn once, after the last byte, and until then nothing is drawn. This
  holds for every back end.
\<close>

theorem utf8_decodes:
  assumes "term_idle t" and "2 ^ 7 \<le> unat cp" and "unat cp < 2 ^ 21"
  shows "putchars B (utf8 cp) t = put_code_point B cp (t\<lparr>unicode_remaining := 0, code_point := cp\<rparr>)"
  using assms by (rule utf8_decode)

theorem utf8_decodes_instance:
  "\<exists>t. brand_new t \<and> putchars fb_backend [0xe2, 0x82, 0xac] t = put_code_point fb_backend 0x20ac (t\<lparr>unicode_remaining := 0, code_point := 0x20ac\<rparr>)"
proof -
  obtain t where t: "brand_new t" by (rule example_terminal)
  have u: "utf8 0x20ac = [0xe2, 0x82, 0xac]" by (simp add: utf8_def continuation_def)
  show ?thesis using utf8_decodes [OF brand_new_state(1) [OF t], where cp = "0x20ac" and B = fb_backend] t unfolding u by auto
qed



end
