(* ===== verification/Memory.thy ===== *)
theory Memory
  imports Prelude
begin

text \<open>
  The memory the kernel's C code runs on: a byte for every 64-bit virtual address. A
  pointer is a 64-bit word; a field of a struct is an aligned little-endian 64-bit cell at
  a fixed offset. The chains of cells that the allocator, the slab lists and the region
  lists are made of are described by \<open>path\<close> and \<open>chain\<close>; the locale \<open>linked_memory\<close> is the
  interface the list operations rely on, and each kind of node interprets it with its own
  link field.
\<close>

type_synonym memory = "u64 \<Rightarrow> u8"

section \<open>Cells\<close>

definition load64 :: "memory \<Rightarrow> u64 \<Rightarrow> u64" where
  "load64 m a =
     ucast (m a) OR push_bit 8 (ucast (m (a + 1))) OR push_bit 16 (ucast (m (a + 2)))
     OR push_bit 24 (ucast (m (a + 3))) OR push_bit 32 (ucast (m (a + 4)))
     OR push_bit 40 (ucast (m (a + 5))) OR push_bit 48 (ucast (m (a + 6)))
     OR push_bit 56 (ucast (m (a + 7)))"

definition store64 :: "memory \<Rightarrow> u64 \<Rightarrow> u64 \<Rightarrow> memory" where
  "store64 m a v = m(a := ucast v, a + 1 := ucast (drop_bit 8 v), a + 2 := ucast (drop_bit 16 v),
     a + 3 := ucast (drop_bit 24 v), a + 4 := ucast (drop_bit 32 v),
     a + 5 := ucast (drop_bit 40 v), a + 6 := ucast (drop_bit 48 v),
     a + 7 := ucast (drop_bit 56 v))"

text \<open>The eight bytes of a cell, put together again, are the cell.\<close>

lemma split_byte: "(v :: u64) = take_bit 8 v OR push_bit 8 (drop_bit 8 v)"
proof (rule bit_word_eqI)
  fix n show "bit v n = bit (take_bit 8 v OR push_bit 8 (drop_bit 8 v)) n" if "n < LENGTH(64)"
    using that by (cases "n < 8") (auto simp: bit_simps)
qed

lemma top_byte: "drop_bit 56 (v :: u64) = take_bit 8 (drop_bit 56 v)"
  by (rule bit_word_eqI) (auto simp: bit_simps dest: bit_imp_le_length)

lemma join_bytes:
  "take_bit 8 v OR push_bit 8 (take_bit 8 (drop_bit 8 v)) OR push_bit 16 (take_bit 8 (drop_bit 16 v))
   OR push_bit 24 (take_bit 8 (drop_bit 24 v)) OR push_bit 32 (take_bit 8 (drop_bit 32 v))
   OR push_bit 40 (take_bit 8 (drop_bit 40 v)) OR push_bit 48 (take_bit 8 (drop_bit 48 v))
   OR push_bit 56 (take_bit 8 (drop_bit 56 v)) = (v :: u64)"
proof -
  have s: "drop_bit n v = take_bit 8 (drop_bit n v) OR push_bit 8 (drop_bit (n + 8) v)" for n
    using split_byte [of "drop_bit n v"] by (simp add: add.commute)
  have e: "push_bit n (drop_bit n v)
      = push_bit n (take_bit 8 (drop_bit n v)) OR push_bit (n + 8) (drop_bit (n + 8) v)" for n
    by (subst s [of n]) (simp add: push_bit_or)
  show ?thesis
    using split_byte [of v] e [of 8] e [of 16] e [of 24] e [of 32] e [of 40] e [of 48]
      top_byte [of v]
    by (simp add: or.assoc)
qed

lemma ucast_byte: "(ucast (ucast v :: u8) :: u64) = take_bit 8 v"
  by (simp add: unsigned_ucast_eq)

lemma load64_store64_same [simp, mem_simps]: "load64 (store64 m a v) a = v"
  by (simp add: load64_def store64_def ucast_byte join_bytes)

lemma load64_cong:
  assumes "\<And>d. unat d < 8 \<Longrightarrow> m (a + d) = m' (a + d)"
  shows "load64 m a = load64 m' a"
  using assms [of 0] assms [of 1] assms [of 2] assms [of 3] assms [of 4] assms [of 5]
    assms [of 6] assms [of 7]
  by (simp add: load64_def)

lemma store64_other:
  assumes "8 \<le> unat (x - a)"
  shows "store64 m a v x = m x"
proof -
  have "x \<noteq> a + d" if "unat d < 8" for d
    using assms that by auto
  from this [of 0] this [of 1] this [of 2] this [of 3] this [of 4] this [of 5] this [of 6]
    this [of 7]
  show ?thesis by (simp add: store64_def)
qed

lemma load64_store64_apart:
  assumes "8 \<le> unat (b - a)" and "8 \<le> unat (a - b)"
  shows "load64 (store64 m a v) b = load64 m b"
proof (rule load64_cong)
  fix d :: u64 assume d: "unat d < 8"
  define e where "e = b - a"
  have e: "8 \<le> unat e" using assms(1) by (simp add: e_def)
  have "a - b = - e" by (simp add: e_def)
  then have "8 \<le> unat (- e)" using assms(2) by simp
  moreover have "unat (- e) = 2 ^ 64 - unat e"
    using unat_sub_if' [of 0 e] e by (auto simp: unat_eq_0)
  ultimately have "unat e \<le> 2 ^ 64 - 8"
    using unsigned_less [of e] by simp
  then have "unat (e + d) = unat e + unat d"
    using d by (subst unat_add_lem [THEN iffD1]) auto
  then have "8 \<le> unat (b + d - a)"
    using e by (simp add: e_def algebra_simps)
  then show "store64 m a v (b + d) = m (b + d)"
    by (rule store64_other)
qed

lemma load64_store64_aligned [mem_simps]:
  assumes "aligned 3 a" and "aligned 3 b" and "a \<noteq> b"
  shows "load64 (store64 m a v) b = load64 m b"
  using aligned_apart [OF assms] aligned_apart [OF assms(2,1)] assms(3)
  by (intro load64_store64_apart) auto

section \<open>Pages\<close>

text \<open>A write that stays in one page leaves the cells of every other page alone.\<close>

definition same_outside :: "u64 set \<Rightarrow> memory \<Rightarrow> memory \<Rightarrow> bool" where
  "same_outside P m m' \<longleftrightarrow> (\<forall>x. page_of x \<notin> P \<longrightarrow> m' x = m x)"

lemma same_outside_refl [simp]: "same_outside P m m"
  by (simp add: same_outside_def)

lemma same_outside_trans:
  "same_outside P m m' \<Longrightarrow> same_outside Q m' m'' \<Longrightarrow> same_outside (P \<union> Q) m m''"
  by (simp add: same_outside_def)

lemma same_outside_mono: "same_outside P m m' \<Longrightarrow> P \<subseteq> Q \<Longrightarrow> same_outside Q m m'"
  by (auto simp: same_outside_def)

lemma same_outside_load64:
  assumes "same_outside P m m'" and "aligned 3 a" and "page_of a \<notin> P"
  shows "load64 m' a = load64 m a"
  using assms page_of_word [OF assms(2)]
  by (intro load64_cong) (auto simp: same_outside_def)

lemma same_outside_store64:
  assumes "aligned 3 a"
  shows "same_outside {page_of a} m (store64 m a v)"
  unfolding same_outside_def
proof (intro allI impI)
  fix x assume x: "page_of x \<notin> {page_of a}"
  have "8 \<le> unat (x - a)"
  proof (rule ccontr)
    assume "\<not> 8 \<le> unat (x - a)"
    then have "page_of (a + (x - a)) = page_of a"
      using assms by (intro page_of_word) auto
    with x show False by simp
  qed
  then show "store64 m a v x = m x" by (rule store64_other)
qed

lemma same_outside_chain:
  "same_outside P m m' \<Longrightarrow> same_outside P m' m'' \<Longrightarrow> same_outside P m m''"
  by (simp add: same_outside_def)

lemma same_outside_store64_in:
  "aligned 3 a \<Longrightarrow> page_of a \<in> P \<Longrightarrow> same_outside P m (store64 m a v)"
  by (rule same_outside_mono [OF same_outside_store64]) auto

section \<open>Chains of nodes\<close>

text \<open>
  \<open>path nxt p xs q\<close>: following the link \<open>nxt\<close> from \<open>p\<close> visits exactly the non-null nodes
  \<open>xs\<close> and then holds \<open>q\<close>. A chain is a path that ends in NULL.
\<close>

fun path :: "(u64 \<Rightarrow> u64) \<Rightarrow> u64 \<Rightarrow> u64 list \<Rightarrow> u64 \<Rightarrow> bool" where
  "path nxt p [] q \<longleftrightarrow> p = q"
| "path nxt p (x # xs) q \<longleftrightarrow> p = x \<and> x \<noteq> null \<and> path nxt (nxt x) xs q"

abbreviation chain :: "(u64 \<Rightarrow> u64) \<Rightarrow> u64 \<Rightarrow> u64 list \<Rightarrow> bool" where
  "chain nxt p xs \<equiv> path nxt p xs null"

lemma path_append [simp]:
  "path nxt p (xs @ ys) q \<longleftrightarrow> (\<exists>r. path nxt p xs r \<and> path nxt r ys q)"
  by (induction xs arbitrary: p) auto

lemma path_cong: "(\<And>x. x \<in> set xs \<Longrightarrow> nxt x = nxt' x) \<Longrightarrow> path nxt p xs q = path nxt' p xs q"
  by (induction xs arbitrary: p) auto

lemma chain_null_iff: "chain nxt null xs \<longleftrightarrow> xs = []"
  by (cases xs) auto

lemma chain_nonnull: "p \<noteq> null \<Longrightarrow> chain nxt p xs \<Longrightarrow> \<exists>ys. xs = p # ys \<and> chain nxt (nxt p) ys"
  by (cases xs) auto

lemma chain_unique: "chain nxt p xs \<Longrightarrow> chain nxt p ys \<Longrightarrow> xs = ys"
proof (induction xs arbitrary: p ys)
  case Nil
  then show ?case by (simp add: chain_null_iff)
next
  case (Cons x xs)
  then show ?case using chain_nonnull [of p nxt ys] by auto
qed

lemma chain_hd_notin: "chain nxt p (x # xs) \<Longrightarrow> x \<notin> set xs"
proof
  assume c: "chain nxt p (x # xs)" and "x \<in> set xs"
  then obtain as bs where xs: "xs = as @ x # bs" by (meson split_list)
  with c have "chain nxt (nxt x) bs" "chain nxt (nxt x) (as @ x # bs)" by auto
  then have "bs = as @ x # bs" by (rule chain_unique)
  then have "length bs = length as + Suc (length bs)"
    by (metis length_append list.size(4) add_Suc_right add.right_neutral)
  then show False by simp
qed

lemma chain_distinct: "chain nxt p xs \<Longrightarrow> distinct xs"
proof (induction xs arbitrary: p)
  case (Cons x xs)
  then show ?case using chain_hd_notin [of nxt p x xs] by auto
qed simp

lemma path_nonnull: "path nxt p xs q \<Longrightarrow> null \<notin> set xs"
  by (induction xs arbitrary: p) auto

text \<open>
  The interface of a linked node: a link that can be read and written, where writing the
  link of one node leaves the links of the other nodes alone.
\<close>

locale linked_memory =
  fixes get_link :: "'m \<Rightarrow> u64 \<Rightarrow> u64"
    and set_link :: "'m \<Rightarrow> u64 \<Rightarrow> u64 \<Rightarrow> 'm"
    and node :: "u64 \<Rightarrow> bool"
  assumes link_same: "node a \<Longrightarrow> get_link (set_link m a v) a = v"
    and link_other: "node a \<Longrightarrow> node b \<Longrightarrow> a \<noteq> b \<Longrightarrow> get_link (set_link m a v) b = get_link m b"
begin

lemma path_frame:
  assumes "\<forall>x \<in> set xs. node x" and "node a" and "a \<notin> set xs"
  shows "path (get_link (set_link m a v)) p xs q = path (get_link m) p xs q"
  using assms by (intro path_cong link_other) auto

text \<open>Linking a new node in front of a list.\<close>

lemma chain_push:
  assumes "chain (get_link m) p xs" and "\<forall>x \<in> set xs. node x"
    and "node a" and "a \<noteq> null" and "a \<notin> set xs"
  shows "chain (get_link (set_link m a p)) a (a # xs)"
  using assms by (simp add: link_same path_frame)

text \<open>Linking a list behind the last node of another.\<close>

lemma path_link_last:
  assumes "path (get_link m) p (xs @ [l]) r" and "\<forall>x \<in> set xs. node x" and "node l"
    and "l \<notin> set xs"
  shows "path (get_link (set_link m l v)) p (xs @ [l]) v"
  using assms by (auto simp: link_same path_frame)

lemma chain_append:
  assumes "path (get_link m) p (xs @ [l]) r" and "chain (get_link m) q ys"
    and "\<forall>x \<in> set (xs @ l # ys). node x" and "distinct (xs @ l # ys)"
  shows "chain (get_link (set_link m l q)) p (xs @ l # ys)"
proof -
  have "path (get_link (set_link m l q)) p (xs @ [l]) q"
    using assms by (intro path_link_last) auto
  moreover have "chain (get_link (set_link m l q)) q ys"
    using assms by (subst path_frame) auto
  ultimately show ?thesis by auto
qed

text \<open>Inserting a node behind another, and taking a node out behind another.\<close>

lemma chain_insert_after:
  assumes "chain (get_link m) p (xs @ l # ys)" and "\<forall>x \<in> set (xs @ l # ys). node x"
    and "node a" and "a \<noteq> null" and "a \<notin> set (xs @ l # ys)"
  shows "chain (get_link (set_link (set_link m l a) a (get_link m l))) p (xs @ l # a # ys)"
proof -
  have d: "distinct (xs @ l # ys)" using assms(1) by (rule chain_distinct)
  obtain r where "path (get_link m) p xs r" "r = l" "l \<noteq> null" "chain (get_link m) (get_link m l) ys"
    using assms(1) by auto
  with assms d show ?thesis by (auto simp: link_same link_other path_frame)
qed

lemma chain_remove_after:
  assumes "chain (get_link m) p (xs @ l # a # ys)" and "\<forall>x \<in> set (xs @ l # a # ys). node x"
  shows "chain (get_link (set_link m l (get_link m a))) p (xs @ l # ys)"
proof -
  have d: "distinct (xs @ l # a # ys)" using assms(1) by (rule chain_distinct)
  have "path (get_link m) p xs l" "l \<noteq> null" "chain (get_link m) (get_link m a) ys"
    using assms(1) by auto
  with assms d show ?thesis by (auto simp: link_same link_other path_frame)
qed

end

text \<open>A cell at a fixed offset of an aligned node is a link in this sense.\<close>

definition get_field :: "u64 \<Rightarrow> memory \<Rightarrow> u64 \<Rightarrow> u64" where
  "get_field off m a = load64 m (a + off)"

definition set_field :: "u64 \<Rightarrow> memory \<Rightarrow> u64 \<Rightarrow> u64 \<Rightarrow> memory" where
  "set_field off m a v = store64 m (a + off) v"

interpretation cell0: linked_memory "load64" "store64" "aligned 3"
  by unfold_locales (auto simp: load64_store64_aligned)

interpretation cell8: linked_memory "get_field 8" "set_field 8" "aligned 3"
proof unfold_locales
  fix a b v :: u64 and m
  show "get_field 8 (set_field 8 m a v) a = v" by (simp add: get_field_def set_field_def)
  assume "aligned 3 a" "aligned 3 b" "a \<noteq> b"
  then show "get_field 8 (set_field 8 m a v) b = get_field 8 m b"
    unfolding get_field_def set_field_def
    by (intro load64_store64_aligned aligned_add) (auto simp: aligned_def)
qed

interpretation cell24: linked_memory "get_field 24" "set_field 24" "aligned 3"
proof unfold_locales
  fix a b v :: u64 and m
  show "get_field 24 (set_field 24 m a v) a = v" by (simp add: get_field_def set_field_def)
  assume "aligned 3 a" "aligned 3 b" "a \<noteq> b"
  then show "get_field 24 (set_field 24 m a v) b = get_field 24 m b"
    unfolding get_field_def set_field_def
    by (intro load64_store64_aligned aligned_add) (auto simp: aligned_def)
qed

end
