(* ===== verification/Libc.thy ===== *)
theory Libc
  imports Memory
begin

text \<open>
  The memory primitives of \<open>kernel/src/main.c\<close> (\<open>memset\<close>, \<open>memcpy\<close>, \<open>memmove\<close>, \<open>memcmp\<close>),
  byte by byte over the machine memory, with what they guarantee. A loop over \<open>n\<close> bytes is
  a recursion on the number of rounds done.
\<close>

section \<open>memset\<close>

primrec memset_loop :: "memory \<Rightarrow> u64 \<Rightarrow> u8 \<Rightarrow> nat \<Rightarrow> memory" where
  "memset_loop m p c 0 = m"
| "memset_loop m p c (Suc i) = (memset_loop m p c i)(p + of_nat i := c)"

definition memset :: "memory \<Rightarrow> u64 \<Rightarrow> u32 \<Rightarrow> u64 \<Rightarrow> memory" where
  "memset m s c n = memset_loop m s (ucast c) (unat n)"

text \<open>Distances: \<open>x\<close> is the \<open>i\<close>-th byte from \<open>p\<close> exactly when the wrapped difference is \<open>i\<close>.\<close>

lemma nth_byte_iff:
  fixes x p :: u64
  assumes "i < 2 ^ 64"
  shows "x = p + of_nat i \<longleftrightarrow> unat (x - p) = i"
proof
  assume "x = p + of_nat i"
  then have "x - p = of_nat i" by simp
  then show "unat (x - p) = i" using assms by (simp add: unat_of_nat)
next
  assume "unat (x - p) = i"
  then have "of_nat i = x - p" by auto
  then show "x = p + of_nat i" by simp
qed

lemma memset_loop_apply:
  "n \<le> 2 ^ 64 \<Longrightarrow> memset_loop m p c n x = (if unat (x - p) < n then c else m x)"
  by (induction n) (auto simp: nth_byte_iff less_Suc_eq)

lemma memset_apply:
  "memset m s c n x = (if unat (x - s) < unat n then ucast c else m x)"
  unfolding memset_def using unat_u64_less [of n] by (subst memset_loop_apply) simp_all

lemma memset_page_apply:
  assumes "page_aligned p"
  shows "memset m p c 4096 x = (if page_of x = p then ucast c else m x)"
  using assms by (simp add: memset_apply page_of_iff)

lemma same_outside_memset_page:
  "page_aligned p \<Longrightarrow> same_outside {p} m (memset m p c 4096)"
  by (simp add: same_outside_def memset_page_apply)

lemma load64_memset_page:
  assumes "page_aligned p" and "aligned 3 a"
  shows "load64 (memset m p 0 4096) a = (if page_of a = p then 0 else load64 m a)"
proof (cases "page_of a = p")
  case True
  then have "page_of (a + d) = p" if "unat d < 8" for d
    using assms(2) that by (simp add: page_of_word)
  from this [of 0] this [of 1] this [of 2] this [of 3] this [of 4] this [of 5] this [of 6]
    this [of 7]
  show ?thesis by (simp add: True load64_def memset_page_apply [OF assms(1)])
next
  case False
  then show ?thesis
    using same_outside_load64 [OF same_outside_memset_page [OF assms(1)] assms(2)] by simp
qed

section \<open>memcpy and memmove\<close>

primrec copy_forward :: "memory \<Rightarrow> u64 \<Rightarrow> u64 \<Rightarrow> nat \<Rightarrow> memory" where
  "copy_forward m dest src 0 = m"
| "copy_forward m dest src (Suc i) =
     (let m' = copy_forward m dest src i in m'(dest + of_nat i := m' (src + of_nat i)))"

primrec copy_backward :: "memory \<Rightarrow> u64 \<Rightarrow> u64 \<Rightarrow> nat \<Rightarrow> memory" where
  "copy_backward m dest src 0 = m"
| "copy_backward m dest src (Suc i) =
     copy_backward (m(dest + of_nat i := m (src + of_nat i))) dest src i"

definition memcpy :: "memory \<Rightarrow> u64 \<Rightarrow> u64 \<Rightarrow> u64 \<Rightarrow> memory" where
  "memcpy m dest src n = copy_forward m dest src (unat n)"

definition memmove :: "memory \<Rightarrow> u64 \<Rightarrow> u64 \<Rightarrow> u64 \<Rightarrow> memory" where
  "memmove m dest src n =
     (if src > dest then copy_forward m dest src (unat n)
      else if src < dest then copy_backward m dest src (unat n)
      else m)"

text \<open>What a copy of \<open>n\<close> bytes should do: every byte of the target is the source's old byte.\<close>

definition moved :: "memory \<Rightarrow> u64 \<Rightarrow> u64 \<Rightarrow> nat \<Rightarrow> memory" where
  "moved m dest src n = (\<lambda>x. if unat (x - dest) < n then m (src + (x - dest)) else m x)"

text \<open>A forward copy is right when no source byte lies in the part of the target already written.\<close>

lemma copy_forward_moved:
  assumes "n < 2 ^ 64" and "\<And>i. i < n \<Longrightarrow> \<not> unat (src + of_nat i - dest) < i"
  shows "copy_forward m dest src n = moved m dest src n"
  using assms
proof (induction n)
  case 0
  then show ?case by (simp add: moved_def)
next
  case (Suc n)
  then have IH: "copy_forward m dest src n = moved m dest src n" by simp
  have "\<not> unat (src + of_nat n - dest) < n" using Suc.prems(2) by simp
  then have s: "moved m dest src n (src + of_nat n) = m (src + of_nat n)"
    by (simp add: moved_def)
  show ?case
  proof
    fix x
    show "copy_forward m dest src (Suc n) x = moved m dest src (Suc n) x"
    proof (cases "x = dest + of_nat n")
      case True
      then show ?thesis using Suc.prems(1)
        by (simp add: IH s Let_def) (simp add: moved_def unat_of_nat)
    next
      case False
      then have "unat (x - dest) \<noteq> n" using Suc.prems(1) by (simp add: nth_byte_iff)
      with False show ?thesis by (simp add: IH Let_def) (auto simp: moved_def)
    qed
  qed
qed

text \<open>A backward copy is right when no source byte lies in the part of the target behind it.\<close>

lemma copy_backward_moved:
  assumes "n < 2 ^ 64"
    and "\<And>i j. i < j \<Longrightarrow> j < n \<Longrightarrow> src + of_nat i \<noteq> dest + of_nat j"
  shows "copy_backward m dest src n = moved m dest src n"
  using assms
proof (induction n arbitrary: m)
  case 0
  then show ?case by (simp add: moved_def)
next
  case (Suc n)
  define m' where "m' = m(dest + of_nat n := m (src + of_nat n))"
  have IH: "copy_backward m' dest src n = moved m' dest src n"
    using Suc.prems by (intro Suc.IH) auto
  show ?case
  proof
    fix x
    consider "unat (x - dest) < n" | "unat (x - dest) = n" | "n < unat (x - dest)" by linarith
    then show "copy_backward m dest src (Suc n) x = moved m dest src (Suc n) x"
    proof cases
      case 1
      define i where "i = unat (x - dest)"
      have i: "x - dest = of_nat i" "i < n" using 1 by (auto simp: i_def)
      then have "src + of_nat i \<noteq> dest + of_nat n" using Suc.prems(2) by simp
      with i 1 show ?thesis by (simp add: m'_def [symmetric] IH) (simp add: moved_def m'_def)
    next
      case 2
      then have "x = dest + of_nat n" using Suc.prems(1) by (simp add: nth_byte_iff)
      with 2 Suc.prems(1) show ?thesis
        by (simp add: m'_def [symmetric] IH) (simp add: moved_def m'_def)
    next
      case 3
      then have "x \<noteq> dest + of_nat n" using Suc.prems(1) by (auto simp: nth_byte_iff)
      with 3 show ?thesis by (simp add: m'_def [symmetric] IH) (simp add: moved_def m'_def)
    qed
  qed
qed

lemma unat_add_nowrap: "unat a + n < 2 ^ 64 \<Longrightarrow> unat (a + of_nat n) = unat a + n" for a :: u64
  by (simp add: unat_word_ariths unat_of_nat)

lemma memmove_moved:
  assumes "unat src + unat n \<le> 2 ^ 64" and "unat dest + unat n \<le> 2 ^ 64"
  shows "memmove m dest src n = moved m dest src (unat n)"
proof -
  have n: "unat n < 2 ^ 64" by (rule unat_u64_less)
  consider "src > dest" | "src < dest" | "src = dest" by (rule linorder_cases)
  then show ?thesis
  proof cases
    case 1
    then have d: "unat (src - dest) = unat src - unat dest" by (simp add: unat_sub_if' word_less_nat_alt)
    have "\<not> unat (src + of_nat i - dest) < i" if i: "i < unat n" for i
    proof -
      have e: "src + of_nat i - dest = (src - dest) + of_nat i" by simp
      have "unat (src - dest) + i < 2 ^ 64" using d assms(1) i by linarith
      then show ?thesis unfolding e by (simp only: unat_add_nowrap)
    qed
    with 1 show ?thesis unfolding memmove_def by (simp add: copy_forward_moved [OF n])
  next
    case 2
    have "src + of_nat i \<noteq> dest + of_nat j" if ij: "i < j" "j < unat n" for i j
    proof
      assume "src + of_nat i = dest + of_nat j"
      moreover have "unat src + i < 2 ^ 64" "unat dest + j < 2 ^ 64" using assms ij by linarith+
      ultimately have "unat src + i = unat dest + j" by (metis unat_add_nowrap)
      moreover have "unat src < unat dest" using 2 by (simp add: word_less_nat_alt)
      ultimately show False using ij by linarith
    qed
    with 2 less_not_sym [OF 2] show ?thesis unfolding memmove_def
      by (simp add: copy_backward_moved [OF n])
  next
    case 3
    then show ?thesis by (auto simp: memmove_def moved_def)
  qed
qed

lemma memcpy_moved:
  assumes "unat src + unat n \<le> 2 ^ 64" and "unat dest + unat n \<le> 2 ^ 64"
    and "unat src + unat n \<le> unat dest \<or> unat dest \<le> unat src"
  shows "memcpy m dest src n = moved m dest src (unat n)"
proof -
  have n: "unat n < 2 ^ 64" by (rule unat_u64_less)
  have "\<not> unat (src + of_nat i - dest) < i" if i: "i < unat n" for i
  proof
    assume a: "unat (src + of_nat i - dest) < i"
    have s: "unat (src + of_nat i) = unat src + i" using assms(1) i by (intro unat_add_nowrap) simp
    show False using a assms i unsigned_less [of dest] unfolding unat_sub_if' s
      by (auto simp: word_le_nat_alt s split: if_splits)
  qed
  then show ?thesis unfolding memcpy_def by (rule copy_forward_moved [OF n])
qed

end
