(* ===== verification/Kernel_State.thy ===== *)
theory Kernel_State
  imports Libc
begin

text \<open>
  The globals of the memory managers, in one record that the operations of \<open>pmm.c\<close> and
  \<open>vmm.c\<close> thread through: the machine memory, the offset of the higher-half direct map (a
  constant the bootloader reports), the head of the free page list, the eight slab caches,
  the address of the kernel's \<open>struct pagemap\<close> and the end of the kernel image that
  \<open>vmm_region_setup\<close> records.
\<close>

text \<open>\<open>struct cache\<close> of \<open>pmm.h\<close>: the first slab header and the object size.\<close>

record cache =
  slabs :: u64
  csize :: u64

record kstate =
  mem :: memory
  hhdm :: u64
  head :: u64
  kmalloc_cache :: "cache list"
  kernel_pagemap :: u64
  kerneL_higher_half_size :: u64

text \<open>The kinds of memory map entries the bootloader reports, by the names the code uses.\<close>

datatype memmap_type =
    USABLE | BOOTLOADER_RECLAIMABLE | KERNEL_AND_MODULES | RESERVED | FRAMEBUFFER
  | ACPI_NVS | ACPI_RECLAIMABLE | OTHER

record memmap_entry =
  me_base :: u64
  me_length :: u64
  me_type :: memmap_type

end
