(* ===== verification/Pool.thy ===== *)
theory Pool
  imports Prelude
begin

text \<open>
  The contract that every allocator of the kernel promises its clients: physical pages
  (\<open>pmm.c\<close>), slab objects (\<open>pmm.c\<close>) and file descriptors (\<open>fs/vfs.c\<close>). A provider has a set of
  available resources; taking one removes it from the set, giving one back adds it. What a
  client relies on is proved once here: over any sequence of operations no resource is
  handed out twice, and none is lost.
\<close>

inductive pool_run ::
  "('s \<Rightarrow> ('r \<times> 's) res) \<Rightarrow> ('r \<Rightarrow> 's \<Rightarrow> 's res) \<Rightarrow> 's \<Rightarrow> 's \<Rightarrow> 'r set \<Rightarrow> bool"
  for tk gv s0 where
  run_start: "pool_run tk gv s0 s0 {}"
| run_take: "pool_run tk gv s0 s L \<Longrightarrow> tk s = Inr (r, s') \<Longrightarrow> pool_run tk gv s0 s' (insert r L)"
| run_give: "pool_run tk gv s0 s L \<Longrightarrow> r \<in> L \<Longrightarrow> gv r s = Inr s' \<Longrightarrow> pool_run tk gv s0 s' (L - {r})"

inductive_simps pool_run_simps: "pool_run tk gv s0 s L"

locale resource_pool =
  fixes inv :: "'s \<Rightarrow> bool"
    and avail :: "'s \<Rightarrow> 'r set"
    and tk :: "'s \<Rightarrow> ('r \<times> 's) res"
    and gv :: "'r \<Rightarrow> 's \<Rightarrow> 's res"
    and valid :: "'s \<Rightarrow> 'r \<Rightarrow> bool"
  assumes take_law: "inv s \<Longrightarrow> tk s = Inr (r, s') \<Longrightarrow>
      r \<in> avail s \<and> avail s' = avail s - {r} \<and> inv s' \<and> valid s' = valid s"
    and take_progress: "inv s \<Longrightarrow> avail s \<noteq> {} \<Longrightarrow> \<exists>r s'. tk s = Inr (r, s')"
    and give_law: "inv s \<Longrightarrow> valid s r \<Longrightarrow> r \<notin> avail s \<Longrightarrow> gv r s = Inr s' \<Longrightarrow>
      avail s' = insert r (avail s) \<and> inv s' \<and> valid s' = valid s"
    and avail_valid: "inv s \<Longrightarrow> r \<in> avail s \<Longrightarrow> valid s r"
begin

lemma run_invariant:
  assumes "pool_run tk gv s0 s L" and "inv s0"
  shows "inv s \<and> valid s = valid s0 \<and> L \<inter> avail s = {} \<and> L \<union> avail s = avail s0
    \<and> (\<forall>r \<in> L. valid s0 r)"
  using assms
proof (induction rule: pool_run.induct)
  case run_start
  then show ?case by simp
next
  case (run_take s L r s')
  then have "inv s" "valid s = valid s0" "L \<inter> avail s = {}" "L \<union> avail s = avail s0"
    "\<forall>r \<in> L. valid s0 r" by auto
  with take_law [OF this(1) run_take.hyps(2)] avail_valid [OF this(1)] show ?case by auto
next
  case (run_give s L r s')
  then have i: "inv s" "valid s = valid s0" "L \<inter> avail s = {}" "L \<union> avail s = avail s0"
    "\<forall>r \<in> L. valid s0 r" by auto
  with run_give.hyps have "valid s r" "r \<notin> avail s" by auto
  from give_law [OF i(1) this run_give.hyps(3)] i run_give.hyps(2) show ?case by auto
qed

text \<open>A resource that is handed out is available and not live.\<close>

lemma no_double_take:
  assumes "pool_run tk gv s0 s L" and "inv s0" and "tk s = Inr (r, s')"
  shows "r \<notin> L \<and> r \<in> avail s0"
  using run_invariant [OF assms(1,2)] take_law [OF _ assms(3)] by blast

text \<open>As long as something is not live, taking succeeds.\<close>

lemma take_succeeds:
  assumes "pool_run tk gv s0 s L" and "inv s0" and "avail s0 - L \<noteq> {}"
  shows "\<exists>r s'. tk s = Inr (r, s') \<and> r \<in> avail s0 - L"
proof -
  have i: "inv s" "L \<inter> avail s = {}" "L \<union> avail s = avail s0"
    using run_invariant [OF assms(1,2)] by auto
  with assms(3) have "avail s \<noteq> {}" by blast
  then obtain r s' where "tk s = Inr (r, s')" using take_progress [OF i(1)] by blast
  with no_double_take [OF assms(1,2)] show ?thesis by blast
qed

end

end
