(* ===== verification/Pmm.thy ===== *)
theory Pmm
  imports Kernel_State Pool
begin

text \<open>
  The physical page allocator, the first part of \<open>kernel/src/pmm.c\<close>: the free pages form a
  linked list threaded through the pages themselves, seen through the higher-half direct
  map. \<open>pmm_populate\<close> builds it from the memory map, \<open>pmm_alloc_singlep\<close> pops a page and
  returns its physical address, \<open>pmm_free_singlep\<close> pushes a page given by its virtual
  address. The abstract view is the list of free pages, \<open>free_list\<close>.
\<close>

section \<open>The operations\<close>

text \<open>
  The inner loop of \<open>pmm_init\<close> over one usable entry: \<open>prev\<close> is \<open>prev_node\<close>. The loop
  variable is a multiple of 4096, so when it wraps it starts again at 0 and the loop never
  ends.
\<close>

function link_pages :: "u64 \<Rightarrow> u64 \<Rightarrow> u64 \<Rightarrow> u64 \<Rightarrow> kstate \<Rightarrow> (u64 \<times> kstate) res" where
  "link_pages base len j prev s =
     (if j < len then
        let cur = base + j + hhdm s;
            s' = (if prev \<noteq> null then s\<lparr>mem := store64 (mem s) prev cur\<rparr> else s)
        in if j + 0x1000 < j then Inl Diverges
           else link_pages base len (j + 0x1000) cur s'
      else Inr (prev, s))"
  by pat_completeness auto
termination
proof (relation "measure (\<lambda>(base, len, j, prev, s). unat len - unat j)", goal_cases)
  case (2 base len j prev s x xa)
  then have "unat j < unat len" "unat (j + 0x1000) = unat j + 4096"
    using unat_add_no_wrap [of j "0x1000"] by (auto simp: word_less_nat_alt)
  then show ?case by simp
qed simp

declare link_pages.simps [simp del]

text \<open>One round of the outer loop of \<open>pmm_init\<close>.\<close>

definition pmm_entry :: "memmap_entry \<Rightarrow> u64 \<Rightarrow> kstate \<Rightarrow> (u64 \<times> kstate) res" where
  "pmm_entry e prev s =
     (case me_type e of
        USABLE \<Rightarrow>
          (let s1 = (if head s = null then s\<lparr>head := me_base e + hhdm s\<rparr> else s)
           in andthen (link_pages (me_base e) (me_length e) 0 prev s1) (\<lambda>(prev', s2).
                if prev' = null then Inl PageFault
                else Inr (prev', s2\<lparr>mem := store64 (mem s2) prev' null\<rparr>)))
      | _ \<Rightarrow> Inr (prev, s))"

fun pmm_entries :: "memmap_entry list \<Rightarrow> u64 \<Rightarrow> kstate \<Rightarrow> (u64 \<times> kstate) res" where
  "pmm_entries [] prev s = Inr (prev, s)"
| "pmm_entries (e # es) prev s = andthen (pmm_entry e prev s) (\<lambda>(prev', s'). pmm_entries es prev' s')"

definition pmm_populate :: "memmap_entry list \<Rightarrow> kstate \<Rightarrow> kstate res" where
  "pmm_populate es s = andthen (pmm_entries es null s) (\<lambda>(prev, s'). Inr s')"

text \<open>The counting loop at the end of \<open>pmm_init\<close>; it returns only if the list ends.\<close>

partial_function (option) count_nodes :: "memory \<Rightarrow> u64 \<Rightarrow> u64 \<Rightarrow> u64 option" where
  "count_nodes m current count =
     (if current \<noteq> null then count_nodes m (load64 m current) (count + 1) else Some count)"

definition pmm_alloc_singlep :: "kstate \<Rightarrow> (u64 \<times> kstate) res" where
  "pmm_alloc_singlep s =
     (if head s \<noteq> null then Inr (head s - hhdm s, s\<lparr>head := load64 (mem s) (head s)\<rparr>)
      else Inl Halted)"

definition pmm_free_singlep :: "u64 \<Rightarrow> kstate \<Rightarrow> kstate res" where
  "pmm_free_singlep page s =
     (if page = null then Inl PageFault
      else Inr (s\<lparr>mem := store64 (mem s) page (head s), head := page\<rparr>))"

section \<open>The abstract free list\<close>

text \<open>The virtual addresses of the free pages, in list order.\<close>

definition free_list :: "kstate \<Rightarrow> u64 list \<Rightarrow> bool" where
  "free_list s xs \<longleftrightarrow> chain (load64 (mem s)) (head s) xs \<and> (\<forall>x \<in> set xs. page_aligned x)"

definition pmm_ok :: "kstate \<Rightarrow> bool" where
  "pmm_ok s \<longleftrightarrow> (\<exists>xs. free_list s xs) \<and> page_aligned (hhdm s)"

definition free_set :: "kstate \<Rightarrow> u64 set" where
  "free_set s = {x. \<exists>xs. free_list s xs \<and> x \<in> set xs}"

lemma free_list_unique: "free_list s xs \<Longrightarrow> free_list s ys \<Longrightarrow> xs = ys"
  unfolding free_list_def by (blast intro: chain_unique)

lemma free_set_eq: "free_list s xs \<Longrightarrow> free_set s = set xs"
  unfolding free_set_def using free_list_unique by blast

lemma free_list_distinct: "free_list s xs \<Longrightarrow> distinct xs"
  unfolding free_list_def by (blast intro: chain_distinct)

lemma free_list_nonnull: "free_list s xs \<Longrightarrow> null \<notin> set xs"
  unfolding free_list_def using path_nonnull [of "load64 (mem s)" "head s" xs null] by simp

lemma free_list_frame:
  assumes "free_list s xs" and "same_outside P (mem s) m'" and "P \<inter> set xs = {}"
  shows "free_list (s\<lparr>mem := m'\<rparr>) xs"
proof -
  have "load64 m' x = load64 (mem s) x" if "x \<in> set xs" for x
  proof -
    have "page_aligned x" using that assms(1) by (auto simp: free_list_def)
    moreover have "x \<notin> P" using that assms(3) by auto
    ultimately show ?thesis
      using same_outside_load64 [OF assms(2), of x] by (simp add: page_aligned_8)
  qed
  then have "path (load64 m') (head s) xs null = path (load64 (mem s)) (head s) xs null"
    by (intro path_cong)
  with assms(1) show ?thesis by (simp add: free_list_def)
qed

lemma free_set_frame:
  assumes "pmm_ok s" and "same_outside P (mem s) m'" and "P \<inter> free_set s = {}"
  shows "pmm_ok (s\<lparr>mem := m'\<rparr>)" and "free_set (s\<lparr>mem := m'\<rparr>) = free_set s"
    and "free_list s xs \<Longrightarrow> free_list (s\<lparr>mem := m'\<rparr>) xs"
proof -
  show f: "free_list (s\<lparr>mem := m'\<rparr>) xs" if "free_list s xs" for xs
    using free_list_frame [OF that assms(2)] assms(3) free_set_eq [OF that] by simp
  obtain xs where xs: "free_list s xs" using assms(1) by (auto simp: pmm_ok_def)
  show "pmm_ok (s\<lparr>mem := m'\<rparr>)" using f [OF xs] assms(1) by (auto simp: pmm_ok_def)
  show "free_set (s\<lparr>mem := m'\<rparr>) = free_set s"
    using free_set_eq [OF f [OF xs]] free_set_eq [OF xs] by simp
qed

section \<open>Allocation and release\<close>

lemma pmm_alloc_step:
  assumes "free_list s (x # xs)"
  shows "pmm_alloc_singlep s = Inr (x - hhdm s, s\<lparr>head := load64 (mem s) x\<rparr>)
    \<and> free_list (s\<lparr>head := load64 (mem s) x\<rparr>) xs"
  using assms by (auto simp: pmm_alloc_singlep_def free_list_def)

lemma pmm_alloc_empty: "free_list s [] \<Longrightarrow> pmm_alloc_singlep s = Inl Halted"
  by (simp add: pmm_alloc_singlep_def free_list_def)

lemma pmm_free_step:
  assumes "free_list s xs" and "page_aligned p" and "p \<noteq> null" and "p \<notin> set xs"
  shows "pmm_free_singlep p s = Inr (s\<lparr>mem := store64 (mem s) p (head s), head := p\<rparr>)
    \<and> free_list (s\<lparr>mem := store64 (mem s) p (head s), head := p\<rparr>) (p # xs)"
  using assms cell0.chain_push [of "mem s" "head s" xs p]
  by (auto simp: pmm_free_singlep_def free_list_def page_aligned_8)

text \<open>Allocation writes no memory and moves only the head.\<close>

lemma pmm_alloc_frame [frame_simps]:
  "pmm_alloc_singlep s = Inr (p, s') \<Longrightarrow>
    mem s' = mem s \<and> hhdm s' = hhdm s \<and> kmalloc_cache s' = kmalloc_cache s
    \<and> kernel_pagemap s' = kernel_pagemap s"
  by (auto simp: pmm_alloc_singlep_def split: if_splits)

lemma pmm_alloc_inverse:
  assumes "pmm_alloc_singlep s = Inr (p, s')" and "free_list s ys"
  shows "\<exists>xs. ys = (p + hhdm s) # xs \<and> free_list s' xs"
proof -
  have h: "head s \<noteq> null" "p = head s - hhdm s" "s' = s\<lparr>head := load64 (mem s) (head s)\<rparr>"
    using assms(1) by (auto simp: pmm_alloc_singlep_def split: if_splits)
  then obtain xs where "ys = head s # xs" using assms(2) chain_nonnull by (metis free_list_def)
  with h assms(2) pmm_alloc_step [of s "head s" xs] show ?thesis by auto
qed

section \<open>The page pool\<close>

text \<open>
  Pages as the callers use them: taken by physical address, given back through the direct
  map, as \<open>vmm_region_dealloc\<close> does.
\<close>

definition pool_free :: "u64 \<Rightarrow> kstate \<Rightarrow> kstate res" where
  "pool_free p s = pmm_free_singlep (p + hhdm s) s"

definition free_phys :: "kstate \<Rightarrow> u64 set" where
  "free_phys s = (\<lambda>x. x - hhdm s) ` free_set s"

definition phys_page :: "kstate \<Rightarrow> u64 \<Rightarrow> bool" where
  "phys_page s p \<longleftrightarrow> page_aligned p \<and> p + hhdm s \<noteq> null"

interpretation page_pool: resource_pool pmm_ok free_phys pmm_alloc_singlep pool_free phys_page
proof unfold_locales
  fix s s' :: kstate and r
  assume ok: "pmm_ok s" and a: "pmm_alloc_singlep s = Inr (r, s')"
  then obtain xs where xs: "free_list s ((r + hhdm s) # xs)" "free_list s' xs"
    unfolding pmm_ok_def by (metis pmm_alloc_inverse)
  have f: "hhdm s' = hhdm s" using pmm_alloc_frame [OF a] by simp
  have "r + hhdm s \<notin> set xs" using free_list_distinct [OF xs(1)] by simp
  then have "r \<notin> (\<lambda>x. x - hhdm s) ` set xs" by (metis (no_types, lifting) diff_add_cancel imageE)
  then show "r \<in> free_phys s \<and> free_phys s' = free_phys s - {r} \<and> pmm_ok s' \<and> phys_page s' = phys_page s"
    using xs ok f
    by (auto simp: free_phys_def free_set_eq pmm_ok_def phys_page_def fun_eq_iff)
next
  fix s :: kstate
  assume "pmm_ok s" and "free_phys s \<noteq> {}"
  then obtain xs where xs: "free_list s xs" "xs \<noteq> []"
    unfolding pmm_ok_def free_phys_def by (metis free_set_eq image_is_empty list.set(1))
  then obtain y ys where "xs = y # ys" by (cases xs) auto
  with xs pmm_alloc_step show "\<exists>r s'. pmm_alloc_singlep s = Inr (r, s')" by blast
next
  fix s s' :: kstate and r
  assume ok: "pmm_ok s" and v: "phys_page s r" and n: "r \<notin> free_phys s"
    and g: "pool_free r s = Inr s'"
  from ok obtain xs where xs: "free_list s xs" by (auto simp: pmm_ok_def)
  have "r + hhdm s \<notin> set xs"
    using n xs by (auto simp: free_phys_def free_set_eq image_iff)
  moreover have "page_aligned (r + hhdm s)"
    using ok v by (auto simp: pmm_ok_def phys_page_def aligned_add)
  ultimately have s': "s' = s\<lparr>mem := store64 (mem s) (r + hhdm s) (head s), head := r + hhdm s\<rparr>"
      "free_list s' ((r + hhdm s) # xs)"
    using pmm_free_step [OF xs] v g by (auto simp: pool_free_def phys_page_def)
  then have "free_set s' = insert (r + hhdm s) (free_set s)"
    using free_set_eq [OF xs] free_set_eq [OF s'(2)] by simp
  with s' ok show "free_phys s' = insert r (free_phys s) \<and> pmm_ok s' \<and> phys_page s' = phys_page s"
    by (auto simp: free_phys_def pmm_ok_def phys_page_def fun_eq_iff)
next
  fix s :: kstate and r
  assume ok: "pmm_ok s" and "r \<in> free_phys s"
  then obtain xs x where "free_list s xs" "x \<in> set xs" "r = x - hhdm s"
    by (auto simp: free_phys_def free_set_def)
  with ok free_list_nonnull [of s xs] show "phys_page s r"
    by (auto simp: phys_page_def pmm_ok_def free_list_def aligned_diff)
qed

section \<open>Building the list from the memory map\<close>

definition usable_pages :: "u64 \<Rightarrow> memmap_entry \<Rightarrow> u64 list" where
  "usable_pages h e =
     map (\<lambda>k. me_base e + of_nat (4096 * k) + h) [0..<(unat (me_length e) + 4095) div 4096]"

definition memmap_pages :: "u64 \<Rightarrow> memmap_entry list \<Rightarrow> u64 list" where
  "memmap_pages h es = concat (map (\<lambda>e. if me_type e = USABLE then usable_pages h e else []) es)"

definition valid_usable :: "memmap_entry \<Rightarrow> bool" where
  "valid_usable e \<longleftrightarrow>
     page_aligned (me_base e) \<and> 0 < me_length e \<and> me_length e \<le> - 0x1000"

definition valid_memmap :: "u64 \<Rightarrow> memmap_entry list \<Rightarrow> bool" where
  "valid_memmap h es \<longleftrightarrow> page_aligned h \<and> (\<forall>e \<in> set es. me_type e = USABLE \<longrightarrow> valid_usable e)
     \<and> distinct (memmap_pages h es) \<and> null \<notin> set (memmap_pages h es)"

lemma usable_pages_aligned:
  "page_aligned h \<Longrightarrow> valid_usable e \<Longrightarrow> x \<in> set (usable_pages h e) \<Longrightarrow> page_aligned x"
  using aligned_of_nat [of 12]
  by (auto simp: usable_pages_def valid_usable_def intro!: aligned_add)

lemma link_pages_ok:
  assumes "path (load64 (mem s)) (head s) ys prev" and "prev \<noteq> null"
    and "new = map (\<lambda>k. base + of_nat (4096 * k) + hhdm s) [i..<i + n]"
    and "j = of_nat (4096 * i)" and "i + n = (unat len + 4095) div 4096" and "unat len \<le> 2 ^ 64 - 4096"
    and "distinct (ys @ prev # new)" and "\<forall>x \<in> set (ys @ prev # new). page_aligned x \<and> x \<noteq> null"
  shows "\<exists>ys' prev' m'. link_pages base len j prev s = Inr (prev', s\<lparr>mem := m'\<rparr>) \<and> prev' \<noteq> null
    \<and> ys' @ [prev'] = ys @ prev # new \<and> path (load64 m') (head s) ys' prev'
    \<and> same_outside (set (prev # new)) (mem s) m'"
  using assms
proof (induction n arbitrary: i j ys prev s new)
  case 0
  have "4096 * i < 2 ^ 64" using 0 by simp
  then have "unat j = 4096 * i" using 0(4) by (simp only: unat_of_nat_u64)
  moreover have "unat len \<le> 4096 * i" using 0 by simp
  ultimately have "\<not> j < len" by (simp add: word_less_nat_alt)
  with 0 show ?case by (intro exI [of _ ys] exI [of _ prev] exI [of _ "mem s"]) (simp add: link_pages.simps)
next
  case (Suc n)
  define cur where "cur = base + j + hhdm s"
  define s' where "s' = s\<lparr>mem := store64 (mem s) prev cur\<rparr>"
  define new' where "new' = map (\<lambda>k. base + of_nat (4096 * k) + hhdm s) [Suc i..<Suc i + n]"
  have new: "new = cur # new'" using Suc.prems(3,4) by (simp add: cur_def new'_def upt_rec)
  have il: "4096 * i < unat len" using Suc.prems(5) by simp
  then have "4096 * i < 2 ^ 64" using unat_u64_less [of len] by simp
  then have ui: "unat j = 4096 * i" using Suc.prems(4) by (simp only: unat_of_nat_u64)
  with il have lt: "j < len" by (simp add: word_less_nat_alt)
  have nw: "\<not> j + 0x1000 < j" using ui il Suc.prems(6) by (intro add_no_wrap) simp
  have p: "path (load64 (mem s')) (head s') (ys @ [prev]) cur"
    using Suc.prems cell0.path_frame [of ys prev "mem s" cur "head s" prev]
    by (auto simp: s'_def page_aligned_8)
  have "\<exists>ys' prev' m'. link_pages base len (j + 0x1000) cur s' = Inr (prev', s'\<lparr>mem := m'\<rparr>) \<and> prev' \<noteq> null
    \<and> ys' @ [prev'] = (ys @ [prev]) @ cur # new' \<and> path (load64 m') (head s') ys' prev'
    \<and> same_outside (set (cur # new')) (mem s') m'"
    using Suc.prems new
    by (intro Suc.IH [OF p, where i = "Suc i"]) (auto simp: s'_def new'_def)
  then obtain ys' prev' m' where *: "link_pages base len (j + 0x1000) cur s' = Inr (prev', s'\<lparr>mem := m'\<rparr>)" 
     "prev' \<noteq> null" "ys' @ [prev'] = (ys @ [prev]) @ cur # new'" "path (load64 m') (head s) ys' prev'"
     "same_outside (set (cur # new')) (mem s') m'"
     by (auto simp: s'_def)
  have "same_outside {prev} (mem s) (mem s')"
    using same_outside_store64 [of prev "mem s" cur] Suc.prems(8) by (simp add: s'_def page_aligned_8)
  then have "same_outside (set (prev # new)) (mem s) m'"
    by (rule same_outside_mono [OF same_outside_trans [OF _ *(5)]]) (auto simp: new)
  with * lt nw Suc.prems(2) show ?case
    by (subst link_pages.simps) (auto simp: Let_def cur_def [symmetric] s'_def new)
qed
lemma le_minus_page: "len \<le> - 0x1000 \<Longrightarrow> unat len \<le> 2 ^ 64 - 4096" for len :: u64
  by (simp add: word_le_nat_alt)

text \<open>The state of the list between two entries: built from the pages \<open>xs\<close>.\<close>

definition built :: "u64 \<Rightarrow> kstate \<Rightarrow> u64 list \<Rightarrow> bool" where
  "built prev s xs \<longleftrightarrow> free_list s xs \<and> prev = (if xs = [] then null else last xs)"

lemma pmm_entry_usable:
  assumes "built prev s xs" and "me_type e = USABLE" and "valid_usable e"
    and "distinct (xs @ usable_pages (hhdm s) e)" and "null \<notin> set (usable_pages (hhdm s) e)"
    and "page_aligned (hhdm s)"
  shows "\<exists>prev' s'. pmm_entry e prev s = Inr (prev', s') \<and> built prev' s' (xs @ usable_pages (hhdm s) e)
    \<and> hhdm s' = hhdm s \<and> same_outside (set (xs @ usable_pages (hhdm s) e)) (mem s) (mem s')"
proof -
  define new where "new = usable_pages (hhdm s) e"
  define n where "n = (unat (me_length e) + 4095) div 4096"
  have len: "0 < unat (me_length e)" "unat (me_length e) \<le> 2 ^ 64 - 4096"
    using assms(3) le_minus_page by (auto simp: valid_usable_def word_less_nat_alt)
  have al: "\<forall>x \<in> set new. page_aligned x \<and> x \<noteq> null"
    using assms(3,5,6) usable_pages_aligned by (auto simp: new_def)
  have nn: "new = map (\<lambda>k. me_base e + of_nat (4096 * k) + hhdm s) [0..<0 + n]"
    by (simp add: new_def usable_pages_def n_def)
  have "\<exists>ys' prev' s'. link_pages (me_base e) (me_length e) 0 prev
        (if head s = null then s\<lparr>head := me_base e + hhdm s\<rparr> else s) = Inr (prev', s') \<and> prev' \<noteq> null
      \<and> ys' @ [prev'] = xs @ new \<and> path (load64 (mem s')) (head s') ys' prev'
      \<and> hhdm s' = hhdm s \<and> same_outside (set (xs @ new)) (mem s) (mem s')"
  proof (cases "xs = []")
    case True
    then have h: "head s = null" "prev = null" using assms(1) by (auto simp: built_def free_list_def)
    define cur where "cur = me_base e + hhdm s"
    define new' where "new' = map (\<lambda>k. me_base e + of_nat (4096 * k) + hhdm s) [1..<1 + (n - 1)]"
    have "0 < n" using len by (simp add: n_def)
    then have new: "new = cur # new'" by (simp add: nn new'_def cur_def upt_rec)
    have "\<exists>ys' prev' m'. link_pages (me_base e) (me_length e) (0 + 0x1000) cur (s\<lparr>head := cur\<rparr>)
        = Inr (prev', (s\<lparr>head := cur\<rparr>)\<lparr>mem := m'\<rparr>)
      \<and> prev' \<noteq> null \<and> ys' @ [prev'] = [] @ cur # new' \<and> path (load64 m') (head (s\<lparr>head := cur\<rparr>)) ys' prev'
      \<and> same_outside (set (cur # new')) (mem (s\<lparr>head := cur\<rparr>)) m'"
      using assms(4) al new len \<open>0 < n\<close>
      by (intro link_pages_ok [where i = 1 and n = "n - 1"]) (auto simp: new'_def n_def new_def [symmetric] True)
    then obtain ys' prev' m' where *: "link_pages (me_base e) (me_length e) 0x1000 cur (s\<lparr>head := cur\<rparr>)
        = Inr (prev', s\<lparr>head := cur, mem := m'\<rparr>)"
      "prev' \<noteq> null" "ys' @ [prev'] = cur # new'" "path (load64 m') cur ys' prev'"
      "same_outside (set (cur # new')) (mem s) m'" by auto
    have "0 < me_length e" using len by (simp add: word_less_nat_alt)
    with * h True new show ?thesis
      by (subst link_pages.simps) (auto simp: Let_def cur_def [symmetric])
  next
    case False
    then obtain ys where ys: "xs = ys @ [prev]" using assms(1)
      by (metis append_butlast_last_id built_def)
    then have p: "path (load64 (mem s)) (head s) ys prev" "prev \<noteq> null"
      and al': "\<forall>x \<in> set xs. page_aligned x \<and> x \<noteq> null"
      using assms(1) free_list_nonnull [of s xs] by (auto simp: built_def free_list_def)
    have al2: "\<forall>x \<in> set (ys @ prev # new). page_aligned x \<and> x \<noteq> null" using al al' ys by auto
    have d2: "distinct (ys @ prev # new)" using assms(4) ys by (auto simp: new_def)
    obtain ys' prev' m' where "link_pages (me_base e) (me_length e) 0 prev s = Inr (prev', s\<lparr>mem := m'\<rparr>)"
      "prev' \<noteq> null" "ys' @ [prev'] = ys @ prev # new" "path (load64 m') (head s) ys' prev'"
      "same_outside (set (prev # new)) (mem s) m'"
      using link_pages_ok [OF p nn _ _ len(2) d2 al2, of 0] by (auto simp: n_def)
    moreover have "head s \<noteq> null" using p by (cases ys) auto
    moreover have "same_outside (set (xs @ new)) (mem s) m'"
      by (rule same_outside_mono [OF calculation(5)]) (auto simp: ys)
    ultimately show ?thesis using ys
      by (intro exI [of _ ys'] exI [of _ prev'] exI [of _ "s\<lparr>mem := m'\<rparr>"]) simp
  qed
  then obtain ys' prev' s' where *: "link_pages (me_base e) (me_length e) 0 prev
        (if head s = null then s\<lparr>head := me_base e + hhdm s\<rparr> else s) = Inr (prev', s')" "prev' \<noteq> null"
      "ys' @ [prev'] = xs @ new" "path (load64 (mem s')) (head s') ys' prev'"
      "hhdm s' = hhdm s" "same_outside (set (xs @ new)) (mem s) (mem s')" by blast
  define s'' where "s'' = s'\<lparr>mem := store64 (mem s') prev' null\<rparr>"
  have al2: "\<forall>x \<in> set (ys' @ [prev']). page_aligned x"
    unfolding *(3) using al assms(1) by (auto simp: built_def free_list_def)
  have d: "distinct (ys' @ [prev'])" unfolding *(3) using assms(4) by (simp add: new_def)
  have "path (load64 (mem s'')) (head s'') (ys' @ [prev']) null"
    using *(2,4) al2 d cell0.path_frame [of ys' prev' "mem s'" null "head s'" prev']
    by (auto simp: s''_def page_aligned_8)
  with al2 have "free_list s'' (xs @ new)" by (simp add: *(3) free_list_def)
  moreover have "last (xs @ new) = prev'" "xs @ new \<noteq> []" by (simp_all flip: *(3))
  moreover have "same_outside (set (xs @ new)) (mem s) (mem s'')"
  proof -
    have "prev' \<in> set (xs @ new)" unfolding *(3) [symmetric] by simp
    moreover have "same_outside {prev'} (mem s') (mem s'')"
      using same_outside_store64 [of prev' "mem s'" null] al2 by (simp add: s''_def page_aligned_8)
    ultimately show ?thesis
      by (intro same_outside_mono [OF same_outside_trans [OF *(6)]]) auto
  qed
  ultimately show ?thesis using * assms(2)
    by (auto simp: pmm_entry_def Let_def s''_def built_def new_def)
qed

lemma pmm_entries_ok:
  assumes "built prev s xs" and "\<forall>e \<in> set es. me_type e = USABLE \<longrightarrow> valid_usable e"
    and "distinct (xs @ memmap_pages (hhdm s) es)" and "null \<notin> set (memmap_pages (hhdm s) es)"
    and "page_aligned (hhdm s)"
  shows "\<exists>prev' s'. pmm_entries es prev s = Inr (prev', s')
    \<and> built prev' s' (xs @ memmap_pages (hhdm s) es) \<and> hhdm s' = hhdm s
    \<and> same_outside (set (xs @ memmap_pages (hhdm s) es)) (mem s) (mem s')"
  using assms
proof (induction es arbitrary: prev s xs)
  case Nil
  then show ?case by (auto simp: memmap_pages_def)
next
  case (Cons e es)
  show ?case
  proof (cases "me_type e = USABLE")
    case False
    then have "pmm_entry e prev s = Inr (prev, s)"
      by (cases "me_type e") (auto simp: pmm_entry_def)
    with False Cons.prems Cons.IH [of prev s xs] show ?thesis by (auto simp: memmap_pages_def)
  next
    case True
    define ps where "ps = usable_pages (hhdm s) e"
    have m: "memmap_pages (hhdm s) (e # es) = ps @ memmap_pages (hhdm s) es"
      using True by (simp add: memmap_pages_def ps_def)
    obtain prev' s' where 1: "pmm_entry e prev s = Inr (prev', s')" "built prev' s' (xs @ ps)"
      "hhdm s' = hhdm s" "same_outside (set (xs @ ps)) (mem s) (mem s')"
      using pmm_entry_usable [OF Cons.prems(1) True _ _ _ Cons.prems(5)] Cons.prems(2-4) True
      unfolding m ps_def [symmetric] by (metis (no_types, lifting) append_assoc distinct_append
        in_set_conv_decomp list.set_intros(1) set_append UnCI)
    obtain prev'' s'' where 2: "pmm_entries es prev' s' = Inr (prev'', s'')"
      "built prev'' s'' ((xs @ ps) @ memmap_pages (hhdm s) es)" "hhdm s'' = hhdm s"
      "same_outside (set ((xs @ ps) @ memmap_pages (hhdm s) es)) (mem s') (mem s'')"
      using Cons.IH [OF 1(2)] Cons.prems m 1(3) by auto
    have "same_outside (set (xs @ ps @ memmap_pages (hhdm s) es)) (mem s) (mem s'')"
      by (rule same_outside_mono [OF same_outside_trans [OF 1(4) 2(4)]]) auto
    with 1 2 m show ?thesis by simp
  qed
qed

lemma pmm_populate_ok:
  assumes "valid_memmap (hhdm s) es" and "head s = null"
  shows "\<exists>s'. pmm_populate es s = Inr s' \<and> free_list s' (memmap_pages (hhdm s) es) \<and> hhdm s' = hhdm s
    \<and> same_outside (set (memmap_pages (hhdm s) es)) (mem s) (mem s')"
proof -
  have "built null s []" using assms(2) by (simp add: built_def free_list_def)
  from pmm_entries_ok [OF this, of es] assms(1) show ?thesis
    by (auto simp: valid_memmap_def pmm_populate_def built_def)
qed

text \<open>The other globals are not touched.\<close>

definition same_globals :: "kstate \<Rightarrow> kstate \<Rightarrow> bool" where
  "same_globals s s' \<longleftrightarrow> hhdm s' = hhdm s \<and> kmalloc_cache s' = kmalloc_cache s
     \<and> kernel_pagemap s' = kernel_pagemap s
     \<and> kerneL_higher_half_size s' = kerneL_higher_half_size s"

lemma same_globals_trans: "same_globals s t \<Longrightarrow> same_globals t u \<Longrightarrow> same_globals s u"
  by (simp add: same_globals_def)

lemma link_pages_frame:
  "link_pages base len j prev s = Inr (prev', s') \<Longrightarrow> same_globals s s'"
proof (induction base len j prev s rule: link_pages.induct)
  case (1 base len j prev s)
  define t where "t = (if prev \<noteq> null then s\<lparr>mem := store64 (mem s) prev (base + j + hhdm s)\<rparr> else s)"
  show ?case
  proof (cases "j < len \<and> \<not> j + 0x1000 < j")
    case True
    have "link_pages base len (j + 0x1000) (base + j + hhdm s) t = Inr (prev', s')"
      using "1.prems" True by (subst (asm) link_pages.simps) (simp add: Let_def t_def)
    then have "same_globals t s'" using "1.IH" [OF _ refl refl] True by (simp add: t_def)
    then show ?thesis by (simp add: t_def same_globals_def split: if_splits)
  next
    case False
    with "1.prems" show ?thesis
      by (subst (asm) link_pages.simps) (auto simp: Let_def same_globals_def split: if_splits)
  qed
qed

lemma pmm_entry_frame: "pmm_entry e prev s = Inr (prev', s') \<Longrightarrow> same_globals s s'"
  by (cases "me_type e")
    (auto simp: pmm_entry_def Let_def andthen_eq_Inr same_globals_def split: if_splits
      dest!: link_pages_frame)

lemma pmm_entries_frame: "pmm_entries es prev s = Inr (prev', s') \<Longrightarrow> same_globals s s'"
proof (induction es arbitrary: prev s)
  case (Cons e es)
  then show ?case
    by (auto simp: andthen_eq_Inr dest!: pmm_entry_frame intro: same_globals_trans)
qed (simp add: same_globals_def)

lemma pmm_populate_frame: "pmm_populate es s = Inr s' \<Longrightarrow> same_globals s s'"
  by (auto simp: pmm_populate_def andthen_eq_Inr dest: pmm_entries_frame)

lemma count_nodes_chain:
  "chain (load64 m) p xs \<Longrightarrow> count_nodes m p c = Some (c + of_nat (length xs))"
proof (induction xs arbitrary: p c)
  case Nil
  then show ?case by (subst count_nodes.simps) simp
next
  case (Cons x xs)
  then show ?case by (subst count_nodes.simps) (simp add: add.assoc add.commute)
qed

end
