(* ===== verification/Slab.thy ===== *)
theory Slab
  imports Pmm
begin

text \<open>
  The small-object allocator, the second part of \<open>kernel/src/pmm.c\<close>. A slab is a page that
  starts with a \<open>struct Header\<close> (object size at offset 0, next slab at 8, first free object
  at 16) and is followed by objects of one sz; the free objects are linked through their
  first cell. A cache is the list of slabs of one object size.
\<close>

section \<open>The operations\<close>

text \<open>
  The loop that links the objects of a fresh slab: \<open>prev\<close> is the last object linked, \<open>i\<close>
  the number of the next, and the last argument counts the rounds left.
\<close>

fun thread_objects :: "memory \<Rightarrow> u64 \<Rightarrow> u64 \<Rightarrow> u64 \<Rightarrow> nat \<Rightarrow> nat \<Rightarrow> memory" where
  "thread_objects m start sz prev i 0 = m"
| "thread_objects m start sz prev i (Suc n) =
     (let new = start + of_nat i * sz
      in thread_objects (store64 m prev new) start sz new (Suc i) n)"

definition obj_amount :: "u64 \<Rightarrow> nat" where
  "obj_amount sz = unat ((4096 - 24) div sz)"

definition format_slab :: "memory \<Rightarrow> u64 \<Rightarrow> u64 \<Rightarrow> memory" where
  "format_slab m h sz =
     (let m1 = memset m h 0 4096;
          m2 = store64 m1 h sz;
          start = h + 24;
          m3 = store64 m2 (h + 16) start
      in thread_objects m3 start sz start 1 (obj_amount sz - 1))"

text \<open>Dividing by a zero object size is a processor exception, which panics.\<close>

definition make_slab :: "u64 \<Rightarrow> kstate \<Rightarrow> (u64 \<times> kstate) res" where
  "make_slab sz s =
     andthen (pmm_alloc_singlep s) (\<lambda>(page, s1).
       if sz = 0 then Inl Panicked
       else let h = page + hhdm s1 in Inr (h, s1\<lparr>mem := format_slab (mem s1) h sz\<rparr>))"

definition init_cache :: "nat \<Rightarrow> u64 \<Rightarrow> kstate \<Rightarrow> kstate res" where
  "init_cache i sz s =
     (let s0 = s\<lparr>kmalloc_cache := (kmalloc_cache s)[i := (kmalloc_cache s ! i)\<lparr>csize := sz\<rparr>]\<rparr>
      in andthen (pmm_alloc_singlep s0) (\<lambda>(page, s1).
           if sz = 0 then Inl Panicked
           else let h = page + hhdm s1
                in Inr (s1\<lparr>mem := format_slab (mem s1) h sz,
                           kmalloc_cache := (kmalloc_cache s1)[i := (kmalloc_cache s1 ! i)\<lparr>slabs := h\<rparr>]\<rparr>)))"

definition init_slabs :: "kstate \<Rightarrow> kstate res" where
  "init_slabs s =
     andthen (init_cache 0 8 s) (\<lambda>s. andthen (init_cache 1 16 s) (\<lambda>s.
     andthen (init_cache 2 32 s) (\<lambda>s. andthen (init_cache 3 64 s) (\<lambda>s.
     andthen (init_cache 4 128 s) (\<lambda>s. andthen (init_cache 5 256 s) (\<lambda>s.
     andthen (init_cache 6 512 s) (init_cache 7 1024)))))))"

text \<open>All of \<open>pmm_init\<close>: build the page list, count it, set the caches up.\<close>

definition pmm_init :: "memmap_entry list \<Rightarrow> kstate \<Rightarrow> (u64 \<times> kstate) res" where
  "pmm_init es s =
     andthen (pmm_populate es s) (\<lambda>s1.
       case count_nodes (mem s1) (head s1) 0 of
         None \<Rightarrow> Inl Diverges
       | Some count \<Rightarrow> andthen (init_slabs s1) (\<lambda>s2. Inr (count, s2)))"

definition next_pow2 :: "u64 \<Rightarrow> u64" where
  "next_pow2 v0 =
     (let v = v0 - 1;
          v = v OR drop_bit 1 v;
          v = v OR drop_bit 2 v;
          v = v OR drop_bit 4 v;
          v = v OR drop_bit 8 v;
          v = v OR drop_bit 16 v
      in v + 1)"

text \<open>The caches are searched in order; the index stands for the pointer to the cache.\<close>

fun first_big_cache :: "cache list \<Rightarrow> nat \<Rightarrow> u64 \<Rightarrow> nat option" where
  "first_big_cache [] i sz = None"
| "first_big_cache (c # cs) i sz =
     (if csize c \<ge> sz then Some i else first_big_cache cs (Suc i) sz)"

definition search_for_bigenoughcache :: "u64 \<Rightarrow> kstate \<Rightarrow> nat option" where
  "search_for_bigenoughcache sz s = first_big_cache (kmalloc_cache s) 0 sz"

text \<open>
  The search of \<open>slab_alloc\<close>: the header where the loop stops, either one with a free object
  or the last one. It returns only if the slab list ends.
\<close>

partial_function (option) find_slab :: "memory \<Rightarrow> u64 \<Rightarrow> u64 option" where
  "find_slab m h =
     (if h = null then Some null
      else if load64 m (h + 16) \<noteq> null then Some h
      else if load64 m (h + 8) = null then Some h
      else find_slab m (load64 m (h + 8)))"

definition slab_alloc :: "cache \<Rightarrow> kstate \<Rightarrow> (u64 \<times> kstate) res" where
  "slab_alloc c s =
     (case find_slab (mem s) (slabs c) of
        None \<Rightarrow> Inl Diverges
      | Some h \<Rightarrow>
          if h \<noteq> null \<and> load64 (mem s) (h + 16) \<noteq> null then
            let him = load64 (mem s) (h + 16)
            in Inr (him, s\<lparr>mem := store64 (mem s) (h + 16) (load64 (mem s) him)\<rparr>)
          else
            andthen (make_slab (csize c) s) (\<lambda>(new_slab, s1).
              if h = null then Inl PageFault
              else let m1 = store64 (mem s1) (h + 8) new_slab;
                       we = load64 m1 (new_slab + 16);
                       m2 = store64 m1 (new_slab + 16) (load64 m1 we)
                   in Inr (we, s1\<lparr>mem := m2\<rparr>)))"

text \<open>The last cache whose object size is the slab's (the loop of \<open>free\<close> does not stop early).\<close>

fun right_cache :: "cache list \<Rightarrow> u64 \<Rightarrow> cache option \<Rightarrow> cache option" where
  "right_cache [] sz r = r"
| "right_cache (c # cs) sz r = right_cache cs sz (if csize c = sz then Some c else r)"

text \<open>
  The final loop of \<open>free\<close>: whether \<open>h\<close> is in the slab list, and the last header seen.
\<close>

partial_function (option) find_header :: "memory \<Rightarrow> u64 \<Rightarrow> u64 \<Rightarrow> u64 \<Rightarrow> (bool \<times> u64) option" where
  "find_header m h prev cur =
     (if cur \<noteq> null then
        if cur = h then Some (True, prev) else find_header m h cur (load64 m (cur + 8))
      else Some (False, prev))"

definition free_obj :: "u64 \<Rightarrow> kstate \<Rightarrow> kstate res" where
  "free_obj addr s =
     (if addr = 0 then Inr s
      else let h = addr AND NOT 0xFFF in
        case right_cache (kmalloc_cache s) (load64 (mem s) h) None of
          None \<Rightarrow> Inr s
        | Some c \<Rightarrow>
            let m1 = store64 (mem s) addr (load64 (mem s) (h + 16));
                m2 = store64 m1 (h + 16) addr
            in case find_header m2 h null (slabs c) of
                 None \<Rightarrow> Inl Diverges
               | Some (True, prev) \<Rightarrow> Inr (s\<lparr>mem := m2\<rparr>)
               | Some (False, prev) \<Rightarrow>
                   if prev = null then Inl PageFault
                   else Inr (s\<lparr>mem := store64 m2 (prev + 8) h\<rparr>))"

section \<open>The objects of a slab\<close>

definition good_size :: "u64 \<Rightarrow> bool" where
  "good_size sz \<longleftrightarrow> aligned 3 sz \<and> 8 \<le> sz \<and> sz \<le> 1024"

definition slot :: "u64 \<Rightarrow> u64 \<Rightarrow> nat \<Rightarrow> u64" where
  "slot h sz k = h + 24 + of_nat k * sz"

definition slots :: "u64 \<Rightarrow> u64 \<Rightarrow> u64 list" where
  "slots h sz = map (slot h sz) [0..<obj_amount sz]"

lemma good_size_unat: "good_size sz \<Longrightarrow> 8 \<le> unat sz \<and> unat sz \<le> 1024"
  by (simp add: good_size_def word_le_nat_alt)

lemma obj_amount_eq: "obj_amount sz = 4072 div unat sz"
  by (simp add: obj_amount_def unat_div)

lemma obj_amount_pos: "good_size sz \<Longrightarrow> 3 \<le> obj_amount sz"
  using good_size_unat [of sz] div_le_mono2 [of "unat sz" 1024 4072]
  by (simp add: obj_amount_eq)

lemma slot_fits:
  assumes "k < obj_amount sz"
  shows "24 + k * unat sz + unat sz \<le> 4096"
proof -
  have "Suc k * unat sz \<le> 4072 div unat sz * unat sz"
    using assms by (intro mult_le_mono1) (simp add: obj_amount_eq)
  also have "\<dots> \<le> 4072" by simp
  finally show ?thesis by simp
qed

lemma slot_offset:
  assumes "good_size sz" and "k < obj_amount sz"
  shows "unat (slot h sz k - h) = 24 + k * unat sz"
proof -
  have "slot h sz k - h = of_nat (24 + k * unat sz)" by (simp add: slot_def)
  moreover have "24 + k * unat sz < 2 ^ 64" using slot_fits [OF assms(2)] by simp
  ultimately show ?thesis by (simp only: unat_of_nat_u64)
qed

lemma slot_aligned:
  assumes "page_aligned h" and "good_size sz"
  shows "aligned 3 (slot h sz k)"
proof -
  have "aligned 3 (of_nat k * sz)"
    using assms(2) by (intro aligned_mult) (simp_all add: good_size_def)
  moreover have "aligned 3 (24 :: u64)" by (simp add: aligned_def)
  ultimately show ?thesis
    unfolding slot_def using page_aligned_8 [OF assms(1)] by (intro aligned_add) auto
qed

lemma slot_page:
  assumes "page_aligned h" and "good_size sz" and "k < obj_amount sz"
  shows "page_of (slot h sz k) = h"
  using slot_offset [OF assms(2,3), of h] slot_fits [OF assms(3)] good_size_unat [OF assms(2)]
  by (simp add: page_of_iff [OF assms(1)])

lemma slot_inj:
  assumes "good_size sz" and "k < obj_amount sz" and "l < obj_amount sz"
  shows "slot h sz k = slot h sz l \<longleftrightarrow> k = l"
proof
  assume "slot h sz k = slot h sz l"
  then have "k * unat sz = l * unat sz"
    using slot_offset [OF assms(1,2), of h] slot_offset [OF assms(1,3), of h]
    by (metis add_left_imp_eq)
  moreover have "unat sz \<noteq> 0" using good_size_unat [OF assms(1)] by simp
  ultimately show "k = l" by simp
qed simp

lemma slot_not_header:
  assumes "good_size sz" and "k < obj_amount sz" and "unat d < 24"
  shows "slot h sz k \<noteq> h + d"
  using slot_offset [OF assms(1,2), of h] assms(3) by auto

lemma in_slots: "x \<in> set (slots h sz) \<longleftrightarrow> (\<exists>k < obj_amount sz. x = slot h sz k)"
  by (auto simp: slots_def)

lemma slots_facts:
  assumes "page_aligned h" and "good_size sz" and "x \<in> set (slots h sz)"
  shows "aligned 3 x" and "page_of x = h" and "x \<noteq> h" and "x \<noteq> h + 8" and "x \<noteq> h + 16"
    and "unat (x - h) + unat sz \<le> 4096"
proof -
  obtain k where k: "k < obj_amount sz" "x = slot h sz k" using assms(3) by (auto simp: in_slots)
  show "aligned 3 x" "page_of x = h" using assms slot_aligned slot_page k by auto
  show "x \<noteq> h" "x \<noteq> h + 8" "x \<noteq> h + 16"
    using slot_not_header [OF assms(2) k(1), of 0 h] slot_not_header [OF assms(2) k(1), of 8 h]
      slot_not_header [OF assms(2) k(1), of 16 h] k(2) by auto
  show "unat (x - h) + unat sz \<le> 4096"
    using slot_offset [OF assms(2) k(1), of h] slot_fits [OF k(1)] k(2) by simp
qed

lemma distinct_slots: "good_size sz \<Longrightarrow> distinct (slots h sz)"
  by (auto simp: slots_def distinct_map inj_on_def slot_inj)

lemma slots_Cons:
  "good_size sz \<Longrightarrow> slots h sz = (h + 24) # map (slot h sz) [1..<obj_amount sz]"
  using obj_amount_pos [of sz] by (simp add: slots_def upt_rec [of 0] slot_def)

lemma slot_nonnull:
  assumes "page_aligned h" and "good_size sz" and "h \<noteq> null" and "k < obj_amount sz"
  shows "slot h sz k \<noteq> null"
  using slot_page [OF assms(1,2,4)] assms(3) by auto

section \<open>Formatting a slab\<close>

lemma thread_objects_load:
  assumes "good_size sz" and "page_aligned h" and "prev = slot h sz i" and "i + n < obj_amount sz"
    and "aligned 3 a"
  shows "load64 (thread_objects m (h + 24) sz prev (Suc i) n) a
    = (if \<exists>k. i \<le> k \<and> k < i + n \<and> a = slot h sz k then a + sz else load64 m a)"
  using assms
proof (induction n arbitrary: m i prev)
  case 0
  then show ?case by auto
next
  case (Suc n)
  define m' where "m' = store64 m prev (slot h sz (Suc i))"
  have e: "thread_objects m (h + 24) sz prev (Suc i) (Suc n)
      = thread_objects m' (h + 24) sz (slot h sz (Suc i)) (Suc (Suc i)) n"
    by (simp add: m'_def slot_def Let_def)
  have IH: "load64 (thread_objects m' (h + 24) sz (slot h sz (Suc i)) (Suc (Suc i)) n) a
    = (if \<exists>k. Suc i \<le> k \<and> k < Suc i + n \<and> a = slot h sz k then a + sz else load64 m' a)"
    using Suc.prems by (intro Suc.IH) auto
  have "load64 m' a = (if a = slot h sz i then a + sz else load64 m a)"
    using Suc.prems slot_aligned [of h sz i]
    by (auto simp: m'_def load64_store64_aligned) (simp add: slot_def algebra_simps)
  moreover have "(\<exists>k. i \<le> k \<and> k < i + Suc n \<and> a = slot h sz k) \<longleftrightarrow>
      a = slot h sz i \<or> (\<exists>k. Suc i \<le> k \<and> k < Suc i + n \<and> a = slot h sz k)"
    by (metis add_Suc_right add_Suc Suc_leD le_add1 le_antisym less_Suc_eq_le not_less_eq_eq)
  ultimately show ?case unfolding e IH by auto
qed

lemma same_outside_thread:
  assumes "good_size sz" and "page_aligned h" and "prev = slot h sz i" and "i + n < obj_amount sz"
  shows "same_outside {h} m (thread_objects m (h + 24) sz prev (Suc i) n)"
  using assms
proof (induction n arbitrary: m i prev)
  case 0
  then show ?case by simp
next
  case (Suc n)
  define m' where "m' = store64 m prev (slot h sz (Suc i))"
  have e: "thread_objects m (h + 24) sz prev (Suc i) (Suc n)
      = thread_objects m' (h + 24) sz (slot h sz (Suc i)) (Suc (Suc i)) n"
    by (simp add: m'_def slot_def Let_def)
  have 1: "same_outside {h} m m'"
    using same_outside_store64 [of prev m] slot_aligned [of h sz i] slot_page [of h sz i] Suc.prems
    by (simp add: m'_def)
  have "same_outside {h} m' (thread_objects m' (h + 24) sz (slot h sz (Suc i)) (Suc (Suc i)) n)"
    using Suc.prems by (intro Suc.IH) auto
  from same_outside_trans [OF 1 this] show ?case by (simp only: e) simp
qed

lemma path_links:
  assumes "\<And>k. i \<le> k \<Longrightarrow> k < i + n \<Longrightarrow> nxt (f k) = f (Suc k) \<and> f k \<noteq> null"
  shows "path nxt (f i) (map f [i..<i + n]) (f (i + n))"
  using assms
proof (induction n arbitrary: i)
  case 0
  then show ?case by simp
next
  case (Suc n)
  have "path nxt (f (Suc i)) (map f [Suc i..<Suc i + n]) (f (Suc i + n))"
    using Suc.prems by (intro Suc.IH) auto
  moreover have "nxt (f i) = f (Suc i)" "f i \<noteq> null" using Suc.prems [of i] by auto
  ultimately show ?case by (simp add: upt_conv_Cons del: upt_Suc)
qed

text \<open>The representation of a slab: its header and the list of its free objects.\<close>

definition slab_ok :: "memory \<Rightarrow> u64 \<Rightarrow> u64 \<Rightarrow> u64 list \<Rightarrow> bool" where
  "slab_ok m sz h xs \<longleftrightarrow> page_aligned h \<and> h \<noteq> null \<and> load64 m h = sz
     \<and> chain (load64 m) (load64 m (h + 16)) xs \<and> set xs \<subseteq> set (slots h sz)"

lemma header_aligned:
  assumes "page_aligned h"
  shows "aligned 3 h" and "aligned 3 (h + 8)" and "aligned 3 (h + 16)" and "aligned 3 (h + 24)"
    and "page_of (h + 8) = h" and "page_of (h + 16) = h" and "page_of (h + 24) = h"
proof -
  have a: "aligned 3 (8 :: u64)" "aligned 3 (16 :: u64)" "aligned 3 (24 :: u64)"
    by (simp_all add: aligned_def)
  show "aligned 3 h" using assms by (rule page_aligned_8)
  with a show "aligned 3 (h + 8)" "aligned 3 (h + 16)" "aligned 3 (h + 24)"
    by (auto intro: aligned_add)
  show "page_of (h + 8) = h" "page_of (h + 16) = h" "page_of (h + 24) = h"
    using page_of_offset [OF assms] by auto
qed

lemma format_slab_ok:
  assumes "good_size sz" and "page_aligned h" and "h \<noteq> null"
  shows "slab_ok (format_slab m h sz) sz h (slots h sz)"
    and "load64 (format_slab m h sz) (h + 8) = null"
    and "load64 (format_slab m h sz) (h + 16) = h + 24"
    and "same_outside {h} m (format_slab m h sz)"
proof -
  define m1 where "m1 = memset m h 0 4096"
  define m2 where "m2 = store64 m1 h sz"
  define m3 where "m3 = store64 m2 (h + 16) (h + 24)"
  define n where "n = obj_amount sz"
  have n: "0 < n" using obj_amount_pos [OF assms(1)] by (simp add: n_def)
  have fmt: "format_slab m h sz = thread_objects m3 (h + 24) sz (h + 24) (Suc 0) (n - 1)"
    by (simp add: format_slab_def m1_def m2_def m3_def n_def Let_def)
  note ha = header_aligned [OF assms(2)]
  have ld: "load64 (format_slab m h sz) a
      = (if \<exists>k. k < n - 1 \<and> a = slot h sz k then a + sz else load64 m3 a)" if "aligned 3 a" for a
    unfolding fmt using thread_objects_load [OF assms(1,2) _ _ that, of "h + 24" 0 "n - 1" m3] n
    by (simp add: slot_def n_def)
  have hdr: "load64 (format_slab m h sz) (h + d) = load64 m3 (h + d)" if "unat d < 24" "aligned 3 (h + d)" for d
  proof -
    have "\<not> (\<exists>k. k < n - 1 \<and> h + d = slot h sz k)"
      using slot_not_header [OF assms(1) _ that(1), of _ h] by (metis diff_le_self le_trans n_def not_less less_le_not_le)
    then show ?thesis by (simp only: ld [OF that(2)] if_False)
  qed
  have m3: "load64 m3 a = (if a = h + 16 then h + 24 else if a = h then sz else
      if page_of a = h then 0 else load64 m a)" if "aligned 3 a" for a
    using that ha load64_memset_page [OF assms(2) that, of m]
    by (auto simp: m3_def m2_def m1_def load64_store64_aligned)
  show 8: "load64 (format_slab m h sz) (h + 8) = null" using hdr [of 8] m3 ha by simp
  show 16: "load64 (format_slab m h sz) (h + 16) = h + 24" using hdr [of 16] m3 ha by simp
  have 0: "load64 (format_slab m h sz) h = sz" using hdr [of 0] m3 ha by simp
  have "path (load64 (format_slab m h sz)) (slot h sz 0) (map (slot h sz) [0..<0 + (n - 1)]) (slot h sz (0 + (n - 1)))"
    using ld slot_aligned [OF assms(2,1)] slot_nonnull [OF assms(2,1,3)] n
    by (intro path_links) (auto simp: n_def slot_def algebra_simps)
  moreover have "load64 (format_slab m h sz) (slot h sz (n - 1)) = null"
  proof -
    have s: "slot h sz (n - 1) \<in> set (slots h sz)" using n by (auto simp: in_slots n_def intro!: exI [of _ "n - 1"])
    have "\<not> (\<exists>k. k < n - 1 \<and> slot h sz (n - 1) = slot h sz k)"
      using slot_inj [OF assms(1), of "n - 1" _ h] n by (auto simp: n_def)
    then have "load64 (format_slab m h sz) (slot h sz (n - 1)) = load64 m3 (slot h sz (n - 1))"
      by (simp only: ld [OF slots_facts(1) [OF assms(2,1) s]] if_False)
    then show ?thesis
      using m3 [of "slot h sz (n - 1)"] slots_facts [OF assms(2,1) s] by simp
  qed
  moreover have "slots h sz = map (slot h sz) [0..<n - 1] @ [slot h sz (n - 1)]"
    using n by (cases n) (simp_all add: slots_def n_def [symmetric])
  ultimately have "chain (load64 (format_slab m h sz)) (h + 24) (slots h sz)"
    using slot_nonnull [OF assms(2,1,3), of "n - 1"] n by (simp add: slot_def n_def)
  then show "slab_ok (format_slab m h sz) sz h (slots h sz)"
    using 0 16 assms by (simp add: slab_ok_def)
  have "same_outside {h} m m1"
    unfolding m1_def by (rule same_outside_memset_page [OF assms(2)])
  have "same_outside {h} m1 m2"
    unfolding m2_def using ha assms(2) by (intro same_outside_store64_in) auto
  have "same_outside {h} m2 m3"
    unfolding m3_def using ha by (intro same_outside_store64_in) auto
  have "same_outside {h} m m3"
    by (blast intro: same_outside_chain \<open>same_outside {h} m m1\<close> \<open>same_outside {h} m1 m2\<close> \<open>same_outside {h} m2 m3\<close>)
  moreover have "same_outside {h} m3 (format_slab m h sz)"
    unfolding fmt using n by (intro same_outside_thread [where i = 0]) (auto simp: assms n_def slot_def)
  ultimately show "same_outside {h} m (format_slab m h sz)" by (rule same_outside_chain)
qed

section \<open>The representation of the heap\<close>

text \<open>
  The mask \<open>addr & ~0xFFF\<close> of \<open>free\<close> is the page of the address.
\<close>

lemma page_of_mask: "addr AND NOT 0xFFF = page_of addr"
proof -
  have "push_bit 12 (drop_bit 12 addr) + take_bit 12 addr = addr" by (rule bits_ident)
  then have "page_of addr = push_bit 12 (drop_bit 12 addr)" unfolding page_of_def by (metis add_diff_cancel_right')
  moreover have "addr AND NOT 0xFFF = push_bit 12 (drop_bit 12 addr)"
  proof (rule bit_word_eqI)
    fix n assume n: "n < LENGTH(64)"
    have e: "(0xFFF :: u64) = mask 12" by (simp add: mask_eq_exp_minus_1)
    have "bit (0xFFF :: u64) n \<longleftrightarrow> n < 12" unfolding e using n by (simp only: bit_mask_iff) simp
    then show "bit (addr AND NOT 0xFFF) n = bit (push_bit 12 (drop_bit 12 addr)) n"
      using n by (cases "n < 12") (simp_all add: bit_simps)
  qed
  ultimately show ?thesis by simp
qed

text \<open>A cache in memory: \<open>hs\<close> are its slabs in list order, \<open>F h\<close> the free objects of slab \<open>h\<close>.\<close>

definition cache_ok :: "memory \<Rightarrow> cache \<Rightarrow> u64 list \<Rightarrow> (u64 \<Rightarrow> u64 list) \<Rightarrow> bool" where
  "cache_ok m c hs F \<longleftrightarrow> good_size (csize c) \<and> hs \<noteq> [] \<and> chain (get_field 8 m) (slabs c) hs
     \<and> (\<forall>h \<in> set hs. slab_ok m (csize c) h (F h))"

definition slab_heap :: "kstate \<Rightarrow> (nat \<Rightarrow> u64 list) \<Rightarrow> (u64 \<Rightarrow> u64 list) \<Rightarrow> bool" where
  "slab_heap s H F \<longleftrightarrow> pmm_ok s \<and> distinct (map csize (kmalloc_cache s))
     \<and> (\<forall>i < length (kmalloc_cache s). cache_ok (mem s) (kmalloc_cache s ! i) (H i) F
          \<and> set (H i) \<inter> free_set s = {})
     \<and> (\<forall>i < length (kmalloc_cache s). \<forall>j < length (kmalloc_cache s). i \<noteq> j \<longrightarrow> set (H i) \<inter> set (H j) = {})"

lemma slab_ok_distinct: "slab_ok m sz h xs \<Longrightarrow> distinct xs"
  unfolding slab_ok_def by (blast intro: chain_distinct)

lemma slab_ok_frame:
  assumes "slab_ok m sz h xs" and "same_outside P m m'" and "h \<notin> P" and "good_size sz"
  shows "slab_ok m' sz h xs"
proof -
  have h: "page_aligned h" using assms(1) by (simp add: slab_ok_def)
  have ld: "load64 m' a = load64 m a" if "aligned 3 a" "page_of a = h" for a
    using same_outside_load64 [OF assms(2) that(1)] that(2) assms(3) by simp
  have "load64 m' x = load64 m x" if "x \<in> set xs" for x
    using ld slots_facts(1,2) [OF h assms(4)] that assms(1) by (auto simp: slab_ok_def)
  then have "path (load64 m') p xs null = path (load64 m) p xs null" for p by (intro path_cong)
  then show ?thesis
    using assms(1) ld [of h] ld [of "h + 16"] header_aligned [OF h] h by (simp add: slab_ok_def)
qed

lemma chain8_frame:
  assumes "chain (get_field 8 m) p hs" and "same_outside P m m'" and "set hs \<inter> P = {}"
    and "\<forall>h \<in> set hs. page_aligned h"
  shows "chain (get_field 8 m') p hs"
proof -
  have "get_field 8 m' h = get_field 8 m h" if "h \<in> set hs" for h
    using same_outside_load64 [OF assms(2), of "h + 8"] header_aligned [of h] assms(3,4) that
    by (auto simp: get_field_def)
  then have "path (get_field 8 m') p hs null = path (get_field 8 m) p hs null" by (intro path_cong)
  with assms(1) show ?thesis by simp
qed

lemma cache_ok_frame:
  assumes "cache_ok m c hs F" and "same_outside P m m'" and "set hs \<inter> P = {}"
    and "\<forall>h \<in> set hs. F' h = F h"
  shows "cache_ok m' c hs F'"
proof -
  have g: "good_size (csize c)" and ok: "\<forall>h \<in> set hs. slab_ok m (csize c) h (F h)"
    and c: "chain (get_field 8 m) (slabs c) hs"
    using assms(1) by (auto simp: cache_ok_def)
  have "slab_ok m' (csize c) h (F' h)" if "h \<in> set hs" for h
    using slab_ok_frame [OF _ assms(2) _ g, of h "F h"] ok that assms(3,4) by auto
  moreover have "chain (get_field 8 m') (slabs c) hs"
    using chain8_frame [OF c assms(2,3)] ok by (simp add: slab_ok_def)
  ultimately show ?thesis using assms(1) by (simp add: cache_ok_def)
qed

text \<open>Changing only the free objects of one slab of a cache, inside its page, keeps the cache.\<close>

lemma cache_ok_update:
  assumes "cache_ok m c hs F" and "h \<in> set hs" and "same_outside {h} m m'"
    and "load64 m' (h + 8) = load64 m (h + 8)" and "slab_ok m' (csize c) h xs"
  shows "cache_ok m' c hs (F(h := xs))"
proof -
  have g: "good_size (csize c)" and ok: "\<forall>k \<in> set hs. slab_ok m (csize c) k (F k)"
    using assms(1) by (auto simp: cache_ok_def)
  have "get_field 8 m' k = get_field 8 m k" if "k \<in> set hs" for k
  proof (cases "k = h")
    case False
    have "page_aligned k" using ok that by (auto simp: slab_ok_def)
    then show ?thesis
      using same_outside_load64 [OF assms(3), of "k + 8"] header_aligned [of k] False
      by (simp add: get_field_def)
  qed (simp add: get_field_def assms(4))
  then have "path (get_field 8 m') (slabs c) hs null = path (get_field 8 m) (slabs c) hs null"
    by (intro path_cong)
  moreover have "slab_ok m' (csize c) k ((F(h := xs)) k)" if "k \<in> set hs" for k
    using slab_ok_frame [OF _ assms(3) _ g, of k "F k"] ok that assms(5) by (cases "k = h") auto
  ultimately show ?thesis using assms(1) by (simp add: cache_ok_def)
qed

section \<open>Allocation\<close>

lemma chain8_next:
  "chain (get_field 8 m) p (h # hs) \<Longrightarrow> p = h \<and> h \<noteq> null \<and> chain (get_field 8 m) (load64 m (h + 8)) hs"
  by (simp add: get_field_def)

text \<open>The first slab with a free object, in list order.\<close>

definition first_free :: "u64 list \<Rightarrow> (u64 \<Rightarrow> u64 list) \<Rightarrow> u64 option" where
  "first_free hs F = find (\<lambda>h. F h \<noteq> []) hs"

lemma find_slab_eq:
  assumes "chain (get_field 8 m) p hs" and "hs \<noteq> []" and "\<forall>h \<in> set hs. slab_ok m sz h (F h)"
  shows "find_slab m p = Some (case first_free hs F of Some h \<Rightarrow> h | None \<Rightarrow> last hs)"
  using assms
proof (induction hs arbitrary: p)
  case Nil
  then show ?case by simp
next
  case (Cons h hs)
  from chain8_next [OF Cons.prems(1)]
  have p: "p = h" "h \<noteq> null" "chain (get_field 8 m) (load64 m (h + 8)) hs" by auto
  have "load64 m (h + 16) = null \<longleftrightarrow> F h = []"
    using Cons.prems(3) by (cases "F h") (auto simp: slab_ok_def)
  moreover have "load64 m (h + 8) = null \<longleftrightarrow> hs = []" using p(3) by (cases hs) auto
  ultimately show ?case
    using Cons.IH [OF p(3)] Cons.prems(3) p
    by (subst find_slab.simps) (auto simp: first_free_def split: option.split)
qed

lemma first_free_Some: "first_free hs F = Some h \<Longrightarrow> h \<in> set hs \<and> F h \<noteq> []"
  by (auto simp: first_free_def find_Some_iff)

lemma first_free_None: "first_free hs F = None \<longleftrightarrow> (\<forall>h \<in> set hs. F h = [])"
  by (auto simp: first_free_def find_None_iff)

text \<open>Taking the first object out of a slab's free list.\<close>

lemma slab_pop:
  assumes "slab_ok m sz h (x # xs)" and "good_size sz" and "m' = store64 m (h + 16) (load64 m x)"
  shows "load64 m (h + 16) = x" and "x \<noteq> null" and "slab_ok m' sz h xs"
    and "load64 m' (h + 8) = load64 m (h + 8)" and "same_outside {h} m m'"
proof -
  have h: "page_aligned h" using assms(1) by (simp add: slab_ok_def)
  note ha = header_aligned [OF h]
  show x: "load64 m (h + 16) = x" "x \<noteq> null" using assms(1) by (auto simp: slab_ok_def)
  have sub: "set (x # xs) \<subseteq> set (slots h sz)" using assms(1) by (simp add: slab_ok_def)
  have "load64 m' y = load64 m y" if "y \<in> set xs" for y
    using slots_facts(1,5) [OF h assms(2), of y] sub that ha
    by (auto simp: assms(3) load64_store64_aligned)
  then have "path (load64 m') (load64 m x) xs null = path (load64 m) (load64 m x) xs null"
    by (intro path_cong)
  then show "slab_ok m' sz h xs"
    using assms(1,3) ha by (simp add: slab_ok_def load64_store64_aligned)
  show "load64 m' (h + 8) = load64 m (h + 8)"
    using ha by (simp add: assms(3) load64_store64_aligned)
  show "same_outside {h} m m'"
    unfolding assms(3) using ha by (intro same_outside_store64_in) auto
qed

lemma slab_push:
  assumes "slab_ok m sz h xs" and "good_size sz" and "x \<in> set (slots h sz)" and "x \<notin> set xs"
    and "m' = store64 (store64 m x (load64 m (h + 16))) (h + 16) x"
  shows "slab_ok m' sz h (x # xs)" and "load64 m' (h + 8) = load64 m (h + 8)"
    and "same_outside {h} m m'" and "page_of x = h"
proof -
  have h: "page_aligned h" using assms(1) by (simp add: slab_ok_def)
  note ha = header_aligned [OF h]
  note xf = slots_facts [OF h assms(2,3)]
  have x0: "x \<noteq> null"
    using slot_nonnull [OF h assms(2)] assms(1,3) by (auto simp: in_slots slab_ok_def)
  have "load64 m' y = load64 m y" if "y \<in> set xs" for y
  proof -
    have "y \<in> set (slots h sz)" "y \<noteq> x" using assms(1,4) that by (auto simp: slab_ok_def)
    then show ?thesis using slots_facts(1,5) [OF h assms(2), of y] ha xf
      by (simp add: assms(5) load64_store64_aligned)
  qed
  then have "path (load64 m') (load64 m (h + 16)) xs null = path (load64 m) (load64 m (h + 16)) xs null"
    by (intro path_cong)
  then show "slab_ok m' sz h (x # xs)"
    using assms(1,3,5) ha xf x0 by (simp add: slab_ok_def load64_store64_aligned)
  show "load64 m' (h + 8) = load64 m (h + 8)"
    using ha xf by (simp add: assms(5) load64_store64_aligned)
  show "same_outside {h} m m'"
    unfolding assms(5) using ha xf
    by (intro same_outside_chain [OF same_outside_store64_in same_outside_store64_in]) auto
  show "page_of x = h" using xf by simp
qed

lemma slab_heap_cache:
  "slab_heap s H F \<Longrightarrow> i < length (kmalloc_cache s) \<Longrightarrow> cache_ok (mem s) (kmalloc_cache s ! i) (H i) F
    \<and> good_size (csize (kmalloc_cache s ! i)) \<and> set (H i) \<inter> free_set s = {} \<and> pmm_ok s"
  by (simp add: slab_heap_def cache_ok_def)

text \<open>An operation inside one slab keeps the whole heap.\<close>

lemma slab_heap_update:
  assumes "slab_heap s H F" and i: "i < length (kmalloc_cache s)" and h: "h \<in> set (H i)"
    and same: "same_outside {h} (mem s) m'"
    and nxt: "load64 m' (h + 8) = load64 (mem s) (h + 8)"
    and ok: "slab_ok m' (csize (kmalloc_cache s ! i)) h xs"
  shows "slab_heap (s\<lparr>mem := m'\<rparr>) H (F(h := xs))"
    and "free_list s ps \<Longrightarrow> free_list (s\<lparr>mem := m'\<rparr>) ps"
proof -
  have c: "cache_ok (mem s) (kmalloc_cache s ! i) (H i) F" and p: "pmm_ok s"
    and d: "set (H i) \<inter> free_set s = {}"
    using slab_heap_cache [OF assms(1) i] by auto
  have hf: "{h} \<inter> free_set s = {}" using d h by auto
  note ff = free_set_frame [OF p same hf]
  show "free_list s ps \<Longrightarrow> free_list (s\<lparr>mem := m'\<rparr>) ps" by (rule ff(3))
  have "cache_ok m' (kmalloc_cache s ! j) (H j) (F(h := xs))" if j: "j < length (kmalloc_cache s)" for j
  proof (cases "j = i")
    case True
    then show ?thesis using cache_ok_update [OF c h same nxt ok] by simp
  next
    case False
    then have "h \<notin> set (H j)" using assms(1) i j h unfolding slab_heap_def by blast
    then show ?thesis using slab_heap_cache [OF assms(1) j] cache_ok_frame [OF _ same, of _ "H j" F]
      by auto
  qed
  then show "slab_heap (s\<lparr>mem := m'\<rparr>) H (F(h := xs))"
    using assms(1) ff by (simp add: slab_heap_def)
qed

lemma slab_alloc_from_slab:
  assumes "slab_heap s H F" and i: "i < length (kmalloc_cache s)"
    and f: "first_free (H i) F = Some h"
  shows "\<exists>m'. slab_alloc (kmalloc_cache s ! i) s = Inr (hd (F h), s\<lparr>mem := m'\<rparr>)
    \<and> same_outside {h} (mem s) m' \<and> slab_heap (s\<lparr>mem := m'\<rparr>) H (F(h := tl (F h)))
    \<and> (\<forall>ps. free_list s ps \<longrightarrow> free_list (s\<lparr>mem := m'\<rparr>) ps)"
proof -
  define c where "c = kmalloc_cache s ! i"
  have c: "cache_ok (mem s) c (H i) F" "good_size (csize c)"
    using slab_heap_cache [OF assms(1) i] by (auto simp: c_def)
  obtain x xs where x: "F h = x # xs" and h: "h \<in> set (H i)"
    using first_free_Some [OF f] by (cases "F h") auto
  have ok: "slab_ok (mem s) (csize c) h (x # xs)" using c(1) h x by (auto simp: cache_ok_def)
  then have h0: "h \<noteq> null" by (simp add: slab_ok_def)
  define m' where "m' = store64 (mem s) (h + 16) (load64 (mem s) x)"
  note pop = slab_pop [OF ok c(2) m'_def]
  have "find_slab (mem s) (slabs c) = Some h"
    using find_slab_eq [of "mem s" "slabs c" "H i" "csize c" F] c(1) f by (simp add: cache_ok_def)
  then have "slab_alloc c s = Inr (x, s\<lparr>mem := m'\<rparr>)"
    using pop(1,2) h0 by (simp add: slab_alloc_def m'_def)
  moreover note slab_heap_update [OF assms(1) i h pop(5,4), folded c_def, OF pop(3)]
  ultimately show ?thesis using x pop(5) by (auto simp: c_def)
qed

lemma slab_alloc_no_memory:
  assumes "slab_heap s H F" and i: "i < length (kmalloc_cache s)"
    and f: "first_free (H i) F = None" and "free_list s []"
  shows "slab_alloc (kmalloc_cache s ! i) s = Inl Halted"
proof -
  define c where "c = kmalloc_cache s ! i"
  have c: "cache_ok (mem s) c (H i) F" using slab_heap_cache [OF assms(1) i] by (auto simp: c_def)
  then have l: "last (H i) \<in> set (H i)" by (simp add: cache_ok_def)
  then have "slab_ok (mem s) (csize c) (last (H i)) []"
    using c f by (auto simp: cache_ok_def first_free_None)
  moreover have "find_slab (mem s) (slabs c) = Some (last (H i))"
    using find_slab_eq [of "mem s" "slabs c" "H i" "csize c" F] c f by (simp add: cache_ok_def)
  ultimately show ?thesis
    using pmm_alloc_empty [OF assms(4)]
    by (simp add: slab_alloc_def c_def slab_ok_def make_slab_def)
qed

text \<open>When every slab is full, a fresh page becomes the last slab and gives its first object.\<close>

lemma slab_alloc_new_slab:
  assumes "slab_heap s H F" and i: "i < length (kmalloc_cache s)"
    and f: "first_free (H i) F = None" and fl: "free_list s (p # ps)"
  shows "\<exists>s'. slab_alloc (kmalloc_cache s ! i) s = Inr (p + 24, s')
    \<and> s' = s\<lparr>mem := mem s', head := head s'\<rparr>
    \<and> same_outside (insert p (set (H i))) (mem s) (mem s')
    \<and> free_list s' ps
    \<and> slab_heap s' (H(i := H i @ [p])) (F(p := tl (slots p (csize (kmalloc_cache s ! i)))))"
proof -
  define c where "c = kmalloc_cache s ! i"
  define sz where "sz = csize c"
  have c: "cache_ok (mem s) c (H i) F" and g: "good_size sz" and d: "set (H i) \<inter> free_set s = {}"
    and pk: "pmm_ok s"
    using slab_heap_cache [OF assms(1) i] by (auto simp: c_def sz_def)
  define h where "h = last (H i)"
  have h: "h \<in> set (H i)" using c by (simp add: cache_ok_def h_def)
  have okh: "slab_ok (mem s) sz h []" using c f h by (auto simp: cache_ok_def first_free_None sz_def)
  then have ph: "page_aligned h" "h \<noteq> null" by (auto simp: slab_ok_def)
  have pp: "page_aligned p" "p \<noteq> null" using fl free_list_nonnull [OF fl] by (auto simp: free_list_def)
  have pF: "p \<in> free_set s" using free_set_eq [OF fl] by simp
  then have hp: "h \<noteq> p" using d h by blast
  note hh = header_aligned [OF ph(1)] and hpp = header_aligned [OF pp(1)]
  define s1 where "s1 = s\<lparr>head := load64 (mem s) p\<rparr>"
  define m0 where "m0 = format_slab (mem s) p sz"
  note fmt = format_slab_ok [OF g pp, of "mem s", folded m0_def]
  define m1 where "m1 = store64 m0 (h + 8) p"
  define m2 where "m2 = store64 m1 (p + 16) (load64 m1 (p + 24))"
  have fl1: "free_list s1 ps" and al: "pmm_alloc_singlep s = Inr (p - hhdm s, s1)"
    using pmm_alloc_step [OF fl] by (auto simp: s1_def)
  have mk: "make_slab sz s = Inr (p, s1\<lparr>mem := m0\<rparr>)"
    using good_size_unat [OF g] al by (auto simp: make_slab_def m0_def s1_def)
  have okp1: "slab_ok m1 sz p (slots p sz)"
    by (rule slab_ok_frame [OF fmt(1) same_outside_store64 [OF hh(2), of m0 p, folded m1_def] _ g])
      (use hh hp in auto)
  obtain rest where sl: "slots p sz = (p + 24) # rest" using slots_Cons [OF g] by blast
  note pop = slab_pop [OF okp1 [unfolded sl] g m2_def]
  have o01: "same_outside {p, h} (mem s) m1"
    using same_outside_mono [OF fmt(4), of "{p, h}"] hh unfolding m1_def
    by (intro same_outside_chain [OF _ same_outside_store64_in]) auto
  have o02: "same_outside {p, h} (mem s) m2"
    using same_outside_chain [OF o01 same_outside_mono [OF pop(5)]] by simp
  have find: "find_slab (mem s) (slabs c) = Some h"
    using find_slab_eq [of "mem s" "slabs c" "H i" "csize c" F] c f by (simp add: cache_ok_def h_def)
  have alloc: "slab_alloc c s = Inr (p + 24, s1\<lparr>mem := m2\<rparr>)"
    using find okh mk pop(1) ph by (simp add: slab_alloc_def slab_ok_def sz_def m1_def m2_def Let_def)
  have p8: "load64 m2 (p + 8) = null"
    using pop(4) fmt(2) hh hpp hp by (simp add: m1_def load64_store64_aligned)
  have h8: "load64 m2 (h + 8) = p"
    using hh hpp hp by (simp add: m2_def m1_def load64_store64_aligned)
      (metis add_right_cancel load64_store64_aligned load64_store64_same)
  have hcells: "load64 m2 (h + d) = load64 (mem s) (h + d)" if "d = 0 \<or> d = 16" for d
  proof -
    have a: "aligned 3 (h + d)" "page_of (h + d) = h" "h + d \<noteq> h + 8" using that hh ph by auto
    have "load64 m2 (h + d) = load64 m1 (h + d)"
      using same_outside_load64 [OF pop(5) a(1)] a(2) hp by simp
    also have "\<dots> = load64 m0 (h + d)"
      unfolding m1_def using a hh by (intro load64_store64_aligned) auto
    also have "\<dots> = load64 (mem s) (h + d)"
      using same_outside_load64 [OF fmt(4) a(1)] a(2) hp by simp
    finally show ?thesis .
  qed
  have okh2: "slab_ok m2 sz h []" using okh hcells [of 0] hcells [of 16] by (simp add: slab_ok_def)
  define F' where "F' = F(p := rest)"
  have pH: "p \<notin> set (H j)" if "j < length (kmalloc_cache s)" for j
    using slab_heap_cache [OF assms(1) that] pF by blast
  have ci: "cache_ok m2 c (H i @ [p]) F'"
  proof -
    have Hi: "H i = butlast (H i) @ [h]" using c by (simp add: cache_ok_def h_def)
    have ch: "path (get_field 8 (mem s)) (slabs c) (butlast (H i) @ [h]) null"
      using c unfolding cache_ok_def by (metis Hi)
    then have ds: "h \<notin> set (butlast (H i))" using chain_distinct by fastforce
    have "get_field 8 m2 k = get_field 8 (mem s) k" if "k \<in> set (butlast (H i))" for k
    proof -
      have k: "k \<in> set (H i)" "k \<noteq> h" using that ds by (auto dest: in_set_butlastD)
      then have "page_aligned k" "k \<noteq> p" using c pH [OF i] by (auto simp: cache_ok_def slab_ok_def)
      then show ?thesis using same_outside_load64 [OF o02, of "k + 8"] header_aligned [of k] k
        by (simp add: get_field_def)
    qed
    then have "path (get_field 8 m2) (slabs c) (butlast (H i)) h"
      using ch path_cong [of "butlast (H i)" "get_field 8 m2" "get_field 8 (mem s)" "slabs c" h] by auto
    then have "chain (get_field 8 m2) (slabs c) ((butlast (H i) @ [h]) @ [p])"
      using h8 p8 ph pp by (simp add: get_field_def)
    then have "chain (get_field 8 m2) (slabs c) (H i @ [p])" by (simp only: Hi [symmetric])
    moreover have "slab_ok m2 sz k (F' k)" if "k \<in> set (H i)" for k
    proof (cases "k = h")
      case True
      then show ?thesis using okh2 f h hp by (simp add: F'_def first_free_None)
    next
      case False
      moreover have "k \<noteq> p" using pH [OF i] that by blast
      moreover have "slab_ok (mem s) sz k (F k)" using c that by (simp add: cache_ok_def sz_def)
      ultimately show ?thesis using slab_ok_frame [OF _ o02 _ g, of k "F k"] by (simp add: F'_def)
    qed
    moreover have "slab_ok m2 sz p (F' p)" using pop(3) by (simp add: F'_def)
    ultimately show ?thesis using g by (auto simp: cache_ok_def sz_def)
  qed
  define s' where "s' = s1\<lparr>mem := m2\<rparr>"
  have "{p, h} \<inter> set ps = {}"
    using free_list_distinct [OF fl] d h free_set_eq [OF fl] by auto
  then have fl': "free_list s' ps"
    using free_list_frame [OF fl1, of "{p, h}" m2] o02 by (simp add: s'_def s1_def)
  have pk': "pmm_ok s'" using fl' pk by (auto simp: pmm_ok_def s'_def s1_def)
  have cj: "cache_ok m2 (kmalloc_cache s ! j) (H j) F'" if j: "j < length (kmalloc_cache s)" "j \<noteq> i" for j
  proof -
    have "h \<notin> set (H j)" using assms(1) i j h unfolding slab_heap_def by blast
    then show ?thesis
      using slab_heap_cache [OF assms(1) j(1)] pH [OF j(1)] cache_ok_frame [OF _ o02, of _ "H j" F F']
      by (auto simp: F'_def)
  qed
  have "slab_heap s' (H(i := H i @ [p])) F'"
    unfolding slab_heap_def
  proof (intro conjI allI impI)
    show "distinct (map csize (kmalloc_cache s'))" using assms(1) by (simp add: slab_heap_def s'_def s1_def)
    fix j assume "j < length (kmalloc_cache s')"
    then have j: "j < length (kmalloc_cache s)" by (simp add: s'_def s1_def)
    show "cache_ok (mem s') (kmalloc_cache s' ! j) ((H(i := H i @ [p])) j) F'"
      using ci cj [OF j] by (simp add: s'_def s1_def c_def)
    show "set ((H(i := H i @ [p])) j) \<inter> free_set s' = {}"
      using slab_heap_cache [OF assms(1) j] free_set_eq [OF fl'] free_set_eq [OF fl] free_list_distinct [OF fl]
      by auto
    fix k assume "k < length (kmalloc_cache s')" and jk: "j \<noteq> k"
    then have k: "k < length (kmalloc_cache s)" by (simp add: s'_def s1_def)
    then have "set (H j) \<inter> set (H k) = {}" using assms(1) j jk by (simp add: slab_heap_def)
    then show "set ((H(i := H i @ [p])) j) \<inter> set ((H(i := H i @ [p])) k) = {}"
      using pH [OF j] pH [OF k] jk by auto
  qed (rule pk')
  moreover have "same_outside (insert p (set (H i))) (mem s) (mem s')"
    by (rule same_outside_mono [of "{p, h}"]) (use o02 h in \<open>auto simp: s'_def\<close>)
  ultimately show ?thesis
    using alloc fl' by (intro exI [of _ s']) (simp add: s'_def s1_def c_def sz_def F'_def sl [unfolded sz_def c_def])
qed

section \<open>Release\<close>

lemma right_cache_found:
  assumes "distinct (map csize cs)" and "i < length cs"
  shows "right_cache cs (csize (cs ! i)) r = Some (cs ! i)"
  using assms
proof (induction cs arbitrary: i r)
  case (Cons c cs)
  have skip: "right_cache ds sz r = r" if "sz \<notin> set (map csize ds)" for ds sz r
    using that by (induction ds arbitrary: r) auto
  show ?case
  proof (cases i)
    case 0
    then show ?thesis using Cons.prems by (simp add: skip)
  next
    case (Suc j)
    then show ?thesis using Cons.prems Cons.IH [of j] by simp
  qed
qed simp

lemma find_header_found:
  "chain (get_field 8 m) p hs \<Longrightarrow> h \<in> set hs \<Longrightarrow> \<exists>q. find_header m h prev p = Some (True, q)"
proof (induction hs arbitrary: p prev)
  case (Cons k hs)
  from chain8_next [OF Cons.prems(1)]
  have p: "p = k" "k \<noteq> null" "chain (get_field 8 m) (load64 m (k + 8)) hs" by auto
  then show ?case
    using Cons.IH [OF p(3)] Cons.prems(2) by (subst find_header.simps) auto
qed simp

lemma free_obj_ok:
  assumes "slab_heap s H F" and i: "i < length (kmalloc_cache s)" and h: "h \<in> set (H i)"
    and x: "x \<in> set (slots h (csize (kmalloc_cache s ! i)))" "x \<notin> set (F h)"
  shows "\<exists>m'. free_obj x s = Inr (s\<lparr>mem := m'\<rparr>) \<and> same_outside {h} (mem s) m'
    \<and> slab_heap (s\<lparr>mem := m'\<rparr>) H (F(h := x # F h))
    \<and> (\<forall>ps. free_list s ps \<longrightarrow> free_list (s\<lparr>mem := m'\<rparr>) ps)
    \<and> m' = store64 (store64 (mem s) x (load64 (mem s) (h + 16))) (h + 16) x"
proof -
  define c where "c = kmalloc_cache s ! i"
  have c: "cache_ok (mem s) c (H i) F" "good_size (csize c)"
    using slab_heap_cache [OF assms(1) i] by (auto simp: c_def)
  have ok: "slab_ok (mem s) (csize c) h (F h)" using c(1) h by (auto simp: cache_ok_def)
  then have hp: "page_aligned h" "h \<noteq> null" and hs: "load64 (mem s) h = csize c" by (auto simp: slab_ok_def)
  define m' where "m' = store64 (store64 (mem s) x (load64 (mem s) (h + 16))) (h + 16) x"
  note push = slab_push [OF ok c(2) x [folded c_def] m'_def]
  have x0: "x \<noteq> 0" using slot_nonnull [OF hp(1) c(2) hp(2)] x(1) by (auto simp: in_slots c_def)
  have rc: "right_cache (kmalloc_cache s) (csize c) None = Some c"
    using right_cache_found [of "kmalloc_cache s" i] assms(1) i by (simp add: slab_heap_def c_def)
  note up = slab_heap_update [OF assms(1) i h push(3,2), folded c_def, OF push(1)]
  then have "chain (get_field 8 m') (slabs c) (H i)"
    using slab_heap_cache [OF up(1), of i] i by (simp add: c_def cache_ok_def)
  then obtain q where "find_header m' h null (slabs c) = Some (True, q)"
    using find_header_found [OF _ h] by blast
  then have "free_obj x s = Inr (s\<lparr>mem := m'\<rparr>)"
    using x0 rc hs push(4) unfolding free_obj_def page_of_mask m'_def by simp
  with up push(3) m'_def show ?thesis by auto
qed

lemma free_null: "free_obj 0 s = Inr s"
  by (simp add: free_obj_def)

section \<open>Setting the caches up\<close>

lemma init_cache_step:
  assumes "good_size sz" and "k < length (kmalloc_cache s)" and fl: "free_list s (p # ps)"
    and "F p = slots p sz"
  shows "\<exists>s'. init_cache k sz s = Inr s' \<and> free_list s' ps \<and> hhdm s' = hhdm s
    \<and> same_outside {p} (mem s) (mem s')
    \<and> kmalloc_cache s' = (kmalloc_cache s)[k := \<lparr>slabs = p, csize = sz\<rparr>]
    \<and> cache_ok (mem s') (kmalloc_cache s' ! k) [p] F"
proof -
  have pp: "page_aligned p" "p \<noteq> null" using fl free_list_nonnull [OF fl] by (auto simp: free_list_def)
  define s0 where "s0 = s\<lparr>kmalloc_cache := (kmalloc_cache s)[k := (kmalloc_cache s ! k)\<lparr>csize := sz\<rparr>]\<rparr>"
  have "free_list s0 (p # ps)" using fl by (simp add: s0_def free_list_def)
  note al = pmm_alloc_step [OF this]
  define s1 where "s1 = s0\<lparr>head := load64 (mem s0) p\<rparr>"
  define s' where "s' = s1\<lparr>mem := format_slab (mem s1) p sz,
    kmalloc_cache := (kmalloc_cache s1)[k := (kmalloc_cache s1 ! k)\<lparr>slabs := p\<rparr>]\<rparr>"
  note fmt = format_slab_ok [OF assms(1) pp, of "mem s1"]
  have i: "init_cache k sz s = Inr s'"
    using al good_size_unat [OF assms(1)]
    by (auto simp: init_cache_def s0_def [symmetric] s1_def [symmetric] s'_def Let_def) (simp_all add: s1_def)
  have "p \<notin> set ps" using free_list_distinct [OF fl] by simp
  then have "free_list (s1\<lparr>mem := format_slab (mem s1) p sz\<rparr>) ps"
    using free_list_frame [of s1 ps "{p}"] al fmt(4) by (simp add: s1_def)
  then have "free_list s' ps" by (simp add: s'_def free_list_def)
  moreover have "kmalloc_cache s' = (kmalloc_cache s)[k := \<lparr>slabs = p, csize = sz\<rparr>]"
    using assms(2) by (cases "kmalloc_cache s ! k") (simp add: s'_def s1_def s0_def)
  moreover have "cache_ok (mem s') \<lparr>slabs = p, csize = sz\<rparr> [p] F"
    using fmt pp assms(1,4) by (simp add: cache_ok_def s'_def get_field_def)
  moreover have "same_outside {p} (mem s) (mem s')"
    using fmt(4) by (simp add: s'_def s1_def s0_def)
  ultimately show ?thesis using i assms(2)
    by (intro exI [of _ s']) (simp add: s'_def s1_def s0_def)
qed

text \<open>The object sizes of the eight caches.\<close>

definition class_sizes :: "u64 list" where
  "class_sizes = [8, 16, 32, 64, 128, 256, 512, 1024]"

lemma class_sizes_good: "k < 8 \<Longrightarrow> good_size (class_sizes ! k)"
  by (auto simp: class_sizes_def good_size_def aligned_def nth_Cons' split: if_splits)

text \<open>After the first \<open>k\<close> caches are set up from the pages \<open>ps\<close>.\<close>

definition caches_upto :: "nat \<Rightarrow> u64 list \<Rightarrow> (u64 \<Rightarrow> u64 list) \<Rightarrow> kstate \<Rightarrow> bool" where
  "caches_upto k ps F s \<longleftrightarrow> free_list s (drop k ps) \<and> length (kmalloc_cache s) = 8
     \<and> page_aligned (hhdm s)
     \<and> (\<forall>j < k. cache_ok (mem s) (kmalloc_cache s ! j) [ps ! j] F
          \<and> csize (kmalloc_cache s ! j) = class_sizes ! j)"

lemma caches_upto_step:
  assumes "caches_upto k ps F s" and "k < 8" and "8 \<le> length ps" and "distinct ps"
    and "\<forall>j < 8. F (ps ! j) = slots (ps ! j) (class_sizes ! j)" and "sz = class_sizes ! k"
  shows "\<exists>s'. init_cache k sz s = Inr s' \<and> caches_upto (Suc k) ps F s'"
proof -
  have d: "drop k ps = ps ! k # drop (Suc k) ps" using assms(2,3) by (simp add: Cons_nth_drop_Suc)
  obtain s' where s': "init_cache k sz s = Inr s'" "free_list s' (drop (Suc k) ps)" "hhdm s' = hhdm s"
    "same_outside {ps ! k} (mem s) (mem s')"
    "kmalloc_cache s' = (kmalloc_cache s)[k := \<lparr>slabs = ps ! k, csize = sz\<rparr>]"
    "cache_ok (mem s') (kmalloc_cache s' ! k) [ps ! k] F"
    using init_cache_step [of sz k s "ps ! k" "drop (Suc k) ps" F] assms class_sizes_good [OF assms(2)] d
    by (auto simp: caches_upto_def)
  have "cache_ok (mem s') (kmalloc_cache s' ! j) [ps ! j] F" if "j < k" for j
    using cache_ok_frame [OF _ s'(4), of "kmalloc_cache s ! j" "[ps ! j]" F F] assms(1-4) that s'(5)
    by (auto simp: caches_upto_def nth_eq_iff_index_eq)
  then show ?thesis using s' assms(1,2,6)
    by (intro exI [of _ s']) (auto simp: caches_upto_def less_Suc_eq)
qed

lemma init_slabs_ok:
  assumes "free_list s ps" and "8 \<le> length ps" and "length (kmalloc_cache s) = 8" and "page_aligned (hhdm s)"
    and F: "\<forall>j < 8. F (ps ! j) = slots (ps ! j) (class_sizes ! j)"
  shows "\<exists>s'. init_slabs s = Inr s' \<and> free_list s' (drop 8 ps)
    \<and> map csize (kmalloc_cache s') = class_sizes \<and> slab_heap s' (\<lambda>i. [ps ! i]) F"
proof -
  have d: "distinct ps" using assms(1) by (rule free_list_distinct)
  note st = caches_upto_step [OF _ _ assms(2) d F]
  have c: "class_sizes ! 0 = 8" "class_sizes ! 1 = 16" "class_sizes ! 2 = 32" "class_sizes ! 3 = 64"
    "class_sizes ! 4 = 128" "class_sizes ! 5 = 256" "class_sizes ! 6 = 512" "class_sizes ! 7 = 1024"
    by (simp_all add: class_sizes_def)
  have "caches_upto 0 ps F s" using assms by (simp add: caches_upto_def)
  then obtain s1 where 1: "init_cache 0 8 s = Inr s1" "caches_upto (Suc 0) ps F s1" using st [of 0 s 8] c by auto
  then obtain s2 where 2: "init_cache 1 16 s1 = Inr s2" "caches_upto 2 ps F s2"
    using st [of 1 s1 16] c by (auto simp: numeral_2_eq_2)
  then obtain s3 where 3: "init_cache 2 32 s2 = Inr s3" "caches_upto 3 ps F s3"
    using st [of 2 s2 32] c by auto
  then obtain s4 where 4: "init_cache 3 64 s3 = Inr s4" "caches_upto 4 ps F s4"
    using st [of 3 s3 64] c by auto
  then obtain s5 where 5: "init_cache 4 128 s4 = Inr s5" "caches_upto 5 ps F s5"
    using st [of 4 s4 128] c by auto
  then obtain s6 where 6: "init_cache 5 256 s5 = Inr s6" "caches_upto 6 ps F s6"
    using st [of 5 s5 256] c by auto
  then obtain s7 where 7: "init_cache 6 512 s6 = Inr s7" "caches_upto 7 ps F s7"
    using st [of 6 s6 512] c by auto
  then obtain s8 where 8: "init_cache 7 1024 s7 = Inr s8" "caches_upto 8 ps F s8"
    using st [of 7 s7 1024] c by auto
  have i: "init_slabs s = Inr s8" using 1 2 3 4 5 6 7 8 by (simp add: init_slabs_def)
  have fl: "free_list s8 (drop 8 ps)" and len: "length (kmalloc_cache s8) = 8"
    and cs: "\<And>j. j < 8 \<Longrightarrow> cache_ok (mem s8) (kmalloc_cache s8 ! j) [ps ! j] F
      \<and> csize (kmalloc_cache s8 ! j) = class_sizes ! j"
    using 8(2) by (auto simp: caches_upto_def)
  have m: "map csize (kmalloc_cache s8) = class_sizes"
    using cs len by (intro nth_equalityI) (auto simp: class_sizes_def)
  have "pmm_ok s8" using 8(2) by (auto simp: caches_upto_def pmm_ok_def)
  moreover have "distinct class_sizes" by (simp add: class_sizes_def)
  moreover have "ps ! j \<notin> free_set s8" if "j < 8" for j
    using free_set_eq [OF fl] d assms(2) that
    by (auto simp: in_set_conv_nth nth_eq_iff_index_eq)
  moreover have "ps ! j \<noteq> ps ! k" if "j < 8" "k < 8" "j \<noteq> k" for j k
    using d assms(2) that by (simp add: nth_eq_iff_index_eq)
  ultimately have "slab_heap s8 (\<lambda>i. [ps ! i]) F" using cs m len by (simp add: slab_heap_def)
  with i fl m show ?thesis by blast
qed

text \<open>The free objects right after boot: every slot of the eight slabs.\<close>

definition boot_free :: "u64 list \<Rightarrow> u64 \<Rightarrow> u64 list" where
  "boot_free ps h = concat (map (\<lambda>(p, sz). if p = h then slots p sz else []) (zip (take 8 ps) class_sizes))"

lemma concat_zip_nth:
  assumes "distinct xs" and "j < length xs" and "j < length ys"
  shows "concat (map (\<lambda>(p, y). if p = xs ! j then f p y else []) (zip xs ys)) = f (xs ! j) (ys ! j)"
  using assms
proof (induction xs arbitrary: j ys)
  case (Cons x xs)
  obtain y zs where ys: "ys = y # zs" using Cons.prems(3) by (cases ys) auto
  have none: "concat (map (\<lambda>(p, y). if p = z then f p y else []) (zip xs zs)) = []" if "z \<notin> set xs" for z
    using that by (auto dest: set_zip_leftD)
  show ?case
  proof (cases j)
    case 0
    then show ?thesis using Cons.prems(1) none [of x] ys by simp
  next
    case (Suc i)
    moreover have "xs ! i \<noteq> x" using Cons.prems Suc by auto
    ultimately show ?thesis using Cons.IH [of i zs] Cons.prems ys by auto
  qed
qed simp

lemma boot_free_nth:
  assumes "distinct ps" and "8 \<le> length ps" and "j < 8"
  shows "boot_free ps (ps ! j) = slots (ps ! j) (class_sizes ! j)"
  using concat_zip_nth [of "take 8 ps" j class_sizes slots] assms
  by (simp add: boot_free_def class_sizes_def)

lemma pmm_init_ok:
  assumes "valid_memmap (hhdm s) es" and "head s = null" and "length (kmalloc_cache s) = 8"
    and "8 \<le> length (memmap_pages (hhdm s) es)"
  shows "\<exists>s'. pmm_init es s = Inr (of_nat (length (memmap_pages (hhdm s) es)), s')
    \<and> free_list s' (drop 8 (memmap_pages (hhdm s) es)) \<and> map csize (kmalloc_cache s') = class_sizes
    \<and> slab_heap s' (\<lambda>i. [memmap_pages (hhdm s) es ! i]) (boot_free (memmap_pages (hhdm s) es))"
proof -
  define ps where "ps = memmap_pages (hhdm s) es"
  obtain s1 where s1: "pmm_populate es s = Inr s1" "free_list s1 ps" "hhdm s1 = hhdm s"
     "kmalloc_cache s1 = kmalloc_cache s"
    using pmm_populate_ok [OF assms(1,2)] pmm_populate_frame unfolding ps_def same_globals_def by blast
  have "count_nodes (mem s1) (head s1) 0 = Some (of_nat (length ps))"
    using count_nodes_chain [of "mem s1" "head s1" ps 0] s1(2) by (simp add: free_list_def)
  moreover have "distinct ps" using s1(2) by (rule free_list_distinct)
  moreover obtain s2 where "init_slabs s1 = Inr s2" "free_list s2 (drop 8 ps)"
    "map csize (kmalloc_cache s2) = class_sizes" "slab_heap s2 (\<lambda>i. [ps ! i]) (boot_free ps)"
    using init_slabs_ok [OF s1(2), of "boot_free ps"] boot_free_nth [of ps] assms(1,3,4) s1(3,4)
      \<open>distinct ps\<close> by (auto simp: ps_def valid_memmap_def)
  ultimately show ?thesis using s1(1) by (simp add: pmm_init_def ps_def)
qed

section \<open>The object pool of a cache\<close>

text \<open>
  The resources of cache \<open>i\<close>: the free objects of its slabs, and the objects that the free
  pages would give. Allocation moves pages from the second kind to the first.
\<close>

definition cache_slabs :: "nat \<Rightarrow> kstate \<Rightarrow> u64 set" where
  "cache_slabs i s = {h. \<exists>hs. chain (get_field 8 (mem s)) (slabs (kmalloc_cache s ! i)) hs \<and> h \<in> set hs}"

definition free_objects :: "nat \<Rightarrow> kstate \<Rightarrow> u64 set" where
  "free_objects i s =
     {x. \<exists>h \<in> cache_slabs i s. \<exists>xs. chain (load64 (mem s)) (load64 (mem s) (h + 16)) xs \<and> x \<in> set xs}"

definition available_objects :: "nat \<Rightarrow> kstate \<Rightarrow> u64 set" where
  "available_objects i s = free_objects i s
     \<union> (\<Union>p \<in> free_set s. set (slots p (csize (kmalloc_cache s ! i))))"

definition valid_object :: "nat \<Rightarrow> kstate \<Rightarrow> u64 \<Rightarrow> bool" where
  "valid_object i s x \<longleftrightarrow> page_of x \<in> cache_slabs i s \<union> free_set s
     \<and> x \<in> set (slots (page_of x) (csize (kmalloc_cache s ! i)))"

definition slab_ready :: "nat \<Rightarrow> kstate \<Rightarrow> bool" where
  "slab_ready i s \<longleftrightarrow> i < length (kmalloc_cache s) \<and> (\<exists>H F. slab_heap s H F)"

lemma cache_slabs_eq:
  assumes "slab_heap s H F" and "i < length (kmalloc_cache s)"
  shows "cache_slabs i s = set (H i)"
proof -
  have "chain (get_field 8 (mem s)) (slabs (kmalloc_cache s ! i)) (H i)"
    using slab_heap_cache [OF assms] by (simp add: cache_ok_def)
  then show ?thesis unfolding cache_slabs_def using chain_unique by blast
qed

lemma free_objects_eq:
  assumes "slab_heap s H F" and "i < length (kmalloc_cache s)"
  shows "free_objects i s = (\<Union>h \<in> set (H i). set (F h))"
proof -
  have ch: "chain (load64 (mem s)) (load64 (mem s) (h + 16)) (F h)" if "h \<in> set (H i)" for h
    using slab_heap_cache [OF assms] that by (simp add: cache_ok_def slab_ok_def)
  then have "{x. \<exists>xs. chain (load64 (mem s)) (load64 (mem s) (h + 16)) xs \<and> x \<in> set xs} = set (F h)"
    if "h \<in> set (H i)" for h
    using that chain_unique by blast
  then show ?thesis unfolding free_objects_def cache_slabs_eq [OF assms] by blast
qed

lemma slab_object_facts:
  assumes "slab_heap s H F" and "i < length (kmalloc_cache s)" and "h \<in> set (H i)"
  shows "page_aligned h" and "h \<noteq> null" and "distinct (F h)"
    and "set (F h) \<subseteq> set (slots h (csize (kmalloc_cache s ! i)))"
    and "x \<in> set (slots h (csize (kmalloc_cache s ! i))) \<Longrightarrow> page_of x = h"
  using slab_heap_cache [OF assms(1,2)] assms(3) slab_ok_distinct slots_facts(2)
  by (auto simp: cache_ok_def slab_ok_def dest: chain_distinct)

lemma free_page_facts:
  assumes "slab_heap s H F" and "p \<in> free_set s" and "good_size sz"
  shows "page_aligned p" and "p \<noteq> null" and "x \<in> set (slots p sz) \<Longrightarrow> page_of x = p"
proof -
  obtain xs where xs: "free_list s xs" "p \<in> set xs"
    using assms(2) by (auto simp: free_set_def)
  then show a: "page_aligned p" and "p \<noteq> null"
    using free_list_nonnull [OF xs(1)] by (auto simp: free_list_def)
  show "page_of x = p" if "x \<in> set (slots p sz)" using slots_facts(2) [OF a assms(3) that] .
qed

lemma available_objects_eq:
  assumes "slab_heap s H F" and "i < length (kmalloc_cache s)"
  shows "available_objects i s = (\<Union>h \<in> set (H i). set (F h))
    \<union> (\<Union>p \<in> free_set s. set (slots p (csize (kmalloc_cache s ! i))))"
  by (simp add: available_objects_def free_objects_eq [OF assms])

text \<open>Taking from a slab that has a free object.\<close>

lemma take_from_slab:
  assumes hp: "slab_heap s H F" and i: "i < length (kmalloc_cache s)"
    and f: "first_free (H i) F = Some h" and al: "slab_alloc (kmalloc_cache s ! i) s = Inr (r, s')"
  shows "r \<in> available_objects i s \<and> available_objects i s' = available_objects i s - {r}
    \<and> slab_ready i s' \<and> valid_object i s' = valid_object i s"
proof -
  define sz where "sz = csize (kmalloc_cache s ! i)"
  have g: "good_size sz" and dj: "set (H i) \<inter> free_set s = {}"
    using slab_heap_cache [OF hp i] by (auto simp: sz_def)
  note facts = slab_object_facts [OF hp i, folded sz_def]
  obtain m' where m': "slab_alloc (kmalloc_cache s ! i) s = Inr (hd (F h), s\<lparr>mem := m'\<rparr>)"
    "slab_heap (s\<lparr>mem := m'\<rparr>) H (F(h := tl (F h)))"
    "\<And>ps. free_list s ps \<Longrightarrow> free_list (s\<lparr>mem := m'\<rparr>) ps"
    using slab_alloc_from_slab [OF hp i f] by blast
  have r: "r = hd (F h)" and s': "s' = s\<lparr>mem := m'\<rparr>" using al m'(1) by auto
  obtain xs where x: "F h = r # xs" and h: "h \<in> set (H i)"
    using first_free_Some [OF f] r by (cases "F h") auto
  obtain ps where ps: "free_list s ps" using hp by (auto simp: slab_heap_def pmm_ok_def)
  have fs: "free_set s' = free_set s" using free_set_eq [OF ps] free_set_eq [OF m'(3) [OF ps]] s' by simp
  have rh: "page_of r = h" using facts(4,5) [OF h] x by auto
  have "r \<notin> set (F k)" if "k \<in> set (H i) - {h}" for k using facts(4,5) [of k] rh that by auto
  moreover have "r \<notin> set xs" using facts(3) [OF h] x by simp
  moreover have "r \<notin> set (slots p sz)" if "p \<in> free_set s" for p
    using free_page_facts(3) [OF hp that g] rh dj h that by auto
  moreover have "(\<Union>k \<in> set (H i). set ((F(h := xs)) k)) = set xs \<union> (\<Union>k \<in> set (H i) - {h}. set (F k))"
    and "(\<Union>k \<in> set (H i). set (F k)) = insert r (set xs) \<union> (\<Union>k \<in> set (H i) - {h}. set (F k))"
    using h x by (auto split: if_splits)
  ultimately have "available_objects i s' = available_objects i s - {r}"
    and "r \<in> available_objects i s"
    using available_objects_eq [OF hp i] available_objects_eq [OF m'(2)] i fs x
    by (auto simp: s' sz_def)
  moreover have "valid_object i s' = valid_object i s"
    using fs cache_slabs_eq [OF m'(2)] cache_slabs_eq [OF hp i] i
    by (simp add: valid_object_def s' fun_eq_iff)
  moreover have "slab_ready i s'" using m'(2) i by (auto simp: slab_ready_def s')
  ultimately show ?thesis by blast
qed

text \<open>Taking when every slab is full: the first object of a fresh slab.\<close>

lemma take_new_slab:
  assumes hp: "slab_heap s H F" and i: "i < length (kmalloc_cache s)"
    and f: "first_free (H i) F = None" and al: "slab_alloc (kmalloc_cache s ! i) s = Inr (r, s')"
  shows "r \<in> available_objects i s \<and> available_objects i s' = available_objects i s - {r}
    \<and> slab_ready i s' \<and> valid_object i s' = valid_object i s"
proof -
  define sz where "sz = csize (kmalloc_cache s ! i)"
  have g: "good_size sz" and dj: "set (H i) \<inter> free_set s = {}"
    using slab_heap_cache [OF hp i] by (auto simp: sz_def)
  obtain qs where qs: "free_list s qs" using hp by (auto simp: slab_heap_def pmm_ok_def)
  with al slab_alloc_no_memory [OF hp i f] obtain p ps where q: "qs = p # ps" by (cases qs) auto
  obtain t where t: "slab_alloc (kmalloc_cache s ! i) s = Inr (p + 24, t)"
    "t = s\<lparr>mem := mem t, head := head t\<rparr>" "free_list t ps"
    "slab_heap t (H(i := H i @ [p])) (F(p := tl (slots p sz)))"
    using slab_alloc_new_slab [OF hp i f] qs q unfolding sz_def by blast
  have st: "s' = t" and r: "r = p + 24" using al t(1) by auto
  have kc: "kmalloc_cache t = kmalloc_cache s"
    using t(2) by (metis kstate.select_convs(4) kstate.surjective kstate.update_convs(1,3))
  have fs: "free_set s = insert p (set ps)" "free_set t = set ps" "p \<notin> set ps"
    using free_set_eq [OF qs] free_set_eq [OF t(3)] free_list_distinct [OF qs] q by auto
  obtain rest where sl: "slots p sz = r # rest" using slots_Cons [OF g] r by blast
  have pH: "p \<notin> set (H i)" using dj fs by auto
  have emp: "\<forall>h \<in> set (H i). F h = []" using f by (simp add: first_free_None)
  have "r \<notin> set rest" using distinct_slots [OF g, of p] sl by simp
  moreover have "r \<notin> set (slots k sz)" if "k \<in> set ps" for k
    using free_page_facts(3) [OF hp _ g, of k r] free_page_facts(3) [OF hp _ g, of p r] fs that sl by auto
  moreover have "available_objects i t = set rest \<union> (\<Union>k \<in> set ps. set (slots k sz))"
    using available_objects_eq [OF t(4)] i emp pH fs kc sl
    by (auto simp: sz_def split: if_splits)
  moreover have "available_objects i s = insert r (set rest \<union> (\<Union>k \<in> set ps. set (slots k sz)))"
    using available_objects_eq [OF hp i] emp fs sl by (auto simp: sz_def)
  ultimately have "r \<in> available_objects i s" "available_objects i t = available_objects i s - {r}"
    by auto
  moreover have "cache_slabs i t = insert p (cache_slabs i s)"
    using cache_slabs_eq [OF t(4)] cache_slabs_eq [OF hp i] i kc by simp
  then have "valid_object i t = valid_object i s"
    using fs kc by (auto simp: valid_object_def fun_eq_iff)
  moreover have "slab_ready i t" using t(4) i kc by (auto simp: slab_ready_def)
  ultimately show ?thesis using st by blast
qed

lemma take_object_succeeds:
  assumes "slab_ready i s" and ne: "available_objects i s \<noteq> {}"
  shows "\<exists>r s'. slab_alloc (kmalloc_cache s ! i) s = Inr (r, s')"
proof -
  obtain H F where hp: "slab_heap s H F" and i: "i < length (kmalloc_cache s)"
    using assms(1) by (auto simp: slab_ready_def)
  obtain qs where qs: "free_list s qs" using hp by (auto simp: slab_heap_def pmm_ok_def)
  show ?thesis
  proof (cases "first_free (H i) F")
    case (Some h)
    then show ?thesis using slab_alloc_from_slab [OF hp i Some] by blast
  next
    case None
    then have "qs \<noteq> []"
      using ne free_set_eq [OF qs] by (auto simp: available_objects_eq [OF hp i] first_free_None)
    then obtain p ps where "qs = p # ps" by (cases qs) auto
    then show ?thesis using slab_alloc_new_slab [OF hp i None] qs by blast
  qed
qed

lemma give_object:
  assumes "slab_ready i s" and v: "valid_object i s r" and n: "r \<notin> available_objects i s"
  shows "\<exists>s'. free_obj r s = Inr s' \<and> available_objects i s' = insert r (available_objects i s)
    \<and> slab_ready i s' \<and> valid_object i s' = valid_object i s"
proof -
  obtain H F where hp: "slab_heap s H F" and i: "i < length (kmalloc_cache s)"
    using assms(1) by (auto simp: slab_ready_def)
  define h where "h = page_of r"
  define sz where "sz = csize (kmalloc_cache s ! i)"
  have r: "r \<in> set (slots h sz)" using v by (simp add: valid_object_def h_def sz_def)
  have h: "h \<in> set (H i)"
    using v n r cache_slabs_eq [OF hp i]
    by (auto simp: valid_object_def h_def available_objects_def sz_def)
  have rF: "r \<notin> set (F h)" using n h by (auto simp: available_objects_eq [OF hp i])
  obtain m' where fr: "free_obj r s = Inr (s\<lparr>mem := m'\<rparr>)"
    and m': "slab_heap (s\<lparr>mem := m'\<rparr>) H (F(h := r # F h))"
      "\<And>ps. free_list s ps \<Longrightarrow> free_list (s\<lparr>mem := m'\<rparr>) ps"
    using free_obj_ok [OF hp i h r [unfolded sz_def] rF] by auto
  define s' where "s' = s\<lparr>mem := m'\<rparr>"
  obtain ps where ps: "free_list s ps" using hp by (auto simp: slab_heap_def pmm_ok_def)
  have fs: "free_set s' = free_set s"
    using free_set_eq [OF ps] free_set_eq [OF m'(2) [OF ps]] by (simp add: s'_def)
  have "free_objects i s' = insert r (free_objects i s)"
    using free_objects_eq [OF m'(1)] free_objects_eq [OF hp i] i h
    by (auto simp: s'_def split: if_splits)
  moreover have "cache_slabs i s' = cache_slabs i s"
    using cache_slabs_eq [OF m'(1)] cache_slabs_eq [OF hp i] i by (simp add: s'_def)
  ultimately show ?thesis
    using fs fr m'(1) i
    by (intro exI [of _ s'])
      (auto simp: s'_def available_objects_def valid_object_def slab_ready_def fun_eq_iff)
qed

lemma available_object_valid:
  assumes "slab_ready i s" and a: "r \<in> available_objects i s"
  shows "valid_object i s r"
proof -
  obtain H F where hp: "slab_heap s H F" and i: "i < length (kmalloc_cache s)"
    using assms(1) by (auto simp: slab_ready_def)
  have g: "good_size (csize (kmalloc_cache s ! i))" using slab_heap_cache [OF hp i] by simp
  show ?thesis
    using a slab_object_facts(4,5) [OF hp i] free_page_facts(3) [OF hp _ g]
    unfolding available_objects_eq [OF hp i] valid_object_def cache_slabs_eq [OF hp i]
    by blast
qed

interpretation slab_pool: resource_pool "slab_ready i" "available_objects i"
    "\<lambda>s. slab_alloc (kmalloc_cache s ! i) s" free_obj "valid_object i" for i
proof unfold_locales
  fix s s' :: kstate and r
  assume rd: "slab_ready i s" and al: "slab_alloc (kmalloc_cache s ! i) s = Inr (r, s')"
  then obtain H F where "slab_heap s H F" "i < length (kmalloc_cache s)"
    by (auto simp: slab_ready_def)
  then show "r \<in> available_objects i s \<and> available_objects i s' = available_objects i s - {r}
      \<and> slab_ready i s' \<and> valid_object i s' = valid_object i s"
    using al take_from_slab take_new_slab by (cases "first_free (H i) F") blast+
next
  fix s :: kstate
  assume "slab_ready i s" and "available_objects i s \<noteq> {}"
  then show "\<exists>r s'. slab_alloc (kmalloc_cache s ! i) s = Inr (r, s')" by (rule take_object_succeeds)
next
  fix s s' :: kstate and r
  assume "slab_ready i s" and "valid_object i s r" and "r \<notin> available_objects i s"
    and "free_obj r s = Inr s'"
  then show "available_objects i s' = insert r (available_objects i s) \<and> slab_ready i s'
      \<and> valid_object i s' = valid_object i s"
    using give_object [of i s r] by auto
next
  fix s :: kstate and r
  assume "slab_ready i s" and "r \<in> available_objects i s"
  then show "valid_object i s r" by (rule available_object_valid)
qed

section \<open>Choosing the cache\<close>

text \<open>One smearing step of \<open>next_pow2\<close> doubles the distance a set bit has spread downwards.\<close>

lemma smear_step:
  assumes "\<And>n. bit x n \<longleftrightarrow> (\<exists>j < k. bit w (n + j))"
  shows "bit (x OR drop_bit k x) n \<longleftrightarrow> (\<exists>j < k + k. bit (w :: u64) (n + j))"
proof -
  have "(\<exists>j < k. bit w (n + j)) \<or> (\<exists>j < k. bit w (n + k + j)) \<longleftrightarrow> (\<exists>j < k + k. bit w (n + j))"
  proof
    assume "(\<exists>j < k. bit w (n + j)) \<or> (\<exists>j < k. bit w (n + k + j))"
    then show "\<exists>j < k + k. bit w (n + j)"
    proof (elim disjE exE conjE)
      fix j assume "j < k" "bit w (n + k + j)"
      then show ?thesis by (intro exI [of _ "k + j"]) (simp add: add.assoc)
    next
      fix j assume "j < k" "bit w (n + j)"
      then show ?thesis by (intro exI [of _ j]) simp
    qed
  next
    assume "\<exists>j < k + k. bit w (n + j)"
    then obtain j where j: "j < k + k" "bit w (n + j)" by blast
    show "(\<exists>j < k. bit w (n + j)) \<or> (\<exists>j < k. bit w (n + k + j))"
    proof (cases "j < k")
      case False
      then have "j - k < k" "bit w (n + k + (j - k))" using j by auto
      then show ?thesis by blast
    qed (use j in auto)
  qed
  then show ?thesis using assms by (simp add: bit_simps add.commute)
qed

lemma next_pow2_bits:
  "\<exists>x. next_pow2 v = x + 1 \<and> (\<forall>n. bit x n \<longleftrightarrow> (\<exists>j < 32. bit (v - 1) (n + j)))"
proof -
  define w where "w = v - 1"
  define x1 where "x1 = w OR drop_bit 1 w"
  define x2 where "x2 = x1 OR drop_bit 2 x1"
  define x4 where "x4 = x2 OR drop_bit 4 x2"
  define x8 where "x8 = x4 OR drop_bit 8 x4"
  define x16 where "x16 = x8 OR drop_bit 16 x8"
  have "bit w n \<longleftrightarrow> (\<exists>j < 1. bit w (n + j))" for n by simp
  from smear_step [OF this] have "bit x1 n \<longleftrightarrow> (\<exists>j < 2. bit w (n + j))" for n
    by (simp add: x1_def numeral_2_eq_2)
  from smear_step [OF this] have "bit x2 n \<longleftrightarrow> (\<exists>j < 4. bit w (n + j))" for n
    by (simp add: x2_def)
  from smear_step [OF this] have "bit x4 n \<longleftrightarrow> (\<exists>j < 8. bit w (n + j))" for n
    by (simp add: x4_def)
  from smear_step [OF this] have "bit x8 n \<longleftrightarrow> (\<exists>j < 16. bit w (n + j))" for n
    by (simp add: x8_def)
  from smear_step [OF this] have "bit x16 n \<longleftrightarrow> (\<exists>j < 32. bit w (n + j))" for n
    by (simp add: x16_def)
  moreover have "next_pow2 v = x16 + 1"
    by (simp add: next_pow2_def Let_def w_def x1_def x2_def x4_def x8_def x16_def)
  ultimately show ?thesis unfolding w_def by blast
qed

lemma bit_unat: "bit w n \<longleftrightarrow> odd (unat w div 2 ^ n)" for w :: u64
  by (simp add: bit_iff_odd [of "unat w", symmetric] bit_unsigned_iff)

lemma next_pow2_least:
  assumes "0 < v" and "v \<le> 2 ^ 32"
  shows "\<exists>k \<le> 32. unat (next_pow2 v) = 2 ^ k \<and> unat v \<le> 2 ^ k \<and> (k = 0 \<or> 2 ^ (k - 1) < unat v)"
proof (cases "v = 1")
  case True
  then show ?thesis by (intro exI [of _ 0]) (simp add: next_pow2_def)
next
  case False
  define w where "w = v - 1"
  obtain x where x: "next_pow2 v = x + 1" "\<And>n. bit x n \<longleftrightarrow> (\<exists>j < 32. bit w (n + j))"
    using next_pow2_bits [of v] by (auto simp: w_def)
  have v: "1 < unat v" "unat v \<le> 2 ^ 32"
  proof -
    have "unat v \<noteq> unat (1 :: u64)" "0 < unat v"
      using False assms(1) by (simp_all only: word_unat_eq_iff [symmetric] word_less_nat_alt unat_0 simp_thms)
    then show "1 < unat v" by simp
    show "unat v \<le> 2 ^ 32" using assms(2) by (simp add: word_le_nat_alt)
  qed
  have uw: "unat w = unat v - 1" using assms(1) by (simp add: w_def unat_minus_one word_gt_0)
  obtain p where p: "2 ^ p \<le> unat w" "unat w < 2 ^ (p + 1)"
  proof -
    have "1 \<le> unat w" using uw v by simp
    then show ?thesis using that ex_power_ivl1 [of 2 "unat w"] by auto
  qed
  have p32: "p < 32"
  proof (rule ccontr)
    assume "\<not> p < 32"
    then have "(2::nat) ^ 32 \<le> 2 ^ p" by (intro power_increasing) auto
    then show False using p(1) uw v by simp
  qed
  have hi: "\<not> bit w m" if "p < m" for m
  proof -
    have "(2::nat) ^ (p + 1) \<le> 2 ^ m" using that by (intro power_increasing) auto
    then show ?thesis using p(2) by (simp add: bit_unat)
  qed
  have "unat w div 2 ^ p = 1" using p by (intro div_nat_eqI) auto
  then have "bit w p" by (simp add: bit_unat)
  have bx: "bit x n \<longleftrightarrow> n \<le> p" for n
  proof
    assume "bit x n" then show "n \<le> p" using x(2) hi by (metis le_add1 le_trans not_less)
  next
    assume "n \<le> p"
    then show "bit x n" using x(2) \<open>bit w p\<close> p32 by (intro x(2) [THEN iffD2] exI [of _ "p - n"]) auto
  qed
  have "x = mask (p + 1)"
    by (rule bit_word_eqI) (auto simp: bx bit_mask_iff less_Suc_eq_le)
  then have "next_pow2 v = 2 ^ (p + 1)" using x(1) by (simp add: mask_eq_exp_minus_1)
  moreover have "unat (2 ^ (p + 1) :: u64) = 2 ^ (p + 1)"
  proof -
    have "(2::nat) ^ (p + 1) < 2 ^ 64" using p32 by (intro power_strict_increasing) auto
    from unat_of_nat_u64 [OF this] show ?thesis by simp
  qed
  ultimately show ?thesis using p p32 uw v by (intro exI [of _ "p + 1"]) auto
qed

lemma first_big_cache_least:
  "i < length cs \<Longrightarrow> z \<le> csize (cs ! i) \<Longrightarrow> (\<forall>j < i. csize (cs ! j) < z)
    \<Longrightarrow> first_big_cache cs b z = Some (b + i)"
proof (induction cs arbitrary: b i)
  case (Cons c cs)
  show ?case
  proof (cases i)
    case 0
    then show ?thesis using Cons.prems by simp
  next
    case (Suc k)
    have "csize c < z" "\<forall>j < k. csize (cs ! j) < z" using Cons.prems(3) Suc by auto
    then show ?thesis using Cons.IH [of k "Suc b"] Cons.prems Suc by simp
  qed
qed simp

lemma unat_class_size: "i < 8 \<Longrightarrow> unat (class_sizes ! i) = 2 ^ (i + 3)"
proof -
  assume "i < 8"
  then have "i = 0 \<or> i = 1 \<or> i = 2 \<or> i = 3 \<or> i = 4 \<or> i = 5 \<or> i = 6 \<or> i = 7" by presburger
  then show ?thesis by (elim disjE) (simp_all add: class_sizes_def)
qed

lemma size_class:
  assumes "map csize (kmalloc_cache s) = class_sizes" and "sz < 1024"
  shows "\<exists>i < 8. search_for_bigenoughcache (next_pow2 sz) s = Some i \<and> sz \<le> class_sizes ! i
    \<and> (\<forall>j < i. class_sizes ! j < sz)"
proof -
  have len: "length (kmalloc_cache s) = 8"
    using arg_cong [OF assms(1), of length] by (simp add: class_sizes_def)
  have cs: "csize (kmalloc_cache s ! i) = class_sizes ! i" if "i < 8" for i
    using that len by (simp flip: assms(1))
  have us: "unat sz < 1024" using assms(2) by (simp add: word_less_nat_alt)
  obtain k where k: "k \<le> 10" "unat (next_pow2 sz) \<le> 2 ^ (k - 3 + 3)" "unat sz \<le> 2 ^ (k - 3 + 3)"
    "\<forall>j < k - 3. 2 ^ (j + 3) < unat (next_pow2 sz) \<and> 2 ^ (j + 3) < unat sz"
  proof (cases "sz = 0")
    case True
    then have "next_pow2 sz = 0" by (simp add: next_pow2_def)
    then show ?thesis using True that [of 0] by simp
  next
    case False
    have "sz \<le> 2 ^ 32" using us by (simp add: word_le_nat_alt)
    then obtain k where k: "unat (next_pow2 sz) = 2 ^ k" "unat sz \<le> 2 ^ k" "k = 0 \<or> 2 ^ (k - 1) < unat sz"
      using next_pow2_least [of sz] False by (auto simp: word_gt_0)
    have "k \<le> 10"
    proof (rule ccontr)
      assume "\<not> k \<le> 10"
      then have "(2::nat) ^ 10 \<le> 2 ^ (k - 1)" by (intro power_increasing) auto
      then show False using k(3) us \<open>\<not> k \<le> 10\<close> by simp
    qed
    moreover have "(2::nat) ^ k \<le> 2 ^ (k - 3 + 3)" by (intro power_increasing) auto
    moreover have "(2::nat) ^ (j + 3) < 2 ^ k \<and> 2 ^ (j + 3) < unat sz" if "j < k - 3" for j
    proof -
      have "(2::nat) ^ (j + 3) < 2 ^ k" using that by (intro power_strict_increasing) auto
      moreover have "(2::nat) ^ (j + 3) \<le> 2 ^ (k - 1)" using that by (intro power_increasing) auto
      moreover have "2 ^ (k - 1) < unat sz" using k(3) that by auto
      ultimately show ?thesis by (metis le_less_trans)
    qed
    ultimately show ?thesis using that [of k] k by (metis le_trans)
  qed
  define i where "i = k - 3"
  have i: "i < 8" using k(1) by (simp add: i_def)
  have "search_for_bigenoughcache (next_pow2 sz) s = Some (0 + i)"
    unfolding search_for_bigenoughcache_def
    by (rule first_big_cache_least)
      (use i len cs k(2,4) unat_class_size in \<open>auto simp: word_le_nat_alt word_less_nat_alt i_def\<close>)
  moreover have "\<forall>j < i. class_sizes ! j < sz" "sz \<le> class_sizes ! i"
    using k(3,4) i unat_class_size by (auto simp: word_le_nat_alt word_less_nat_alt i_def)
  ultimately show ?thesis using i by auto
qed

end
