(* ===== verification/Objects.thy ===== *)
theory Objects
  imports Slab
begin

text \<open>
  The heap as its clients see it: which objects are live, which pages belong to the heap, and
  what allocation and release do to them. Everything above the slab allocator relies only on
  this view: an allocation gives an object that was not live, keeps every other live object
  live and its contents unchanged, and takes at most one page from the free list.
\<close>

definition heap_ok :: "kstate \<Rightarrow> bool" where
  "heap_ok s \<longleftrightarrow> (\<exists>H F. slab_heap s H F)"

definition live :: "nat \<Rightarrow> kstate \<Rightarrow> u64 \<Rightarrow> bool" where
  "live i s x \<longleftrightarrow> i < length (kmalloc_cache s) \<and> page_of x \<in> cache_slabs i s
     \<and> x \<in> set (slots (page_of x) (csize (kmalloc_cache s ! i))) \<and> x \<notin> free_objects i s"

definition slab_pages :: "kstate \<Rightarrow> u64 set" where
  "slab_pages s = (\<Union>i < length (kmalloc_cache s). cache_slabs i s)"

definition object_cell :: "kstate \<Rightarrow> u64 \<Rightarrow> bool" where
  "object_cell s a \<longleftrightarrow> (\<exists>i x d. live i s x \<and> aligned 3 d
     \<and> unat d + 8 \<le> unat (csize (kmalloc_cache s ! i)) \<and> a = x + d)"

lemma live_eq:
  assumes "slab_heap s H F"
  shows "live i s x \<longleftrightarrow> i < length (kmalloc_cache s) \<and> page_of x \<in> set (H i)
    \<and> x \<in> set (slots (page_of x) (csize (kmalloc_cache s ! i))) \<and> x \<notin> set (F (page_of x))"
proof (cases "i < length (kmalloc_cache s)")
  case True
  have "h = page_of x" if "h \<in> set (H i)" "x \<in> set (F h)" for h
    using slab_object_facts(4,5) [OF assms True that(1)] that(2) by auto
  then show ?thesis
    using True cache_slabs_eq [OF assms True] free_objects_eq [OF assms True] by (auto simp: live_def)
qed (simp add: live_def)

lemma slab_pages_eq:
  "slab_heap s H F \<Longrightarrow> slab_pages s = (\<Union>i < length (kmalloc_cache s). set (H i))"
  by (simp add: slab_pages_def cache_slabs_eq)

lemma slab_page_facts:
  assumes "heap_ok s" and "h \<in> slab_pages s"
  shows "page_aligned h" and "h \<noteq> null" and "h \<notin> free_set s"
proof -
  obtain H F where hp: "slab_heap s H F" using assms(1) by (auto simp: heap_ok_def)
  then obtain i where i: "i < length (kmalloc_cache s)" "h \<in> set (H i)"
    using assms(2) by (auto simp: slab_pages_eq)
  show "page_aligned h" "h \<noteq> null" "h \<notin> free_set s"
    using slab_object_facts(1,2) [OF hp i] slab_heap_cache [OF hp i(1)] i(2) by auto
qed

text \<open>Where the cells of a live object are.\<close>

lemma live_cell:
  assumes "heap_ok s" and "live i s x" and "unat d + 8 \<le> unat (csize (kmalloc_cache s ! i))"
    and "aligned 3 d"
  shows "aligned 3 (x + d)" and "page_of (x + d) = page_of x" and "page_of x \<in> slab_pages s"
    and "24 \<le> unat (x + d - page_of x)" and "x \<noteq> null" and "unat (x - page_of x) + unat d < 4096"
proof -
  obtain H F where hp: "slab_heap s H F" using assms(1) by (auto simp: heap_ok_def)
  define sz where "sz = csize (kmalloc_cache s ! i)"
  define h where "h = page_of x"
  have l: "i < length (kmalloc_cache s)" "h \<in> set (H i)" "x \<in> set (slots h sz)"
    using assms(2) live_eq [OF hp] by (auto simp: sz_def h_def)
  then have g: "good_size sz" using slab_heap_cache [OF hp l(1)] by (simp add: sz_def)
  have hh: "page_aligned h" using slab_object_facts(1) [OF hp l(1,2)] .
  obtain k where k: "k < obj_amount sz" "x = slot h sz k" using l(3) by (auto simp: in_slots)
  have so: "unat (x - h) = 24 + k * unat sz" "24 + k * unat sz + unat sz \<le> 4096"
    using slot_offset [OF g k(1), of h] slot_fits [OF k(1)] k(2) by auto
  then have "unat (x - h) + unat d < 2 ^ 64" using assms(3) by (simp add: sz_def)
  then have "unat ((x - h) + d) = unat (x - h) + unat d" by (subst unat_add_lem [THEN iffD1]) simp_all
  moreover have "x - h + d = x + d - h" by simp
  ultimately have u: "unat (x + d - h) = unat (x - h) + unat d" by simp
  then show "24 \<le> unat (x + d - page_of x)" using so by (simp add: h_def)
  show "unat (x - page_of x) + unat d < 4096" using so assms(3) by (simp add: sz_def h_def)
  show "aligned 3 (x + d)" using slots_facts(1) [OF hh g l(3)] assms(4) by (rule aligned_add)
  have "page_of (x + d) = h" using u so assms(3) by (simp add: page_of_iff [OF hh] sz_def)
  then show "page_of (x + d) = page_of x" by (simp add: h_def)
  show "page_of x \<in> slab_pages s" using l by (auto simp: slab_pages_eq [OF hp] h_def)
  show "x \<noteq> null" using slot_nonnull [OF hh g _ k(1)] slab_object_facts(2) [OF hp l(1,2)] k(2) by simp
qed

lemma object_cell_facts:
  assumes "heap_ok s" and "object_cell s a"
  shows "aligned 3 a" and "page_of a \<in> slab_pages s" and "page_of a \<notin> free_set s"
    and "24 \<le> unat (a - page_of a)" and "page_aligned h \<Longrightarrow> unat d < 24 \<Longrightarrow> a \<noteq> h + d"
proof -
  obtain i x d where a: "live i s x" "unat d + 8 \<le> unat (csize (kmalloc_cache s ! i))" "aligned 3 d"
    "a = x + d" using assms(2) by (auto simp: object_cell_def)
  note lc = live_cell [OF assms(1) a(1-3)]
  show f: "aligned 3 a" "page_of a \<in> slab_pages s" "24 \<le> unat (a - page_of a)"
    using lc a(4) by auto
  show "page_of a \<notin> free_set s" using slab_page_facts(3) [OF assms(1) f(2)] .
  show "page_aligned h \<Longrightarrow> unat d < 24 \<Longrightarrow> a \<noteq> h + d" for h d
    using f(3) page_of_offset [of h d] by auto
qed

text \<open>Which cells an allocation may change: headers of its own cache, and the page it takes.\<close>

lemma slab_alloc_cell:
  assumes hp: "slab_heap s H F" and i: "i < length (kmalloc_cache s)"
    and al: "slab_alloc (kmalloc_cache s ! i) s = Inr (x, s')"
    and a: "aligned 3 a" "page_of a \<notin> free_set s" "\<forall>h \<in> set (H i). a \<noteq> h + 8 \<and> a \<noteq> h + 16"
  shows "load64 (mem s') a = load64 (mem s) a"
proof -
  define c where "c = kmalloc_cache s ! i"
  have c: "cache_ok (mem s) c (H i) F" and g: "good_size (csize c)"
    using slab_heap_cache [OF hp i] by (auto simp: c_def)
  define h where "h = (case first_free (H i) F of Some h \<Rightarrow> h | None \<Rightarrow> last (H i))"
  have "h \<in> set (H i)" using c first_free_Some [of "H i" F]
    by (auto simp: h_def cache_ok_def split: option.splits)
  then have h: "page_aligned h" "a \<noteq> h + 8" "a \<noteq> h + 16"
    using slab_object_facts(1) [OF hp i] a(3) by auto
  note ha = header_aligned [OF h(1)]
  have f: "find_slab (mem s) (slabs c) = Some h"
    using find_slab_eq [of "mem s" "slabs c" "H i" "csize c" F] c by (simp add: cache_ok_def h_def)
  obtain xs where xs: "free_list s xs" using hp by (auto simp: slab_heap_def pmm_ok_def)
  show ?thesis
  proof (cases "h \<noteq> null \<and> load64 (mem s) (h + 16) \<noteq> null")
    case True
    then have "mem s' = store64 (mem s) (h + 16) (load64 (mem s) x)"
      using al f by (auto simp: slab_alloc_def c_def [symmetric] Let_def)
    then show ?thesis using ha h a(1) by (simp add: load64_store64_aligned)
  next
    case False
    then obtain n s1 where mk: "make_slab (csize c) s = Inr (n, s1)"
      and s': "s' = s1\<lparr>mem := store64 (store64 (mem s1) (h + 8) n) (n + 16)
        (load64 (store64 (mem s1) (h + 8) n) (load64 (store64 (mem s1) (h + 8) n) (n + 16)))\<rparr>"
      using al f by (auto simp: slab_alloc_def c_def [symmetric] Let_def andthen_eq_Inr split: if_splits)
    then obtain p s0 where p: "pmm_alloc_singlep s = Inr (p, s0)" "n = p + hhdm s0"
      "s1 = s0\<lparr>mem := format_slab (mem s0) n (csize c)\<rparr>"
      by (auto simp: make_slab_def andthen_eq_Inr Let_def split: if_splits)
    have s0: "mem s0 = mem s" "hhdm s0 = hhdm s" using pmm_alloc_frame [OF p(1)] by auto
    have n: "page_aligned n" "n \<noteq> null" "n \<in> free_set s"
      using pmm_alloc_inverse [OF p(1) xs] free_set_eq [OF xs] free_list_nonnull [OF xs] xs p(2) s0
      by (auto simp: free_list_def)
    then have na: "page_of a \<noteq> n" using a(2) by auto
    have "load64 (mem s1) a = load64 (mem s) a"
      using same_outside_load64 [OF format_slab_ok(4) [OF g n(1,2)] a(1)] na p(3) s0 by simp
    moreover have "a \<noteq> n + 16" using header_aligned [OF n(1)] na by auto
    ultimately show ?thesis
      using s' a(1) ha h header_aligned [OF n(1)] by (simp add: load64_store64_aligned)
  qed
qed


text \<open>What a successful allocation of \<open>x\<close> from cache \<open>i\<close> does; \<open>zs\<close> are the pages it took.\<close>

definition obj_taken :: "kstate \<Rightarrow> kstate \<Rightarrow> nat \<Rightarrow> u64 \<Rightarrow> u64 list \<Rightarrow> u64 list \<Rightarrow> bool" where
  "obj_taken s s' i x zs ys \<longleftrightarrow> heap_ok s' \<and> free_list s' ys
     \<and> same_globals s s' \<and> \<not> live i s x
     \<and> (\<forall>j y. live j s' y \<longleftrightarrow> live j s y \<or> (j, y) = (i, x))
     \<and> slab_pages s' = slab_pages s \<union> set zs
     \<and> same_outside (slab_pages s \<union> set zs) (mem s) (mem s')
     \<and> (\<forall>a. object_cell s a \<longrightarrow> load64 (mem s') a = load64 (mem s) a)"

lemma object_cell_no_header:
  assumes "slab_heap s H F" and "i < length (kmalloc_cache s)" and "object_cell s a"
  shows "\<forall>h \<in> set (H i). a \<noteq> h + 8 \<and> a \<noteq> h + 16"
  using object_cell_facts(5) [OF _ assms(3), of _ 8] object_cell_facts(5) [OF _ assms(3), of _ 16]
    slab_object_facts(1) [OF assms(1,2)] assms(1)
  by (auto simp: heap_ok_def)

lemma slab_alloc_from_slab_step:
  assumes hp: "slab_heap s H F" and i: "i < length (kmalloc_cache s)"
    and f: "first_free (H i) F = Some h" and xs: "free_list s xs"
  shows "\<exists>x s'. slab_alloc (kmalloc_cache s ! i) s = Inr (x, s') \<and> obj_taken s s' i x [] xs"
proof -
  obtain m' where m': "slab_alloc (kmalloc_cache s ! i) s = Inr (hd (F h), s\<lparr>mem := m'\<rparr>)"
    "same_outside {h} (mem s) m'" "slab_heap (s\<lparr>mem := m'\<rparr>) H (F(h := tl (F h)))"
    "free_list (s\<lparr>mem := m'\<rparr>) xs"
    using slab_alloc_from_slab [OF hp i f] xs by blast
  define s' where "s' = s\<lparr>mem := m'\<rparr>"
  obtain x r where x: "F h = x # r" and h: "h \<in> set (H i)"
    using first_free_Some [OF f] by (cases "F h") auto
  note facts = slab_object_facts [OF hp i h]
  have xh: "page_of x = h" "x \<in> set (slots h (csize (kmalloc_cache s ! i)))" "x \<notin> set r"
    using facts(3,4,5) x by auto
  have hj: "h \<notin> set (H j)" if "j < length (kmalloc_cache s)" "j \<noteq> i" for j
    using hp i h that unfolding slab_heap_def by blast
  have k: "kmalloc_cache s' = kmalloc_cache s" by (simp add: s'_def)
  have "live j s' y \<longleftrightarrow> live j s y \<or> (j, y) = (i, x)" for j y
  proof (cases "j < length (kmalloc_cache s) \<and> page_of y = h")
    case True
    then show ?thesis
      using live_eq [OF hp] live_eq [OF m'(3)] hj [of j] x xh h i by (auto simp: s'_def)
  next
    case False
    then show ?thesis using live_eq [OF hp, of j y] live_eq [OF m'(3), of j y] xh i
      by (auto simp: s'_def)
  qed
  moreover have "\<not> live i s x" using live_eq [OF hp, of i x] xh x by simp
  moreover have sp: "slab_pages s' = slab_pages s"
    using slab_pages_eq [OF hp] slab_pages_eq [OF m'(3)] by (simp add: s'_def)
  moreover have "same_outside (slab_pages s) (mem s) (mem s')"
    using same_outside_mono [OF m'(2), of "slab_pages s"] h i slab_pages_eq [OF hp]
    by (auto simp: s'_def)
  moreover have "load64 (mem s') a = load64 (mem s) a" if "object_cell s a" for a
    using slab_alloc_cell [OF hp i m'(1)] object_cell_no_header [OF hp i that] hp
      object_cell_facts(1,3) [OF _ that] by (auto simp: s'_def heap_ok_def)
  ultimately show ?thesis
    using m' x by (intro exI [of _ x] exI [of _ s'])
      (auto simp: obj_taken_def heap_ok_def same_globals_def s'_def)
qed

lemma slab_alloc_new_slab_step:
  assumes hp: "slab_heap s H F" and i: "i < length (kmalloc_cache s)"
    and f: "first_free (H i) F = None" and xs: "free_list s (p # ps)"
  shows "\<exists>x s'. slab_alloc (kmalloc_cache s ! i) s = Inr (x, s') \<and> obj_taken s s' i x [p] ps"
proof -
  define sz where "sz = csize (kmalloc_cache s ! i)"
  obtain s' where s': "slab_alloc (kmalloc_cache s ! i) s = Inr (p + 24, s')"
    "s' = s\<lparr>mem := mem s', head := head s'\<rparr>" "same_outside (insert p (set (H i))) (mem s) (mem s')"
    "free_list s' ps" "slab_heap s' (H(i := H i @ [p])) (F(p := tl (slots p sz)))"
    using slab_alloc_new_slab [OF hp i f xs] unfolding sz_def by blast
  have g: "good_size sz" using slab_heap_cache [OF hp i] by (simp add: sz_def)
  have sg: "same_globals s s'" using s'(2) unfolding same_globals_def
    by (metis kstate.select_convs kstate.surjective kstate.update_convs(1,3))
  then have k: "kmalloc_cache s' = kmalloc_cache s" by (simp add: same_globals_def)
  have pF: "p \<in> free_set s" using free_set_eq [OF xs] by simp
  then have pH: "p \<notin> set (H j)" if "j < length (kmalloc_cache s)" for j
    using slab_heap_cache [OF hp that] by blast
  have pp: "page_aligned p" using free_page_facts(1) [OF hp pF g] .
  obtain rest where sl: "slots p sz = (p + 24) # rest" using slots_Cons [OF g] by blast
  then have pr: "page_of (p + 24) = p" "p + 24 \<notin> set rest"
    using header_aligned [OF pp] distinct_slots [OF g, of p] by auto
  have lv: "live j s' y \<longleftrightarrow> live j s y \<or> (j, y) = (i, p + 24)" for j y
  proof (cases "page_of y = p")
    case True
    then show ?thesis using live_eq [OF hp, of j y] live_eq [OF s'(5), of j y] pH [of j] sl pr i k
      by (auto simp: sz_def)
  next
    case False
    then show ?thesis using live_eq [OF hp, of j y] live_eq [OF s'(5), of j y] pr k by auto
  qed
  moreover have "\<not> live i s (p + 24)" using live_eq [OF hp, of i "p + 24"] pr pH [OF i] by simp
  moreover have "slab_pages s' = slab_pages s \<union> {p}"
    using slab_pages_eq [OF hp] slab_pages_eq [OF s'(5)] k i by (auto split: if_splits)
  moreover have "same_outside (slab_pages s \<union> {p}) (mem s) (mem s')"
    using same_outside_mono [OF s'(3), of "slab_pages s \<union> {p}"] i slab_pages_eq [OF hp] by auto
  moreover have "load64 (mem s') a = load64 (mem s) a" if "object_cell s a" for a
    using slab_alloc_cell [OF hp i s'(1)] object_cell_no_header [OF hp i that] hp
      object_cell_facts(1,3) [OF _ that] by (auto simp: heap_ok_def)
  ultimately show ?thesis
    using s' sg by (intro exI [of _ "p + 24"] exI [of _ s']) (auto simp: obj_taken_def heap_ok_def)
qed

lemma slab_alloc_cases:
  assumes "heap_ok s" and i: "i < length (kmalloc_cache s)" and xs: "free_list s xs"
  shows "slab_alloc (kmalloc_cache s ! i) s = Inl Halted \<and> xs = []
    \<or> (\<exists>x s' zs ys. slab_alloc (kmalloc_cache s ! i) s = Inr (x, s') \<and> xs = zs @ ys \<and> length zs \<le> 1
        \<and> obj_taken s s' i x zs ys)"
proof -
  obtain H F where hp: "slab_heap s H F" using assms(1) by (auto simp: heap_ok_def)
  show ?thesis
  proof (cases "first_free (H i) F")
    case (Some h)
    then show ?thesis using slab_alloc_from_slab_step [OF hp i Some xs]
      by (metis append_Nil list.size(3) zero_le)
  next
    case None
    show ?thesis
    proof (cases xs)
      case Nil
      then show ?thesis using slab_alloc_no_memory [OF hp i None] xs by simp
    next
      case (Cons p ps)
      then show ?thesis using slab_alloc_new_slab_step [OF hp i None, of p ps] xs
        by (metis append_Cons append_Nil length_Cons list.size(3) One_nat_def order_refl)
    qed
  qed
qed

text \<open>What releasing a live object does.\<close>

definition obj_given :: "kstate \<Rightarrow> kstate \<Rightarrow> nat \<Rightarrow> u64 \<Rightarrow> bool" where
  "obj_given s s' i x \<longleftrightarrow> heap_ok s' \<and> (\<forall>xs. free_list s xs \<longrightarrow> free_list s' xs)
     \<and> same_globals s s' \<and> (\<forall>j y. live j s' y \<longleftrightarrow> live j s y \<and> (j, y) \<noteq> (i, x))
     \<and> slab_pages s' = slab_pages s \<and> same_outside (slab_pages s) (mem s) (mem s')
     \<and> (\<forall>a. object_cell s a \<longrightarrow> a \<noteq> x \<longrightarrow> load64 (mem s') a = load64 (mem s) a)"

lemma free_obj_step:
  assumes "heap_ok s" and l: "live i s x"
  shows "\<exists>s'. free_obj x s = Inr s' \<and> obj_given s s' i x"
proof -
  obtain H F where hp: "slab_heap s H F" using assms(1) by (auto simp: heap_ok_def)
  define h where "h = page_of x"
  have i: "i < length (kmalloc_cache s)" and h: "h \<in> set (H i)"
    and x: "x \<in> set (slots h (csize (kmalloc_cache s ! i)))" "x \<notin> set (F h)"
    using l live_eq [OF hp] by (auto simp: h_def)
  obtain m' where m': "free_obj x s = Inr (s\<lparr>mem := m'\<rparr>)" "same_outside {h} (mem s) m'"
    "slab_heap (s\<lparr>mem := m'\<rparr>) H (F(h := x # F h))" "\<And>ps. free_list s ps \<Longrightarrow> free_list (s\<lparr>mem := m'\<rparr>) ps"
    "m' = store64 (store64 (mem s) x (load64 (mem s) (h + 16))) (h + 16) x"
    using free_obj_ok [OF hp i h x] by blast
  define s' where "s' = s\<lparr>mem := m'\<rparr>"
  have hj: "h \<notin> set (H j)" if "j < length (kmalloc_cache s)" "j \<noteq> i" for j
    using hp i h that unfolding slab_heap_def by blast
  have "live j s' y \<longleftrightarrow> live j s y \<and> (j, y) \<noteq> (i, x)" for j y
    using live_eq [OF hp, of j y] live_eq [OF m'(3), of j y] hj [of j] h_def by (auto simp: s'_def)
  moreover have "slab_pages s' = slab_pages s"
    using slab_pages_eq [OF hp] slab_pages_eq [OF m'(3)] by (simp add: s'_def)
  moreover have "same_outside (slab_pages s) (mem s) (mem s')"
    using same_outside_mono [OF m'(2), of "slab_pages s"] h i slab_pages_eq [OF hp] by (auto simp: s'_def)
  moreover have "load64 (mem s') a = load64 (mem s) a" if a: "object_cell s a" "a \<noteq> x" for a
  proof -
    have hh: "page_aligned h" using slab_object_facts(1) [OF hp i h] .
    have "a \<noteq> h + 16" using object_cell_no_header [OF hp i a(1)] h by auto
    moreover have "aligned 3 x" using slots_facts(1) [OF hh _ x(1)] slab_heap_cache [OF hp i] by simp
    ultimately show ?thesis
      using object_cell_facts(1) [OF assms(1) a(1)] a(2) header_aligned [OF hh]
      by (simp add: s'_def m'(5) load64_store64_aligned)
  qed
  ultimately show ?thesis using m' by (auto simp: obj_given_def heap_ok_def same_globals_def s'_def)
qed

section \<open>Cells of different objects\<close>

lemma slots_apart:
  assumes "page_aligned h" and g: "good_size sz" and "x \<in> set (slots h sz)" and "y \<in> set (slots h sz)" and "x \<noteq> y"
    and "unat d + 8 \<le> unat sz" and "unat e + 8 \<le> unat sz"
  shows "x + d \<noteq> y + e"
proof
  assume eq: "x + d = y + e"
  obtain k l where k: "k < obj_amount sz" "x = slot h sz k" and l: "l < obj_amount sz" "y = slot h sz l"
    using assms(3,4) by (auto simp: in_slots)
  have off: "unat (slot h sz j + c - h) = 24 + j * unat sz + unat c" if "j < obj_amount sz" "unat c + 8 \<le> unat sz" for j c
  proof -
    note so = slot_offset [OF g that(1), of h]
    have "unat (slot h sz j - h) + unat c < 2 ^ LENGTH(64)"
      using so slot_fits [OF that(1)] that(2) by simp
    then have "unat ((slot h sz j - h) + c) = unat (slot h sz j - h) + unat c"
      by (simp only: unat_add_lem)
    moreover have "slot h sz j + c - h = (slot h sz j - h) + c" by simp
    ultimately show ?thesis using so by (simp only:)
  qed
  have "24 + k * unat sz + unat d = 24 + l * unat sz + unat e"
    using off [OF k(1) assms(6)] off [OF l(1) assms(7)] eq k(2) l(2) by metis
  then have "(k * unat sz + unat d) div unat sz = (l * unat sz + unat e) div unat sz" by simp
  then have "k = l" using assms(6,7) by simp
  then show False using k l assms(5) by simp
qed

lemma live_apart:
  assumes ok: "heap_ok s" and x: "live i s x" and y: "live j s y" and ne: "(i, x) \<noteq> (j, y)"
    and d: "unat d + 8 \<le> unat (csize (kmalloc_cache s ! i))" "aligned 3 d"
    and e: "unat e + 8 \<le> unat (csize (kmalloc_cache s ! j))" "aligned 3 e"
  shows "x + d \<noteq> y + e"
proof -
  obtain H F where hp: "slab_heap s H F" using ok by (auto simp: heap_ok_def)
  note lx = x [unfolded live_eq [OF hp]] and ly = y [unfolded live_eq [OF hp]]
  note px = live_cell(2) [OF ok x d] and py = live_cell(2) [OF ok y e]
  show ?thesis
  proof (cases "i = j \<and> page_of x = page_of y")
    case True
    then have c: "i < length (kmalloc_cache s)" "page_of x \<in> set (H i)" using lx by auto
    have "page_aligned (page_of x)" "good_size (csize (kmalloc_cache s ! i))"
      using slab_heap_cache [OF hp c(1)] by auto
    then show ?thesis using slots_apart [of "page_of x" _ x y d e] True lx ly d(1) e(1) ne by auto
  next
    case False
    have "set (H i) \<inter> set (H j) = {}" if "i \<noteq> j" using lx ly hp that unfolding slab_heap_def by blast
    then have "page_of x \<noteq> page_of y" using False lx ly by fastforce
    then show ?thesis using px py by metis
  qed
qed

text \<open>A live object's cells are not links of free objects, nor headers.\<close>

lemma live_store_heap:
  fixes v :: u64
  assumes hp: "slab_heap s H F" and x: "live i s x"
    and d: "unat d + 8 \<le> unat (csize (kmalloc_cache s ! i))" "aligned 3 d"
  defines "s' \<equiv> s\<lparr>mem := store64 (mem s) (x + d) v\<rparr>"
  shows "slab_heap s' H F"
proof -
  have ok: "heap_ok s" using hp by (auto simp: heap_ok_def)
  define h where "h = page_of x"
  have i: "i < length (kmalloc_cache s)" and h: "h \<in> set (H i)"
    and xs: "x \<in> set (slots h (csize (kmalloc_cache s ! i)))" "x \<notin> set (F h)"
    using x live_eq [OF hp] by (auto simp: h_def)
  note lc = live_cell [OF ok x d]
  have g: "good_size (csize (kmalloc_cache s ! i))" and sl: "slab_ok (mem s) (csize (kmalloc_cache s ! i)) h (F h)"
    using slab_heap_cache [OF hp i] h by (auto simp: cache_ok_def)
  have hh: "page_aligned h" using sl by (simp add: slab_ok_def)
  have so: "same_outside {h} (mem s) (mem s')"
    unfolding s'_def using lc by (simp add: same_outside_store64_in h_def)
  have oc: "object_cell s (x + d)" unfolding object_cell_def using x d by blast
  have hd: "load64 (mem s') (h + c) = load64 (mem s) (h + c)" if "c = 0 \<or> c = 8 \<or> c = 16" for c
    using that object_cell_facts(5) [OF ok oc hh, of c] lc(1) header_aligned [OF hh]
    by (auto simp: s'_def load64_store64_aligned)
  have fr: "load64 (mem s') y = load64 (mem s) y" if "y \<in> set (F h)" for y
  proof -
    have y: "y \<in> set (slots h (csize (kmalloc_cache s ! i)))" "y \<noteq> x" using that sl xs by (auto simp: slab_ok_def)
    have "x + d \<noteq> y + 0"
      using slots_apart [OF hh g xs(1) y(1), of d 0] y(2) d good_size_unat [OF g] by simp
    then show ?thesis using lc(1) slots_facts(1) [OF hh g y(1)] by (simp add: s'_def load64_store64_aligned)
  qed
  have "path (load64 (mem s')) p (F h) null = path (load64 (mem s)) p (F h) null" for p
    by (rule path_cong) (rule fr)
  then have "slab_ok (mem s') (csize (kmalloc_cache s ! i)) h (F h)"
    using sl hd [of 0] hd [of 16] by (simp add: slab_ok_def)
  from slab_heap_update(1) [OF hp i h so _ this] hd [of 8] show ?thesis by (simp add: s'_def)
qed

lemma live_store:
  fixes v :: u64
  assumes ok: "heap_ok s" and x: "live i s x"
    and d: "unat d + 8 \<le> unat (csize (kmalloc_cache s ! i))" "aligned 3 d"
  defines "s' \<equiv> s\<lparr>mem := store64 (mem s) (x + d) v\<rparr>"
  shows "heap_ok s'" and "live j s' y \<longleftrightarrow> live j s y" and "slab_pages s' = slab_pages s"
    and "free_list s xs \<Longrightarrow> free_list s' xs" and "same_outside (slab_pages s) (mem s) (mem s')"
    and "same_globals s s'"
proof -
  obtain H F where hp: "slab_heap s H F" using ok by (auto simp: heap_ok_def)
  note hp' = live_store_heap [OF hp x d, of v, folded s'_def]
  note lc = live_cell [OF ok x d]
  have k: "kmalloc_cache s' = kmalloc_cache s" by (simp add: s'_def)
  show "heap_ok s'" using hp' by (auto simp: heap_ok_def)
  show "live j s' y \<longleftrightarrow> live j s y" using live_eq [OF hp] live_eq [OF hp'] k by simp
  show "slab_pages s' = slab_pages s" using slab_pages_eq [OF hp] slab_pages_eq [OF hp'] k by simp
  show so: "same_outside (slab_pages s) (mem s) (mem s')"
    using same_outside_store64_in [of "x + d" "slab_pages s" "mem s" v] lc by (simp add: s'_def)
  show "same_globals s s'" by (simp add: s'_def same_globals_def)
  have "slab_pages s \<inter> free_set s = {}" using slab_page_facts(3) [OF ok] by auto
  then show "free_list s xs \<Longrightarrow> free_list s' xs"
    using free_list_frame [of s xs "slab_pages s" "mem s'"] so free_set_eq [of s xs] by (simp add: s'_def)
qed

end
