(* ===== verification/Paging.thy ===== *)
theory Paging
  imports Pmm
begin

text \<open>
  The four-level page tables of \<open>kernel/src/vmm.c\<close>. A table is a page of 512 cells, reached
  through the higher-half direct map; an entry is the physical address of the next table
  (or of the mapped page) with flag bits. \<open>vmm_map\<close>, \<open>vmm_unmap\<close> and \<open>virt_to_phys\<close> are the
  code's \<open>map\<close>, \<open>unmap\<close> and \<open>virt_to_phys\<close>; the translation cache of the processor
  (\<open>invlpg\<close>) is not modelled. The abstract view of an address space is \<open>page_map\<close>: the entry
  for every quadruple of indices.
\<close>

section \<open>The operations\<close>

definition NYA_OS_VMM_PRESENT :: u64 where "NYA_OS_VMM_PRESENT = 1"
definition NYA_OS_VMM_RW :: u64 where "NYA_OS_VMM_RW = 2"
definition NYA_OS_VMM_USER :: u64 where "NYA_OS_VMM_USER = 4"
definition NYA_OS_VMM_XD :: u64 where "NYA_OS_VMM_XD = 0x8000000000000000"

lemmas vmm_flag_defs = NYA_OS_VMM_PRESENT_def NYA_OS_VMM_RW_def NYA_OS_VMM_USER_def NYA_OS_VMM_XD_def

definition align_down :: "u64 \<Rightarrow> u64 \<Rightarrow> u64" where
  "align_down addr page_size = addr AND NOT (page_size - 1)"

definition align_up :: "u64 \<Rightarrow> u64 \<Rightarrow> u64" where
  "align_up addr page_size = (addr + (page_size - 1)) AND NOT (page_size - 1)"

definition get_phys_from_entry :: "u64 \<Rightarrow> u64" where
  "get_phys_from_entry pte = pte AND 0x0007FFFFFFFFF000"

definition get_next_table :: "u64 \<Rightarrow> u64 \<Rightarrow> u64 \<Rightarrow> kstate \<Rightarrow> (u64 \<times> kstate) res" where
  "get_next_table table index flags s =
     (if load64 (mem s) (table + 8 * index) AND NYA_OS_VMM_PRESENT = 0 then
        andthen (pmm_alloc_singlep s) (\<lambda>(new_table, s1).
          let m1 = memset (mem s1) (new_table + hhdm s1) 0 4096;
              entry = new_table OR flags;
              m2 = store64 m1 (table + 8 * index) entry
          in Inr (load64 m2 (table + 8 * index) AND 0x000FFFFFFFFFF000, s1\<lparr>mem := m2\<rparr>))
      else Inr (load64 (mem s) (table + 8 * index) AND 0x000FFFFFFFFFF000, s))"

text \<open>The four indices of an address, from the top table down.\<close>

definition lvl4_index :: "u64 \<Rightarrow> u64" where "lvl4_index virt = drop_bit 39 virt AND 0x1FF"
definition lvl3_index :: "u64 \<Rightarrow> u64" where "lvl3_index virt = drop_bit 30 virt AND 0x1FF"
definition lvl2_index :: "u64 \<Rightarrow> u64" where "lvl2_index virt = drop_bit 21 virt AND 0x1FF"
definition lvl1_index :: "u64 \<Rightarrow> u64" where "lvl1_index virt = drop_bit 12 virt AND 0x1FF"

definition vmm_map :: "u64 \<Rightarrow> u64 \<Rightarrow> u64 \<Rightarrow> u64 \<Rightarrow> kstate \<Rightarrow> kstate res" where
  "vmm_map pml4 virt phys flags s =
     andthen (get_next_table pml4 (lvl4_index virt) flags s) (\<lambda>(cur3, s3).
     andthen (get_next_table (cur3 + hhdm s3) (lvl3_index virt) flags s3) (\<lambda>(cur2, s2).
     andthen (get_next_table (cur2 + hhdm s2) (lvl2_index virt) flags s2) (\<lambda>(cur1, s1).
       Inr (s1\<lparr>mem := store64 (mem s1) (cur1 + hhdm s1 + 8 * lvl1_index virt) (phys OR flags)\<rparr>))))"

definition get_next_table_unmap :: "memory \<Rightarrow> u64 \<Rightarrow> u64 \<Rightarrow> u64" where
  "get_next_table_unmap m table index =
     (if table \<noteq> null then
        if load64 m (table + 8 * index) AND NYA_OS_VMM_PRESENT = 1
        then load64 m (table + 8 * index) AND 0x000FFFFFFFFFF000
        else null
      else null)"

definition virt_to_phys :: "u64 \<Rightarrow> u64 \<Rightarrow> kstate \<Rightarrow> u64" where
  "virt_to_phys pml4 virt s =
     (let cur3 = get_next_table_unmap (mem s) pml4 (lvl4_index virt) in
      if cur3 = null then 0 else
      let cur2 = get_next_table_unmap (mem s) (cur3 + hhdm s) (lvl3_index virt) in
      if cur2 = null then 0 else
      let cur1 = get_next_table_unmap (mem s) (cur2 + hhdm s) (lvl2_index virt);
          old = (if cur1 \<noteq> null then
                   if load64 (mem s) (cur1 + hhdm s + 8 * lvl1_index virt) \<noteq> 0
                   then load64 (mem s) (cur1 + hhdm s + 8 * lvl1_index virt) else 0
                 else 0)
      in get_phys_from_entry old)"

definition vmm_unmap :: "u64 \<Rightarrow> u64 \<Rightarrow> kstate \<Rightarrow> u64 \<times> kstate" where
  "vmm_unmap pml4 virt s =
     (let cur3 = get_next_table_unmap (mem s) pml4 (lvl4_index virt) in
      if cur3 = null then (0, s) else
      let cur2 = get_next_table_unmap (mem s) (cur3 + hhdm s) (lvl3_index virt) in
      if cur2 = null then (0, s) else
      let cur1 = get_next_table_unmap (mem s) (cur2 + hhdm s) (lvl2_index virt) in
      if cur1 \<noteq> null then
        (if load64 (mem s) (cur1 + hhdm s + 8 * lvl1_index virt) \<noteq> 0
         then load64 (mem s) (cur1 + hhdm s + 8 * lvl1_index virt) else 0,
         s\<lparr>mem := store64 (mem s) (cur1 + hhdm s + 8 * lvl1_index virt) 0\<rparr>)
      else (0, s))"

section \<open>Walking the tables\<close>

text \<open>The cell of entry \<open>i\<close> of the table at physical address \<open>t\<close>.\<close>

definition entry_addr :: "u64 \<Rightarrow> u64 \<Rightarrow> u64 \<Rightarrow> u64" where
  "entry_addr h t i = t + h + 8 * i"

definition table_mask :: u64 where "table_mask = 0x000FFFFFFFFFF000"

fun walk :: "memory \<Rightarrow> u64 \<Rightarrow> u64 \<Rightarrow> u64 list \<Rightarrow> u64 option" where
  "walk m h t [] = Some t"
| "walk m h t (i # is) =
     (if load64 m (entry_addr h t i) AND 1 = 0 then None
      else walk m h (load64 m (entry_addr h t i) AND table_mask) is)"

lemma walk_append: "walk m h t (p @ q) = (case walk m h t p of None \<Rightarrow> None | Some u \<Rightarrow> walk m h u q)"
  by (induction p arbitrary: t) auto

definition good_path :: "nat \<Rightarrow> u64 list \<Rightarrow> bool" where
  "good_path n p \<longleftrightarrow> length p \<le> n \<and> (\<forall>i \<in> set p. i < 512)"

definition frame_ok :: "u64 \<Rightarrow> bool" where
  "frame_ok p \<longleftrightarrow> p AND table_mask = p \<and> p \<noteq> 0"

text \<open>
  The tables below a top table form a tree: every table on a path of at most three indices
  is a page of its own, and none of them is a free page.
\<close>

definition pt_ok :: "kstate \<Rightarrow> u64 \<Rightarrow> bool" where
  "pt_ok s t \<longleftrightarrow> pmm_ok s
     \<and> (\<forall>x \<in> free_set s. frame_ok (x - hhdm s))
     \<and> (\<forall>p u. good_path 3 p \<longrightarrow> walk (mem s) (hhdm s) t p = Some u \<longrightarrow>
          frame_ok u \<and> u + hhdm s \<noteq> null \<and> u + hhdm s \<notin> free_set s)
     \<and> (\<forall>p q u. good_path 3 p \<longrightarrow> good_path 3 q \<longrightarrow> walk (mem s) (hhdm s) t p = Some u \<longrightarrow>
          walk (mem s) (hhdm s) t q = Some u \<longrightarrow> p = q)"

text \<open>The pages the tables lie in, by virtual address.\<close>

definition pt_pages :: "kstate \<Rightarrow> u64 \<Rightarrow> u64 set" where
  "pt_pages s t = {u + hhdm s | u p. good_path 3 p \<and> walk (mem s) (hhdm s) t p = Some u}"

text \<open>The abstract address space: the entry at a list of four indices, 0 where there is none.\<close>

definition page_map :: "kstate \<Rightarrow> u64 \<Rightarrow> u64 list \<Rightarrow> u64" where
  "page_map s t q =
     (case walk (mem s) (hhdm s) t (butlast q) of
        None \<Rightarrow> 0 | Some u \<Rightarrow> load64 (mem s) (entry_addr (hhdm s) u (last q)))"

definition index_path :: "u64 \<Rightarrow> u64 list" where
  "index_path virt = [lvl4_index virt, lvl3_index virt, lvl2_index virt, lvl1_index virt]"

definition full_path :: "u64 list \<Rightarrow> bool" where
  "full_path q \<longleftrightarrow> length q = 4 \<and> (\<forall>i \<in> set q. i < 512)"

section \<open>Entries\<close>

lemma index_less: "x AND 0x1FF < 512" for x :: u64
  using word_and_le1 [of x "0x1FF"] by (simp add: word_le_nat_alt word_less_nat_alt)

lemma full_index_path: "full_path (index_path virt)"
  using index_less
  by (auto simp: full_path_def index_path_def lvl4_index_def lvl3_index_def lvl2_index_def lvl1_index_def)

lemma frame_ok_aligned:
  assumes "frame_ok p"
  shows "page_aligned p"
proof -
  have "take_bit 12 p = take_bit 12 (p AND table_mask)" using assms by (simp add: frame_ok_def)
  also have "\<dots> = 0" by (simp add: take_bit_and table_mask_def)
  finally show ?thesis by (simp add: aligned_def)
qed

lemma entry_offset: "i < 512 \<Longrightarrow> unat (8 * i) = 8 * unat i" for i :: u64
  by (subst unat_mult_lem [THEN iffD1]) (auto simp: word_less_nat_alt)

lemma entry_facts:
  assumes "page_aligned (u + h)" and "i < 512"
  shows "aligned 3 (entry_addr h u i)" and "page_of (entry_addr h u i) = u + h"
proof -
  have "aligned 3 (8 * i)" using aligned_mult [of 3 8 i] by (simp add: mult.commute aligned_def)
  then show "aligned 3 (entry_addr h u i)"
    unfolding entry_addr_def using page_aligned_8 [OF assms(1)] by (rule aligned_add [rotated])
  have "unat (8 * i) < 4096" using assms(2) by (simp add: entry_offset word_less_nat_alt)
  then show "page_of (entry_addr h u i) = u + h"
    unfolding entry_addr_def by (rule page_of_offset [OF assms(1)])
qed

lemma entry_inj:
  assumes "page_aligned (u + h)" and "page_aligned (w + h)" and "i < 512" and "j < 512"
  shows "entry_addr h u i = entry_addr h w j \<longleftrightarrow> u = w \<and> i = j"
proof
  assume e: "entry_addr h u i = entry_addr h w j"
  then have "u + h = w + h" using entry_facts(2) [OF assms(1,3)] entry_facts(2) [OF assms(2,4)] by simp
  then have "u = w" by simp
  with e have "8 * i = 8 * j" by (simp add: entry_addr_def)
  then have "unat i = unat j" using entry_offset [OF assms(3)] entry_offset [OF assms(4)] by simp
  with \<open>u = w\<close> show "u = w \<and> i = j" by (simp only: word_unat_eq_iff simp_thms)
qed simp

lemma load64_store64_entry:
  assumes "page_aligned (u + h)" and "page_aligned (w + h)" and "i < 512" and "j < 512"
  shows "load64 (store64 m (entry_addr h u i) v) (entry_addr h w j)
    = (if u = w \<and> i = j then v else load64 m (entry_addr h w j))"
  using entry_inj [OF assms] entry_facts(1) [OF assms(1,3)] entry_facts(1) [OF assms(2,4)]
  by (auto simp: load64_store64_aligned)

lemma good_path_append: "good_path n (p @ q) \<Longrightarrow> good_path n p"
  by (simp add: good_path_def)

lemma good_path_snoc: "good_path 2 p \<Longrightarrow> i < 512 \<Longrightarrow> good_path 3 (p @ [i])"
  by (auto simp: good_path_def)

lemma full_path_split:
  "full_path q \<Longrightarrow> good_path 3 (butlast q) \<and> length (butlast q) = 3 \<and> last q < 512 \<and> q = butlast q @ [last q]"
  by (cases q rule: rev_cases) (auto simp: full_path_def good_path_def)

lemma pt_ok_table:
  assumes "pt_ok s t" and "good_path 3 p" and "walk (mem s) (hhdm s) t p = Some u"
  shows "frame_ok u" and "page_aligned (u + hhdm s)" and "u + hhdm s \<noteq> null" and "u + hhdm s \<notin> free_set s"
    and "u \<noteq> null"
proof -
  show f: "frame_ok u" "u + hhdm s \<noteq> null" "u + hhdm s \<notin> free_set s"
    using assms by (auto simp: pt_ok_def)
  show "page_aligned (u + hhdm s)"
    using frame_ok_aligned [OF f(1)] assms(1) by (auto simp: pt_ok_def pmm_ok_def intro: aligned_add)
  show "u \<noteq> null" using f(1) by (simp add: frame_ok_def)
qed

lemma pt_ok_inj:
  "pt_ok s t \<Longrightarrow> good_path 3 p \<Longrightarrow> good_path 3 q \<Longrightarrow> walk (mem s) (hhdm s) t p = Some u \<Longrightarrow>
    walk (mem s) (hhdm s) t q = Some u \<Longrightarrow> p = q"
  unfolding pt_ok_def by blast

text \<open>A walk depends only on the entries it reads.\<close>

lemma walk_cong:
  assumes "\<And>p i r u. q = p @ i # r \<Longrightarrow> walk m h t p = Some u \<Longrightarrow>
    load64 m' (entry_addr h u i) = load64 m (entry_addr h u i)"
  shows "walk m' h t q = walk m h t q"
  using assms
proof (induction q rule: rev_induct)
  case Nil
  then show ?case by simp
next
  case (snoc i q)
  have "walk m' h t q = walk m h t q" using snoc.prems by (intro snoc.IH) auto
  moreover have "load64 m' (entry_addr h u i) = load64 m (entry_addr h u i)" if "walk m h t q = Some u" for u
    using snoc.prems [of q i "[]" u] that by simp
  ultimately show ?case by (auto simp: walk_append split: option.splits)
qed

section \<open>Changing a last-level entry\<close>

lemma leaf_store_walk:
  assumes pt: "pt_ok s t" and p: "good_path 3 p" "length p = 3" and i: "i < 512"
    and u: "walk (mem s) (hhdm s) t p = Some u" and q: "good_path 3 q"
  shows "walk (store64 (mem s) (entry_addr (hhdm s) u i) v) (hhdm s) t q = walk (mem s) (hhdm s) t q"
proof (rule walk_cong)
  fix q' j r w
  assume q': "q = q' @ j # r" and w: "walk (mem s) (hhdm s) t q' = Some w"
  have g: "good_path 3 q'" and j: "j < 512" and l: "length q' < 3"
    using q unfolding q' by (auto simp: good_path_def)
  then have "u \<noteq> w" using pt_ok_inj [OF pt p(1) g u] w p(2) by auto
  then show "load64 (store64 (mem s) (entry_addr (hhdm s) u i) v) (entry_addr (hhdm s) w j)
      = load64 (mem s) (entry_addr (hhdm s) w j)"
    using load64_store64_entry [OF pt_ok_table(2) [OF pt p(1) u] pt_ok_table(2) [OF pt g w] i j] by simp
qed

lemma leaf_store:
  assumes pt: "pt_ok s t" and p: "good_path 3 p" "length p = 3" and i: "i < 512"
    and u: "walk (mem s) (hhdm s) t p = Some u"
    and s': "s' = s\<lparr>mem := store64 (mem s) (entry_addr (hhdm s) u i) v\<rparr>"
  shows "pt_ok s' t" and "pt_pages s' t = pt_pages s t" and "free_set s' = free_set s"
    and "same_outside {u + hhdm s} (mem s) (mem s')"
    and "free_list s xs \<Longrightarrow> free_list s' xs"
    and "full_path q \<Longrightarrow> page_map s' t q = (if q = p @ [i] then v else page_map s t q)"
proof -
  note tab = pt_ok_table [OF pt p(1) u]
  note w = leaf_store_walk [OF pt p i u]
  show o: "same_outside {u + hhdm s} (mem s) (mem s')"
    using entry_facts [OF tab(2) i] by (simp add: s' same_outside_store64_in)
  have ok: "pmm_ok s" using pt by (simp add: pt_ok_def)
  have fs: "pmm_ok s'" "free_set s' = free_set s" "\<And>xs. free_list s xs \<Longrightarrow> free_list s' xs"
    using free_set_frame [OF ok, of "{u + hhdm s}" "mem s'"] o tab(4) by (simp_all add: s')
  then show "free_set s' = free_set s" "free_list s xs \<Longrightarrow> free_list s' xs" by auto
  show "pt_ok s' t" using pt fs w unfolding pt_ok_def by (simp add: s')
  show "pt_pages s' t = pt_pages s t" unfolding pt_pages_def using w by (simp add: s' cong: conj_cong)
  assume q: "full_path q"
  note qs = full_path_split [OF q]
  show "page_map s' t q = (if q = p @ [i] then v else page_map s t q)"
  proof (cases "walk (mem s) (hhdm s) t (butlast q)")
    case None
    then have "q \<noteq> p @ [i]" using u by auto
    then show ?thesis using None w [of "butlast q" v] qs by (simp add: page_map_def s')
  next
    case (Some x)
    have "u = x \<longleftrightarrow> butlast q = p" using pt_ok_inj [OF pt p(1) _ u, of "butlast q"] qs Some u by auto
    moreover have "q = p @ [i] \<longleftrightarrow> butlast q = p \<and> last q = i" using qs by (metis butlast_snoc last_snoc)
    ultimately show ?thesis
      using load64_store64_entry [OF tab(2) pt_ok_table(2) [OF pt _ Some] i, of "last q" "mem s" v]
        w [of "butlast q" v] qs Some
      by (auto simp: page_map_def s')
  qed
qed

section \<open>Adding a table\<close>

definition flags_ok :: "u64 \<Rightarrow> bool" where
  "flags_ok f \<longleftrightarrow> f AND 1 = 1 \<and> f AND table_mask = 0"

lemma new_entry:
  assumes "flags_ok f" and "frame_ok n"
  shows "(n OR f) AND 1 \<noteq> 0" and "(n OR f) AND table_mask = n"
proof -
  have "(n OR f) AND 1 = (n AND 1) OR (f AND 1)" by (simp add: bit.conj_disj_distrib2)
  also have "\<dots> = (n AND 1) OR 1" using assms by (simp only: flags_ok_def)
  finally show "(n OR f) AND 1 \<noteq> 0" by (metis or_eq_0_iff one_neq_zero)
  show "(n OR f) AND table_mask = n"
    using assms by (simp add: bit.conj_disj_distrib2 flags_ok_def frame_ok_def)
qed

text \<open>
  The situation of \<open>get_next_table\<close> when the entry is missing: \<open>x\<close> is the (virtual) free page
  that becomes the new table, \<open>m2\<close> the memory after it is cleared and linked.
\<close>

definition table_added ::
  "kstate \<Rightarrow> u64 \<Rightarrow> u64 list \<Rightarrow> u64 \<Rightarrow> u64 \<Rightarrow> u64 \<Rightarrow> u64 \<Rightarrow> memory \<Rightarrow> bool" where
  "table_added s t p u i f x m2 \<longleftrightarrow> pt_ok s t \<and> good_path 2 p \<and> i < 512
     \<and> walk (mem s) (hhdm s) t p = Some u
     \<and> load64 (mem s) (entry_addr (hhdm s) u i) AND 1 = 0
     \<and> flags_ok f \<and> x \<in> free_set s
     \<and> m2 = store64 (memset (mem s) x 0 4096) (entry_addr (hhdm s) u i) ((x - hhdm s) OR f)"

lemma table_addedD:
  assumes "table_added s t p u i f x m2"
  shows "pt_ok s t" and "good_path 2 p" and "i < 512" and "walk (mem s) (hhdm s) t p = Some u"
    and "load64 (mem s) (entry_addr (hhdm s) u i) AND 1 = 0" and "flags_ok f" and "x \<in> free_set s"
    and "m2 = store64 (memset (mem s) x 0 4096) (entry_addr (hhdm s) u i) ((x - hhdm s) OR f)"
    and "good_path 3 p"
  using assms by (auto simp: table_added_def good_path_def)

lemma table_added_page:
  assumes "table_added s t p u i f x m2"
  shows "frame_ok (x - hhdm s)" and "page_aligned x" and "x \<noteq> null"
    and "page_aligned (u + hhdm s)" and "u + hhdm s \<noteq> x"
proof -
  note ta = table_addedD [OF assms]
  show "frame_ok (x - hhdm s)" using ta(1,7) by (simp add: pt_ok_def)
  obtain xs where "free_list s xs" "x \<in> set xs" using ta(7) by (auto simp: free_set_def)
  then show "page_aligned x" "x \<noteq> null" using free_list_nonnull [of s xs] by (auto simp: free_list_def)
  show "page_aligned (u + hhdm s)" "u + hhdm s \<noteq> x"
    using pt_ok_table [OF ta(1,9,4)] ta(7) by auto
qed

lemma entry_load:
  assumes "table_added s t p u i f x m2" and "page_aligned (w + hhdm s)" and "j < 512"
  shows "load64 m2 (entry_addr (hhdm s) w j) =
    (if w = u \<and> j = i then (x - hhdm s) OR f
     else if w + hhdm s = x then 0 else load64 (mem s) (entry_addr (hhdm s) w j))"
proof -
  note ta = table_addedD [OF assms(1)] and tp = table_added_page [OF assms(1)]
  show ?thesis
    unfolding ta(8) load64_store64_entry [OF tp(4) assms(2) ta(3) assms(3)]
    using load64_memset_page [OF tp(2) entry_facts(1) [OF assms(2,3)]] entry_facts(2) [OF assms(2,3)]
    by auto
qed

text \<open>Paths that do not pass through the new entry are as before.\<close>

lemma old_walk:
  assumes "table_added s t p u i f x m2" and q: "good_path 3 q" and n: "\<not> (\<exists>r. q = p @ i # r)"
  shows "walk m2 (hhdm s) t q = walk (mem s) (hhdm s) t q"
proof (rule walk_cong)
  note ta = table_addedD [OF assms(1)] and tp = table_added_page [OF assms(1)]
  fix q' j r w
  assume q': "q = q' @ j # r" and w: "walk (mem s) (hhdm s) t q' = Some w"
  have g: "good_path 3 q'" and j: "j < 512" using q unfolding q' by (auto simp: good_path_def)
  note tab = pt_ok_table [OF ta(1) g w]
  have "\<not> (w = u \<and> j = i)" using pt_ok_inj [OF ta(1) g ta(9) w] ta(4) n q' by auto
  moreover have "w + hhdm s \<noteq> x" using tab(4) ta(7) by auto
  ultimately show "load64 m2 (entry_addr (hhdm s) w j) = load64 (mem s) (entry_addr (hhdm s) w j)"
    using entry_load [OF assms(1) tab(2) j] by auto
qed

lemma walk_new:
  assumes "table_added s t p u i f x m2"
  shows "walk m2 (hhdm s) t (p @ [i]) = Some (x - hhdm s)"
proof -
  note ta = table_addedD [OF assms(1)] and tp = table_added_page [OF assms(1)]
  have "walk m2 (hhdm s) t p = Some u" using old_walk [OF assms ta(9)] ta(4) by auto
  then show ?thesis
    using entry_load [OF assms tp(4) ta(3)] new_entry [OF ta(6) tp(1)] by (simp add: walk_append)
qed

lemma walk_beyond:
  assumes "table_added s t p u i f x m2" and "good_path 3 (p @ i # j # r)"
  shows "walk m2 (hhdm s) t (p @ i # j # r) = None"
proof -
  note ta = table_addedD [OF assms(1)] and tp = table_added_page [OF assms(1)]
  have j: "j < 512" using assms(2) by (auto simp: good_path_def)
  have "load64 m2 (entry_addr (hhdm s) (x - hhdm s) j) = 0"
    using entry_load [OF assms(1), of "x - hhdm s" j] j tp by (auto simp: algebra_simps)
  then have "walk m2 (hhdm s) (x - hhdm s) (j # r) = None" by simp
  then show ?thesis using walk_new [OF assms(1)] walk_append [of m2 "hhdm s" t "p @ [i]" "j # r"] by simp
qed

lemma old_none:
  assumes "table_added s t p u i f x m2"
  shows "walk (mem s) (hhdm s) t (p @ i # r) = None"
  using table_addedD [OF assms] by (simp add: walk_append)

lemma walk_cases:
  assumes "table_added s t p u i f x m2" and "good_path 3 q"
  shows "walk m2 (hhdm s) t q = (if q = p @ [i] then Some (x - hhdm s) else walk (mem s) (hhdm s) t q)"
proof (cases "\<exists>r. q = p @ i # r")
  case True
  then obtain r where r: "q = p @ i # r" by blast
  show ?thesis
  proof (cases r)
    case Nil
    then show ?thesis using r walk_new [OF assms(1)] by simp
  next
    case (Cons j r')
    then show ?thesis using walk_beyond [OF assms(1), of j r'] old_none [OF assms(1), of r] assms(2) r by simp
  qed
next
  case False
  then show ?thesis using old_walk [OF assms] by auto
qed

lemma table_added_same_outside:
  assumes "table_added s t p u i f x m2"
  shows "same_outside {x, u + hhdm s} (mem s) m2"
proof -
  note ta = table_addedD [OF assms(1)] and tp = table_added_page [OF assms(1)]
  show ?thesis
    unfolding ta(8)
    using same_outside_mono [OF same_outside_memset_page [OF tp(2)]] entry_facts [OF tp(4) ta(3)]
    by (intro same_outside_chain [OF _ same_outside_store64_in]) auto
qed

lemma table_added_page_map:
  assumes "table_added s t p u i f x m2" and "full_path q" and "hhdm s' = hhdm s" and "mem s' = m2"
  shows "page_map s' t q = page_map s t q"
proof -
  note ta = table_addedD [OF assms(1)] and tp = table_added_page [OF assms(1)]
  have g: "good_path 3 (butlast q)" and len: "length (butlast q) = 3" and j: "last q < 512"
    using full_path_split [OF assms(2)] by auto
  note w = walk_cases [OF assms(1) g]
  show ?thesis
  proof (cases "butlast q = p @ [i]")
    case True
    then have "walk (mem s) (hhdm s) t (butlast q) = None" using old_none [OF assms(1), of "[]"] by simp
    moreover have "load64 m2 (entry_addr (hhdm s) (x - hhdm s) (last q)) = 0"
      using entry_load [OF assms(1), of "x - hhdm s", OF _ j] tp by (auto simp: algebra_simps)
    ultimately show ?thesis using w True by (simp add: page_map_def assms(3,4))
  next
    case False
    have "y \<noteq> u \<and> y + hhdm s \<noteq> x" if "walk (mem s) (hhdm s) t (butlast q) = Some y" for y
      using pt_ok_inj [OF ta(1) g ta(9) that] ta(2,4,7) len pt_ok_table(4) [OF ta(1) g that]
      by (auto simp: good_path_def)
    then show ?thesis
      using w False entry_load [OF assms(1) pt_ok_table(2) [OF ta(1) g] j]
      by (auto simp: page_map_def assms(3,4) split: option.split)
  qed
qed

lemma table_added_ok:
  assumes "table_added s t p u i f x m2" and "pmm_ok s'" and "free_set s' = free_set s - {x}" and "hhdm s' = hhdm s"
    and "mem s' = m2"
  shows "pt_ok s' t"
  unfolding pt_ok_def
proof (intro conjI allI impI ballI)
  note ta = table_addedD [OF assms(1)] and tp = table_added_page [OF assms(1)]
  show "pmm_ok s'" by fact
  show "frame_ok (y - hhdm s')" if "y \<in> free_set s'" for y
    using that ta(1) assms by (simp add: pt_ok_def)
  have old: "q = p @ [i] \<and> w = x - hhdm s \<or> walk (mem s) (hhdm s) t q = Some w"
    if "good_path 3 q" "walk (mem s') (hhdm s') t q = Some w" for q w
    using walk_cases [OF assms(1) that(1)] that(2) by (auto simp: assms(4,5) split: if_splits)
  have notx: "walk (mem s) (hhdm s) t q \<noteq> Some (x - hhdm s)" if "good_path 3 q" for q
    using pt_ok_table(4) [OF ta(1) that] ta(7) by auto
  show "frame_ok w" "w + hhdm s' \<noteq> null" "w + hhdm s' \<notin> free_set s'"
    if g: "good_path 3 q" and "walk (mem s') (hhdm s') t q = Some w" for q w
    using old [OF that] tp pt_ok_table [OF ta(1) g] by (auto simp: assms(3,4))
  show "q = r" if g: "good_path 3 q" "good_path 3 r" and "walk (mem s') (hhdm s') t q = Some w"
    "walk (mem s') (hhdm s') t r = Some w" for q r w
    using old [OF g(1)] old [OF g(2)] notx [OF g(1)] notx [OF g(2)] that pt_ok_inj [OF ta(1) g] by auto
qed

lemma table_added_pages:
  assumes "table_added s t p u i f x m2" and "hhdm s' = hhdm s" and "mem s' = m2"
  shows "pt_pages s' t \<subseteq> insert x (pt_pages s t)"
  using walk_cases [OF assms(1)] by (auto simp: pt_pages_def assms(2,3) split: if_splits)

section \<open>The next table, found or added\<close>

text \<open>
  What a sequence of \<open>get_next_table\<close> calls does to an address space: it takes the pages
  \<open>zs\<close> off the free list for tables and changes no mapping.
\<close>

definition pt_grow :: "kstate \<Rightarrow> kstate \<Rightarrow> u64 \<Rightarrow> u64 list \<Rightarrow> u64 list \<Rightarrow> bool" where
  "pt_grow s s' t zs ys \<longleftrightarrow> same_globals s s' \<and> pt_ok s' t \<and> free_list s (zs @ ys) \<and> free_list s' ys
     \<and> same_outside (pt_pages s t \<union> set zs) (mem s) (mem s')
     \<and> pt_pages s' t \<subseteq> pt_pages s t \<union> set zs
     \<and> (\<forall>q. full_path q \<longrightarrow> page_map s' t q = page_map s t q)"

lemma pt_grow_refl: "pt_ok s t \<Longrightarrow> free_list s ys \<Longrightarrow> pt_grow s s t [] ys"
  by (simp add: pt_grow_def same_globals_def)

lemma pt_grow_trans:
  assumes "pt_grow s s1 t zs (zs1 @ ys)" and "pt_grow s1 s2 t zs1 ys"
  shows "pt_grow s s2 t (zs @ zs1) ys"
proof -
  have "same_outside (pt_pages s t \<union> set zs \<union> (pt_pages s1 t \<union> set zs1)) (mem s) (mem s2)"
    using assms unfolding pt_grow_def by (blast intro: same_outside_trans)
  moreover have "pt_pages s1 t \<subseteq> pt_pages s t \<union> set zs" using assms(1) by (simp add: pt_grow_def)
  ultimately have "same_outside (pt_pages s t \<union> set (zs @ zs1)) (mem s) (mem s2)"
    by (elim same_outside_mono) auto
  then show ?thesis using assms by (auto simp: pt_grow_def intro: same_globals_trans)
qed

lemma pt_pagesI:
  "good_path 3 p \<Longrightarrow> walk (mem s) (hhdm s) t p = Some u \<Longrightarrow> u + hhdm s \<in> pt_pages s t"
  by (auto simp: pt_pages_def)

lemma get_next_table_ok:
  assumes pt: "pt_ok s t" and p: "good_path 2 p" and i: "i < 512"
    and u: "walk (mem s) (hhdm s) t p = Some u" and f: "flags_ok f" and xs: "free_list s xs" "xs \<noteq> []"
  shows "\<exists>w s' zs ys. get_next_table (u + hhdm s) i f s = Inr (w, s') \<and> xs = zs @ ys \<and> length zs \<le> 1
    \<and> pt_grow s s' t zs ys \<and> walk (mem s') (hhdm s') t (p @ [i]) = Some w"
proof (cases "load64 (mem s) (entry_addr (hhdm s) u i) AND 1 = 0")
  case False
  then have "get_next_table (u + hhdm s) i f s
      = Inr (load64 (mem s) (entry_addr (hhdm s) u i) AND table_mask, s)"
    by (simp add: get_next_table_def entry_addr_def vmm_flag_defs table_mask_def)
  then show ?thesis using False u pt_grow_refl [OF pt xs(1)]
    by (intro exI [of _ "load64 (mem s) (entry_addr (hhdm s) u i) AND table_mask"] exI [of _ s]
        exI [of _ "[]"] exI [of _ xs]) (simp add: walk_append)
next
  case True
  obtain x ys where x: "xs = x # ys" using xs(2) by (cases xs) auto
  define m2 where "m2 = store64 (memset (mem s) x 0 4096) (entry_addr (hhdm s) u i) ((x - hhdm s) OR f)"
  have fs: "free_set s = insert x (set ys)" "x \<notin> set ys"
    using free_set_eq [OF xs(1)] free_list_distinct [OF xs(1)] x by auto
  have ta: "table_added s t p u i f x m2"
    using pt p i u True f fs by (simp add: table_added_def m2_def)
  note tp = table_added_page [OF ta] and tad = table_addedD [OF ta]
  define s1 where "s1 = s\<lparr>head := load64 (mem s) x\<rparr>"
  define s' where "s' = s1\<lparr>mem := m2\<rparr>"
  have al: "pmm_alloc_singlep s = Inr (x - hhdm s, s1)" "free_list s1 ys"
    using pmm_alloc_step [OF xs(1) [unfolded x]] by (auto simp: s1_def)
  have ux: "u + hhdm s \<notin> set ys" "u + hhdm s \<in> pt_pages s t"
    using pt_ok_table(4) [OF pt tad(9) u] fs pt_pagesI [OF tad(9) u] by auto
  have so: "same_outside {x, u + hhdm s} (mem s) m2" by (rule table_added_same_outside [OF ta])
  have fl: "free_list s' ys"
    using free_list_frame [OF al(2), of "{x, u + hhdm s}" m2] so fs(2) ux by (simp add: s'_def s1_def)
  have "pmm_ok s" using pt by (simp add: pt_ok_def)
  then have pk: "pmm_ok s'" using fl by (auto simp: pmm_ok_def s'_def s1_def)
  have fs': "free_set s' = free_set s - {x}" using free_set_eq [OF fl] fs by auto
  have g: "pt_grow s s' t [x] ys"
    using table_added_ok [OF ta pk fs'] table_added_pages [OF ta, of s'] table_added_page_map [OF ta, of _ s']
      same_outside_mono [OF so, of "pt_pages s t \<union> {x}"] ux xs(1) x fl
    by (auto simp: pt_grow_def same_globals_def s'_def s1_def)
  have "entry_addr (hhdm s) u i = u + hhdm s + 8 * i" by (simp add: entry_addr_def)
  then have "get_next_table (u + hhdm s) i f s = Inr (((x - hhdm s) OR f) AND table_mask, s')"
    using True al(1)
    by (simp add: get_next_table_def vmm_flag_defs table_mask_def s'_def m2_def Let_def s1_def)
  moreover have "((x - hhdm s) OR f) AND table_mask = x - hhdm s" using new_entry(2) [OF f tp(1)] .
  ultimately show ?thesis using g walk_new [OF ta] x
    by (intro exI [of _ "x - hhdm s"] exI [of _ s'] exI [of _ "[x]"] exI [of _ ys])
      (simp add: s'_def s1_def)
qed

section \<open>Mapping, unmapping and translating refine the abstract address space\<close>

text \<open>
  Mapping a page, given the list \<open>xs\<close> of free pages: it takes at most three of them for
  missing tables, and can only fail by running out of pages, which halts the machine.
\<close>

lemma get_next_table_cases:
  assumes "pt_ok s t" and "good_path 2 p" and "i < 512" and u: "walk (mem s) (hhdm s) t p = Some u"
    and "flags_ok f" and xs: "free_list s xs"
  shows "get_next_table (u + hhdm s) i f s = Inl Halted \<and> xs = []
    \<or> (\<exists>w s' zs ys. get_next_table (u + hhdm s) i f s = Inr (w, s') \<and> xs = zs @ ys \<and> length zs \<le> 1
        \<and> pt_grow s s' t zs ys \<and> walk (mem s') (hhdm s') t (p @ [i]) = Some w)"
proof (cases "xs = []")
  case False
  then show ?thesis using get_next_table_ok [OF assms] by blast
next
  case True
  show ?thesis
  proof (cases "load64 (mem s) (entry_addr (hhdm s) u i) AND 1 = 0")
    case True
    then show ?thesis using pmm_alloc_empty xs \<open>xs = []\<close>
      by (simp add: get_next_table_def entry_addr_def vmm_flag_defs)
  next
    case False
    then show ?thesis using pt_grow_refl [OF assms(1)] xs \<open>xs = []\<close> u
      by (simp add: get_next_table_def entry_addr_def vmm_flag_defs table_mask_def walk_append)
  qed
qed

text \<open>The result of a successful \<open>vmm_map\<close>.\<close>

definition mapped :: "kstate \<Rightarrow> kstate \<Rightarrow> u64 \<Rightarrow> u64 list \<Rightarrow> u64 \<Rightarrow> u64 list \<Rightarrow> u64 list \<Rightarrow> bool" where
  "mapped s s' t q e zs ys \<longleftrightarrow> same_globals s s' \<and> pt_ok s' t \<and> free_list s' ys
     \<and> same_outside (pt_pages s t \<union> set zs) (mem s) (mem s')
     \<and> pt_pages s' t \<subseteq> pt_pages s t \<union> set zs
     \<and> (\<forall>r. full_path r \<longrightarrow> page_map s' t r = (if r = q then e else page_map s t r))"

lemma vmm_map_leaf:
  assumes g: "pt_grow s s1 t zs ys" and f: "xs = zs @ ys"
    and w: "walk (mem s1) (hhdm s1) t [lvl4_index virt, lvl3_index virt, lvl2_index virt] = Some w"
    and s': "s' = s1\<lparr>mem := store64 (mem s1) (entry_addr (hhdm s1) w (lvl1_index virt)) e\<rparr>"
  shows "mapped s s' t (index_path virt) e zs ys"
proof -
  define p where "p = [lvl4_index virt, lvl3_index virt, lvl2_index virt]"
  have p: "good_path 3 p" "length p = 3" and i: "lvl1_index virt < 512"
    using index_less
    by (auto simp: p_def good_path_def lvl4_index_def lvl3_index_def lvl2_index_def lvl1_index_def)
  have pt1: "pt_ok s1 t" using g by (simp add: pt_grow_def)
  note ls = leaf_store [OF pt1 p i w [folded p_def] s']
  have sub: "pt_pages s1 t \<subseteq> pt_pages s t \<union> set zs" using g by (simp add: pt_grow_def)
  have "w + hhdm s1 \<in> pt_pages s1 t" using pt_pagesI [OF p(1)] w by (simp add: p_def)
  then have "same_outside (pt_pages s t \<union> set zs) (mem s) (mem s')"
    using g sub by (intro same_outside_chain [OF _ same_outside_mono [OF ls(4)]]) (auto simp: pt_grow_def)
  moreover have "same_globals s s'" using g by (simp add: pt_grow_def same_globals_def s')
  moreover have "page_map s' t q = (if q = index_path virt then e else page_map s t q)"
    if "full_path q" for q
    using ls(6) [OF that] g that by (simp add: pt_grow_def index_path_def p_def)
  ultimately show ?thesis using ls(1,2,5) sub g by (simp add: mapped_def pt_grow_def)
qed

lemma vmm_map_cases:
  assumes pt: "pt_ok s t" and f: "flags_ok f" and xs: "free_list s xs"
  shows "vmm_map (t + hhdm s) virt phys f s = Inl Halted \<and> length xs < 3
    \<or> (\<exists>s' zs ys. vmm_map (t + hhdm s) virt phys f s = Inr s' \<and> xs = zs @ ys \<and> length zs \<le> 3
        \<and> mapped s s' t (index_path virt) (phys OR f) zs ys)"
proof (rule disjCI)
  assume no: "\<not> (\<exists>s' zs ys. vmm_map (t + hhdm s) virt phys f s = Inr s' \<and> xs = zs @ ys \<and> length zs \<le> 3
        \<and> mapped s s' t (index_path virt) (phys OR f) zs ys)"
  have i: "lvl4_index virt < 512" "lvl3_index virt < 512" "lvl2_index virt < 512"
    by (simp_all add: lvl4_index_def lvl3_index_def lvl2_index_def index_less)
  have g: "good_path 2 []" "good_path 2 [lvl4_index virt]" "good_path 2 [lvl4_index virt, lvl3_index virt]"
    using i by (auto simp: good_path_def)
  have w0: "walk (mem s) (hhdm s) t [] = Some t" by simp
  show "vmm_map (t + hhdm s) virt phys f s = Inl Halted \<and> length xs < 3"
    using get_next_table_cases [OF pt g(1) i(1) w0 f xs]
  proof (elim disjE exE conjE)
    assume "get_next_table (t + hhdm s) (lvl4_index virt) f s = Inl Halted" "xs = []"
    then show ?thesis by (simp add: vmm_map_def)
  next
    fix w3 s3 z3 y3
    assume 3: "get_next_table (t + hhdm s) (lvl4_index virt) f s = Inr (w3, s3)" "xs = z3 @ y3"
      "length z3 \<le> 1" "pt_grow s s3 t z3 y3" "walk (mem s3) (hhdm s3) t ([] @ [lvl4_index virt]) = Some w3"
    have w3: "walk (mem s3) (hhdm s3) t [lvl4_index virt] = Some w3" using 3(5) by simp
    have pt3: "pt_ok s3 t" "free_list s3 y3" using 3(4) by (auto simp: pt_grow_def)
    show ?thesis using get_next_table_cases [OF pt3(1) g(2) i(2) w3 f pt3(2)]
    proof (elim disjE exE conjE)
      assume "get_next_table (w3 + hhdm s3) (lvl3_index virt) f s3 = Inl Halted" "y3 = []"
      then show ?thesis using 3 by (simp add: vmm_map_def)
    next
      fix w2 s2 z2 y2
      assume 2: "get_next_table (w3 + hhdm s3) (lvl3_index virt) f s3 = Inr (w2, s2)" "y3 = z2 @ y2"
        "length z2 \<le> 1" "pt_grow s3 s2 t z2 y2"
        "walk (mem s2) (hhdm s2) t ([lvl4_index virt] @ [lvl3_index virt]) = Some w2"
      have w2: "walk (mem s2) (hhdm s2) t [lvl4_index virt, lvl3_index virt] = Some w2" using 2(5) by simp
      have pt2: "pt_ok s2 t" "free_list s2 y2" using 2(4) by (auto simp: pt_grow_def)
      show ?thesis using get_next_table_cases [OF pt2(1) g(3) i(3) w2 f pt2(2)]
      proof (elim disjE exE conjE)
        assume "get_next_table (w2 + hhdm s2) (lvl2_index virt) f s2 = Inl Halted" "y2 = []"
        then show ?thesis using 2(1,2,3) 3(1,2,3) by (simp add: vmm_map_def)
      next
        fix w1 s1 z1 y1
        assume 1: "get_next_table (w2 + hhdm s2) (lvl2_index virt) f s2 = Inr (w1, s1)" "y2 = z1 @ y1"
          "length z1 \<le> 1" "pt_grow s2 s1 t z1 y1"
          "walk (mem s1) (hhdm s1) t ([lvl4_index virt, lvl3_index virt] @ [lvl2_index virt]) = Some w1"
        have g: "pt_grow s s1 t ((z3 @ z2) @ z1) y1"
          using pt_grow_trans [OF pt_grow_trans] 3(2,4) 2(2,4) 1(2,4) by auto
        define s' where
          "s' = s1\<lparr>mem := store64 (mem s1) (entry_addr (hhdm s1) w1 (lvl1_index virt)) (phys OR f)\<rparr>"
        have m: "mapped s s' t (index_path virt) (phys OR f) ((z3 @ z2) @ z1) y1"
          by (rule vmm_map_leaf [OF g refl _ s'_def]) (use 1(5) in simp)
        have "vmm_map (t + hhdm s) virt phys f s = Inr s'"
          using 1(1) 2(1) 3(1) by (simp add: vmm_map_def s'_def entry_addr_def)
        moreover have "xs = ((z3 @ z2) @ z1) @ y1" "length ((z3 @ z2) @ z1) \<le> 3"
          using 1(2,3) 2(2,3) 3(2,3) by auto
        ultimately have False using no m by blast
        then show ?thesis ..
      qed
    qed
  qed
qed

text \<open>A step of the read-only walk.\<close>

lemma get_next_table_unmap_eq:
  assumes pt: "pt_ok s t" and p: "good_path 2 p" and i: "i < 512"
    and u: "walk (mem s) (hhdm s) t p = Some u"
  shows "get_next_table_unmap (mem s) (u + hhdm s) i
    = (case walk (mem s) (hhdm s) t (p @ [i]) of None \<Rightarrow> null | Some w \<Rightarrow> w)"
proof -
  have g: "good_path 3 p" using p by (simp add: good_path_def)
  have "e AND 1 = 0 \<or> e AND 1 = 1" for e :: u64 by (simp add: and_one_eq) (metis not_mod_2_eq_0_eq_1)
  then show ?thesis
    using pt_ok_table(3) [OF pt g u] u
    by (auto simp: get_next_table_unmap_def walk_append entry_addr_def vmm_flag_defs table_mask_def)
qed

lemma walk_table_nonnull:
  "pt_ok s t \<Longrightarrow> good_path 3 p \<Longrightarrow> walk (mem s) (hhdm s) t p = Some u \<Longrightarrow> u \<noteq> null"
  by (rule pt_ok_table(5))

text \<open>The three tables the code reads on its way down, or the level where it stops.\<close>

lemma walk_down:
  fixes virt :: u64
  assumes pt: "pt_ok s t"
  defines "p3 \<equiv> [lvl4_index virt]" and "p2 \<equiv> [lvl4_index virt, lvl3_index virt]"
    and "p1 \<equiv> [lvl4_index virt, lvl3_index virt, lvl2_index virt]"
  shows "walk (mem s) (hhdm s) t p3 = None \<and> get_next_table_unmap (mem s) (t + hhdm s) (lvl4_index virt) = null
      \<and> page_map s t (index_path virt) = 0
    \<or> (\<exists>w3. w3 \<noteq> null \<and> get_next_table_unmap (mem s) (t + hhdm s) (lvl4_index virt) = w3
      \<and> (get_next_table_unmap (mem s) (w3 + hhdm s) (lvl3_index virt) = null
           \<and> page_map s t (index_path virt) = 0
         \<or> (\<exists>w2. w2 \<noteq> null \<and> get_next_table_unmap (mem s) (w3 + hhdm s) (lvl3_index virt) = w2
           \<and> (get_next_table_unmap (mem s) (w2 + hhdm s) (lvl2_index virt) = null
                \<and> page_map s t (index_path virt) = 0
              \<or> (\<exists>w1. w1 \<noteq> null \<and> get_next_table_unmap (mem s) (w2 + hhdm s) (lvl2_index virt) = w1
                \<and> walk (mem s) (hhdm s) t p1 = Some w1
                \<and> page_map s t (index_path virt)
                    = load64 (mem s) (w1 + hhdm s + 8 * lvl1_index virt))))))"
proof -
  have i: "lvl4_index virt < 512" "lvl3_index virt < 512" "lvl2_index virt < 512"
    by (simp_all add: lvl4_index_def lvl3_index_def lvl2_index_def index_less)
  have g: "good_path 2 []" "good_path 2 p3" "good_path 2 p2" "good_path 3 p3" "good_path 3 p2" "good_path 3 p1"
    using i by (auto simp: good_path_def p3_def p2_def p1_def)
  have e: "p3 = [] @ [lvl4_index virt]" "p2 = p3 @ [lvl3_index virt]" "p1 = p2 @ [lvl2_index virt]"
    by (simp_all add: p3_def p2_def p1_def)
  have pm: "page_map s t (index_path virt) = (case walk (mem s) (hhdm s) t p1 of None \<Rightarrow> 0
      | Some w \<Rightarrow> load64 (mem s) (w + hhdm s + 8 * lvl1_index virt))"
    by (simp add: page_map_def index_path_def p1_def entry_addr_def)
  have n2: "walk (mem s) (hhdm s) t p3 = None \<Longrightarrow> walk (mem s) (hhdm s) t p2 = None"
    and n1: "walk (mem s) (hhdm s) t p2 = None \<Longrightarrow> walk (mem s) (hhdm s) t p1 = None"
    by (simp_all add: e(2) e(3) [unfolded e(2)] walk_append del: append_assoc)
  note s3 = get_next_table_unmap_eq [OF pt g(1) i(1), of t, folded e(1)]
  note s2 = get_next_table_unmap_eq [OF pt g(2) i(2), folded e(2)]
  note s1 = get_next_table_unmap_eq [OF pt g(3) i(3), folded e(3)]
  show ?thesis
  proof (cases "walk (mem s) (hhdm s) t p3")
    case None
    then show ?thesis using s3 n2 n1 pm by simp
  next
    case (Some w3)
    note W3 = Some
    show ?thesis
    proof (cases "walk (mem s) (hhdm s) t p2")
      case None
      then show ?thesis using s3 s2 [OF W3] W3 n1 pm walk_table_nonnull [OF pt g(4) W3] by simp
    next
      case (Some w2)
      note W2 = Some
      show ?thesis
        using s3 s2 [OF W3] s1 [OF W2] W3 W2 pm walk_table_nonnull [OF pt g(4) W3]
          walk_table_nonnull [OF pt g(5) W2] walk_table_nonnull [OF pt g(6)]
        by (cases "walk (mem s) (hhdm s) t p1") simp_all
    qed
  qed
qed

lemma virt_to_phys_ok:
  assumes "pt_ok s t"
  shows "virt_to_phys (t + hhdm s) virt s = get_phys_from_entry (page_map s t (index_path virt))"
  using walk_down [OF assms, of virt]
  by (auto simp: virt_to_phys_def get_phys_from_entry_def Let_def)

lemma vmm_unmap_ok:
  assumes pt: "pt_ok s t"
  shows "\<exists>s'. vmm_unmap (t + hhdm s) virt s = (page_map s t (index_path virt), s')
    \<and> same_globals s s' \<and> pt_ok s' t \<and> pt_pages s' t = pt_pages s t
    \<and> (\<forall>xs. free_list s xs \<longrightarrow> free_list s' xs)
    \<and> same_outside (pt_pages s t) (mem s) (mem s')
    \<and> (\<forall>q. full_path q \<longrightarrow> page_map s' t q = (if q = index_path virt then 0 else page_map s t q))"
proof -
  have same: "vmm_unmap (t + hhdm s) virt s = (page_map s t (index_path virt), s)
      \<and> page_map s t (index_path virt) = 0 \<Longrightarrow> ?thesis"
    using pt by (intro exI [of _ s]) (auto simp: same_globals_def)
  define p where "p = [lvl4_index virt, lvl3_index virt, lvl2_index virt]"
  have i: "lvl1_index virt < 512" by (simp add: lvl1_index_def index_less)
  have p: "good_path 3 p" "length p = 3"
    by (auto simp: p_def good_path_def lvl4_index_def lvl3_index_def lvl2_index_def index_less)
  have leaf: ?thesis if w1: "walk (mem s) (hhdm s) t p = Some w1"
    and um: "vmm_unmap (t + hhdm s) virt s = (page_map s t (index_path virt),
      s\<lparr>mem := store64 (mem s) (entry_addr (hhdm s) w1 (lvl1_index virt)) 0\<rparr>)" for w1
  proof -
    define s' where "s' = s\<lparr>mem := store64 (mem s) (entry_addr (hhdm s) w1 (lvl1_index virt)) 0\<rparr>"
    note ls = leaf_store [OF pt p i w1 s'_def]
    have "same_outside (pt_pages s t) (mem s) (mem s')"
      using pt_pagesI [OF p(1) w1] by (intro same_outside_mono [OF ls(4)]) auto
    then show ?thesis using ls um
      by (intro exI [of _ s']) (auto simp: s'_def same_globals_def index_path_def p_def)
  qed
  show ?thesis
    using walk_down [OF pt, of virt] same leaf
    by (auto simp: vmm_unmap_def Let_def entry_addr_def p_def)
qed

section \<open>Fresh address spaces and round trips\<close>

text \<open>A cleared page that is not on the free list is an empty address space.\<close>

lemma pt_ok_empty:
  assumes "pmm_ok s" and "\<forall>x \<in> free_set s. frame_ok (x - hhdm s)" and "frame_ok t"
    and "t + hhdm s \<noteq> null" and "t + hhdm s \<notin> free_set s"
    and zero: "\<And>i. i < 512 \<Longrightarrow> load64 (mem s) (entry_addr (hhdm s) t i) AND 1 = 0"
  shows "pt_ok s t" and "pt_pages s t = {t + hhdm s}" and "full_path q \<Longrightarrow> page_map s t q = 0"
proof -
  have w: "walk (mem s) (hhdm s) t p = (if p = [] then Some t else None)" if "\<forall>i \<in> set p. i < 512" for p
    using that zero by (cases p) auto
  then show "pt_ok s t" using assms by (auto simp: pt_ok_def good_path_def split: if_splits)
  show "pt_pages s t = {t + hhdm s}"
    using w by (auto simp: pt_pages_def good_path_def split: if_splits intro!: exI [of _ "[]"])
  assume q: "full_path q"
  then have "butlast q \<noteq> []" "\<forall>i \<in> set (butlast q). i < 512"
    by (auto simp: full_path_def dest: in_set_butlastD) (cases q rule: rev_cases; auto)
  then show "page_map s t q = 0" using w by (simp add: page_map_def)
qed

text \<open>The mask of \<open>get_phys_from_entry\<close> keeps the frames below bit 51 and drops the flags.\<close>

definition phys_mask :: u64 where "phys_mask = 0x0007FFFFFFFFF000"

lemma phys_of_entry:
  assumes "p AND phys_mask = p" and "f AND table_mask = 0"
  shows "get_phys_from_entry (p OR f) = p"
proof -
  have "phys_mask = table_mask AND phys_mask" by (simp add: phys_mask_def table_mask_def)
  then have "f AND phys_mask = 0" using assms(2) by (metis and.assoc and.left_neutral and_zero_eq zero_and_eq)
  then show ?thesis using assms(1)
    by (simp add: get_phys_from_entry_def phys_mask_def [symmetric] bit.conj_disj_distrib2)
qed

section \<open>Changes outside the tables\<close>

lemma tables_kept:
  assumes pt: "pt_ok s t" and so: "same_outside P (mem s) m" and P: "P \<inter> pt_pages s t = {}"
  shows "good_path 3 r \<Longrightarrow> walk m (hhdm s) t r = walk (mem s) (hhdm s) t r"
    and "good_path 3 r \<Longrightarrow> walk (mem s) (hhdm s) t r = Some u \<Longrightarrow> i < 512 \<Longrightarrow>
      load64 m (entry_addr (hhdm s) u i) = load64 (mem s) (entry_addr (hhdm s) u i)"
proof -
  show ld: "load64 m (entry_addr (hhdm s) u i) = load64 (mem s) (entry_addr (hhdm s) u i)"
    if "good_path 3 r" "walk (mem s) (hhdm s) t r = Some u" "i < 512" for r u i
  proof -
    note e = entry_facts [OF pt_ok_table(2) [OF pt that(1,2)] that(3)]
    have "page_of (entry_addr (hhdm s) u i) \<in> pt_pages s t" using pt_pagesI [OF that(1,2)] by (simp add: e(2))
    then have "page_of (entry_addr (hhdm s) u i) \<notin> P" using P by blast
    then show ?thesis by (rule same_outside_load64 [OF so e(1)])
  qed
  show "walk m (hhdm s) t r = walk (mem s) (hhdm s) t r" if "good_path 3 r"
  proof (rule walk_cong)
    fix r1 i r2 u assume "r = r1 @ i # r2" "walk (mem s) (hhdm s) t r1 = Some u"
    then show "load64 m (entry_addr (hhdm s) u i) = load64 (mem s) (entry_addr (hhdm s) u i)"
      using ld [of r1 u i] that by (auto simp: good_path_def)
  qed
qed

lemma page_map_kept:
  assumes "pt_ok s t" and "same_outside P (mem s) m" and "P \<inter> pt_pages s t = {}" and "full_path q"
  shows "page_map (s\<lparr>mem := m\<rparr>) t q = page_map s t q"
  using full_path_split [OF assms(4)] tables_kept [OF assms(1-3)]
  by (auto simp: page_map_def split: option.splits)

lemma pt_frame_gen:
  assumes pt: "pt_ok s t" and so: "same_outside P (mem s) (mem s')" and P: "P \<inter> pt_pages s t = {}"
    and "same_globals s s'" and ok: "pmm_ok s'"
    and fs: "\<forall>x \<in> free_set s'. frame_ok (x - hhdm s) \<and> x \<notin> pt_pages s t"
  shows "pt_ok s' t" and "pt_pages s' t = pt_pages s t" and "full_path q \<Longrightarrow> page_map s' t q = page_map s t q"
proof -
  have h: "hhdm s' = hhdm s" using assms(4) by (simp add: same_globals_def)
  note ld = tables_kept(2) [OF pt so P] and w = tables_kept(1) [OF pt so P]
  show "pt_ok s' t" unfolding pt_ok_def h
  proof (intro conjI ballI allI impI)
    show "pmm_ok s'" by (rule ok)
  next
    fix x assume "x \<in> free_set s'"
    then show "frame_ok (x - hhdm s)" using fs by auto
  next
    fix p u assume p: "good_path 3 p" and "walk (mem s') (hhdm s) t p = Some u"
    then have "walk (mem s) (hhdm s) t p = Some u" by (simp add: w)
    note tab = pt_ok_table [OF pt p this]
    show "frame_ok u" "u + hhdm s \<noteq> null" "u + hhdm s \<notin> free_set s'"
      using tab fs pt_pagesI [OF p \<open>walk (mem s) (hhdm s) t p = Some u\<close>] by auto
  next
    fix p q u assume "good_path 3 p" "good_path 3 q" "walk (mem s') (hhdm s) t p = Some u"
      "walk (mem s') (hhdm s) t q = Some u"
    then show "p = q" using pt_ok_inj [OF pt, of p q u] by (simp add: w)
  qed
  show "pt_pages s' t = pt_pages s t" unfolding pt_pages_def using w h by (simp cong: conj_cong)
  show "full_path q \<Longrightarrow> page_map s' t q = page_map s t q"
    using full_path_split [of q] w [of "butlast q"] ld [of "butlast q" _ "last q"] h
    by (auto simp: page_map_def split: option.splits)
qed

lemma pt_page_not_free: "pt_ok s t \<Longrightarrow> x \<in> pt_pages s t \<Longrightarrow> x \<notin> free_set s"
  by (auto simp: pt_ok_def pt_pages_def)

lemma pt_frame:
  assumes pt: "pt_ok s t" and "same_outside P (mem s) (mem s')" and "P \<inter> pt_pages s t = {}"
    and "same_globals s s'" and "pmm_ok s'" and "free_set s' \<subseteq> free_set s"
  shows "pt_ok s' t" and "pt_pages s' t = pt_pages s t" and "full_path q \<Longrightarrow> page_map s' t q = page_map s t q"
proof -
  have "\<forall>x \<in> free_set s'. frame_ok (x - hhdm s) \<and> x \<notin> pt_pages s t"
    using assms(6) pt pt_page_not_free [OF pt] by (auto simp: pt_ok_def)
  from pt_frame_gen [OF assms(1-5) this]
  show "pt_ok s' t" "pt_pages s' t = pt_pages s t" "full_path q \<Longrightarrow> page_map s' t q = page_map s t q"
    by auto
qed

end
