(* ===== verification/Vmm.thy ===== *)
theory Vmm
  imports Objects Paging
begin

text \<open>
  The virtual memory manager, the second part of \<open>kernel/src/vmm.c\<close>, with the general
  allocator \<open>kmalloc\<close> of \<open>kernel/src/pmm.c\<close> that is built on it. An address space is a
  \<open>struct pagemap\<close> in memory (head of the region list at offset 0, physical address of the
  top table at 8); a region is a \<open>struct vmm_region\<close> of 32 bytes (base at 0, length at 8,
  flags at 16, next at 24) allocated from the slab caches, and the list is ordered by base.
  The console output of these functions is not modelled.
\<close>

section \<open>Allocating the small structures\<close>

text \<open>
  The branch of \<open>kmalloc\<close> for sizes below 1024. \<open>vmm_region_alloc\<close> calls \<open>kmalloc\<close> with the
  size of a region, \<open>kmalloc\<close> calls \<open>vmm_region_alloc\<close> for large sizes: naming the branch
  resolves the recursion, which never goes deeper.
\<close>

definition kmalloc_small :: "u64 \<Rightarrow> kstate \<Rightarrow> (u64 \<times> kstate) res" where
  "kmalloc_small sz s =
     (case search_for_bigenoughcache (next_pow2 sz) s of
        None \<Rightarrow> Inr (null, s)
      | Some i \<Rightarrow> slab_alloc (kmalloc_cache s ! i) s)"

definition sizeof_vmm_region :: u64 where "sizeof_vmm_region = 32"
definition sizeof_pagemap :: u64 where "sizeof_pagemap = 16"

text \<open>A store through a pointer that may be NULL.\<close>

definition store_ptr :: "u64 \<Rightarrow> u64 \<Rightarrow> u64 \<Rightarrow> kstate \<Rightarrow> kstate res" where
  "store_ptr p off v s =
     (if p = null then Inl PageFault else Inr (s\<lparr>mem := store64 (mem s) (p + off) v\<rparr>))"

section \<open>Mapping ranges\<close>

text \<open>
  \<open>num_of_pages\<close> is an \<open>int\<close>: the page count is cut to 32 bits and read as signed. The loops
  multiply an \<open>int\<close> index by \<open>0x1000\<close>, which overflows (undefined behaviour) from round
  \<open>2 ^ 19\<close> on.
\<close>

definition num_of_pages :: "u64 \<Rightarrow> int" where
  "num_of_pages len = sint (ucast (len div 4096) :: u32)"

definition page_offset :: "nat \<Rightarrow> u64 res" where
  "page_offset i = (if i < 2 ^ 19 then Inr (of_nat i * 0x1000) else Inl Undefined)"

text \<open>The common loop body: a fresh zeroed frame mapped at the \<open>i\<close>-th page of the range.\<close>

definition map_fresh :: "u64 \<Rightarrow> (memory \<Rightarrow> u64) \<Rightarrow> u64 \<Rightarrow> nat \<Rightarrow> kstate \<Rightarrow> kstate res" where
  "map_fresh user_map base flags i s =
     andthen (pmm_alloc_singlep s) (\<lambda>(page, s1).
       let s2 = s1\<lparr>mem := memset (mem s1) (page + hhdm s1) 0 4096\<rparr>
       in andthen (page_offset i) (\<lambda>off.
            vmm_map (load64 (mem s2) (user_map + 8) + hhdm s2) (base (mem s2) + off) page flags s2))"

text \<open>
  The loop of \<open>mmap_range\<close> tests \<open>i != num_of_pages\<close>, so with a negative count it would only
  stop at the overflow of round \<open>2 ^ 19\<close>.
\<close>

definition mmap_range :: "u64 \<Rightarrow> u64 \<Rightarrow> u64 \<Rightarrow> u64 \<Rightarrow> kstate \<Rightarrow> (u64 \<times> kstate) res" where
  "mmap_range user_map base_virt size_in_bytes flags s =
     (let num = num_of_pages (align_up size_in_bytes 4096);
          rounds = (if num < 0 then 2 ^ 19 + 1 else nat num)
      in andthen (for_upto 0 rounds (map_fresh user_map (\<lambda>_. base_virt) flags) s)
           (\<lambda>s'. Inr (base_virt, s')))"

section \<open>Regions\<close>

text \<open>
  The search of \<open>vmm_region_alloc\<close>: the first neighbours whose gap is large enough. The first
  node is only ever a left neighbour.
\<close>

partial_function (option) find_gap ::
  "memory \<Rightarrow> u64 \<Rightarrow> u64 \<Rightarrow> u64 \<Rightarrow> (u64 \<times> u64) option option" where
  "find_gap m prev cur need =
     (if cur = null then Some None
      else if prev = null then find_gap m cur (load64 m (cur + 24)) need
      else if load64 m cur - (load64 m prev + load64 m (prev + 8)) \<ge> need then Some (Some (prev, cur))
      else find_gap m cur (load64 m (cur + 24)) need)"

text \<open>The new node between \<open>prev_node\<close> and \<open>cur_node\<close>; its flags field is left as it was.\<close>

definition link_region :: "u64 \<Rightarrow> u64 \<Rightarrow> u64 \<Rightarrow> u64 \<Rightarrow> memory \<Rightarrow> memory" where
  "link_region prev cur new_guy sz m =
     (let m1 = store64 m new_guy (load64 m prev + load64 m (prev + 8));
          m2 = store64 m1 (new_guy + 8) (align_up sz 4096);
          m3 = store64 m2 (prev + 24) new_guy
      in store64 m3 (new_guy + 24) cur)"

definition vmm_region_alloc_user :: "u64 \<Rightarrow> u64 \<Rightarrow> u64 \<Rightarrow> kstate \<Rightarrow> (u64 \<times> kstate) res" where
  "vmm_region_alloc_user user_map sz flags s =
     (case find_gap (mem s) null (load64 (mem s) user_map) (align_up sz 4096 + 0x1000) of
        None \<Rightarrow> Inl Diverges
      | Some None \<Rightarrow> Inl Halted
      | Some (Some (prev, cur)) \<Rightarrow>
          andthen (kmalloc_small sizeof_vmm_region s) (\<lambda>(new_guy, s1).
            if new_guy = null then Inl PageFault
            else
              let s2 = s1\<lparr>mem := link_region prev cur new_guy sz (mem s1)\<rparr>
              in andthen (for_upto 0 (nat (num_of_pages (align_up sz 4096)))
                            (map_fresh user_map (\<lambda>m. load64 m new_guy) flags) s2)
                   (\<lambda>s3. Inr (load64 (mem s3) new_guy, s3))))"

partial_function (option) find_region ::
  "memory \<Rightarrow> u64 \<Rightarrow> u64 \<Rightarrow> u64 \<Rightarrow> (u64 \<times> u64) option option" where
  "find_region m prev cur base =
     (if cur = null then Some None
      else if load64 m cur = base then Some (Some (prev, cur))
      else find_region m cur (load64 m (cur + 24)) base)"

definition unmap_page :: "u64 \<Rightarrow> u64 \<Rightarrow> nat \<Rightarrow> kstate \<Rightarrow> kstate res" where
  "unmap_page user_map node i s =
     andthen (page_offset i) (\<lambda>off.
       let (phys, s1) = vmm_unmap (load64 (mem s) (user_map + 8) + hhdm s) (load64 (mem s) node + off) s
       in pmm_free_singlep (get_phys_from_entry phys + hhdm s1) s1)"

definition vmm_region_dealloc_user :: "u64 \<Rightarrow> u64 \<Rightarrow> kstate \<Rightarrow> kstate res" where
  "vmm_region_dealloc_user user_map base s =
     (case find_region (mem s) null (load64 (mem s) user_map) base of
        None \<Rightarrow> Inl Diverges
      | Some None \<Rightarrow> Inl Halted
      | Some (Some (prev, cur)) \<Rightarrow>
          andthen (if load64 (mem s) (cur + 24) \<noteq> null
                   then store_ptr prev 24 (load64 (mem s) (cur + 24)) s else Inr s) (\<lambda>s1.
          andthen (for_upto 0 (nat (num_of_pages (load64 (mem s1) (cur + 8)))) (unmap_page user_map cur) s1)
            (free_obj cur)))"

text \<open>The kernel's versions are the same code on the kernel's own page map.\<close>

definition vmm_region_alloc :: "u64 \<Rightarrow> u64 \<Rightarrow> kstate \<Rightarrow> (u64 \<times> kstate) res" where
  "vmm_region_alloc sz flags s = vmm_region_alloc_user (kernel_pagemap s) sz flags s"

definition vmm_region_dealloc :: "u64 \<Rightarrow> kstate \<Rightarrow> kstate res" where
  "vmm_region_dealloc base s = vmm_region_dealloc_user (kernel_pagemap s) base s"

text \<open>What \<open>vmm_region_walk\<close> prints: base and length of every region, in order.\<close>

partial_function (option) vmm_region_walk :: "memory \<Rightarrow> u64 \<Rightarrow> (u64 \<times> u64) list option" where
  "vmm_region_walk m cur =
     (if cur = null then Some []
      else Option.bind (vmm_region_walk m (load64 m (cur + 24)))
             (\<lambda>rs. Some ((load64 m cur, load64 m (cur + 8)) # rs)))"

section \<open>The general allocator\<close>

definition kmalloc :: "u64 \<Rightarrow> kstate \<Rightarrow> (u64 \<times> kstate) res" where
  "kmalloc sz s =
     (if sz < 1024 then kmalloc_small sz s
      else vmm_region_alloc (align_up sz 4096) (NYA_OS_VMM_PRESENT OR NYA_OS_VMM_RW) s)"

definition kfree :: "u64 \<Rightarrow> u64 \<Rightarrow> kstate \<Rightarrow> kstate res" where
  "kfree addr sz s =
     (if addr \<noteq> null then if sz < 1024 then free_obj addr s else vmm_region_dealloc addr s
      else Inr s)"

text \<open>\<open>memcpy\<close> to the NULL pointer that a failed \<open>kmalloc\<close> returns faults.\<close>

definition krealloc :: "u64 \<Rightarrow> u64 \<Rightarrow> u64 \<Rightarrow> kstate \<Rightarrow> (u64 \<times> kstate) res" where
  "krealloc addr oldsz newsz s =
     andthen (kmalloc newsz s) (\<lambda>(new_shit, s1).
       if addr \<noteq> null \<and> oldsz > 0 then
         if new_shit = null then Inl PageFault
         else andthen (kfree addr oldsz (s1\<lparr>mem := memcpy (mem s1) new_shit addr oldsz\<rparr>))
                (\<lambda>s2. Inr (new_shit, s2))
       else Inr (new_shit, s1))"

section \<open>Building address spaces\<close>

text \<open>What the bootloader reports and the linker script defines.\<close>

record boot_info =
  virtual_base :: u64
  physical_base :: u64
  image_size :: u64
  memmap :: "memmap_entry list"

text \<open>The last call, of \<open>vmm_region_walk\<close>, gives the regions that are printed to the serial port.\<close>

definition vmm_region_setup ::
  "boot_info \<Rightarrow> u64 \<Rightarrow> kstate \<Rightarrow> ((u64 \<times> u64) list \<times> kstate) res" where
  "vmm_region_setup b hhdm_pages s =
     andthen (kmalloc_small sizeof_vmm_region s) (\<lambda>(node, s1).
     andthen (store_ptr node 0 (hhdm s1) s1) (\<lambda>s2.
     andthen (store_ptr node 8 hhdm_pages s2) (\<lambda>s3.
     andthen (store_ptr node 16 (NYA_OS_VMM_PRESENT OR NYA_OS_VMM_RW) s3) (\<lambda>s4.
     andthen (store_ptr (kernel_pagemap s4) 0 node s4) (\<lambda>s5.
     andthen (kmalloc_small sizeof_vmm_region s5) (\<lambda>(kernel_region, s6).
     andthen (store_ptr kernel_region 0 (virtual_base b) s6) (\<lambda>s7.
     andthen (store_ptr kernel_region 8 (image_size b) s7) (\<lambda>s8.
     andthen (store_ptr node 24 kernel_region
                (s8\<lparr>kerneL_higher_half_size := virtual_base b + image_size b\<rparr>)) (\<lambda>s9.
       case vmm_region_walk (mem s9) (load64 (mem s9) (kernel_pagemap s9)) of
         None \<Rightarrow> Inl Diverges
       | Some regions \<Rightarrow> Inr (regions, s9))))))))))"

definition new_pagemap :: "kstate \<Rightarrow> (u64 \<times> kstate) res" where
  "new_pagemap s =
     andthen (kmalloc_small sizeof_pagemap s) (\<lambda>(new_guy, s1).
     andthen (pmm_alloc_singlep s1) (\<lambda>(page, s2).
     andthen (store_ptr new_guy 8 page s2) (\<lambda>s3.
       let dest = load64 (mem s3) (new_guy + 8) + hhdm s3 + 8 * 256;
           src = load64 (mem s3) (kernel_pagemap s3 + 8) + hhdm s3 + 8 * 256;
           s4 = s3\<lparr>mem := memcpy (mem s3) dest src (0x1000 div 2)\<rparr>
       in
     andthen (kmalloc_small sizeof_vmm_region s4) (\<lambda>(part, s5).
     andthen (store_ptr part 0 0 s5) (\<lambda>s6.
     andthen (store_ptr part 8 0 s6) (\<lambda>s7.
     andthen (store_ptr part 16 (NYA_OS_VMM_PRESENT OR NYA_OS_VMM_USER OR NYA_OS_VMM_RW) s7) (\<lambda>s8.
     andthen (kmalloc_small sizeof_vmm_region s8) (\<lambda>(kernel, s9).
     andthen (store_ptr kernel 0 (hhdm s9) s9) (\<lambda>s10.
     andthen (store_ptr kernel 8 (kerneL_higher_half_size s10) s10) (\<lambda>s11.
     andthen (store_ptr part 24 kernel s11) (\<lambda>s12.
     andthen (store_ptr new_guy 0 part s12) (\<lambda>s13.
       Inr (new_guy, s13)))))))))))))"

text \<open>
  The mapping loops of \<open>vmm_init\<close>: \<open>[virt, virt + len)\<close> onto \<open>[phys, phys + len)\<close> with
  \<open>PRESENT | RW\<close>. \<open>count\<close> is \<open>hhdm_pages\<close>, which grows for offsets below 4 GiB. The loop
  variable is a multiple of the page size, so when it wraps the loop never ends.
\<close>

function map_loop ::
  "u64 \<Rightarrow> u64 \<Rightarrow> u64 \<Rightarrow> u64 \<Rightarrow> u64 \<Rightarrow> kstate \<Rightarrow> (u64 \<times> kstate) res" where
  "map_loop virt phys len j count s =
     (if j < len then
        andthen (vmm_map (load64 (mem s) (kernel_pagemap s + 8) + hhdm s) (virt + j) (phys + j)
                   (NYA_OS_VMM_PRESENT OR NYA_OS_VMM_RW) s) (\<lambda>s'.
          if j + 0x1000 < j then Inl Diverges
          else map_loop virt phys len (j + 0x1000)
                 (if j < 0x100000000 then count + 0x1000 else count) s')
      else Inr (count, s))"
  by pat_completeness auto
termination
proof (relation "measure (\<lambda>(virt, phys, len, j, count, s). unat len - unat j)", goal_cases)
  case (2 virt phys len j count s s')
  then have "unat j < unat len" "unat (j + 0x1000) = unat j + 4096"
    using unat_add_no_wrap [of j "0x1000"] by (auto simp: word_less_nat_alt)
  then show ?case by simp
qed simp

declare map_loop.simps [simp del]

definition map_entry :: "memmap_entry \<Rightarrow> u64 \<Rightarrow> kstate \<Rightarrow> (u64 \<times> kstate) res" where
  "map_entry e count s =
     (let hhdm_range = (\<lambda>len. map_loop (hhdm s + me_base e) (me_base e) len 0 count s)
      in case me_type e of
           USABLE \<Rightarrow> hhdm_range (me_length e)
         | BOOTLOADER_RECLAIMABLE \<Rightarrow> hhdm_range (me_length e)
         | KERNEL_AND_MODULES \<Rightarrow> hhdm_range (align_up (me_length e) 4096)
         | RESERVED \<Rightarrow> hhdm_range (align_up (me_length e) 4096)
         | FRAMEBUFFER \<Rightarrow> hhdm_range (align_up (me_length e) 4096)
         | ACPI_NVS \<Rightarrow> hhdm_range (align_up (me_length e) 4096)
         | ACPI_RECLAIMABLE \<Rightarrow> hhdm_range (align_up (me_length e) 4096)
         | OTHER \<Rightarrow> Inr (count, s))"

fun map_entries :: "memmap_entry list \<Rightarrow> u64 \<Rightarrow> kstate \<Rightarrow> (u64 \<times> kstate) res" where
  "map_entries [] count s = Inr (count, s)"
| "map_entries (e # es) count s =
     andthen (map_entry e count s) (\<lambda>(count', s'). map_entries es count' s')"

text \<open>The processor's control register \<open>cr3\<close> is the second component of the result.\<close>

definition vmm_init :: "boot_info \<Rightarrow> kstate \<Rightarrow> ((u64 \<times> (u64 \<times> u64) list) \<times> kstate) res" where
  "vmm_init b s =
     andthen (pmm_alloc_singlep s) (\<lambda>(pml4, s1).
     andthen (store_ptr (kernel_pagemap s1) 8 pml4 s1) (\<lambda>s2.
       let s3 = s2\<lparr>mem := memset (mem s2) (load64 (mem s2) (kernel_pagemap s2 + 8) + hhdm s2) 0 4096\<rparr>
       in
     andthen (map_loop (virtual_base b) (physical_base b) (align_up (image_size b) 4096) 0 0 s3) (\<lambda>(_, s4).
     andthen (map_entries (memmap b) 0 s4) (\<lambda>(hhdm_pages, s5).
     andthen (map_loop (hhdm s5) 0 0x100000000 0 hhdm_pages s5) (\<lambda>(hhdm_pages', s6).
     andthen (vmm_region_setup b hhdm_pages' s6) (\<lambda>(regions, s7).
       Inr ((load64 (mem s7) (kernel_pagemap s7 + 8), regions), s7)))))))"

section \<open>Changes outside the heap\<close>

lemma heap_frame:
  assumes "heap_ok s" and "same_outside P (mem s) (mem s')" and "P \<inter> slab_pages s = {}"
    and "same_globals s s'" and "pmm_ok s'" and "free_set s' \<inter> slab_pages s = {}"
  shows "heap_ok s'" and "live i s' x \<longleftrightarrow> live i s x" and "slab_pages s' = slab_pages s"
proof -
  obtain H F where hp: "slab_heap s H F" using assms(1) by (auto simp: heap_ok_def)
  have k: "kmalloc_cache s' = kmalloc_cache s" using assms(4) by (simp add: same_globals_def)
  have "cache_ok (mem s') (kmalloc_cache s ! j) (H j) F" if "j < length (kmalloc_cache s)" for j
    using slab_heap_cache [OF hp that] cache_ok_frame [OF _ assms(2), of _ "H j" F F] assms(3) that
    by (auto simp: slab_pages_eq [OF hp])
  moreover have "set (H j) \<inter> free_set s' = {}" if "j < length (kmalloc_cache s)" for j
    using assms(6) that by (auto simp: slab_pages_eq [OF hp])
  ultimately have hp': "slab_heap s' H F" using hp assms(5) k by (simp add: slab_heap_def)
  then show "heap_ok s'" by (auto simp: heap_ok_def)
  show "live i s' x \<longleftrightarrow> live i s x" using live_eq [OF hp] live_eq [OF hp'] k by simp
  show "slab_pages s' = slab_pages s" using slab_pages_eq [OF hp] slab_pages_eq [OF hp'] k by simp
qed

lemma kmalloc_small_cases:
  assumes "heap_ok s" and "map csize (kmalloc_cache s) = class_sizes" and "sz < 1024"
    and "free_list s xs"
  shows "\<exists>i < 8. sz \<le> class_sizes ! i \<and> (\<forall>j < i. class_sizes ! j < sz)
    \<and> (kmalloc_small sz s = Inl Halted \<and> xs = []
       \<or> (\<exists>x s' zs ys. kmalloc_small sz s = Inr (x, s') \<and> xs = zs @ ys \<and> length zs \<le> 1
            \<and> obj_taken s s' i x zs ys))"
proof -
  obtain i where i: "i < 8" "search_for_bigenoughcache (next_pow2 sz) s = Some i"
    "sz \<le> class_sizes ! i" "\<forall>j < i. class_sizes ! j < sz"
    using size_class [OF assms(2,3)] by blast
  have "length (kmalloc_cache s) = 8" using arg_cong [OF assms(2), of length] by (simp add: class_sizes_def)
  then have "i < length (kmalloc_cache s)" using i(1) by simp
  from slab_alloc_cases [OF assms(1) this assms(4)] show ?thesis
    using i by (intro exI [of _ i]) (simp add: kmalloc_small_def)
qed

section \<open>Mapping fresh frames\<close>

text \<open>
  A cell whose value survives everything that only takes free pages and changes tables.
\<close>

definition cell_is :: "kstate \<Rightarrow> u64 \<Rightarrow> u64 \<Rightarrow> u64 \<Rightarrow> bool" where
  "cell_is s t a v \<longleftrightarrow> aligned 3 a \<and> page_of a \<notin> pt_pages s t \<union> free_set s \<and> load64 (mem s) a = v"

text \<open>
  What the mapping loops do to the whole machine: they take the pages \<open>zs\<close>, change only those
  and the tables, and leave the heap alone.
\<close>

definition vm_grow :: "kstate \<Rightarrow> kstate \<Rightarrow> u64 \<Rightarrow> u64 list \<Rightarrow> u64 list \<Rightarrow> bool" where
  "vm_grow s s' t zs ys \<longleftrightarrow> same_globals s s' \<and> pt_ok s' t \<and> free_list s (zs @ ys) \<and> free_list s' ys
     \<and> same_outside (pt_pages s t \<union> set zs) (mem s) (mem s')
     \<and> pt_pages s' t \<subseteq> pt_pages s t \<union> set zs"

lemma vm_grow_refl: "pt_ok s t \<Longrightarrow> free_list s ys \<Longrightarrow> vm_grow s s t [] ys"
  by (simp add: vm_grow_def same_globals_def)

lemma vm_grow_trans:
  assumes "vm_grow s s1 t zs (zs1 @ ys)" and "vm_grow s1 s2 t zs1 ys"
  shows "vm_grow s s2 t (zs @ zs1) ys"
proof -
  have "same_outside (pt_pages s t \<union> set zs \<union> (pt_pages s1 t \<union> set zs1)) (mem s) (mem s2)"
    using assms unfolding vm_grow_def by (blast intro: same_outside_trans)
  moreover have "pt_pages s1 t \<subseteq> pt_pages s t \<union> set zs" using assms(1) by (simp add: vm_grow_def)
  ultimately have "same_outside (pt_pages s t \<union> set (zs @ zs1)) (mem s) (mem s2)"
    by (elim same_outside_mono) auto
  then show ?thesis using assms by (auto simp: vm_grow_def intro: same_globals_trans)
qed

lemma vm_grow_free:
  "vm_grow s s' t zs ys \<Longrightarrow> free_set s = set zs \<union> set ys \<and> free_set s' = set ys \<and> set zs \<inter> set ys = {}
    \<and> distinct zs"
  using free_set_eq [of s "zs @ ys"] free_set_eq [of s' ys] free_list_distinct [of s "zs @ ys"]
  by (auto simp: vm_grow_def)

lemma vm_grow_cell:
  assumes "vm_grow s s' t zs ys" and "cell_is s t a v"
  shows "cell_is s' t a v"
proof -
  have "load64 (mem s') a = load64 (mem s) a"
    using assms same_outside_load64 [of "pt_pages s t \<union> set zs" "mem s" "mem s'" a] vm_grow_free [OF assms(1)]
    by (auto simp: cell_is_def vm_grow_def)
  then show ?thesis using assms vm_grow_free [OF assms(1)] by (auto simp: cell_is_def vm_grow_def)
qed

lemma vm_grow_heap:
  assumes "vm_grow s s' t zs ys" and "heap_ok s" and "slab_pages s \<inter> pt_pages s t = {}"
  shows "heap_ok s'" and "live i s' x \<longleftrightarrow> live i s x" and "slab_pages s' = slab_pages s"
    and "slab_pages s' \<inter> pt_pages s' t = {}"
proof -
  have g: "same_globals s s'" "pmm_ok s'" "same_outside (pt_pages s t \<union> set zs) (mem s) (mem s')"
    "pt_pages s' t \<subseteq> pt_pages s t \<union> set zs"
    using assms(1) by (auto simp: vm_grow_def pt_ok_def)
  note fr = vm_grow_free [OF assms(1)]
  have d: "(pt_pages s t \<union> set zs) \<inter> slab_pages s = {}"
    using fr slab_page_facts(3) [OF assms(2)] assms(3) by auto
  have sub: "free_set s' \<inter> slab_pages s = {}" using fr slab_page_facts(3) [OF assms(2)] by auto
  note hf = heap_frame [OF assms(2) g(3) d g(1,2) sub]
  show "heap_ok s'" "live i s' x \<longleftrightarrow> live i s x" "slab_pages s' = slab_pages s" using hf by auto
  show "slab_pages s' \<inter> pt_pages s' t = {}" using hf(3) g(4) d by blast
qed

text \<open>Taking a page off the list and clearing it.\<close>

lemma alloc_cleared:
  assumes pt: "pt_ok s t" and xs: "free_list s (p # ps)"
  defines "s2 \<equiv> s\<lparr>head := load64 (mem s) p, mem := memset (mem s) p 0 4096\<rparr>"
  shows "pmm_alloc_singlep s = Inr (p - hhdm s, s\<lparr>head := load64 (mem s) p\<rparr>)"
    and "vm_grow s s2 t [p] ps" and "page_map s2 t q = page_map s t q \<or> \<not> full_path q"
    and "p \<notin> pt_pages s2 t" and "page_of a = p \<Longrightarrow> mem s2 a = 0"
proof -
  show al: "pmm_alloc_singlep s = Inr (p - hhdm s, s\<lparr>head := load64 (mem s) p\<rparr>)"
    using pmm_alloc_step [OF xs] by simp
  have pa: "page_aligned p" using xs by (simp add: free_list_def)
  have fs: "free_set s = insert p (set ps)" "p \<notin> set ps"
    using free_set_eq [OF xs] free_list_distinct [OF xs] by auto
  have so: "same_outside {p} (mem s) (mem s2)" using same_outside_memset_page [OF pa] by (simp add: s2_def)
  have fl: "free_list s2 ps"
    using free_list_frame [of "s\<lparr>head := load64 (mem s) p\<rparr>" ps "{p}" "mem s2"] pmm_alloc_step [OF xs] so fs(2)
    by (simp add: s2_def)
  have ok: "pmm_ok s2" using pt fl by (auto simp: pt_ok_def pmm_ok_def s2_def)
  have tab: "u + hhdm s \<noteq> p" "page_aligned (u + hhdm s)" if "good_path 3 r" "walk (mem s) (hhdm s) t r = Some u" for r u
    using pt_ok_table(2,4) [OF pt that] fs by auto
  have ld: "load64 (mem s2) (entry_addr (hhdm s) u i) = load64 (mem s) (entry_addr (hhdm s) u i)"
    if "good_path 3 r" "walk (mem s) (hhdm s) t r = Some u" "i < 512" for r u i
    using same_outside_load64 [OF so entry_facts(1) [OF tab(2) [OF that(1,2)] that(3)]]
      entry_facts(2) [OF tab(2) [OF that(1,2)] that(3)] tab(1) [OF that(1,2)] by simp
  have w: "walk (mem s2) (hhdm s) t r = walk (mem s) (hhdm s) t r" if "good_path 3 r" for r
  proof (rule walk_cong)
    fix r1 i r2 u assume "r = r1 @ i # r2" "walk (mem s) (hhdm s) t r1 = Some u"
    then show "load64 (mem s2) (entry_addr (hhdm s) u i) = load64 (mem s) (entry_addr (hhdm s) u i)"
      using ld [of r1 u i] that by (auto simp: good_path_def)
  qed
  have h: "hhdm s2 = hhdm s" by (simp add: s2_def)
  have fs2: "free_set s2 = set ps" using free_set_eq [OF fl] .
  have pt2: "pt_ok s2 t" using pt ok fs2 fs w h unfolding pt_ok_def by auto
  have pp: "pt_pages s2 t = pt_pages s t" unfolding pt_pages_def using w h by (simp cong: conj_cong)
  show "vm_grow s s2 t [p] ps"
    using pt2 pp xs fl so same_outside_mono [OF so, of "insert p (pt_pages s t)"]
    by (auto simp: vm_grow_def same_globals_def s2_def)
  show "page_map s2 t q = page_map s t q \<or> \<not> full_path q"
    using full_path_split [of q] w [of "butlast q"] ld [of "butlast q" _ "last q"] h
    by (auto simp: page_map_def split: option.splits)
  show "p \<notin> pt_pages s2 t" using pp tab(1) by (auto simp: pt_pages_def)
  show "page_of a = p \<Longrightarrow> mem s2 a = 0" using memset_page_apply [OF pa] by (simp add: s2_def)
qed


lemma map_fresh_step:
  assumes pt: "pt_ok s t" and f: "flags_ok f" and xs: "free_list s xs" and i: "i < 2 ^ 19"
    and um: "cell_is s t (um + 8) t" and b: "\<And>s' zs ys. vm_grow s s' t zs ys \<Longrightarrow> base (mem s') = b"
  shows "map_fresh um base f i s = Inl Halted \<and> length xs < 4
    \<or> (\<exists>s' p zs ys. map_fresh um base f i s = Inr s' \<and> xs = (p # zs) @ ys \<and> length zs \<le> 3
        \<and> vm_grow s s' t (p # zs) ys \<and> p \<notin> pt_pages s' t \<and> (\<forall>a. page_of a = p \<longrightarrow> mem s' a = 0)
        \<and> (\<forall>q. full_path q \<longrightarrow> page_map s' t q
             = (if q = index_path (b + of_nat i * 0x1000) then (p - hhdm s) OR f else page_map s t q)))"
proof (cases xs)
  case Nil
  then show ?thesis using pmm_alloc_empty xs by (simp add: map_fresh_def)
next
  case (Cons p ps)
  note ac = alloc_cleared [OF pt xs [unfolded Cons]]
  define s2 where "s2 = s\<lparr>head := load64 (mem s) p, mem := memset (mem s) p 0 4096\<rparr>"
  have g: "vm_grow s s2 t [p] ps" using ac(2) by (simp add: s2_def)
  then have pt2: "pt_ok s2 t" "free_list s2 ps" by (auto simp: vm_grow_def)
  have um2: "load64 (mem s2) (um + 8) = t" using vm_grow_cell [OF g um] by (simp add: cell_is_def)
  have h: "hhdm s2 = hhdm s" by (simp add: s2_def)
  define virt where "virt = b + of_nat i * 0x1000"
  have mf: "map_fresh um base f i s = vmm_map (t + hhdm s2) virt (p - hhdm s) f s2"
    using ac(1) um2 b [OF g] i h
    by (simp add: map_fresh_def Let_def s2_def page_offset_def virt_def)
  show ?thesis
    using vmm_map_cases [OF pt2(1) f pt2(2), of virt "p - hhdm s"]
  proof (elim disjE exE conjE)
    assume "vmm_map (t + hhdm s2) virt (p - hhdm s) f s2 = Inl Halted" "length ps < 3"
    then show ?thesis using mf Cons by simp
  next
    fix s' zs ys
    assume m: "vmm_map (t + hhdm s2) virt (p - hhdm s) f s2 = Inr s'" "ps = zs @ ys" "length zs \<le> 3"
      "mapped s2 s' t (index_path virt) ((p - hhdm s) OR f) zs ys"
    have g2: "vm_grow s2 s' t zs ys" using m(2,4) pt2(2) by (simp add: mapped_def vm_grow_def)
    have g3: "vm_grow s s' t (p # zs) ys" using vm_grow_trans [OF _ g2, of s "[p]"] g m(2) by simp
    have p2: "p \<notin> pt_pages s2 t" "p \<notin> set zs"
      using ac(4) vm_grow_free [OF g3] by (auto simp: s2_def)
    then have "p \<notin> pt_pages s' t" using g2 by (auto simp: vm_grow_def)
    moreover have "mem s' a = 0" if "page_of a = p" for a
    proof -
      have "mem s' a = mem s2 a" using g2 that p2 by (auto simp: vm_grow_def same_outside_def)
      then show ?thesis using ac(5) [OF that] by (simp add: s2_def)
    qed
    moreover have "page_map s' t q = (if q = index_path virt then (p - hhdm s) OR f else page_map s t q)"
      if "full_path q" for q
      using m(4) ac(3) [of q] that by (auto simp: mapped_def s2_def)
    ultimately show ?thesis using mf m(1,2,3) g3 Cons virt_def by auto
  qed
qed

text \<open>Different pages of a range have different index paths.\<close>

lemma index_path_bits:
  assumes "index_path v = index_path w" and "12 \<le> n" and "n < 48"
  shows "bit v n \<longleftrightarrow> bit w n"
proof -
  have e: "(0x1FF :: u64) = mask 9" by (simp add: mask_eq_exp_minus_1)
  have g: "take_bit 9 (drop_bit k v) = take_bit 9 (drop_bit k w)" if "k \<in> {12, 21, 30, 39}" for k
    using assms(1) that
    by (auto simp: index_path_def lvl4_index_def lvl3_index_def lvl2_index_def lvl1_index_def e
        take_bit_eq_mask [symmetric])
  have "\<exists>k \<in> {12, 21, 30, 39}. k \<le> n \<and> n - k < 9" using assms(2,3) by simp presburger
  then obtain k where k: "k \<in> {12, 21, 30, 39}" "k \<le> n" "n - k < 9" by blast
  have "bit (take_bit 9 (drop_bit k x)) (n - k) \<longleftrightarrow> bit x n" for x :: u64
    using k(2,3) by (simp add: bit_simps)
  with g [OF k(1)] show ?thesis by metis
qed

lemma index_path_inj:
  assumes "index_path (b + of_nat i * 0x1000) = index_path (b + of_nat j * 0x1000)"
    and "i < 2 ^ 36" and "j < 2 ^ 36"
  shows "i = j"
proof -
  define x :: u64 where "x = of_nat i * 0x1000"
  define y :: u64 where "y = of_nat j * 0x1000"
  have xy: "x = of_nat (i * 4096)" "y = of_nat (j * 4096)" by (simp_all add: x_def y_def)
  have u: "unat x = i * 4096" "unat y = j * 4096"
    unfolding xy using assms(2,3) by (simp_all add: unat_of_nat_u64 del: of_nat_mult)
  have low: "take_bit 12 x = 0" "take_bit 12 y = 0"
    using aligned_of_nat [of 12 i] aligned_of_nat [of 12 j] by (simp_all add: x_def y_def aligned_def mult.commute)
  have l12: "take_bit 12 (b + x) = take_bit 12 b" "take_bit 12 (b + y) = take_bit 12 b"
    using word_take_bit_add [of 12 b x] word_take_bit_add [of 12 b y] low by simp_all
  have "take_bit 48 (b + x) = take_bit 48 (b + y)"
  proof (rule bit_word_eqI)
    fix n assume "n < LENGTH(64)"
    show "bit (take_bit 48 (b + x)) n = bit (take_bit 48 (b + y)) n"
    proof (cases "12 \<le> n \<and> n < 48")
      case True
      then show ?thesis using index_path_bits [OF assms(1), of n] by (simp add: bit_simps x_def y_def)
    next
      case False
      have "bit (take_bit 12 (b + x)) n = bit (take_bit 12 (b + y)) n" using l12 by simp
      then show ?thesis using False by (auto simp: bit_simps)
    qed
  qed
  then have "take_bit 48 ((b + x) - b) = take_bit 48 ((b + y) - b)"
    by (metis word_take_bit_diff)
  then have "take_bit 48 x = take_bit 48 y" by simp
  moreover have "take_bit 48 x = x" "take_bit 48 y = y"
    using u assms(2,3) by (simp_all add: word_unat_eq_iff unat_take_bit)
  ultimately have "x = y" by simp
  then show ?thesis using u by simp
qed

text \<open>The whole loop: the pages of the range map to frames \<open>fr i\<close>, cleared and used nowhere else.\<close>

definition range_mapped ::
  "kstate \<Rightarrow> kstate \<Rightarrow> u64 \<Rightarrow> u64 \<Rightarrow> u64 \<Rightarrow> nat \<Rightarrow> (nat \<Rightarrow> u64) \<Rightarrow> u64 list \<Rightarrow> u64 list \<Rightarrow> bool" where
  "range_mapped s s' t b f n fr zs ys \<longleftrightarrow> vm_grow s s' t zs ys \<and> inj_on fr {..<n}
     \<and> (\<forall>i < n. fr i + hhdm s \<in> set zs - pt_pages s' t \<and> (\<forall>a. page_of a = fr i + hhdm s \<longrightarrow> mem s' a = 0))
     \<and> (\<forall>i < n. page_map s' t (index_path (b + of_nat i * 0x1000)) = fr i OR f)
     \<and> (\<forall>q. full_path q \<longrightarrow> (\<forall>i < n. q \<noteq> index_path (b + of_nat i * 0x1000)) \<longrightarrow>
          page_map s' t q = page_map s t q)"

lemma range_mapped_step:
  assumes r: "range_mapped s s1 t b f n fr zs (z1 @ ys)" and n: "n < 2 ^ 19"
    and g: "vm_grow s1 s2 t z1 ys" and p: "p \<in> set z1" "p \<notin> pt_pages s2 t"
    and z: "\<forall>a. page_of a = p \<longrightarrow> mem s2 a = 0"
    and m: "\<forall>q. full_path q \<longrightarrow> page_map s2 t q
      = (if q = index_path (b + of_nat n * 0x1000) then (p - hhdm s) OR f else page_map s1 t q)"
  shows "range_mapped s s2 t b f (Suc n) (fr(n := p - hhdm s)) (zs @ z1) ys"
proof -
  have g0: "vm_grow s s1 t zs (z1 @ ys)" using r by (simp add: range_mapped_def)
  have g2: "vm_grow s s2 t (zs @ z1) ys" by (rule vm_grow_trans [OF g0 g])
  have old: "fr i + hhdm s \<in> set zs" "fr i + hhdm s \<notin> pt_pages s1 t"
    "\<forall>a. page_of a = fr i + hhdm s \<longrightarrow> mem s1 a = 0" if "i < n" for i
    using r that by (auto simp: range_mapped_def)
  have dz: "set zs \<inter> set z1 = {}" using vm_grow_free [OF g2] by auto
  have "p - hhdm s \<notin> fr ` {..<n}" using old(1) p(1) dz
    by (metis (no_types, lifting) IntI diff_add_cancel empty_iff imageE lessThan_iff)
  moreover have "inj_on fr {..<n}" using r by (simp add: range_mapped_def)
  ultimately have inj: "inj_on (fr(n := p - hhdm s)) {..<Suc n}"
    by (auto simp: lessThan_Suc inj_on_fun_updI)
  have new: "fr i + hhdm s \<notin> pt_pages s2 t" "\<forall>a. page_of a = fr i + hhdm s \<longrightarrow> mem s2 a = 0" if "i < n" for i
  proof -
    have out: "fr i + hhdm s \<notin> pt_pages s1 t \<union> set z1" using old [OF that] dz by auto
    then show "fr i + hhdm s \<notin> pt_pages s2 t" using g by (auto simp: vm_grow_def)
    have "mem s2 a = mem s1 a" if "page_of a = fr i + hhdm s" for a
      using g out that by (auto simp: vm_grow_def same_outside_def)
    then show "\<forall>a. page_of a = fr i + hhdm s \<longrightarrow> mem s2 a = 0" using old(3) [OF that] by simp
  qed
  have ne: "index_path (b + of_nat i * 0x1000) \<noteq> index_path (b + of_nat n * 0x1000)" if "i < n" for i
    using index_path_inj [of b i n] that n by auto
  show ?thesis
    using g2 inj old(1) new p z m ne r full_index_path
    by (auto simp: range_mapped_def less_Suc_eq)
qed

lemma map_fresh_loop:
  assumes pt: "pt_ok s t" and f: "flags_ok f" and xs: "free_list s xs" and n: "n \<le> 2 ^ 19"
    and um: "cell_is s t (um + 8) t" and b: "\<And>s' zs ys. vm_grow s s' t zs ys \<Longrightarrow> base (mem s') = b"
  shows "for_upto 0 n (map_fresh um base f) s = Inl Halted \<and> length xs < 4 * n
    \<or> (\<exists>s' fr zs ys. for_upto 0 n (map_fresh um base f) s = Inr s' \<and> xs = zs @ ys \<and> length zs \<le> 4 * n
        \<and> range_mapped s s' t b f n fr zs ys)"
  using n
proof (induction n)
  case 0
  have "range_mapped s s t b f 0 (\<lambda>_. 0) [] xs"
    using vm_grow_refl [OF pt xs] by (simp add: range_mapped_def)
  then show ?case by (intro disjI2 exI [of _ s]) auto
next
  case (Suc n)
  then have IH: "for_upto 0 n (map_fresh um base f) s = Inl Halted \<and> length xs < 4 * n
    \<or> (\<exists>s' fr zs ys. for_upto 0 n (map_fresh um base f) s = Inr s' \<and> xs = zs @ ys \<and> length zs \<le> 4 * n
        \<and> range_mapped s s' t b f n fr zs ys)" and n: "n < 2 ^ 19" by auto
  from IH show ?case
  proof (elim disjE exE conjE)
    assume "for_upto 0 n (map_fresh um base f) s = Inl Halted" "length xs < 4 * n"
    then show ?thesis by (simp add: for_upto_snoc del: for_upto.simps)
  next
    fix s1 fr zs y1
    assume s1: "for_upto 0 n (map_fresh um base f) s = Inr s1" "xs = zs @ y1" "length zs \<le> 4 * n"
      "range_mapped s s1 t b f n fr zs y1"
    have g: "vm_grow s s1 t zs y1" using s1(4) by (simp add: range_mapped_def)
    then have pt1: "pt_ok s1 t" "free_list s1 y1" and h: "hhdm s1 = hhdm s"
      by (auto simp: vm_grow_def same_globals_def)
    have b1: "base (mem s2) = b" if "vm_grow s1 s2 t z2 y2" for s2 z2 y2
    proof -
      have "free_list s1 (z2 @ y2)" using that by (simp add: vm_grow_def)
      then have "y1 = z2 @ y2" using free_list_unique [OF pt1(2)] by blast
      then show ?thesis using b [OF vm_grow_trans [OF _ that, of s zs]] g by simp
    qed
    have "map_fresh um base f n s1 = Inl Halted \<and> length y1 < 4
      \<or> (\<exists>s2 p z1 ys. map_fresh um base f n s1 = Inr s2 \<and> y1 = (p # z1) @ ys \<and> length z1 \<le> 3
        \<and> vm_grow s1 s2 t (p # z1) ys \<and> p \<notin> pt_pages s2 t \<and> (\<forall>a. page_of a = p \<longrightarrow> mem s2 a = 0)
        \<and> (\<forall>q. full_path q \<longrightarrow> page_map s2 t q
             = (if q = index_path (b + of_nat n * 0x1000) then (p - hhdm s1) OR f else page_map s1 t q)))"
      by (rule map_fresh_step [OF pt1(1) f pt1(2) n vm_grow_cell [OF g um]]) (rule b1)
    then show ?thesis
    proof (elim disjE exE conjE)
      assume "map_fresh um base f n s1 = Inl Halted" "length y1 < 4"
      then show ?thesis using s1 by (simp add: for_upto_snoc del: for_upto.simps)
    next
      fix s2 p z1 ys
      assume s2: "map_fresh um base f n s1 = Inr s2" "y1 = (p # z1) @ ys" "length z1 \<le> 3"
        "vm_grow s1 s2 t (p # z1) ys" "p \<notin> pt_pages s2 t" "\<forall>a. page_of a = p \<longrightarrow> mem s2 a = 0"
        "\<forall>q. full_path q \<longrightarrow> page_map s2 t q
           = (if q = index_path (b + of_nat n * 0x1000) then p - hhdm s1 OR f else page_map s1 t q)"
      have "range_mapped s s2 t b f (Suc n) (fr(n := p - hhdm s)) (zs @ p # z1) ys"
        using range_mapped_step [OF _ n s2(4) _ s2(5,6)] s1(4) s2(2,7) h by simp
      moreover have "for_upto 0 (Suc n) (map_fresh um base f) s = Inr s2"
        using s1(1) s2(1) by (simp add: for_upto_snoc del: for_upto.simps)
      moreover have "xs = (zs @ p # z1) @ ys" "length (zs @ p # z1) \<le> 4 * Suc n"
        using s1(2,3) s2(2,3) by auto
      ultimately show ?thesis by blast
    qed
  qed
qed

section \<open>Address spaces with their regions\<close>

text \<open>
  The abstract region list, and what allocation does to it: the new region starts where the
  left neighbour of the first sufficient gap ends.
\<close>

definition regions :: "memory \<Rightarrow> u64 list \<Rightarrow> (u64 \<times> u64) list" where
  "regions m ns = map (\<lambda>n. (load64 m n, load64 m (n + 8))) ns"

lemma regions_simps [simp]:
  "regions m [] = []"
  "regions m (n # ns) = (load64 m n, load64 m (n + 8)) # regions m ns"
  "regions m (xs @ ys) = regions m xs @ regions m ys"
  by (simp_all add: regions_def)

fun region_insert :: "u64 \<Rightarrow> u64 \<Rightarrow> (u64 \<times> u64) list \<Rightarrow> (u64 \<times> (u64 \<times> u64) list) option" where
  "region_insert need len (r1 # r2 # rs) =
     (if fst r2 - (fst r1 + snd r1) \<ge> need
      then Some (fst r1 + snd r1, r1 # (fst r1 + snd r1, len) # r2 # rs)
      else map_option (\<lambda>(b, rs'). (b, r1 # rs')) (region_insert need len (r2 # rs)))"
| "region_insert need len rs = None"

fun gap_nodes :: "memory \<Rightarrow> u64 \<Rightarrow> u64 list \<Rightarrow> (u64 \<times> u64) option" where
  "gap_nodes m need (a # b # ns) =
     (if load64 m b - (load64 m a + load64 m (a + 8)) \<ge> need then Some (a, b)
      else gap_nodes m need (b # ns))"
| "gap_nodes m need ns = None"

lemma find_gap_from:
  "chain (get_field 24 m) a (a # ns) \<Longrightarrow>
    find_gap m a (load64 m (a + 24)) need = Some (gap_nodes m need (a # ns))"
proof (induction ns arbitrary: a)
  case Nil
  then show ?case by (subst find_gap.simps) (simp add: get_field_def)
next
  case (Cons b ns)
  then have b: "get_field 24 m a = b" "a \<noteq> null" "b \<noteq> null" "chain (get_field 24 m) b (b # ns)"
    by auto
  then show ?case using Cons.IH [OF b(4)] by (subst find_gap.simps) (simp add: get_field_def)
qed

lemma find_gap_eq:
  assumes "chain (get_field 24 m) p ns"
  shows "find_gap m null p need = Some (gap_nodes m need ns)"
proof (cases ns)
  case Nil
  then show ?thesis using assms by (subst find_gap.simps) simp
next
  case (Cons a rest)
  then have "p = a" "a \<noteq> null" "chain (get_field 24 m) a (a # rest)" using assms by auto
  then show ?thesis using find_gap_from [of m a rest need] Cons by (subst find_gap.simps) simp
qed

lemma gap_nodes_Some:
  "gap_nodes m need ns = Some (a, b) \<Longrightarrow> \<exists>xs ys. ns = xs @ a # b # ys
    \<and> region_insert need len (regions m ns)
      = Some (load64 m a + load64 m (a + 8),
              regions m (xs @ [a]) @ (load64 m a + load64 m (a + 8), len) # regions m (b # ys))"
proof (induction m need ns rule: gap_nodes.induct)
  case (1 m need c d ns)
  show ?case
  proof (cases "load64 m d - (load64 m c + load64 m (c + 8)) \<ge> need")
    case True
    then have "a = c" "b = d" using 1(2) by auto
    then show ?thesis using True by (rule_tac x = "[]" in exI, rule_tac x = ns in exI) simp
  next
    case False
    then have "gap_nodes m need (d # ns) = Some (a, b)" using 1(2) by simp
    from 1(1) [OF False this] obtain xs ys where e: "d # ns = xs @ a # b # ys" "region_insert need len (regions m (d # ns))
      = Some (load64 m a + load64 m (a + 8),
              regions m (xs @ [a]) @ (load64 m a + load64 m (a + 8), len) # regions m (b # ys))"
      by blast
    have "region_insert need len (regions m (c # d # ns))
        = map_option (\<lambda>(b, rs'). (b, (load64 m c, load64 m (c + 8)) # rs')) (region_insert need len (regions m (d # ns)))"
      using False by simp
    then show ?thesis using e
      by (rule_tac x = "c # xs" in exI, rule_tac x = ys in exI) simp
  qed
qed auto

lemma region_insert_split:
  "region_insert need len rs = Some (base, rs') \<Longrightarrow>
    \<exists>ls l r rest. rs = ls @ l # r # rest \<and> rs' = ls @ l # (base, len) # r # rest"
proof (induction need len rs arbitrary: rs' rule: region_insert.induct)
  case (1 need len r1 r2 rs)
  show ?case
  proof (cases "fst r2 - (fst r1 + snd r1) \<ge> need")
    case True
    then have "r1 # r2 # rs = [] @ r1 # r2 # rs" "rs' = [] @ r1 # (base, len) # r2 # rs" using "1.prems" by auto
    then show ?thesis by blast
  next
    case False
    then obtain q where q: "region_insert need len (r2 # rs) = Some (base, q)" "rs' = r1 # q"
      using "1.prems" by auto
    from "1.IH" [OF False q(1)] q(2) show ?thesis by (metis append_Cons)
  qed
qed auto

lemma gap_nodes_None: "gap_nodes m need ns = None \<Longrightarrow> region_insert need len (regions m ns) = None"
  by (induction m need ns rule: gap_nodes.induct) (auto split: if_splits)

text \<open>The two cells of a \<open>struct pagemap\<close>: a live heap object, or static memory of its own.\<close>

definition map_cells :: "kstate \<Rightarrow> u64 \<Rightarrow> u64 \<Rightarrow> bool" where
  "map_cells s t um \<longleftrightarrow> live 1 s um
     \<or> (\<forall>d \<in> {0, 8}. aligned 3 (um + d) \<and> page_of (um + d) \<notin> slab_pages s \<union> pt_pages s t \<union> free_set s)"

definition vm_ok :: "kstate \<Rightarrow> u64 \<Rightarrow> u64 \<Rightarrow> u64 list \<Rightarrow> bool" where
  "vm_ok s um t ns \<longleftrightarrow> heap_ok s \<and> map csize (kmalloc_cache s) = class_sizes \<and> pt_ok s t
     \<and> slab_pages s \<inter> pt_pages s t = {} \<and> map_cells s t um \<and> load64 (mem s) (um + 8) = t
     \<and> chain (get_field 24 (mem s)) (load64 (mem s) um) ns \<and> (\<forall>n \<in> set ns. live 2 s n)"

lemma class_size_nth:
  assumes "map csize (kmalloc_cache s) = class_sizes" and "i < 8"
  shows "csize (kmalloc_cache s ! i) = class_sizes ! i" and "length (kmalloc_cache s) = 8"
proof -
  show l: "length (kmalloc_cache s) = 8" using arg_cong [OF assms(1), of length] by (simp add: class_sizes_def)
  then show "csize (kmalloc_cache s ! i) = class_sizes ! i" using assms by (metis nth_map)
qed

lemma vm_ok_sizes:
  "vm_ok s um t ns \<Longrightarrow> csize (kmalloc_cache s ! 2) = 32 \<and> csize (kmalloc_cache s ! 1) = 16"
  using class_size_nth(1) [of s 2] class_size_nth(1) [of s 1] by (simp add: vm_ok_def class_sizes_def)

text \<open>The cells an address space's structures consist of.\<close>

lemma vm_cells:
  assumes vm: "vm_ok s um t ns"
  shows "n \<in> set ns \<Longrightarrow> d \<in> {0, 8, 16, 24} \<Longrightarrow> object_cell s (n + d)"
    and "d \<in> {0, 8} \<Longrightarrow> object_cell s (um + d)
      \<or> aligned 3 (um + d) \<and> page_of (um + d) \<notin> slab_pages s \<union> pt_pages s t \<union> free_set s"
proof -
  have al: "aligned 3 (0 :: u64)" "aligned 3 (8 :: u64)" "aligned 3 (16 :: u64)" "aligned 3 (24 :: u64)"
    by (simp_all add: aligned_def)
  show "object_cell s (n + d)" if "n \<in> set ns" "d \<in> {0, 8, 16, 24}"
  proof -
    have "live 2 s n" using vm that(1) by (simp add: vm_ok_def)
    moreover have "aligned 3 d" "unat d + 8 \<le> unat (csize (kmalloc_cache s ! 2))"
      using that(2) al vm_ok_sizes [OF vm] by auto
    ultimately show ?thesis unfolding object_cell_def by blast
  qed
  show "object_cell s (um + d)
      \<or> aligned 3 (um + d) \<and> page_of (um + d) \<notin> slab_pages s \<union> pt_pages s t \<union> free_set s"
    if "d \<in> {0, 8}"
  proof (cases "live 1 s um")
    case True
    moreover have "aligned 3 d" "unat d + 8 \<le> unat (csize (kmalloc_cache s ! 1))"
      using that al vm_ok_sizes [OF vm] by auto
    ultimately show ?thesis unfolding object_cell_def by blast
  next
    case False
    then show ?thesis using vm that by (auto simp: vm_ok_def map_cells_def)
  qed
qed

text \<open>
  If the cells keep their values and the parts the invariant names are kept, the address
  space and its regions are the same.
\<close>

lemma vm_ok_cells:
  assumes vm: "vm_ok s um t ns" and "heap_ok s'" "same_globals s s'" "pt_ok s' t"
    "slab_pages s' \<inter> pt_pages s' t = {}" "map_cells s' t um"
    and live: "\<And>n. n \<in> set ns \<Longrightarrow> live 2 s' n"
    and oc: "\<And>a. object_cell s a \<Longrightarrow> load64 (mem s') a = load64 (mem s) a"
    and st: "\<And>a. aligned 3 a \<Longrightarrow> page_of a \<notin> slab_pages s \<union> pt_pages s t \<union> free_set s \<Longrightarrow>
      load64 (mem s') a = load64 (mem s) a"
  shows "vm_ok s' um t ns" and "regions (mem s') ns = regions (mem s) ns"
proof -
  have n: "load64 (mem s') (n + d) = load64 (mem s) (n + d)" if "n \<in> set ns" "d \<in> {0, 8, 16, 24}" for n d
    using oc [OF vm_cells(1) [OF vm that]] .
  have u: "load64 (mem s') (um + d) = load64 (mem s) (um + d)" if "d \<in> {0, 8}" for d
    using vm_cells(2) [OF vm that] oc [of "um + d"] st [of "um + d"] by blast
  have "chain (get_field 24 (mem s')) p ns = chain (get_field 24 (mem s)) p ns" for p
    by (rule path_cong) (simp add: get_field_def n)
  then show "vm_ok s' um t ns" using vm assms(2-6) live u [of 0] u [of 8]
    by (simp add: vm_ok_def same_globals_def)
  show "regions (mem s') ns = regions (mem s) ns"
    using n [of _ 0] n [of _ 8] by (simp add: regions_def)
qed

section \<open>Allocating a region\<close>

text \<open>Step 1: \<open>kmalloc\<close> of the node keeps the address space.\<close>

lemma vm_kmalloc:
  assumes vm: "vm_ok s um t ns" and xs: "free_list s (zs @ ys)" and tk: "obj_taken s s' i x zs ys"
  shows "vm_ok s' um t ns" and "regions (mem s') ns = regions (mem s) ns"
    and "pt_pages s' t = pt_pages s t" and "full_path q \<Longrightarrow> page_map s' t q = page_map s t q"
proof -
  have t: "heap_ok s'" "free_list s' ys" "same_globals s s'" "\<And>j y. live j s y \<Longrightarrow> live j s' y"
    "slab_pages s' = slab_pages s \<union> set zs" "same_outside (slab_pages s \<union> set zs) (mem s) (mem s')"
    "\<And>a. object_cell s a \<Longrightarrow> load64 (mem s') a = load64 (mem s) a"
    using tk by (auto simp: obj_taken_def)
  have v: "pt_ok s t" "slab_pages s \<inter> pt_pages s t = {}" "map_cells s t um" "\<forall>n \<in> set ns. live 2 s n"
    using vm by (auto simp: vm_ok_def)
  have fs: "free_set s = set zs \<union> set ys" "free_set s' = set ys"
    using free_set_eq [OF xs] free_set_eq [OF t(2)] by auto
  have zp: "set zs \<inter> pt_pages s t = {}" using v(1) fs by (auto simp: pt_ok_def pt_pages_def)
  have pk: "pmm_ok s'" using t(1) by (auto simp: heap_ok_def slab_heap_def)
  have d: "(slab_pages s \<union> set zs) \<inter> pt_pages s t = {}" and sub: "free_set s' \<subseteq> free_set s"
    using zp v(2) fs by auto
  note pf = pt_frame [OF v(1) t(6) d t(3) pk sub]
  show "pt_pages s' t = pt_pages s t" "full_path q \<Longrightarrow> page_map s' t q = page_map s t q" using pf by auto
  have sp: "slab_pages s' \<inter> pt_pages s' t = {}" using d t(5) pf(2) by simp
  have mc: "map_cells s' t um" using v(3) t(4,5) fs pf(2) by (auto simp: map_cells_def)
  have st: "load64 (mem s') a = load64 (mem s) a"
    if "aligned 3 a" "page_of a \<notin> slab_pages s \<union> pt_pages s t \<union> free_set s" for a
    using same_outside_load64 [OF t(6) that(1)] that(2) fs by auto
  have lv: "live 2 s' n" if "n \<in> set ns" for n using v(4) t(4) that by auto
  show "vm_ok s' um t ns" "regions (mem s') ns = regions (mem s) ns"
    using vm_ok_cells [OF vm t(1,3) pf(1) sp mc lv t(7) st] by auto
qed

text \<open>Step 2: linking the node.\<close>

lemma link_region_load:
  assumes "aligned 3 x" and "aligned 3 prev" and "aligned 3 a" and "prev \<noteq> x" and "prev + 8 \<noteq> x"
  shows "load64 (link_region prev cur x sz m) a =
    (if a = x + 24 then cur else if a = prev + 24 then x else if a = x + 8 then align_up sz 4096
     else if a = x then load64 m prev + load64 m (prev + 8) else load64 m a)"
proof -
  have "aligned 3 (8 :: u64)" "aligned 3 (24 :: u64)" by (simp_all add: aligned_def)
  then have "aligned 3 (x + 8)" "aligned 3 (x + 24)" "aligned 3 (prev + 8)" "aligned 3 (prev + 24)"
    using assms(1,2) by (auto intro: aligned_add)
  then show ?thesis using assms
    by (auto simp: link_region_def Let_def load64_store64_aligned)
qed

lemma link_region_state:
  fixes cur sz :: u64
  assumes ok: "heap_ok s" and x: "live i s x" and p: "live i s prev" and c: "csize (kmalloc_cache s ! i) = 32"
  defines "s' \<equiv> s\<lparr>mem := link_region prev cur x sz (mem s)\<rparr>"
  shows "heap_ok s'" and "live j s' y \<longleftrightarrow> live j s y" and "slab_pages s' = slab_pages s"
    and "free_list s xs \<Longrightarrow> free_list s' xs" and "same_outside (slab_pages s) (mem s) (mem s')"
    and "same_globals s s'"
proof -
  have d: "unat (0 :: u64) + 8 \<le> unat (32 :: u64)" "unat (8 :: u64) + 8 \<le> unat (32 :: u64)"
    "unat (24 :: u64) + 8 \<le> unat (32 :: u64)"
    "aligned 3 (0 :: u64)" "aligned 3 (8 :: u64)" "aligned 3 (24 :: u64)"
    by (simp_all add: aligned_def)
  define s1 where "s1 = s\<lparr>mem := store64 (mem s) (x + 0) (load64 (mem s) prev + load64 (mem s) (prev + 8))\<rparr>"
  define s2 where "s2 = s1\<lparr>mem := store64 (mem s1) (x + 8) (align_up sz 4096)\<rparr>"
  define s3 where "s3 = s2\<lparr>mem := store64 (mem s2) (prev + 24) x\<rparr>"
  have s': "s' = s3\<lparr>mem := store64 (mem s3) (x + 24) cur\<rparr>"
    by (simp add: s'_def s3_def s2_def s1_def link_region_def Let_def)
  have k: "kmalloc_cache s1 = kmalloc_cache s" "kmalloc_cache s2 = kmalloc_cache s" "kmalloc_cache s3 = kmalloc_cache s"
    by (simp_all add: s1_def s2_def s3_def)
  note 1 = live_store [OF ok x d(1) [folded c] d(4), where v = "load64 (mem s) prev + load64 (mem s) (prev + 8)", folded s1_def]
  have l1: "live i s1 x" "live i s1 prev" using 1(2) x p by auto
  note 2 = live_store [OF 1(1) l1(1) d(2) [folded c, folded k(1)] d(5), where v = "align_up sz 4096", folded s2_def]
  have l2: "live i s2 x" "live i s2 prev" using 2(2) l1 by auto
  note 3 = live_store [OF 2(1) l2(2) d(3) [folded c, folded k(2)] d(6), where v = x, folded s3_def]
  have l3: "live i s3 x" using 3(2) l2 by auto
  note 4 = live_store [OF 3(1) l3 d(3) [folded c, folded k(3)] d(6), where v = cur, folded s']
  show "heap_ok s'" "slab_pages s' = slab_pages s" "live j s' y \<longleftrightarrow> live j s y"
    using 1 2 3 4 by auto
  show "free_list s xs \<Longrightarrow> free_list s' xs" using 1(4) 2(4) 3(4) 4(4) by blast
  have "same_outside (slab_pages s) (mem s) (mem s2)"
    using same_outside_chain 1(5) 2(3,5) 1(3) by metis
  then have "same_outside (slab_pages s) (mem s) (mem s3)"
    using same_outside_chain 3(5) 2(3) 1(3) by metis
  then show "same_outside (slab_pages s) (mem s) (mem s')"
    using same_outside_chain 4(5) 3(3) 2(3) 1(3) by metis
  show "same_globals s s'" by (simp add: s'_def same_globals_def)
qed


lemma region_cells_apart:
  assumes vm: "vm_ok s um t ns" and x: "live 2 s x" and y: "live 2 s y"
    and d: "d \<in> {0, 8, 16, 24}" and e: "e \<in> {0, 8, 16, 24}"
  shows "x + d = y + e \<longleftrightarrow> x = y \<and> d = e" and "aligned 3 (x + d)" and "page_of (x + d) \<in> slab_pages s"
    and "x \<noteq> null"
proof -
  have ok: "heap_ok s" using vm by (simp add: vm_ok_def)
  have sz: "aligned 3 c \<and> unat c + 8 \<le> unat (csize (kmalloc_cache s ! 2))" if "c \<in> {0, 8, 16, 24 :: u64}" for c
    using that vm_ok_sizes [OF vm] by (auto simp: aligned_def)
  note lc = live_cell [OF ok x, of d]
  show "aligned 3 (x + d)" "page_of (x + d) \<in> slab_pages s" "x \<noteq> null" using lc sz [OF d] by auto
  have "x + d \<noteq> y + e" if "x \<noteq> y" using live_apart [OF ok x y, of d e] sz [OF d] sz [OF e] that by auto
  then show "x + d = y + e \<longleftrightarrow> x = y \<and> d = e" by (cases "x = y") auto
qed

lemma vm_link:
  fixes sz :: u64
  assumes vm: "vm_ok s um t (xs @ a # b # ys)" and x: "live 2 s x" "x \<notin> set (xs @ a # b # ys)"
  defines "s' \<equiv> s\<lparr>mem := link_region a b x sz (mem s)\<rparr>"
  shows "vm_ok s' um t (xs @ a # x # b # ys)"
    and "regions (mem s') (xs @ a # x # b # ys) = regions (mem s) (xs @ [a])
      @ (load64 (mem s) a + load64 (mem s) (a + 8), align_up sz 4096) # regions (mem s) (b # ys)"
    and "pt_pages s' t = pt_pages s t" and "full_path q \<Longrightarrow> page_map s' t q = page_map s t q"
    and "free_list s fs \<Longrightarrow> free_list s' fs"
proof -
  define ns where "ns = xs @ a # b # ys"
  have v: "heap_ok s" "pt_ok s t" "slab_pages s \<inter> pt_pages s t = {}" "map_cells s t um"
    "chain (get_field 24 (mem s)) (load64 (mem s) um) ns" "\<forall>n \<in> set ns. live 2 s n"
    using vm by (auto simp: vm_ok_def ns_def)
  have a: "live 2 s a" "a \<noteq> x" and c: "csize (kmalloc_cache s ! 2) = 32"
    using v(6) x(2) vm_ok_sizes [OF vm] by (auto simp: ns_def)
  note st = link_region_state [OF v(1) x(1) a(1) c, where cur = b and sz = sz, folded s'_def]
  note ap = region_cells_apart [OF vm]
  have al: "aligned 3 x" "aligned 3 a" "a + 8 \<noteq> x" "x \<noteq> null"
    using ap(2) [OF x(1) x(1), of 0 0] ap(2) [OF a(1) a(1), of 0 0] ap(1) [OF a(1) x(1), of 8 0] a(2)
      ap(4) [OF x(1) x(1), of 0 0] by auto
  have ld: "load64 (mem s') w = (if w = x + 24 then b else if w = a + 24 then x else if w = x + 8 then align_up sz 4096
     else if w = x then load64 (mem s) a + load64 (mem s) (a + 8) else load64 (mem s) w)" if "aligned 3 w" for w
    using link_region_load [OF al(1,2) that a(2) al(3)] by (simp add: s'_def)
  have nd: "load64 (mem s') (n + d) = (if n = a \<and> d = 24 then x else load64 (mem s) (n + d))"
    if n: "n \<in> set ns" and d: "d \<in> {0, 8, 24}" for n d
  proof -
    have n2: "live 2 s n" "n \<noteq> x" using v(6) n x(2) by (auto simp: ns_def)
    have d4: "d \<in> {0, 8, 16, 24}" using d by auto
    have "n + d \<noteq> x + 24" "n + d \<noteq> x + 8" "n + d \<noteq> x" "n + d = a + 24 \<longleftrightarrow> n = a \<and> d = 24"
      using ap(1) [OF n2(1) x(1) d4, of 24] ap(1) [OF n2(1) x(1) d4, of 8] ap(1) [OF n2(1) x(1) d4, of 0]
        ap(1) [OF n2(1) a(1) d4, of 24] n2(2) by auto
    then show ?thesis using ld [OF ap(2) [OF n2(1) n2(1) d4, of 0]] by simp
  qed
  have xd: "load64 (mem s') (x + 24) = b" "load64 (mem s') (x + 8) = align_up sz 4096"
    "load64 (mem s') x = load64 (mem s) a + load64 (mem s) (a + 8)"
    using ld ap(2) [OF x(1) x(1), of 24 0] ap(2) [OF x(1) x(1), of 8 0] al(1)
      ap(1) [OF x(1) a(1), of 8 24] ap(1) [OF x(1) a(1), of 0 24] a(2) by auto
  have fs: "free_set s' = free_set s" "pmm_ok s'"
  proof -
    obtain fl where fl: "free_list s fl" using v(2) by (auto simp: pt_ok_def pmm_ok_def)
    show "free_set s' = free_set s" using free_set_eq [OF fl] free_set_eq [OF st(4) [OF fl]] by simp
    show "pmm_ok s'" using st(1) by (auto simp: heap_ok_def slab_heap_def)
  qed
  note pf = pt_frame [OF v(2) st(5) v(3) st(6) fs(2)]
  show "pt_pages s' t = pt_pages s t" "full_path q \<Longrightarrow> page_map s' t q = page_map s t q"
    using pf fs(1) by auto
  show "free_list s fs \<Longrightarrow> free_list s' fs" by (rule st(4))
  have old: "regions (mem s') zs = regions (mem s) zs" if "set zs \<subseteq> set ns" for zs
    using nd [of _ 0] nd [of _ 8] that by (auto simp: regions_def)
  have "regions (mem s') (xs @ [a]) = regions (mem s) (xs @ [a])"
    and "regions (mem s') (b # ys) = regions (mem s) (b # ys)"
    using old [of "xs @ [a]"] old [of "b # ys"] by (auto simp: ns_def simp del: regions_simps)
  then show "regions (mem s') (xs @ a # x # b # ys) = regions (mem s) (xs @ [a])
      @ (load64 (mem s) a + load64 (mem s) (a + 8), align_up sz 4096) # regions (mem s) (b # ys)"
    using xd(2,3) by simp
  have um: "load64 (mem s') (um + d) = load64 (mem s) (um + d)" if d: "d \<in> {0, 8}" for d
  proof -
    have ne: "um + d \<noteq> n + e" if "live 2 s n" "e \<in> {0, 8, 16, 24}" for n e
    proof (cases "live 1 s um")
      case True
      then show ?thesis using live_apart [OF v(1) True that(1), of d e] vm_ok_sizes [OF vm] d that(2)
        by (auto simp: aligned_def)
    next
      case False
      then have "page_of (um + d) \<notin> slab_pages s" using v(4) d by (auto simp: map_cells_def)
      then show ?thesis using ap(3) [OF that(1,1) that(2), of 0] by auto
    qed
    have "aligned 3 (um + d)"
      using vm_cells(2) [OF vm d] object_cell_facts(1) [OF v(1)] by auto
    then show ?thesis using ld ne [OF x(1), of 24] ne [OF x(1), of 8] ne [OF x(1), of 0] ne [OF a(1), of 24] by simp
  qed
  define m' where "m' = set_field 24 (set_field 24 (mem s) a x) x (get_field 24 (mem s) a)"
  have nb: "get_field 24 (mem s) a = b" using v(5) by (auto simp: ns_def)
  have an: "\<forall>n \<in> set ns. aligned 3 n" using v(6) ap(2) [of _ _ 0 0] by fastforce
  have "chain (get_field 24 m') (load64 (mem s) um) (xs @ a # x # b # ys)"
    unfolding m'_def by (rule cell24.chain_insert_after) (use v(5) an x(2) al in \<open>auto simp: ns_def\<close>)
  moreover have "get_field 24 (mem s') n = get_field 24 m' n" if "n \<in> set (xs @ a # x # b # ys)" for n
  proof (cases "n = x")
    case True
    then show ?thesis using xd(1) nb cell24.link_same [OF al(1)] by (simp add: m'_def get_field_def)
  next
    case False
    then have n: "n \<in> set ns" using that by (auto simp: ns_def)
    then have "get_field 24 m' n = (if n = a then x else get_field 24 (mem s) n)"
      using cell24.link_other [OF al(1), of n] cell24.link_other [OF al(2), of n] cell24.link_same [OF al(2)] an False
      by (simp add: m'_def)
    then show ?thesis using nd [OF n, of 24] by (simp add: get_field_def)
  qed
  ultimately have "chain (get_field 24 (mem s')) (load64 (mem s') um) (xs @ a # x # b # ys)"
    using um [of 0] path_cong [of "xs @ a # x # b # ys" "get_field 24 (mem s')" "get_field 24 m'"] by auto
  moreover have "map_cells s' t um" using v(4) st(2,3) pf(2) fs(1) by (simp add: map_cells_def)
  ultimately show "vm_ok s' um t (xs @ a # x # b # ys)"
    using vm st pf fs(1) v(6) x um [of 8] by (auto simp: vm_ok_def same_globals_def ns_def)
qed

lemma align_up_unat:
  assumes "unat sz + 4095 < 2 ^ 64"
  shows "unat (align_up sz 4096) = 4096 * ((unat sz + 4095) div 4096)"
proof -
  have u: "unat (sz + 4095) = unat sz + 4095"
    using assms unat_add_lem [of sz 4095] by simp
  have "(4096 :: u64) - 1 = 0xFFF" by simp
  then have "align_up sz 4096 = page_of (sz + 4095)"
    unfolding align_up_def by (simp only: page_of_mask)
  moreover have "unat (page_of (sz + 4095)) = unat (sz + 4095) - unat (sz + 4095) mod 4096"
    unfolding page_of_def
    using unat_take_bit [of 12 "sz + 4095"] unat_sub [of "take_bit 12 (sz + 4095)" "sz + 4095"]
    by (simp add: word_le_nat_alt)
  ultimately show ?thesis using u by (simp add: minus_mod_eq_mult_div)
qed

lemma num_of_pages_small:
  assumes "unat sz \<le> 2 ^ 31"
  shows "num_of_pages (align_up sz 4096) = int ((unat sz + 4095) div 4096)"
    and "(unat sz + 4095) div 4096 \<le> 2 ^ 19"
proof -
  define n where "n = (unat sz + 4095) div 4096"
  show n: "(unat sz + 4095) div 4096 \<le> 2 ^ 19" using assms by simp
  have "unat (align_up sz 4096) = 4096 * n" using align_up_unat [of sz] assms by (simp add: n_def)
  then have "unat (align_up sz 4096 div 4096) = n" by (simp add: unat_div)
  then have "align_up sz 4096 div 4096 = of_nat n"
    by (metis word_unat_eq_iff unat_of_nat_u64 unat_u64_less)
  then have "(ucast (align_up sz 4096 div 4096) :: u32) = of_nat n"
    using n by (simp add: unsigned_of_nat n_def [symmetric] take_bit_nat_eq_self)
  moreover have "sint (of_nat n :: u32) = int n"
    using n by (simp add: n_def [symmetric] signed_of_nat take_bit_nat_eq_self signed_take_bit_int_eq_self)
  ultimately show "num_of_pages (align_up sz 4096) = int ((unat sz + 4095) div 4096)"
    by (simp add: num_of_pages_def n_def)
qed

text \<open>Step 3: mapping the pages keeps the address space's structures.\<close>

lemma vm_grow_vm:
  assumes g: "vm_grow s s' t zs ys" and vm: "vm_ok s um t ns"
  shows "vm_ok s' um t ns" and "regions (mem s') ns = regions (mem s) ns"
proof -
  have v: "heap_ok s" "slab_pages s \<inter> pt_pages s t = {}" "map_cells s t um" "\<forall>n \<in> set ns. live 2 s n"
    using vm by (auto simp: vm_ok_def)
  note h = vm_grow_heap [OF g v(1,2)] and fr = vm_grow_free [OF g]
  have gg: "same_globals s s'" "pt_ok s' t" "same_outside (pt_pages s t \<union> set zs) (mem s) (mem s')"
    "pt_pages s' t \<subseteq> pt_pages s t \<union> set zs" using g by (auto simp: vm_grow_def)
  have mc: "map_cells s' t um" using v(3) h(2,3) gg(4) fr by (auto simp: map_cells_def)
  have oc: "load64 (mem s') a = load64 (mem s) a" if "object_cell s a" for a
  proof -
    note of = object_cell_facts(1,2,3) [OF v(1) that]
    then have "page_of a \<notin> pt_pages s t \<union> set zs" using v(2) fr by blast
    then show ?thesis by (rule same_outside_load64 [OF gg(3) of(1)])
  qed
  have st: "load64 (mem s') a = load64 (mem s) a"
    if "aligned 3 a" "page_of a \<notin> slab_pages s \<union> pt_pages s t \<union> free_set s" for a
    using same_outside_load64 [OF gg(3) that(1)] that(2) fr by auto
  have lv: "live 2 s' n" if "n \<in> set ns" for n using v(4) h(2) that by auto
  show "vm_ok s' um t ns" "regions (mem s') ns = regions (mem s) ns"
    using vm_ok_cells [OF vm h(1) gg(1,2) h(4) mc lv oc st] by auto
qed

text \<open>
  What a client may rely on after \<open>n\<close> pages at \<open>b\<close> are mapped: every page of the range has a
  frame of its own, which was free, is cleared, and is neither a table nor a slab; no other
  page changes its mapping.
\<close>

definition range_fresh :: "kstate \<Rightarrow> kstate \<Rightarrow> u64 \<Rightarrow> u64 \<Rightarrow> u64 \<Rightarrow> nat \<Rightarrow> (nat \<Rightarrow> u64) \<Rightarrow> bool" where
  "range_fresh s s' t b f n fr \<longleftrightarrow> inj_on fr {..<n}
     \<and> (\<forall>i < n. fr i + hhdm s \<in> free_set s - (free_set s' \<union> pt_pages s' t \<union> slab_pages s')
          \<and> (\<forall>a. page_of a = fr i + hhdm s \<longrightarrow> mem s' a = 0)
          \<and> page_map s' t (index_path (b + of_nat i * 0x1000)) = fr i OR f)
     \<and> (\<forall>q. full_path q \<longrightarrow> (\<forall>i < n. q \<noteq> index_path (b + of_nat i * 0x1000)) \<longrightarrow>
          page_map s' t q = page_map s t q)"

lemma range_fresh_intro:
  assumes r: "range_mapped s2 s' t b f n fr zs ys" and vm: "vm_ok s2 um t ns"
    and "free_set s2 \<subseteq> free_set s" and "hhdm s2 = hhdm s"
    and "\<And>q. full_path q \<Longrightarrow> page_map s2 t q = page_map s t q"
  shows "range_fresh s s' t b f n fr"
proof -
  have g: "vm_grow s2 s' t zs ys" using r by (simp add: range_mapped_def)
  have v: "heap_ok s2" "slab_pages s2 \<inter> pt_pages s2 t = {}" using vm by (auto simp: vm_ok_def)
  have sp: "slab_pages s' = slab_pages s2" using vm_grow_heap(3) [OF g v] .
  have "x \<notin> slab_pages s'" if "x \<in> set zs" for x
    using slab_page_facts(3) [OF v(1)] vm_grow_free [OF g] sp that by auto
  then show ?thesis
    using r assms(3-5) vm_grow_free [OF g] by (auto simp: range_fresh_def range_mapped_def)
qed

lemma vmm_region_alloc_ok:
  assumes vm: "vm_ok s um t ns" and f: "flags_ok f" and sz: "unat sz \<le> 2 ^ 31" and xs: "free_list s xs"
  defines "n \<equiv> (unat sz + 4095) div 4096"
  shows "case region_insert (align_up sz 4096 + 0x1000) (align_up sz 4096) (regions (mem s) ns) of
      None \<Rightarrow> vmm_region_alloc_user um sz f s = Inl Halted
    | Some (base, rs) \<Rightarrow>
        vmm_region_alloc_user um sz f s = Inl Halted \<and> length xs < 1 + 4 * n
        \<or> (\<exists>s' ns' fr. vmm_region_alloc_user um sz f s = Inr (base, s') \<and> vm_ok s' um t ns'
             \<and> regions (mem s') ns' = rs \<and> range_fresh s s' t base f n fr \<and> same_globals s s')"
proof -
  define need where "need = align_up sz 4096 + 0x1000"
  have ch: "chain (get_field 24 (mem s)) (load64 (mem s) um) ns" and hp: "heap_ok s"
    "map csize (kmalloc_cache s) = class_sizes" using vm by (auto simp: vm_ok_def)
  note fg = find_gap_eq [OF ch, of need]
  note np = num_of_pages_small [OF sz, folded n_def]
  show ?thesis
  proof (cases "gap_nodes (mem s) need ns")
    case None
    then show ?thesis using fg gap_nodes_None [OF None] by (simp add: vmm_region_alloc_user_def need_def)
  next
    case (Some ab)
    then obtain a b where ab: "gap_nodes (mem s) need ns = Some (a, b)" by (cases ab) auto
    define base where "base = load64 (mem s) a + load64 (mem s) (a + 8)"
    obtain as bs where ns: "ns = as @ a # b # bs" and ins: "region_insert need (align_up sz 4096) (regions (mem s) ns)
        = Some (base, regions (mem s) (as @ [a]) @ (base, align_up sz 4096) # regions (mem s) (b # bs))"
      using gap_nodes_Some [OF ab] unfolding base_def by blast
    define rs where "rs = regions (mem s) (as @ [a]) @ (base, align_up sz 4096) # regions (mem s) (b # bs)"
    obtain i where i: "i < 8" "32 \<le> class_sizes ! i" "\<forall>j < i. class_sizes ! j < 32"
      "kmalloc_small 32 s = Inl Halted \<and> xs = []
       \<or> (\<exists>x s' zs ys. kmalloc_small 32 s = Inr (x, s') \<and> xs = zs @ ys \<and> length zs \<le> 1
            \<and> obj_taken s s' i x zs ys)"
    proof -
      have "(32 :: u64) < 1024" by simp
      from kmalloc_small_cases [OF hp this xs] that show ?thesis by blast
    qed
    have i2: "i = 2"
    proof -
      have "i \<noteq> 0" "i \<noteq> 1" using i(2) by (intro notI; simp add: class_sizes_def)+
      moreover have "\<not> 2 < i" using i(3) by (force simp: class_sizes_def)
      ultimately show ?thesis by simp
    qed
    have goal: "vmm_region_alloc_user um sz f s = Inl Halted \<and> length xs < 1 + 4 * n
        \<or> (\<exists>s' ns' fr. vmm_region_alloc_user um sz f s = Inr (base, s') \<and> vm_ok s' um t ns'
             \<and> regions (mem s') ns' = rs \<and> range_fresh s s' t base f n fr \<and> same_globals s s')"
      using i(4)
    proof (elim disjE exE conjE)
      assume "kmalloc_small 32 s = Inl Halted" "xs = []"
      then show ?thesis using fg ab by (simp add: vmm_region_alloc_user_def need_def sizeof_vmm_region_def)
    next
      fix x s1 zs ys
      assume k: "kmalloc_small 32 s = Inr (x, s1)" "xs = zs @ ys" "length zs \<le> 1" "obj_taken s s1 i x zs ys"
      note tk = k(4) [unfolded i2]
      note v1 = vm_kmalloc [OF vm xs [unfolded k(2)] tk]
      have fl1: "free_list s1 ys" and h1: "hhdm s1 = hhdm s" and x1: "live 2 s1 x" "x \<notin> set ns"
        using tk vm by (auto simp: obj_taken_def same_globals_def vm_ok_def)
      define s2 where "s2 = s1\<lparr>mem := link_region a b x sz (mem s1)\<rparr>"
      note v2 = vm_link [OF v1(1) [unfolded ns] x1(1) x1(2) [unfolded ns], where sz = sz, folded s2_def]
      have old: "load64 (mem s1) a + load64 (mem s1) (a + 8) = base"
        "regions (mem s1) (as @ [a]) = regions (mem s) (as @ [a])" "regions (mem s1) (b # bs) = regions (mem s) (b # bs)"
        using v1(2) by (auto simp: ns base_def regions_def)
      then have rs2: "regions (mem s2) (as @ a # x # b # bs) = rs" using v2(2) by (simp add: rs_def)
      have pt2: "pt_ok s2 t" "free_list s2 ys" "map_cells s2 t um" "load64 (mem s2) (um + 8) = t"
        using v2(1,5) fl1 by (auto simp: vm_ok_def)
      have lx: "live 2 s2 x" "heap_ok s2" using v2(1) by (auto simp: vm_ok_def)
      have um8: "cell_is s2 t (um + 8) t"
        using vm_cells(2) [OF v2(1), of 8] object_cell_facts(1,2,3) [OF lx(2)] v2(1) pt2(4)
        by (auto simp: cell_is_def vm_ok_def)
      have bx: "load64 (mem s2) x = base"
        using rs2 by (simp add: rs_def regions_def)
      have "cell_is s2 t x base"
        using vm_cells(1) [OF v2(1), of x 0] object_cell_facts(1,2,3) [OF lx(2), of x] v2(1) bx
        by (auto simp: cell_is_def vm_ok_def)
      then have bl: "load64 (mem s') x = base" if "vm_grow s2 s' t z y" for s' z y
        using vm_grow_cell [OF that] by (simp add: cell_is_def)
      define loop where "loop = for_upto 0 n (map_fresh um (\<lambda>m. load64 m x) f) s2"
      have x0: "x \<noteq> null" using region_cells_apart(4) [OF v1(1) x1(1) x1(1), of 0 0] by simp
      have run: "vmm_region_alloc_user um sz f s = andthen loop (\<lambda>s3. Inr (load64 (mem s3) x, s3))"
        using fg ab k(1) x0 np(1)
        by (simp add: vmm_region_alloc_user_def need_def sizeof_vmm_region_def loop_def s2_def Let_def)
      have "loop = Inl Halted \<and> length ys < 4 * n
        \<or> (\<exists>s' fr z y. loop = Inr s' \<and> ys = z @ y \<and> length z \<le> 4 * n \<and> range_mapped s2 s' t base f n fr z y)"
        unfolding loop_def by (rule map_fresh_loop [OF pt2(1) f pt2(2) np(2) um8]) (rule bl)
      then show ?thesis
      proof (elim disjE exE conjE)
        assume "loop = Inl Halted" "length ys < 4 * n"
        then show ?thesis using run k(2,3) by simp
      next
        fix s' fr z y
        assume l: "loop = Inr s'" "range_mapped s2 s' t base f n fr z y"
        have g: "vm_grow s2 s' t z y" using l(2) by (simp add: range_mapped_def)
        have sub: "free_set s2 \<subseteq> free_set s"
          using free_set_eq [OF pt2(2)] free_set_eq [OF xs] k(2) by auto
        have "range_fresh s s' t base f n fr"
          by (rule range_fresh_intro [OF l(2) v2(1) sub]) (use v1(4) v2(4) h1 in \<open>auto simp: s2_def\<close>)
        moreover have "vmm_region_alloc_user um sz f s = Inr (base, s')" using run l(1) bl [OF g] by simp
        moreover have "same_globals s s'"
          using tk g by (simp add: obj_taken_def vm_grow_def same_globals_def s2_def)
        ultimately show ?thesis using vm_grow_vm [OF g v2(1)] rs2 by auto
      qed
    qed
    then show ?thesis using ins by (simp add: need_def rs_def)
  qed
qed

section \<open>Releasing a region\<close>

text \<open>A frame that may go back to the free list of an address space.\<close>

definition freeable :: "kstate \<Rightarrow> u64 \<Rightarrow> u64 \<Rightarrow> u64 \<Rightarrow> bool" where
  "freeable s t um p \<longleftrightarrow> page_aligned (p + hhdm s) \<and> p + hhdm s \<noteq> null \<and> frame_ok p
     \<and> p + hhdm s \<notin> free_set s \<union> pt_pages s t \<union> slab_pages s \<and> (\<forall>d \<in> {0, 8}. page_of (um + d) \<noteq> p + hhdm s)"

lemma vm_free_page:
  assumes vm: "vm_ok s um t ns" and p: "freeable s t um p"
  shows "\<exists>s'. pmm_free_singlep (p + hhdm s) s = Inr s' \<and> vm_ok s' um t ns
    \<and> free_set s' = insert (p + hhdm s) (free_set s) \<and> same_globals s s'
    \<and> pt_pages s' t = pt_pages s t \<and> slab_pages s' = slab_pages s \<and> (\<forall>i x. live i s' x \<longleftrightarrow> live i s x)
    \<and> same_outside {p + hhdm s} (mem s) (mem s')
    \<and> (\<forall>q. full_path q \<longrightarrow> page_map s' t q = page_map s t q)"
proof -
  define P where "P = p + hhdm s"
  have v: "heap_ok s" "pt_ok s t" "slab_pages s \<inter> pt_pages s t = {}" "map_cells s t um" "\<forall>n \<in> set ns. live 2 s n"
    using vm by (auto simp: vm_ok_def)
  have P: "page_aligned P" "P \<noteq> null" "frame_ok (P - hhdm s)" "P \<notin> free_set s" "P \<notin> pt_pages s t"
    "P \<notin> slab_pages s" "\<forall>d \<in> {0, 8}. page_of (um + d) \<noteq> P"
    using p by (auto simp: freeable_def P_def)
  obtain xs where xs: "free_list s xs" using v(2) by (auto simp: pt_ok_def pmm_ok_def)
  define s' where "s' = s\<lparr>mem := store64 (mem s) P (head s), head := P\<rparr>"
  have fr: "pmm_free_singlep P s = Inr s'" "free_list s' (P # xs)"
    using pmm_free_step [OF xs P(1,2)] P(4) free_set_eq [OF xs] by (auto simp: s'_def)
  have fs: "free_set s' = insert P (free_set s)" using free_set_eq [OF fr(2)] free_set_eq [OF xs] by simp
  have so: "same_outside {P} (mem s) (mem s')"
    using same_outside_store64 [OF page_aligned_8 [OF P(1)], of "mem s" "head s"] P(1) by (simp add: s'_def)
  have g: "same_globals s s'" by (simp add: s'_def same_globals_def)
  have ok: "pmm_ok s'" using v(2) fr(2) by (auto simp: pt_ok_def pmm_ok_def s'_def)
  have d: "{P} \<inter> pt_pages s t = {}" "{P} \<inter> slab_pages s = {}" using P by auto
  have fp: "\<forall>x \<in> free_set s'. frame_ok (x - hhdm s) \<and> x \<notin> pt_pages s t"
    using fs P v(2) pt_page_not_free [OF v(2)] by (auto simp: pt_ok_def)
  have fh: "free_set s' \<inter> slab_pages s = {}" using fs P slab_page_facts(3) [OF v(1)] by auto
  note pf = pt_frame_gen [OF v(2) so d(1) g ok fp] and hf = heap_frame [OF v(1) so d(2) g ok fh]
  have mc: "map_cells s' t um" using v(4) hf(2,3) pf(2) fs P(7) by (auto simp: map_cells_def)
  have sp: "slab_pages s' \<inter> pt_pages s' t = {}" using hf(3) pf(2) v(3) by simp
  have oc: "load64 (mem s') a = load64 (mem s) a" if "object_cell s a" for a
    using same_outside_load64 [OF so object_cell_facts(1) [OF v(1) that]] object_cell_facts(2) [OF v(1) that] P(6)
    by auto
  have um: "load64 (mem s') (um + e) = load64 (mem s) (um + e)" if "e \<in> {0, 8}" for e
  proof -
    have "aligned 3 (um + e)" using vm_cells(2) [OF vm that] object_cell_facts(1) [OF v(1)] by auto
    then show ?thesis by (rule same_outside_load64 [OF so]) (use P(7) that in auto)
  qed
  have "chain (get_field 24 (mem s')) q ns = chain (get_field 24 (mem s)) q ns" for q
    by (rule path_cong) (simp add: get_field_def oc vm_cells(1) [OF vm])
  then have "vm_ok s' um t ns"
    using vm hf pf(1) sp mc g v(5) um [of 0] um [of 8] by (simp add: vm_ok_def same_globals_def)
  then show ?thesis using fr(1) fs g pf(2,3) hf(2,3) so
    by (intro exI [of _ s']) (auto simp: P_def [symmetric])
qed

text \<open>One round of the release loop, for the page at \<open>b + 4096 i\<close> that is mapped to frame \<open>p\<close>.\<close>

lemma unmap_page_step:
  assumes vm: "vm_ok s um t ns" and n: "live 2 s node" "load64 (mem s) node = b" and i: "i < 2 ^ 19"
    and p: "get_phys_from_entry (page_map s t (index_path (b + of_nat i * 0x1000))) = p" "freeable s t um p"
  shows "\<exists>s'. unmap_page um node i s = Inr s' \<and> vm_ok s' um t ns
    \<and> free_set s' = insert (p + hhdm s) (free_set s) \<and> same_globals s s'
    \<and> pt_pages s' t = pt_pages s t \<and> slab_pages s' = slab_pages s \<and> (\<forall>i x. live i s' x \<longleftrightarrow> live i s x)
    \<and> (\<forall>a. object_cell s a \<longrightarrow> load64 (mem s') a = load64 (mem s) a)
    \<and> (\<forall>q. full_path q \<longrightarrow> page_map s' t q
         = (if q = index_path (b + of_nat i * 0x1000) then 0 else page_map s t q))"
proof -
  define v where "v = b + of_nat i * 0x1000"
  have ok: "heap_ok s" "pt_ok s t" "slab_pages s \<inter> pt_pages s t = {}" "load64 (mem s) (um + 8) = t"
    using vm by (auto simp: vm_ok_def)
  obtain s1 where s1: "vmm_unmap (t + hhdm s) v s = (page_map s t (index_path v), s1)"
    "same_globals s s1" "pt_ok s1 t" "pt_pages s1 t = pt_pages s t" "\<And>xs. free_list s xs \<Longrightarrow> free_list s1 xs"
    "same_outside (pt_pages s t) (mem s) (mem s1)"
    "\<And>q. full_path q \<Longrightarrow> page_map s1 t q = (if q = index_path v then 0 else page_map s t q)"
    using vmm_unmap_ok [OF ok(2), of v] by blast
  obtain xs where xs: "free_list s xs" using ok(2) by (auto simp: pt_ok_def pmm_ok_def)
  have g: "vm_grow s s1 t [] xs" using s1 xs by (simp add: vm_grow_def)
  note h = vm_grow_heap [OF g ok(1,3)]
  have fs: "free_set s1 = free_set s" using vm_grow_free [OF g] by simp
  have hh: "hhdm s1 = hhdm s" using s1(2) by (simp add: same_globals_def)
  have "freeable s1 t um p" using p(2) fs s1(4) h(3) hh by (simp add: freeable_def)
  from vm_free_page [OF vm_grow_vm(1) [OF g vm] this] obtain s' where
    s': "pmm_free_singlep (p + hhdm s1) s1 = Inr s'" "vm_ok s' um t ns"
    "free_set s' = insert (p + hhdm s1) (free_set s1)" "same_globals s1 s'"
    "pt_pages s' t = pt_pages s1 t" "slab_pages s' = slab_pages s1" "\<forall>i x. live i s' x \<longleftrightarrow> live i s1 x"
    "same_outside {p + hhdm s1} (mem s1) (mem s')" "\<forall>q. full_path q \<longrightarrow> page_map s' t q = page_map s1 t q"
    by blast
  have "load64 (mem s') a = load64 (mem s) a" if "object_cell s a" for a
  proof -
    note of = object_cell_facts(1,2) [OF ok(1) that]
    have "page_of a \<notin> pt_pages s t" "page_of a \<notin> {p + hhdm s1}"
      using of(2) ok(3) p(2) hh by (auto simp: freeable_def)
    then show ?thesis
      using same_outside_load64 [OF s1(6) of(1)] same_outside_load64 [OF s'(8) of(1)] by simp
  qed
  moreover have "unmap_page um node i s = Inr s'"
    using s1(1) s'(1) p(1) n(2) i ok(4) by (simp add: unmap_page_def page_offset_def v_def)
  ultimately show ?thesis
    using s' s1(2,4,7) h fs hh by (intro exI [of _ s']) (auto simp: v_def intro: same_globals_trans)
qed

text \<open>The loop: the range is unmapped and its frames are free.\<close>

definition range_freed :: "kstate \<Rightarrow> kstate \<Rightarrow> u64 \<Rightarrow> u64 \<Rightarrow> nat \<Rightarrow> (nat \<Rightarrow> u64) \<Rightarrow> bool" where
  "range_freed s s' t b n fr \<longleftrightarrow> free_set s' = free_set s \<union> (\<lambda>i. fr i + hhdm s) ` {..<n}
     \<and> (\<forall>q. full_path q \<longrightarrow> page_map s' t q
          = (if \<exists>i < n. q = index_path (b + of_nat i * 0x1000) then 0 else page_map s t q))"

lemma unmap_loop:
  assumes vm: "vm_ok s um t ns" and nd: "live 2 s node" "load64 (mem s) node = b" and n: "n \<le> 2 ^ 19"
    and fr: "\<And>i. i < n \<Longrightarrow> get_phys_from_entry (page_map s t (index_path (b + of_nat i * 0x1000))) = fr i"
      "\<And>i. i < n \<Longrightarrow> freeable s t um (fr i)" "inj_on fr {..<n}"
  shows "\<exists>s'. for_upto 0 n (unmap_page um node) s = Inr s' \<and> vm_ok s' um t ns \<and> range_freed s s' t b n fr
    \<and> same_globals s s' \<and> pt_pages s' t = pt_pages s t \<and> slab_pages s' = slab_pages s
    \<and> (\<forall>i x. live i s' x \<longleftrightarrow> live i s x) \<and> (\<forall>a. object_cell s a \<longrightarrow> load64 (mem s') a = load64 (mem s) a)"
    (is "\<exists>s'. _ \<and> ?P n s'")
proof -
  have kc: "kmalloc_cache u = kmalloc_cache s" if "same_globals s u" for u using that by (simp add: same_globals_def)
  have "\<exists>s'. for_upto 0 n (unmap_page um node) s = Inr s' \<and> ?P (0 + n) s'"
  proof (rule for_upto_total)
    show "?P 0 s" using vm by (auto simp: range_freed_def same_globals_def)
  next
    fix k u assume k: "k < 0 + n" and u: "?P k u"
    then have k': "k < n" "k < 2 ^ 19" using n by auto
    have ne: "index_path (b + of_nat k * 0x1000) \<noteq> index_path (b + of_nat j * 0x1000)" if "j < k" for j
      using index_path_inj [of b k j] that k' by auto
    have h: "hhdm u = hhdm s" using u by (auto simp: same_globals_def)
    have oc: "object_cell u a \<longleftrightarrow> object_cell s a" for a using u kc by (simp add: object_cell_def)
    have "object_cell s node" using vm_ok_sizes [OF vm] nd(1) unfolding object_cell_def
      by (intro exI [of _ 2] exI [of _ node] exI [of _ 0]) simp
    then have nu: "live 2 u node" "load64 (mem u) node = b" using u nd by auto
    have pm: "page_map u t (index_path (b + of_nat k * 0x1000)) = page_map s t (index_path (b + of_nat k * 0x1000))"
      using u ne full_index_path by (auto simp: range_freed_def)
    have fk: "fr j \<noteq> fr k" if "j < k" for j using fr(3) that k' by (auto simp: inj_on_def)
    have fb: "freeable u t um (fr k)"
      using fr(2) [OF k'(1)] u h fk by (auto simp: freeable_def range_freed_def)
    have "vm_ok u um t ns" using u by simp
    from unmap_page_step [OF this nu k'(2) _ fb] fr(1) [OF k'(1)] pm obtain u' where
      u': "unmap_page um node k u = Inr u'" "vm_ok u' um t ns" "free_set u' = insert (fr k + hhdm u) (free_set u)"
      "same_globals u u'" "pt_pages u' t = pt_pages u t" "slab_pages u' = slab_pages u"
      "\<forall>i x. live i u' x \<longleftrightarrow> live i u x" "\<forall>a. object_cell u a \<longrightarrow> load64 (mem u') a = load64 (mem u) a"
      "\<forall>q. full_path q \<longrightarrow> page_map u' t q = (if q = index_path (b + of_nat k * 0x1000) then 0 else page_map u t q)"
      by auto
    have "range_freed s u' t b (Suc k) fr"
      using u u'(3,9) h by (auto simp: range_freed_def lessThan_Suc less_Suc_eq)
    then show "\<exists>u'. unmap_page um node k u = Inr u' \<and> ?P (Suc k) u'"
      using u u' oc same_globals_trans [of s u u'] by (intro exI [of _ u']) simp
  qed
  then show ?thesis by simp
qed

lemma find_region_eq:
  "chain (get_field 24 m) p (xs @ c # ys) \<Longrightarrow> load64 m c = base \<Longrightarrow> \<forall>n \<in> set xs. load64 m n \<noteq> base \<Longrightarrow>
    find_region m prev p base = Some (Some (if xs = [] then prev else last xs, c))"
proof (induction xs arbitrary: p prev)
  case Nil
  then show ?case by (subst find_region.simps) auto
next
  case (Cons x xs)
  then have "p = x" "x \<noteq> null" "chain (get_field 24 m) (load64 m (x + 24)) (xs @ c # ys)"
    by (auto simp: get_field_def [of 24 m x, symmetric])
  then show ?case using Cons.IH [of "load64 m (x + 24)" x] Cons.prems
    by (subst find_region.simps) auto
qed

lemma find_region_none:
  "chain (get_field 24 m) p ns \<Longrightarrow> \<forall>n \<in> set ns. load64 m n \<noteq> base \<Longrightarrow> find_region m prev p base = Some None"
proof (induction ns arbitrary: p prev)
  case Nil
  then show ?case by (subst find_region.simps) auto
next
  case (Cons x xs)
  then have "p = x" "x \<noteq> null" "chain (get_field 24 m) (load64 m (x + 24)) xs"
    by (auto simp: get_field_def [of 24 m x, symmetric])
  then show ?case using Cons.IH [of "load64 m (x + 24)" x] Cons.prems
    by (subst find_region.simps) auto
qed

text \<open>Changing one cell of a live object: what it means for an address space.\<close>

lemma vm_store:
  fixes v :: u64
  assumes vm: "vm_ok s um t ns" and x: "live 2 s x" and d: "d \<in> {0, 8, 16, 24}"
  defines "s' \<equiv> s\<lparr>mem := store64 (mem s) (x + d) v\<rparr>"
  shows "heap_ok s'" and "pt_ok s' t" and "slab_pages s' \<inter> pt_pages s' t = {}" and "map_cells s' t um"
    and "live j s' y \<longleftrightarrow> live j s y" and "same_globals s s'" and "free_set s' = free_set s"
    and "pt_pages s' t = pt_pages s t" and "slab_pages s' = slab_pages s"
    and "full_path q \<Longrightarrow> page_map s' t q = page_map s t q"
    and "live 2 s n \<Longrightarrow> e \<in> {0, 8, 16, 24} \<Longrightarrow>
      load64 (mem s') (n + e) = (if n = x \<and> e = d then v else load64 (mem s) (n + e))"
    and "e \<in> {0, 8} \<Longrightarrow> load64 (mem s') (um + e) = load64 (mem s) (um + e)"
proof -
  have ok: "heap_ok s" "pt_ok s t" "slab_pages s \<inter> pt_pages s t = {}" "map_cells s t um"
    using vm by (auto simp: vm_ok_def)
  have sz: "aligned 3 c \<and> unat c + 8 \<le> unat (csize (kmalloc_cache s ! 2))" if "c \<in> {0, 8, 16, 24 :: u64}" for c
    using that vm_ok_sizes [OF vm] by (auto simp: aligned_def)
  have d2: "unat d + 8 \<le> unat (csize (kmalloc_cache s ! 2))" "aligned 3 d" using sz [OF d] by auto
  note st = live_store [OF ok(1) x d2, where v = v, folded s'_def]
  obtain xs where xs: "free_list s xs" using ok(2) by (auto simp: pt_ok_def pmm_ok_def)
  show fs: "free_set s' = free_set s" using free_set_eq [OF xs] free_set_eq [OF st(4) [OF xs]] by simp
  have pk: "pmm_ok s'" using st(1) by (auto simp: heap_ok_def slab_heap_def)
  note pf = pt_frame [OF ok(2) st(5) ok(3) st(6) pk]
  show "heap_ok s'" "live j s' y \<longleftrightarrow> live j s y" "same_globals s s'" "slab_pages s' = slab_pages s" using st by auto
  show "pt_ok s' t" "pt_pages s' t = pt_pages s t" "full_path q \<Longrightarrow> page_map s' t q = page_map s t q"
    using pf fs by auto
  then show "slab_pages s' \<inter> pt_pages s' t = {}" "map_cells s' t um"
    using ok(3,4) st(2,3) fs by (auto simp: map_cells_def)
  note ap = region_cells_apart [OF vm]
  show "load64 (mem s') (n + e) = (if n = x \<and> e = d then v else load64 (mem s) (n + e))"
    if "live 2 s n" "e \<in> {0, 8, 16, 24}" for n e
    using ap(1) [OF that(1) x that(2) d] ap(2) [OF that(1) that(1) that(2), of 0] ap(2) [OF x x d, of 0]
    by (auto simp: s'_def load64_store64_aligned)
  show "load64 (mem s') (um + e) = load64 (mem s) (um + e)" if e: "e \<in> {0, 8}" for e
  proof -
    have "um + e \<noteq> x + d"
    proof (cases "live 1 s um")
      case True
      then show ?thesis using live_apart [OF ok(1) True x, of e d] vm_ok_sizes [OF vm] e sz [OF d]
        by (auto simp: aligned_def)
    next
      case False
      then have "page_of (um + e) \<notin> slab_pages s" using ok(4) e by (auto simp: map_cells_def)
      then show ?thesis using ap(3) [OF x x d, of 0] by auto
    qed
    moreover have "aligned 3 (um + e)" using vm_cells(2) [OF vm e] object_cell_facts(1) [OF ok(1)] by auto
    ultimately show ?thesis using ap(2) [OF x x d, of 0] by (simp add: s'_def load64_store64_aligned)
  qed
qed

text \<open>Taking a region's node out of the list.\<close>

lemma vm_unlink:
  assumes vm: "vm_ok s um t (xs @ a # c # ys)"
  defines "s' \<equiv> s\<lparr>mem := store64 (mem s) (a + 24) (load64 (mem s) (c + 24))\<rparr>"
  shows "vm_ok s' um t (xs @ a # ys)" and "regions (mem s') ns' = regions (mem s) ns' \<or> \<not> (\<forall>n \<in> set ns'. live 2 s n)"
proof -
  define ns where "ns = xs @ a # c # ys"
  have lv: "\<forall>n \<in> set ns. live 2 s n" and ch: "chain (get_field 24 (mem s)) (load64 (mem s) um) ns"
    using vm by (auto simp: vm_ok_def ns_def)
  have a: "live 2 s a" "live 2 s c" using lv by (auto simp: ns_def)
  note st = vm_store [OF vm a(1), where d = 24 and v = "load64 (mem s) (c + 24)", folded s'_def, simplified]
  have an: "\<forall>n \<in> set ns. aligned 3 n" using lv region_cells_apart(2) [OF vm, of _ _ 0 0] by fastforce
  define m' where "m' = set_field 24 (mem s) a (get_field 24 (mem s) c)"
  have "chain (get_field 24 m') (load64 (mem s) um) (xs @ a # ys)"
    unfolding m'_def by (rule cell24.chain_remove_after) (use ch an in \<open>auto simp: ns_def\<close>)
  moreover have "m' = mem s'" by (simp add: m'_def s'_def set_field_def get_field_def)
  ultimately have "chain (get_field 24 (mem s')) (load64 (mem s') um) (xs @ a # ys)"
    using st(12) [of 0] by simp
  then show "vm_ok s' um t (xs @ a # ys)"
    using vm st lv st(12) [of 8] by (auto simp: vm_ok_def same_globals_def ns_def)
  show "regions (mem s') ns' = regions (mem s) ns' \<or> \<not> (\<forall>n \<in> set ns'. live 2 s n)"
    using st(11) [of _ 0] st(11) [of _ 8] by (auto simp: regions_def)
qed

text \<open>Freeing a node that is not in the list.\<close>

lemma vm_free_obj:
  assumes vm: "vm_ok s um t ns" and c: "live 2 s c"
  shows "\<exists>s'. free_obj c s = Inr s' \<and> same_globals s s' \<and> \<not> live 2 s' c
    \<and> free_set s' = free_set s \<and> (\<forall>q. full_path q \<longrightarrow> page_map s' t q = page_map s t q)
    \<and> chain (get_field 24 (mem s')) (load64 (mem s') um) ns
    \<and> (c \<notin> set ns \<longrightarrow> vm_ok s' um t ns \<and> regions (mem s') ns = regions (mem s) ns)"
proof -
  have ok: "heap_ok s" "pt_ok s t" "slab_pages s \<inter> pt_pages s t = {}" "map_cells s t um" "\<forall>n \<in> set ns. live 2 s n"
    using vm by (auto simp: vm_ok_def)
  obtain s' where f: "free_obj c s = Inr s'" and g: "obj_given s s' 2 c"
    using free_obj_step [OF ok(1) c] by blast
  have gv: "heap_ok s'" "same_globals s s'" "\<And>j y. live j s' y \<longleftrightarrow> live j s y \<and> (j, y) \<noteq> (2, c)"
    "slab_pages s' = slab_pages s" "same_outside (slab_pages s) (mem s) (mem s')"
    "\<And>a. object_cell s a \<Longrightarrow> a \<noteq> c \<Longrightarrow> load64 (mem s') a = load64 (mem s) a"
    "\<And>xs. free_list s xs \<Longrightarrow> free_list s' xs"
    using g by (auto simp: obj_given_def)
  obtain xs where xs: "free_list s xs" using ok(2) by (auto simp: pt_ok_def pmm_ok_def)
  have fs: "free_set s' = free_set s" using free_set_eq [OF xs] free_set_eq [OF gv(7) [OF xs]] by simp
  have pk: "pmm_ok s'" using gv(1) by (auto simp: heap_ok_def slab_heap_def)
  note pf = pt_frame [OF ok(2) gv(5) ok(3) gv(2) pk]
  note ap = region_cells_apart [OF vm]
  have nd: "load64 (mem s') (n + e) = load64 (mem s) (n + e)"
    if "n \<in> set ns" "e \<in> {0, 8, 16, 24}" "n \<noteq> c \<or> e \<noteq> 0" for n e
    using gv(6) [OF vm_cells(1) [OF vm that(1,2)]] ap(1) [OF _ c that(2), of n 0] ok(5) that by auto
  have um: "load64 (mem s') (um + e) = load64 (mem s) (um + e)" if e: "e \<in> {0, 8}" for e
  proof -
    have "um + e \<noteq> c"
    proof (cases "live 1 s um")
      case True
      then show ?thesis using live_apart [OF ok(1) True c, of e 0] vm_ok_sizes [OF vm] e
        by (auto simp: aligned_def)
    next
      case False
      then have "page_of (um + e) \<notin> slab_pages s" using ok(4) e by (auto simp: map_cells_def)
      then show ?thesis using ap(3) [OF c c, of 0 0] by auto
    qed
    then show ?thesis using vm_cells(2) [OF vm e] gv(6) [of "um + e"] same_outside_load64 [OF gv(5), of "um + e"]
      by auto
  qed
  have "chain (get_field 24 (mem s')) p ns = chain (get_field 24 (mem s)) p ns" for p
    by (rule path_cong) (simp add: get_field_def nd)
  then have ch: "chain (get_field 24 (mem s')) (load64 (mem s') um) ns"
    using vm um [of 0] by (simp add: vm_ok_def)
  have mc: "map_cells s' t um" using ok(4) gv(3,4) pf(2) fs by (auto simp: map_cells_def)
  have "vm_ok s' um t ns \<and> regions (mem s') ns = regions (mem s) ns" if "c \<notin> set ns"
  proof
    show "vm_ok s' um t ns"
      using vm gv(1-4) pf(1,2) fs ch mc that um [of 8] ok(3,5) by (auto simp: vm_ok_def same_globals_def)
    have "n \<in> set ns \<Longrightarrow> n \<noteq> c" for n using that by auto
    then show "regions (mem s') ns = regions (mem s) ns"
      using nd [of _ 0] nd [of _ 8] by (simp add: regions_def)
  qed
  then show ?thesis using f gv(2,3) fs pf(3) ch by auto
qed

lemma num_of_pages_mult:
  assumes "n \<le> 2 ^ 19"
  shows "num_of_pages (of_nat (4096 * n)) = int n"
proof -
  have "unat (of_nat (4096 * n) :: u64) = 4096 * n" using assms by (simp add: unat_of_nat_u64 del: of_nat_mult)
  then have "unat (of_nat (4096 * n) div 4096 :: u64) = n" by (simp add: unat_div)
  then have "(of_nat (4096 * n) div 4096 :: u64) = of_nat n"
    by (metis word_unat_eq_iff unat_of_nat_u64 unat_u64_less)
  moreover have "(ucast (of_nat n :: u64) :: u32) = of_nat n"
    using assms by (simp add: unsigned_of_nat take_bit_nat_eq_self)
  moreover have "sint (of_nat n :: u32) = int n"
    using assms by (simp add: signed_of_nat take_bit_nat_eq_self signed_take_bit_int_eq_self)
  ultimately show ?thesis by (simp add: num_of_pages_def del: of_nat_mult)
qed

text \<open>The node \<open>c\<close> of a region of \<open>n\<close> pages, mapped to the frames \<open>fr\<close>.\<close>

definition region_frames :: "kstate \<Rightarrow> u64 \<Rightarrow> u64 \<Rightarrow> u64 \<Rightarrow> nat \<Rightarrow> (nat \<Rightarrow> u64) \<Rightarrow> bool" where
  "region_frames s t um b n fr \<longleftrightarrow> n \<le> 2 ^ 19 \<and> inj_on fr {..<n}
     \<and> (\<forall>i < n. get_phys_from_entry (page_map s t (index_path (b + of_nat i * 0x1000))) = fr i
          \<and> freeable s t um (fr i))"

lemma vmm_region_dealloc_ok:
  assumes vm: "vm_ok s um t (xs @ a # c # b # ys)" and c: "load64 (mem s) c = base"
    "load64 (mem s) (c + 8) = of_nat (4096 * n)" and first: "\<forall>k \<in> set (xs @ [a]). load64 (mem s) k \<noteq> base"
    and fr: "region_frames s t um base n fr"
  shows "\<exists>s'. vmm_region_dealloc_user um base s = Inr s' \<and> vm_ok s' um t (xs @ a # b # ys)
    \<and> regions (mem s') (xs @ a # b # ys) = regions (mem s) (xs @ a # b # ys)
    \<and> range_freed s s' t base n fr"
proof -
  define ns where "ns = xs @ a # c # b # ys"
  define ns' where "ns' = xs @ a # b # ys"
  have ch: "chain (get_field 24 (mem s)) (load64 (mem s) um) ns" and lv: "\<forall>k \<in> set ns. live 2 s k"
    using vm by (auto simp: vm_ok_def ns_def)
  have cl: "live 2 s c" "live 2 s a" "c \<notin> set ns'" "a \<noteq> null"
    using lv chain_distinct [OF ch] path_nonnull [OF ch] by (auto simp: ns_def ns'_def)
  have ln: "load64 (mem s) (c + 24) = b" "b \<noteq> null"
    using ch by (auto simp: ns_def get_field_def [of 24 "mem s" c, symmetric])
  define s1 where "s1 = s\<lparr>mem := store64 (mem s) (a + 24) (load64 (mem s) (c + 24))\<rparr>"
  note st = vm_store [OF vm cl(2), where d = 24 and v = "load64 (mem s) (c + 24)", folded s1_def, simplified]
  note v1 = vm_unlink [OF vm, folded s1_def ns'_def]
  have r1: "regions (mem s1) ns' = regions (mem s) ns'" using v1(2) [of ns'] lv by (auto simp: ns_def ns'_def)
  have c1: "live 2 s1 c" "load64 (mem s1) c = base" "load64 (mem s1) (c + 8) = of_nat (4096 * n)"
    using st(5) st(11) [OF cl(1), of 0] st(11) [OF cl(1), of 8] cl(1) c by auto
  have h1: "hhdm s1 = hhdm s" using st(6) by (simp add: same_globals_def)
  have pm: "page_map s1 t (index_path v) = page_map s t (index_path v)" for v using st(10) full_index_path by simp
  have fz: "freeable s1 t um p \<longleftrightarrow> freeable s t um p" for p using st(7-9) h1 by (simp add: freeable_def)
  obtain s2 where s2: "for_upto 0 n (unmap_page um c) s1 = Inr s2" "vm_ok s2 um t ns'"
    "range_freed s1 s2 t base n fr" "\<forall>a. object_cell s1 a \<longrightarrow> load64 (mem s2) a = load64 (mem s1) a" "live 2 s2 c"
    using unmap_loop [OF v1(1) c1(1,2), of n fr] fr c1(1) by (auto simp: region_frames_def pm fz)
  obtain s3 where s3: "free_obj c s2 = Inr s3" "same_globals s2 s3" "free_set s3 = free_set s2"
    "\<forall>q. full_path q \<longrightarrow> page_map s3 t q = page_map s2 t q" "vm_ok s3 um t ns'" "regions (mem s3) ns' = regions (mem s2) ns'"
    using vm_free_obj [OF s2(2) s2(5)] cl(3) by blast
  have "vmm_region_dealloc_user um base s = Inr s3"
    using find_region_eq [of "mem s" "load64 (mem s) um" "xs @ [a]" c "b # ys" base null] ch c(1) first ln cl(4)
      s2(1) s3(1) c1(3) num_of_pages_mult [of n] fr
    by (simp add: vmm_region_dealloc_user_def ns_def store_ptr_def s1_def region_frames_def del: of_nat_mult)
  moreover have "regions (mem s2) ns' = regions (mem s1) ns'"
    using vm_cells(1) [OF v1(1)] vm_cells(1) [OF v1(1), of _ 0] s2(4) by (simp add: regions_def)
  moreover have "range_freed s s3 t base n fr"
    using s2(3) s3(3,4) st(7,10) h1 by (simp add: range_freed_def) blast
  ultimately show ?thesis using s3(5,6) r1 by (auto simp: ns'_def)
qed

text \<open>
  Releasing the last region does not unlink it: its node is freed but stays in the list.
\<close>

lemma vmm_region_dealloc_last:
  assumes vm: "vm_ok s um t (xs @ [a, c])" and c: "load64 (mem s) c = base"
    "load64 (mem s) (c + 8) = of_nat (4096 * n)" and first: "\<forall>k \<in> set (xs @ [a]). load64 (mem s) k \<noteq> base"
    and fr: "region_frames s t um base n fr"
  shows "\<exists>s'. vmm_region_dealloc_user um base s = Inr s' \<and> \<not> live 2 s' c
    \<and> chain (get_field 24 (mem s')) (load64 (mem s') um) (xs @ [a, c])"
proof -
  have ch: "chain (get_field 24 (mem s)) (load64 (mem s) um) (xs @ [a, c])" and lv: "live 2 s c"
    using vm by (auto simp: vm_ok_def)
  have ln: "load64 (mem s) (c + 24) = null"
    using ch by (auto simp: get_field_def [of 24 "mem s" c, symmetric])
  obtain s2 where s2: "for_upto 0 n (unmap_page um c) s = Inr s2" "vm_ok s2 um t (xs @ [a, c])" "live 2 s2 c"
    using unmap_loop [OF vm lv c(1), of n fr] fr lv by (auto simp: region_frames_def)
  obtain s3 where s3: "free_obj c s2 = Inr s3" "\<not> live 2 s3 c"
    "chain (get_field 24 (mem s3)) (load64 (mem s3) um) (xs @ [a, c])"
    using vm_free_obj [OF s2(2,3)] by blast
  have "vmm_region_dealloc_user um base s = Inr s3"
    using find_region_eq [of "mem s" "load64 (mem s) um" "xs @ [a]" c "[]" base null] ch c first ln
      s2(1) s3(1) num_of_pages_mult [of n] fr
    by (simp add: vmm_region_dealloc_user_def region_frames_def del: of_nat_mult)
  then show ?thesis using s3 by blast
qed

text \<open>Releasing the first of several regions dereferences the missing left neighbour.\<close>

lemma vmm_region_dealloc_first:
  assumes vm: "vm_ok s um t (c # b # ys)" and c: "load64 (mem s) c = base"
  shows "vmm_region_dealloc_user um base s = Inl PageFault"
proof -
  have ch: "chain (get_field 24 (mem s)) (load64 (mem s) um) (c # b # ys)" using vm by (simp add: vm_ok_def)
  then have "load64 (mem s) (c + 24) \<noteq> null"
    by (auto simp: get_field_def [of 24 "mem s" c, symmetric])
  then show ?thesis
    using find_region_eq [of "mem s" "load64 (mem s) um" "[]" c "b # ys" base null] ch c
    by (simp add: vmm_region_dealloc_user_def store_ptr_def)
qed

text \<open>The regions stay ordered and disjoint.\<close>

fun ordered_regions :: "(u64 \<times> u64) list \<Rightarrow> bool" where
  "ordered_regions (r1 # r2 # rs) \<longleftrightarrow>
     unat (fst r1) + unat (snd r1) \<le> unat (fst r2) \<and> ordered_regions (r2 # rs)"
| "ordered_regions rs \<longleftrightarrow> True"

lemma region_insert_ordered:
  assumes "region_insert need len rs = Some (base, rs')" and "ordered_regions rs"
    and "unat need = unat len + 4096"
  shows "ordered_regions rs' \<and> (\<exists>l r ls rest. rs = ls @ l # r # rest \<and> rs' = ls @ l # (base, len) # r # rest
    \<and> base = fst l + snd l \<and> unat base = unat (fst l) + unat (snd l)
    \<and> unat base + unat len + 4096 \<le> unat (fst r))"
  using assms
proof (induction need len rs arbitrary: rs' rule: region_insert.induct)
  case (1 need len r1 r2 rs)
  have o: "unat (fst r1) + unat (snd r1) \<le> unat (fst r2)" "ordered_regions (r2 # rs)" using "1.prems"(2) by auto
  then have "unat (fst r1) + unat (snd r1) < 2 ^ LENGTH(64)" using unat_u64_less [of "fst r2"] by simp
  then have e: "unat (fst r1 + snd r1) = unat (fst r1) + unat (snd r1)" by (simp only: unat_add_lem)
  show ?case
  proof (cases "fst r2 - (fst r1 + snd r1) \<ge> need")
    case True
    have "fst r1 + snd r1 \<le> fst r2" using o(1) e by (simp add: word_le_nat_alt)
    then have "unat (fst r2 - (fst r1 + snd r1)) = unat (fst r2) - (unat (fst r1) + unat (snd r1))"
      using e by (simp add: unat_sub)
    then have g: "unat (fst r1 + snd r1) + unat len + 4096 \<le> unat (fst r2)"
      using True "1.prems"(3) e o(1) by (simp add: word_le_nat_alt)
    have b: "base = fst r1 + snd r1" "rs' = r1 # (base, len) # r2 # rs" using True "1.prems"(1) by auto
    then have "ordered_regions rs'" using g e o(2) by simp
    moreover have "r1 # r2 # rs = [] @ r1 # r2 # rs" "rs' = [] @ r1 # (base, len) # r2 # rs" using b by auto
    ultimately show ?thesis using g e b(1) by blast
  next
    case False
    then obtain q where q: "region_insert need len (r2 # rs) = Some (base, q)" "rs' = r1 # q"
      using "1.prems"(1) by auto
    from "1.IH" [OF False q(1) o(2) "1.prems"(3)] obtain l r ls rest where
      l: "ordered_regions q" "r2 # rs = ls @ l # r # rest" "q = ls @ l # (base, len) # r # rest"
      "base = fst l + snd l" "unat base = unat (fst l) + unat (snd l)" "unat base + unat len + 4096 \<le> unat (fst r)"
      by blast
    have "\<exists>q'. q = r2 # q'" using l(2,3) by (cases ls) auto
    then have "ordered_regions rs'" using l(1) o(1) q(2) by auto
    moreover have "r1 # r2 # rs = (r1 # ls) @ l # r # rest" "rs' = (r1 # ls) @ l # (base, len) # r # rest"
      using l(2,3) q(2) by auto
    ultimately show ?thesis using l(4-6) by blast
  qed
qed auto

section \<open>The mapping loops of the kernel's address space\<close>

abbreviation kernel_flags :: u64 where
  "kernel_flags \<equiv> NYA_OS_VMM_PRESENT OR NYA_OS_VMM_RW"

lemma kernel_flags_ok: "flags_ok kernel_flags"
  by (simp add: flags_ok_def vmm_flag_defs table_mask_def)

text \<open>The pages \<open>i, \<dots>, i + n - 1\<close> of a range map to consecutive frames, nothing else changes.\<close>

definition linear_map :: "kstate \<Rightarrow> kstate \<Rightarrow> u64 \<Rightarrow> u64 \<Rightarrow> u64 \<Rightarrow> nat \<Rightarrow> nat \<Rightarrow> bool" where
  "linear_map s s' t virt phys i n \<longleftrightarrow>
     (\<forall>k. i \<le> k \<longrightarrow> k < i + n \<longrightarrow> page_map s' t (index_path (virt + of_nat k * 0x1000))
        = (phys + of_nat k * 0x1000) OR kernel_flags)
     \<and> (\<forall>q. full_path q \<longrightarrow> (\<forall>k. i \<le> k \<longrightarrow> k < i + n \<longrightarrow> q \<noteq> index_path (virt + of_nat k * 0x1000)) \<longrightarrow>
          page_map s' t q = page_map s t q)"

lemma map_loop_ok:
  assumes "pt_ok s t" and "free_list s xs" and "cell_is s t (kernel_pagemap s + 8) t"
    and "j = of_nat i * 0x1000" and "i + n = (unat len + 4095) div 4096" and "unat len \<le> 2 ^ 47"
  shows "map_loop virt phys len j c s = Inl Halted
    \<or> (\<exists>c' s' zs ys. map_loop virt phys len j c s = Inr (c', s') \<and> xs = zs @ ys \<and> vm_grow s s' t zs ys
        \<and> linear_map s s' t virt phys i n)"
  using assms
proof (induction n arbitrary: i j c s xs)
  case 0
  have "j = of_nat (4096 * i)" using 0(4) by (simp add: mult.commute)
  then have "unat j = 4096 * i" using 0(5,6) by (simp add: unat_of_nat_u64 del: of_nat_mult)
  then have "\<not> j < len" using 0(5) by (simp add: word_less_nat_alt)
  then have "map_loop virt phys len j c s = Inr (c, s)" by (simp add: map_loop.simps)
  then show ?case using 0 vm_grow_refl [of s t xs]
    by (intro disjI2 exI [of _ c] exI [of _ s] exI [of _ "[]"] exI [of _ xs]) (simp add: linear_map_def)
next
  case (Suc n)
  have jj: "j = of_nat (4096 * i)" using Suc.prems(4) by (simp add: mult.commute)
  then have uj: "unat j = 4096 * i" using Suc.prems(5,6) by (simp add: unat_of_nat_u64 del: of_nat_mult)
  then have lt: "j < len" using Suc.prems(5) by (simp add: word_less_nat_alt)
  have nw: "\<not> j + 0x1000 < j" using uj Suc.prems(5,6) by (intro add_no_wrap) simp
  define c1 where "c1 = (if j < 0x100000000 then c + 0x1000 else c)"
  have pml4: "load64 (mem s) (kernel_pagemap s + 8) = t" using Suc.prems(3) by (simp add: cell_is_def)
  have step: "map_loop virt phys len j c s = andthen (vmm_map (t + hhdm s) (virt + j) (phys + j) kernel_flags s)
      (map_loop virt phys len (j + 0x1000) c1)"
    using lt nw pml4 by (subst map_loop.simps) (simp add: c1_def)
  show ?case using vmm_map_cases [OF Suc.prems(1) kernel_flags_ok Suc.prems(2), of "virt + j" "phys + j"]
  proof (elim disjE exE conjE)
    assume "vmm_map (t + hhdm s) (virt + j) (phys + j) kernel_flags s = Inl Halted"
    then show ?thesis using step by simp
  next
    fix s1 z1 y1
    assume m: "vmm_map (t + hhdm s) (virt + j) (phys + j) kernel_flags s = Inr s1" "xs = z1 @ y1"
      "mapped s s1 t (index_path (virt + j)) (phys + j OR kernel_flags) z1 y1"
    have g1: "vm_grow s s1 t z1 y1" using m(2,3) Suc.prems(2) by (simp add: mapped_def vm_grow_def)
    have k1: "kernel_pagemap s1 = kernel_pagemap s" using g1 by (simp add: vm_grow_def same_globals_def)
    have "map_loop virt phys len (j + 0x1000) c1 s1 = Inl Halted
      \<or> (\<exists>c' s' zs ys. map_loop virt phys len (j + 0x1000) c1 s1 = Inr (c', s') \<and> y1 = zs @ ys \<and> vm_grow s1 s' t zs ys
          \<and> linear_map s1 s' t virt phys (Suc i) n)"
      using g1 vm_grow_cell [OF g1 Suc.prems(3)] k1 Suc.prems(4,5,6)
      by (intro Suc.IH) (auto simp: vm_grow_def algebra_simps)
    then show ?thesis
    proof (elim disjE exE conjE)
      assume "map_loop virt phys len (j + 0x1000) c1 s1 = Inl Halted"
      then show ?thesis using step m(1) by simp
    next
      fix c' s' z2 ys
      assume r: "map_loop virt phys len (j + 0x1000) c1 s1 = Inr (c', s')" "y1 = z2 @ ys" "vm_grow s1 s' t z2 ys"
        "linear_map s1 s' t virt phys (Suc i) n"
      have g: "vm_grow s s' t (z1 @ z2) ys" using vm_grow_trans [OF _ r(3), of s z1] g1 r(2) by simp
      have mp: "page_map s1 t q = (if q = index_path (virt + j) then phys + j OR kernel_flags else page_map s t q)"
        if "full_path q" for q using m(3) that by (simp add: mapped_def)
      have ne: "index_path (virt + of_nat i * 0x1000) \<noteq> index_path (virt + of_nat k * 0x1000)"
        if "Suc i \<le> k" "k < Suc i + n" for k
      proof -
        have "(unat len + 4095) div 4096 < 2 ^ 36" using Suc.prems(6) by simp
        then have "k < 2 ^ 36" "i < 2 ^ 36" using that Suc.prems(5) by auto
        then show ?thesis using index_path_inj [of virt i k] that by auto
      qed
      have at: "page_map s' t (index_path (virt + of_nat k * 0x1000)) = phys + of_nat k * 0x1000 OR kernel_flags"
        if k: "i \<le> k" "k < i + Suc n" for k
      proof (cases "k = i")
        case True
        have "page_map s' t (index_path (virt + of_nat i * 0x1000)) = page_map s1 t (index_path (virt + of_nat i * 0x1000))"
          using r(4) ne full_index_path by (simp add: linear_map_def)
        then show ?thesis using mp [OF full_index_path] True Suc.prems(4) by simp
      next
        case False
        then have "Suc i \<le> k" "k < Suc i + n" using k by auto
        then show ?thesis using r(4) by (simp add: linear_map_def)
      qed
      have "page_map s' t q = page_map s t q"
        if q: "full_path q" "\<forall>k. i \<le> k \<longrightarrow> k < i + Suc n \<longrightarrow> q \<noteq> index_path (virt + of_nat k * 0x1000)" for q
      proof -
        have "page_map s' t q = page_map s1 t q" using r(4) q by (auto simp: linear_map_def)
        moreover have "q \<noteq> index_path (virt + j)" using q(2) Suc.prems(4) by auto
        ultimately show ?thesis using mp [OF q(1)] by simp
      qed
      with at have "linear_map s s' t virt phys i (Suc n)" unfolding linear_map_def by blast
      moreover have "map_loop virt phys len j c s = Inr (c', s')" "xs = (z1 @ z2) @ ys"
        using step m(1,2) r(1,2) by auto
      ultimately show ?thesis using g by blast
    qed
  qed
qed


text \<open>Right after its allocation, a region satisfies what its release asks for.\<close>

lemma region_after_alloc:
  assumes vm: "vm_ok s um t ns" and f: "flags_ok f" and sz: "unat sz \<le> 2 ^ 31" and xs: "free_list s xs"
    and run: "vmm_region_alloc_user um sz f s = Inr (base, s1)"
    and new: "base \<notin> fst ` set (regions (mem s) ns)"
    and low: "\<forall>x \<in> free_set s. (x - hhdm s) AND phys_mask = x - hhdm s"
  shows "\<exists>as a c b bs fr. vm_ok s1 um t (as @ a # c # b # bs)
    \<and> regions (mem s1) (as @ a # b # bs) = regions (mem s) ns \<and> load64 (mem s1) c = base
    \<and> load64 (mem s1) (c + 8) = of_nat (4096 * ((unat sz + 4095) div 4096))
    \<and> (\<forall>k \<in> set (as @ [a]). load64 (mem s1) k \<noteq> base)
    \<and> region_frames s1 t um base ((unat sz + 4095) div 4096) fr
    \<and> range_fresh s s1 t base f ((unat sz + 4095) div 4096) fr"
proof -
  define n where "n = (unat sz + 4095) div 4096"
  have pt: "pt_ok s t" "heap_ok s" using vm by (auto simp: vm_ok_def)
  note alloc = vmm_region_alloc_ok [OF vm f sz xs, folded n_def]
  obtain rs where ins: "region_insert (align_up sz 4096 + 0x1000) (align_up sz 4096) (regions (mem s) ns) = Some (base, rs)"
    using alloc run by (cases "region_insert (align_up sz 4096 + 0x1000) (align_up sz 4096) (regions (mem s) ns)") auto
  with alloc run obtain ns1 fr where s1: "vm_ok s1 um t ns1" "regions (mem s1) ns1 = rs"
    "range_fresh s s1 t base f n fr" "same_globals s s1" by auto
  have h: "hhdm s1 = hhdm s" using s1(4) by (simp add: same_globals_def)
  obtain ls l r rest where sp: "regions (mem s) ns = ls @ l # r # rest" "rs = ls @ l # (base, align_up sz 4096) # r # rest"
    using region_insert_split [OF ins] by blast
  obtain as a c b bs where ns1: "ns1 = as @ a # c # b # bs" "regions (mem s1) as = ls" "load64 (mem s1) c = base"
    "load64 (mem s1) (c + 8) = align_up sz 4096" "(load64 (mem s1) a, load64 (mem s1) (a + 8)) = l"
    "(load64 (mem s1) b, load64 (mem s1) (b + 8)) # regions (mem s1) bs = r # rest"
    using s1(2) unfolding sp(2) regions_def by (auto simp: map_eq_append_conv map_eq_Cons_conv)
  have "\<forall>k \<in> set (as @ [a]). load64 (mem s1) k \<noteq> base"
  proof
    fix k assume "k \<in> set (as @ [a])"
    then have "load64 (mem s1) k \<in> fst ` set (ls @ [l])" using ns1(2,5) by (force simp: regions_def)
    then show "load64 (mem s1) k \<noteq> base" using new sp(1) by auto
  qed
  moreover have len: "load64 (mem s1) (c + 8) = of_nat (4096 * n)"
  proof -
    have "unat (align_up sz 4096) = 4096 * n" using align_up_unat [of sz] sz by (simp add: n_def)
    then show ?thesis using ns1(4) by (metis word_unat_eq_iff unat_of_nat_u64 unat_u64_less)
  qed
  moreover have "region_frames s1 t um base n fr"
    unfolding region_frames_def
  proof (intro conjI allI impI)
    show "n \<le> 2 ^ 19" using num_of_pages_small(2) [OF sz] by (simp add: n_def)
    show "inj_on fr {..<n}" using s1(3) by (simp add: range_fresh_def)
    fix i assume i: "i < n"
    then have fi: "fr i + hhdm s \<in> free_set s" "fr i + hhdm s \<notin> free_set s1 \<union> pt_pages s1 t \<union> slab_pages s1"
      "page_map s1 t (index_path (base + of_nat i * 0x1000)) = fr i OR f"
      using s1(3) by (auto simp: range_fresh_def)
    have "fr i AND phys_mask = fr i" using low fi(1) by force
    then show "get_phys_from_entry (page_map s1 t (index_path (base + of_nat i * 0x1000))) = fr i"
      using phys_of_entry f fi(3) by (simp add: flags_ok_def)
    have al: "page_aligned (fr i + hhdm s)" "fr i + hhdm s \<noteq> null"
      using fi(1) free_set_eq [OF xs] xs free_list_nonnull [OF xs] by (auto simp: free_list_def)
    have fo: "frame_ok (fr i)" using pt(1) fi(1) by (force simp: pt_ok_def)
    have "page_of (um + d) \<notin> free_set s" if "d \<in> {0, 8}" for d
      using vm_cells(2) [OF vm that] object_cell_facts(3) [OF pt(2)] by auto
    then have "\<forall>d \<in> {0, 8}. page_of (um + d) \<noteq> fr i + hhdm s" using fi(1) by metis
    then show "freeable s1 t um (fr i)" using al fo fi(2) h by (simp add: freeable_def)
  qed
  moreover have "regions (mem s1) (as @ a # b # bs) = regions (mem s) ns" using ns1(2,5,6) sp(1) by simp
  ultimately show ?thesis using s1(1,3) ns1(1,3) unfolding n_def by blast
qed

text \<open>Releasing a region right after allocating it restores the regions and the mappings.\<close>

lemma region_round_trip:
  assumes vm: "vm_ok s um t ns" and f: "flags_ok f" and sz: "unat sz \<le> 2 ^ 31" and xs: "free_list s xs"
    and run: "vmm_region_alloc_user um sz f s = Inr (base, s1)"
    and new: "base \<notin> fst ` set (regions (mem s) ns)"
    and low: "\<forall>x \<in> free_set s. (x - hhdm s) AND phys_mask = x - hhdm s"
  shows "\<exists>s2 ns2. vmm_region_dealloc_user um base s1 = Inr s2 \<and> vm_ok s2 um t ns2
    \<and> regions (mem s2) ns2 = regions (mem s) ns
    \<and> (\<forall>q. full_path q \<longrightarrow> page_map s2 t q
         = (if \<exists>i < (unat sz + 4095) div 4096. q = index_path (base + of_nat i * 0x1000) then 0 else page_map s t q))"
proof -
  define n where "n = (unat sz + 4095) div 4096"
  obtain as a c b bs fr where r: "vm_ok s1 um t (as @ a # c # b # bs)"
    "regions (mem s1) (as @ a # b # bs) = regions (mem s) ns" "load64 (mem s1) c = base"
    "load64 (mem s1) (c + 8) = of_nat (4096 * n)" "\<forall>k \<in> set (as @ [a]). load64 (mem s1) k \<noteq> base"
    "region_frames s1 t um base n fr" "range_fresh s s1 t base f n fr"
    using region_after_alloc [OF assms] unfolding n_def by blast
  obtain s2 where s2: "vmm_region_dealloc_user um base s1 = Inr s2" "vm_ok s2 um t (as @ a # b # bs)"
    "regions (mem s2) (as @ a # b # bs) = regions (mem s1) (as @ a # b # bs)" "range_freed s1 s2 t base n fr"
    using vmm_region_dealloc_ok [OF r(1,3-6)] by blast
  moreover have "page_map s2 t q = (if \<exists>i < n. q = index_path (base + of_nat i * 0x1000) then 0 else page_map s t q)"
    if "full_path q" for q
    using s2(4) r(7) that by (auto simp: range_freed_def range_fresh_def)
  ultimately show ?thesis using r(2) unfolding n_def by metis
qed

end
