(* ===== verification/Example_Machine.thy ===== *)
theory Example_Machine
  imports Vmm
begin

text \<open>
  A small concrete machine on which the hypotheses of the memory managers' properties hold:
  eight caches of one full slab each, six free pages, an empty kernel page table and the two
  regions that \<open>vmm_region_setup\<close> makes. The properties' instances use it.
\<close>

definition stores :: "(u64 \<times> u64) list \<Rightarrow> memory" where
  "stores kvs = foldr (\<lambda>(a, v) m. store64 m a v) kvs (\<lambda>_. 0)"

lemma load64_zero: "load64 (\<lambda>_. 0) a = 0"
  by (simp add: load64_def)

lemma load64_stores:
  assumes "list_all (\<lambda>(a, v). aligned 3 a) kvs" and "aligned 3 b"
  shows "load64 (stores kvs) b = (case map_of kvs b of Some v \<Rightarrow> v | None \<Rightarrow> 0)"
  using assms by (induction kvs) (auto simp: stores_def load64_zero load64_store64_aligned)

abbreviation demo_hhdm :: u64 where "demo_hhdm \<equiv> 0xFFFF800000000000"

definition demo_slab :: "nat \<Rightarrow> u64" where "demo_slab i = demo_hhdm + 0x10000 + of_nat i * 0x1000"
definition demo_free :: "nat \<Rightarrow> u64" where "demo_free i = demo_hhdm + 0x30000 + of_nat i * 0x1000"
definition demo_pml4 :: u64 where "demo_pml4 = 0x20000"
definition demo_map :: u64 where "demo_map = 0xFFFFFFFF80000000"
definition demo_node1 :: u64 where "demo_node1 = 0xFFFF800000012018"
definition demo_node2 :: u64 where "demo_node2 = 0xFFFF800000012038"

definition demo_cells :: "(u64 \<times> u64) list" where
  "demo_cells =
     map (\<lambda>i. (demo_slab i, class_sizes ! i)) [0..<8]
     @ map (\<lambda>i. (demo_free i, demo_free (Suc i))) [0..<5]
     @ [(demo_map, demo_node1), (demo_map + 8, demo_pml4),
        (demo_node1, demo_hhdm), (demo_node1 + 8, 0x1000000), (demo_node1 + 16, 3), (demo_node1 + 24, demo_node2),
        (demo_node2, 0xFFFFFFFF80000000), (demo_node2 + 8, 0x100000)]"

definition demo_state :: kstate where
  "demo_state = \<lparr>mem = stores demo_cells, hhdm = demo_hhdm, head = demo_free 0,
     kmalloc_cache = map (\<lambda>i. \<lparr>slabs = demo_slab i, csize = class_sizes ! i\<rparr>) [0..<8],
     kernel_pagemap = demo_map, kerneL_higher_half_size = 0xFFFFFFFF80100000\<rparr>"

lemmas demo_defs = demo_slab_def demo_free_def demo_pml4_def demo_map_def demo_node1_def demo_node2_def

lemma upt8: "[0..<8] = [0, 1, 2, 3, 4, 5, 6, 7 :: nat]" and upt5: "[0..<5] = [0, 1, 2, 3, 4 :: nat]"
  by (simp_all add: upt_conv_Cons)

lemma demo_cells_eq:
  "demo_cells =
    [(0xFFFF800000010000, 8), (0xFFFF800000011000, 16), (0xFFFF800000012000, 32), (0xFFFF800000013000, 64),
     (0xFFFF800000014000, 128), (0xFFFF800000015000, 256), (0xFFFF800000016000, 512), (0xFFFF800000017000, 1024),
     (0xFFFF800000030000, 0xFFFF800000031000), (0xFFFF800000031000, 0xFFFF800000032000),
     (0xFFFF800000032000, 0xFFFF800000033000), (0xFFFF800000033000, 0xFFFF800000034000),
     (0xFFFF800000034000, 0xFFFF800000035000),
     (0xFFFFFFFF80000000, 0xFFFF800000012018), (0xFFFFFFFF80000008, 0x20000),
     (0xFFFF800000012018, 0xFFFF800000000000), (0xFFFF800000012020, 0x1000000), (0xFFFF800000012028, 3),
     (0xFFFF800000012030, 0xFFFF800000012038),
     (0xFFFF800000012038, 0xFFFFFFFF80000000), (0xFFFF800000012040, 0x100000)]"
  by (simp add: demo_cells_def demo_defs upt8 upt5 class_sizes_def)

lemma demo_load:
  "aligned 3 a \<Longrightarrow> load64 (mem demo_state) a = (case map_of demo_cells a of Some v \<Rightarrow> v | None \<Rightarrow> 0)"
  by (simp add: demo_state_def) (rule load64_stores, simp_all add: demo_cells_eq aligned_def)

definition demo_slabs :: "u64 list" where "demo_slabs = map demo_slab [0..<8]"
definition demo_frees :: "u64 list" where "demo_frees = map demo_free [0..<6]"

lemma demo_slabs_eq: "demo_slabs = [0xFFFF800000010000, 0xFFFF800000011000, 0xFFFF800000012000,
  0xFFFF800000013000, 0xFFFF800000014000, 0xFFFF800000015000, 0xFFFF800000016000, 0xFFFF800000017000]"
  by (simp add: demo_slabs_def demo_slab_def upt8)

lemma demo_frees_eq: "demo_frees = [0xFFFF800000030000, 0xFFFF800000031000, 0xFFFF800000032000,
  0xFFFF800000033000, 0xFFFF800000034000, 0xFFFF800000035000]"
  by (simp add: demo_frees_def demo_free_def upt_conv_Cons)

lemma demo_free_list: "free_list demo_state demo_frees"
proof -
  have al: "list_all page_aligned demo_frees" by (simp add: demo_frees_eq aligned_def)
  have "chain (load64 (mem demo_state)) (demo_free 0) demo_frees"
    by (simp add: demo_frees_eq demo_free_def demo_load demo_cells_eq aligned_def)
  then show ?thesis using al by (auto simp: free_list_def demo_state_def list_all_iff)
qed

lemma demo_free_set: "free_set demo_state = set demo_frees"
  by (rule free_set_eq [OF demo_free_list])

lemma demo_pmm_ok: "pmm_ok demo_state"
  using demo_free_list by (auto simp: pmm_ok_def demo_state_def aligned_def)

lemma demo_heap: "slab_heap demo_state (\<lambda>i. [demo_slab i]) (\<lambda>_. [])"
proof -
  have i8: "i = 0 \<or> i = 1 \<or> i = 2 \<or> i = 3 \<or> i = 4 \<or> i = 5 \<or> i = 6 \<or> i = 7" if "i < 8" for i :: nat
    using that by presburger
  have h: "page_aligned (demo_slab i) \<and> demo_slab i \<noteq> 0 \<and> load64 (mem demo_state) (demo_slab i) = class_sizes ! i
    \<and> load64 (mem demo_state) (demo_slab i + 8) = 0 \<and> load64 (mem demo_state) (demo_slab i + 16) = 0
    \<and> demo_slab i \<notin> set demo_frees \<and> good_size (class_sizes ! i)" if "i < 8" for i
    using i8 [OF that]
    by (elim disjE) (simp_all add: demo_slab_def demo_load demo_cells_eq demo_frees_eq aligned_def
        class_sizes_def good_size_def)
  have k: "kmalloc_cache demo_state ! i = \<lparr>slabs = demo_slab i, csize = class_sizes ! i\<rparr>" if "i < 8" for i
    using that by (simp add: demo_state_def)
  have inj: "demo_slab i \<noteq> demo_slab j" if "i < 8" "j < 8" "i \<noteq> j" for i j
  proof -
    have d: "distinct demo_slabs" "length demo_slabs = 8" by (simp_all add: demo_slabs_eq)
    have "demo_slabs ! i \<noteq> demo_slabs ! j"
      using nth_eq_iff_index_eq [OF d(1), of i j] d(2) that by simp
    then show ?thesis using that by (simp add: demo_slabs_def)
  qed
  have m: "map csize (kmalloc_cache demo_state) = class_sizes"
    by (simp add: demo_state_def upt8 class_sizes_def)
  have l: "length (kmalloc_cache demo_state) = 8" by (simp add: demo_state_def)
  have "distinct class_sizes" by (simp add: class_sizes_def)
  then show ?thesis
    using demo_pmm_ok h k inj m l
    by (simp add: slab_heap_def demo_free_set cache_ok_def slab_ok_def get_field_def)
qed


lemma demo_heap_ok: "heap_ok demo_state"
  using demo_heap by (auto simp: heap_ok_def)

lemma demo_slab_pages: "slab_pages demo_state = set demo_slabs"
proof -
  have "length (kmalloc_cache demo_state) = 8" by (simp add: demo_state_def)
  then show ?thesis using slab_pages_eq [OF demo_heap] by (auto simp: demo_slabs_def)
qed

lemma demo_empty_page:
  assumes "aligned 3 a" and "page_of a \<in> {0xFFFF800000020000}"
  shows "load64 (mem demo_state) a = 0"
proof -
  have "list_all (\<lambda>(k, v). page_of k \<noteq> 0xFFFF800000020000) demo_cells"
    by (simp add: demo_cells_eq page_of_def)
  then have "a \<notin> fst ` set demo_cells" using assms(2) by (auto simp: list_all_iff)
  then have "map_of demo_cells a = None" by (simp add: map_of_eq_None_iff)
  then show ?thesis using demo_load [OF assms(1)] by simp
qed

lemma demo_pt:
  shows "pt_ok demo_state demo_pml4" and "pt_pages demo_state demo_pml4 = {0xFFFF800000020000}"
    and "full_path q \<Longrightarrow> page_map demo_state demo_pml4 q = 0"
proof -
  have h: "hhdm demo_state = demo_hhdm" by (simp add: demo_state_def)
  have f: "list_all (\<lambda>x. frame_ok (x - demo_hhdm)) demo_frees"
    by (simp add: demo_frees_eq frame_ok_def table_mask_def)
  have z: "load64 (mem demo_state) (entry_addr demo_hhdm demo_pml4 i) AND 1 = 0" if "i < 512" for i
  proof -
    have "page_aligned (demo_pml4 + demo_hhdm)" by (simp add: demo_pml4_def aligned_def)
    from entry_facts [OF this that] show ?thesis using demo_empty_page by (simp add: demo_pml4_def)
  qed
  have fo: "frame_ok demo_pml4" by (simp add: demo_pml4_def frame_ok_def table_mask_def)
  have ne: "demo_pml4 + demo_hhdm \<noteq> null" "demo_pml4 + demo_hhdm \<notin> set demo_frees"
    by (simp_all add: demo_pml4_def demo_frees_eq)
  have f': "\<forall>x \<in> free_set demo_state. frame_ok (x - hhdm demo_state)"
    using f h by (simp add: demo_free_set list_all_iff)
  note pe = pt_ok_empty [OF demo_pmm_ok f' fo, unfolded h demo_free_set, OF ne z]
  show "pt_ok demo_state demo_pml4" "pt_pages demo_state demo_pml4 = {0xFFFF800000020000}"
    "full_path q \<Longrightarrow> page_map demo_state demo_pml4 q = 0"
    using pe by (auto simp: demo_pml4_def)
qed

lemma demo_vm: "vm_ok demo_state demo_map demo_pml4 [demo_node1, demo_node2]"
proof -
  have m: "map csize (kmalloc_cache demo_state) = class_sizes"
    by (simp add: demo_state_def upt8 class_sizes_def)
  have sp: "slab_pages demo_state \<inter> pt_pages demo_state demo_pml4 = {}"
    by (simp add: demo_slab_pages demo_slabs_eq demo_pt(2))
  have mc: "map_cells demo_state demo_pml4 demo_map"
    by (simp add: map_cells_def demo_slab_pages demo_slabs_eq demo_pt(2) demo_free_set demo_frees_eq
        demo_map_def aligned_def page_of_def)
  have ld: "load64 (mem demo_state) (demo_map + 8) = demo_pml4"
    "load64 (mem demo_state) demo_map = demo_node1"
    by (simp_all add: demo_load demo_cells_eq demo_defs aligned_def)
  have ch: "chain (get_field 24 (mem demo_state)) demo_node1 [demo_node1, demo_node2]"
    by (simp add: get_field_def demo_load demo_cells_eq demo_defs aligned_def)
  have l2: "2 < length (kmalloc_cache demo_state)" "kmalloc_cache demo_state ! 2 = \<lparr>slabs = demo_slab 2, csize = 32\<rparr>"
    by (simp_all add: demo_state_def class_sizes_def numeral_2_eq_2)
  have po: "page_of demo_node1 = demo_slab 2" "page_of demo_node2 = demo_slab 2"
    by (simp_all add: demo_defs page_of_def)
  have sl: "demo_node1 = slot (demo_slab 2) 32 0" "demo_node2 = slot (demo_slab 2) 32 1"
    by (simp_all add: demo_defs slot_def)
  have "obj_amount 32 = 127" by (simp add: obj_amount_eq)
  then have "demo_node1 \<in> set (slots (demo_slab 2) 32)" "demo_node2 \<in> set (slots (demo_slab 2) 32)"
    unfolding in_slots using sl by (metis zero_less_numeral, metis one_less_numeral_iff semiring_norm(77))
  then have "live 2 demo_state demo_node1" "live 2 demo_state demo_node2"
    using l2 po by (simp_all add: live_eq [OF demo_heap])
  then show ?thesis using m sp mc ld ch demo_heap_ok demo_pt(1) by (simp add: vm_ok_def)
qed

end
