(* ===== verification/Memory_Properties.thy ===== *)
theory Memory_Properties
  imports Example_Machine
begin

text \<open>
  The properties of the memory managers (\<open>pmm.c\<close>, \<open>vmm.c\<close>, the memory functions of
  \<open>main.c\<close>), each with an instance on a concrete machine where it has hypotheses.
\<close>

section \<open>Starting up\<close>

text \<open>
  C1. From any memory map whose usable entries are page-aligned, non-empty and disjoint, and
  give at least eight pages, \<open>pmm_init\<close> returns; it reports the number of usable pages, leaves
  exactly the pages behind the first eight on the free list, and sets up eight well-formed
  caches of the sizes 8 to 1024, each with one slab whose objects are all free.
\<close>

theorem pmm_init_correct:
  assumes "valid_memmap (hhdm s) es" and "head s = null" and "length (kmalloc_cache s) = 8"
    and "8 \<le> length (memmap_pages (hhdm s) es)"
  shows "\<exists>s'. pmm_init es s = Inr (of_nat (length (memmap_pages (hhdm s) es)), s')
    \<and> free_list s' (drop 8 (memmap_pages (hhdm s) es)) \<and> map csize (kmalloc_cache s') = class_sizes
    \<and> slab_heap s' (\<lambda>i. [memmap_pages (hhdm s) es ! i]) (boot_free (memmap_pages (hhdm s) es))"
  using assms by (rule pmm_init_ok)

definition boot_memmap :: "memmap_entry list" where
  "boot_memmap = [\<lparr>me_base = 0, me_length = 0x1000, me_type = RESERVED\<rparr>,
     \<lparr>me_base = 0x100000, me_length = 0x9800, me_type = USABLE\<rparr>]"

definition boot_state :: kstate where
  "boot_state = \<lparr>mem = (\<lambda>_. 0), hhdm = demo_hhdm, head = 0, kmalloc_cache = replicate 8 \<lparr>slabs = 0, csize = 0\<rparr>,
     kernel_pagemap = 0, kerneL_higher_half_size = 0\<rparr>"

lemma boot_pages: "memmap_pages demo_hhdm boot_memmap = map (\<lambda>k. demo_hhdm + 0x100000 + of_nat k * 0x1000) [0..<10]"
  by (simp add: memmap_pages_def boot_memmap_def usable_pages_def upt_conv_Cons)

lemma boot_memmap_valid: "valid_memmap demo_hhdm boot_memmap"
proof -
  have "aligned 12 demo_hhdm" by (simp add: aligned_def)
  moreover have "valid_usable \<lparr>me_base = 0x100000, me_length = 0x9800, me_type = USABLE\<rparr>"
    by (simp add: valid_usable_def aligned_def)
  moreover have "distinct (memmap_pages demo_hhdm boot_memmap)" "null \<notin> set (memmap_pages demo_hhdm boot_memmap)"
    unfolding boot_pages by (simp_all add: upt_conv_Cons)
  ultimately show ?thesis by (simp add: valid_memmap_def boot_memmap_def)
qed

theorem pmm_init_correct_instance:
  "\<exists>s'. pmm_init boot_memmap boot_state = Inr (10, s') \<and> map csize (kmalloc_cache s') = class_sizes"
proof -
  have h: "hhdm boot_state = demo_hhdm" "head boot_state = null" "length (kmalloc_cache boot_state) = 8"
    by (simp_all add: boot_state_def)
  have "length (memmap_pages demo_hhdm boot_memmap) = 10" by (simp add: boot_pages)
  then show ?thesis
    using pmm_init_correct [of boot_state boot_memmap] h boot_memmap_valid by auto
qed

section \<open>Physical pages\<close>

text \<open>
  C2. Over any sequence of page allocations and releases of pages that are live, no page is
  ever handed out while it is live, none is lost, and the live and the free pages stay apart.
\<close>

theorem pages_never_shared:
  assumes "pool_run pmm_alloc_singlep pool_free s0 s L" and "pmm_ok s0"
  shows "L \<inter> free_phys s = {} \<and> L \<union> free_phys s = free_phys s0
    \<and> (\<forall>r s'. pmm_alloc_singlep s = Inr (r, s') \<longrightarrow> r \<notin> L \<and> r \<in> free_phys s0)"
  using page_pool.run_invariant [OF assms] page_pool.no_double_take [OF assms] by blast

theorem pages_never_shared_instance:
  "\<exists>s. pool_run pmm_alloc_singlep pool_free demo_state s {0x30000}
    \<and> (\<forall>r s'. pmm_alloc_singlep s = Inr (r, s') \<longrightarrow> r \<noteq> 0x30000)"
proof -
  obtain s where s: "pmm_alloc_singlep demo_state = Inr (0x30000, s)"
    using pmm_alloc_step [OF demo_free_list [unfolded demo_frees_eq]] by (simp add: demo_state_def)
  have r: "pool_run pmm_alloc_singlep pool_free demo_state s {0x30000}"
    using run_take [where tk = pmm_alloc_singlep and gv = pool_free and L = "{}", OF run_start s] by simp
  from pages_never_shared [OF r demo_pmm_ok] r show ?thesis by auto
qed

text \<open>
  C3. A page allocation fails exactly when no page is free, and then it halts the machine.
\<close>

theorem pmm_alloc_fails_iff_empty:
  assumes "pmm_ok s"
  shows "(pmm_alloc_singlep s = Inl Halted \<longleftrightarrow> free_phys s = {})
    \<and> (free_phys s \<noteq> {} \<longrightarrow> (\<exists>p s'. pmm_alloc_singlep s = Inr (p, s') \<and> p \<in> free_phys s))"
proof -
  obtain xs where xs: "free_list s xs" using assms by (auto simp: pmm_ok_def)
  show ?thesis
  proof (cases xs)
    case Nil
    then show ?thesis using xs pmm_alloc_empty free_set_eq [OF xs] by (simp add: free_phys_def)
  next
    case (Cons y ys)
    then show ?thesis using xs pmm_alloc_step [of s y ys] free_set_eq [OF xs] by (auto simp: free_phys_def)
  qed
qed

theorem pmm_alloc_fails_iff_empty_instance:
  "free_phys demo_state \<noteq> {} \<and> (\<exists>p s'. pmm_alloc_singlep demo_state = Inr (p, s') \<and> p \<in> free_phys demo_state)"
proof -
  have "free_phys demo_state \<noteq> {}" by (simp add: free_phys_def demo_free_set demo_frees_eq)
  then show ?thesis using pmm_alloc_fails_iff_empty [OF demo_pmm_ok] by blast
qed

section \<open>Small objects\<close>

text \<open>
  C4. Over any sequence of allocations from a cache and releases of live objects of it, no
  object is handed out while it is live and none is lost.
\<close>

theorem objects_never_shared:
  assumes "pool_run (\<lambda>s. slab_alloc (kmalloc_cache s ! i) s) free_obj s0 s L" and "slab_ready i s0"
  shows "L \<inter> available_objects i s = {} \<and> L \<union> available_objects i s = available_objects i s0
    \<and> (\<forall>r s'. slab_alloc (kmalloc_cache s ! i) s = Inr (r, s') \<longrightarrow> r \<notin> L)"
  using slab_pool.run_invariant [OF assms] slab_pool.no_double_take [OF assms] by blast

lemma demo_slab_ready: "i < 8 \<Longrightarrow> slab_ready i demo_state"
  using demo_heap by (auto simp: slab_ready_def demo_state_def)

theorem objects_never_shared_instance:
  "\<exists>s r. pool_run (\<lambda>s. slab_alloc (kmalloc_cache s ! 2) s) free_obj demo_state s {r}
    \<and> (\<forall>r' s'. slab_alloc (kmalloc_cache s ! 2) s = Inr (r', s') \<longrightarrow> r' \<noteq> r)"
proof -
  have i: "2 < length (kmalloc_cache demo_state)" by (simp add: demo_state_def)
  obtain r s where s: "slab_alloc (kmalloc_cache demo_state ! 2) demo_state = Inr (r, s)"
    using slab_alloc_cases [OF demo_heap_ok i demo_free_list] by (auto simp: demo_frees_eq)
  have p: "pool_run (\<lambda>s. slab_alloc (kmalloc_cache s ! 2) s) free_obj demo_state s {r}"
    using run_take [where tk = "\<lambda>s. slab_alloc (kmalloc_cache s ! 2) s" and gv = free_obj and L = "{}", OF run_start s]
    by simp
  from objects_never_shared [OF p] p show ?thesis using demo_slab_ready [of 2] by auto
qed



text \<open>
  C6. \<open>kmalloc\<close> of less than 1024 bytes takes the object from the smallest size class that
  fits; the object was not live before, every other live object keeps its contents, at most one
  page is taken, and the only failure is to halt when a page is needed and none is free.
\<close>

theorem kmalloc_small_correct:
  assumes "heap_ok s" and "map csize (kmalloc_cache s) = class_sizes" and "sz < 1024" and "free_list s xs"
  shows "\<exists>i < 8. sz \<le> class_sizes ! i \<and> (\<forall>j < i. class_sizes ! j < sz)
    \<and> (kmalloc sz s = Inl Halted \<and> xs = []
       \<or> (\<exists>x s' zs ys. kmalloc sz s = Inr (x, s') \<and> xs = zs @ ys \<and> length zs \<le> 1 \<and> free_list s' ys
            \<and> heap_ok s' \<and> \<not> live i s x \<and> (\<forall>j y. live j s' y \<longleftrightarrow> live j s y \<or> (j, y) = (i, x))
            \<and> (\<forall>a. object_cell s a \<longrightarrow> load64 (mem s') a = load64 (mem s) a)))"
  using kmalloc_small_cases [OF assms] assms(3) by (simp add: kmalloc_def obj_taken_def) blast

theorem kmalloc_small_correct_instance:
  "\<exists>x s'. kmalloc 20 demo_state = Inr (x, s') \<and> live 2 s' x \<and> \<not> live 2 demo_state x \<and> live 2 s' demo_node1"
proof -
  have m: "map csize (kmalloc_cache demo_state) = class_sizes" "live 2 demo_state demo_node1"
    using demo_vm by (auto simp: vm_ok_def)
  have "(20 :: u64) < 1024" by simp
  from kmalloc_small_correct [OF demo_heap_ok m(1) this demo_free_list] obtain i x s' where
    i: "i < 8" "20 \<le> class_sizes ! i" "\<forall>j < i. class_sizes ! j < 20" and
    x: "kmalloc 20 demo_state = Inr (x, s')" "\<not> live i demo_state x"
      "\<forall>j y. live j s' y \<longleftrightarrow> live j demo_state y \<or> (j, y) = (i, x)"
    by (auto simp: demo_frees_eq)
  have "i \<noteq> 0" "i \<noteq> 1" using i(2) by (intro notI; simp add: class_sizes_def)+
  moreover have "\<not> 2 < i" using i(3) by (force simp: class_sizes_def)
  ultimately have "i = 2" by simp
  then show ?thesis using x m(2) by auto
qed

text \<open>
  C7. \<open>kfree\<close> of a live small object always returns; exactly that object stops being live, every
  other live object keeps its contents and the free page list is unchanged.
\<close>

theorem kfree_small_correct:
  assumes "heap_ok s" and "live i s x" and "sz < 1024"
  shows "\<exists>s'. kfree x sz s = Inr s' \<and> heap_ok s' \<and> (\<forall>xs. free_list s xs \<longrightarrow> free_list s' xs)
    \<and> (\<forall>j y. live j s' y \<longleftrightarrow> live j s y \<and> (j, y) \<noteq> (i, x))
    \<and> (\<forall>a. object_cell s a \<longrightarrow> a \<noteq> x \<longrightarrow> load64 (mem s') a = load64 (mem s) a)"
proof -
  obtain s' where s': "free_obj x s = Inr s'" "obj_given s s' i x" using free_obj_step [OF assms(1,2)] by blast
  have "\<not> live i s' x" using s'(2) by (simp add: obj_given_def)
  then have "x \<noteq> null" using s'(1) assms(2) free_null by auto
  then show ?thesis using s' assms(3) by (auto simp: kfree_def obj_given_def)
qed

theorem kfree_small_correct_instance:
  "\<exists>s'. kfree demo_node2 32 demo_state = Inr s' \<and> \<not> live 2 s' demo_node2 \<and> live 2 s' demo_node1"
proof -
  have l: "live 2 demo_state demo_node1" "live 2 demo_state demo_node2"
    using demo_vm by (auto simp: vm_ok_def)
  have "demo_node1 \<noteq> demo_node2" by (simp add: demo_defs)
  then show ?thesis using kfree_small_correct [OF demo_heap_ok l(2), of 32] l(1) by auto
qed

text \<open>
  \<open>next_pow2\<close> is the least power of two that is not smaller than its argument, for every
  argument from 1 to \<open>2 ^ 32\<close>. Just above, the missing shift by 32 shows: the result is not a
  power of two.
\<close>

lemma next_pow2_exact:
  "(0 < v \<longrightarrow> v \<le> 2 ^ 32 \<longrightarrow> (\<exists>k \<le> 32. unat (next_pow2 v) = 2 ^ k \<and> unat v \<le> 2 ^ k
      \<and> (k = 0 \<or> 2 ^ (k - 1) < unat v)))
    \<and> next_pow2 (2 ^ 32 + 1) = 2 ^ 33 - 1"
  using next_pow2_least [of v] by (auto simp: next_pow2_def)

lemma next_pow2_exact_instance: "\<exists>k \<le> 32. unat (next_pow2 100) = 2 ^ k \<and> (100 :: nat) \<le> 2 ^ k"
  using next_pow2_exact [of 100] by auto

section \<open>Page tables\<close>

text \<open>
  C8. \<open>map\<close> sets the entry of exactly the page it is given and no other, keeps the tables a
  well-formed tree, writes only tables and the at most three free pages it turned into tables,
  and fails only by running out of pages.
\<close>

theorem vmm_map_correct:
  assumes "pt_ok s t" and "flags_ok f" and "free_list s xs"
  shows "vmm_map (t + hhdm s) virt phys f s = Inl Halted \<and> length xs < 3
    \<or> (\<exists>s' zs ys. vmm_map (t + hhdm s) virt phys f s = Inr s' \<and> xs = zs @ ys \<and> length zs \<le> 3
        \<and> pt_ok s' t \<and> free_list s' ys \<and> same_outside (pt_pages s t \<union> set zs) (mem s) (mem s')
        \<and> (\<forall>q. full_path q \<longrightarrow> page_map s' t q
             = (if q = index_path virt then phys OR f else page_map s t q)))"
  using vmm_map_cases [OF assms, of virt phys] unfolding mapped_def by blast

theorem vmm_map_correct_instance:
  "\<exists>s'. vmm_map (demo_pml4 + hhdm demo_state) 0x400000 0x7000 3 demo_state = Inr s'
    \<and> page_map s' demo_pml4 (index_path 0x400000) = 0x7003
    \<and> page_map s' demo_pml4 (index_path 0x401000) = 0"
proof -
  have f: "flags_ok 3" by (simp add: flags_ok_def table_mask_def)
  obtain s' where "vmm_map (demo_pml4 + hhdm demo_state) 0x400000 0x7000 3 demo_state = Inr s'"
    "\<forall>q. full_path q \<longrightarrow> page_map s' demo_pml4 q
       = (if q = index_path 0x400000 then 0x7000 OR 3 else page_map demo_state demo_pml4 q)"
    using vmm_map_correct [OF demo_pt(1) f demo_free_list, of "0x400000" "0x7000"] by (auto simp: demo_frees_eq)
  moreover have "index_path 0x401000 \<noteq> index_path 0x400000" by (simp add: index_path_def lvl1_index_def)
  ultimately show ?thesis using demo_pt(3) full_index_path by auto
qed

text \<open>
  C9. \<open>unmap\<close> returns the old entry, clears exactly that entry, keeps the tables and the free
  list, and writes nothing but tables.
\<close>

theorem vmm_unmap_correct:
  assumes "pt_ok s t"
  shows "\<exists>s'. vmm_unmap (t + hhdm s) virt s = (page_map s t (index_path virt), s') \<and> pt_ok s' t
    \<and> (\<forall>xs. free_list s xs \<longrightarrow> free_list s' xs) \<and> same_outside (pt_pages s t) (mem s) (mem s')
    \<and> (\<forall>q. full_path q \<longrightarrow> page_map s' t q = (if q = index_path virt then 0 else page_map s t q))"
  using vmm_unmap_ok [OF assms] by blast

theorem vmm_unmap_correct_instance:
  "\<exists>s'. vmm_unmap (demo_pml4 + hhdm demo_state) 0x400000 demo_state = (0, s') \<and> pt_ok s' demo_pml4"
  using vmm_unmap_correct [OF demo_pt(1), of "0x400000"] demo_pt(3) [OF full_index_path, of "0x400000"] by auto

text \<open>
  C10. Translation inverts mapping: after a page is mapped to a frame below bit 51,
  \<open>virt_to_phys\<close> of every address of the page returns that frame; after \<open>unmap\<close> it returns 0.
\<close>

theorem map_translate_unmap:
  assumes "pt_ok s t" and "flags_ok f" and "phys AND phys_mask = phys" and "free_list s xs"
    and m: "vmm_map (t + hhdm s) virt phys f s = Inr s1" and v: "index_path v = index_path virt"
  shows "virt_to_phys (t + hhdm s1) v s1 = phys
    \<and> virt_to_phys (t + hhdm s1) v (snd (vmm_unmap (t + hhdm s1) virt s1)) = 0"
proof -
  have g: "pt_ok s1 t" "hhdm s1 = hhdm s" "page_map s1 t (index_path virt) = phys OR f"
    using vmm_map_cases [OF assms(1,2,4), of virt phys] m full_index_path
    by (auto simp: mapped_def same_globals_def)
  obtain s2 where s2: "vmm_unmap (t + hhdm s1) virt s1 = (page_map s1 t (index_path virt), s2)"
    "same_globals s1 s2" "pt_ok s2 t" "page_map s2 t (index_path virt) = 0"
    using vmm_unmap_ok [OF g(1), of virt] full_index_path by auto
  have "virt_to_phys (t + hhdm s1) v s1 = phys"
    using virt_to_phys_ok [OF g(1), of v] v g(3) phys_of_entry [OF assms(3)] assms(2)
    by (simp add: flags_ok_def)
  moreover have "virt_to_phys (t + hhdm s1) v s2 = 0"
    using virt_to_phys_ok [OF s2(3), of v] v s2(2,4)
    by (simp add: same_globals_def get_phys_from_entry_def)
  ultimately show ?thesis using s2(1) by simp
qed

theorem map_translate_unmap_instance:
  "\<exists>s1. vmm_map (demo_pml4 + hhdm demo_state) 0x400000 0x7000 3 demo_state = Inr s1
    \<and> virt_to_phys (demo_pml4 + hhdm s1) 0x400abc s1 = 0x7000"
proof -
  have f: "flags_ok 3" "(0x7000 :: u64) AND phys_mask = 0x7000"
    by (simp_all add: flags_ok_def table_mask_def phys_mask_def)
  obtain s1 where s1: "vmm_map (demo_pml4 + hhdm demo_state) 0x400000 0x7000 3 demo_state = Inr s1"
    using vmm_map_cases [OF demo_pt(1) f(1) demo_free_list, of "0x400000" "0x7000"] by (auto simp: demo_frees_eq)
  have "index_path 0x400abc = index_path 0x400000"
    by (simp add: index_path_def lvl1_index_def lvl2_index_def lvl3_index_def lvl4_index_def)
  from map_translate_unmap [OF demo_pt(1) f demo_free_list s1 this] s1 show ?thesis by auto
qed

section \<open>Regions\<close>

text \<open>
  C11. \<open>vmm_region_alloc\<close> for up to 2 GiB implements the abstract first-fit insertion: if no gap
  between neighbouring regions is large enough, it halts; otherwise it returns the start of the
  first such gap, the region list is the abstract list with the new region inserted, every page
  of the region is mapped to a cleared frame of its own that was free, no other page changes its
  mapping, and the only failure is to halt for lack of pages.
\<close>

theorem vmm_region_alloc_correct:
  assumes "vm_ok s um t ns" and "flags_ok f" and "unat sz \<le> 2 ^ 31" and "free_list s xs"
  shows "case region_insert (align_up sz 4096 + 0x1000) (align_up sz 4096) (regions (mem s) ns) of
      None \<Rightarrow> vmm_region_alloc_user um sz f s = Inl Halted
    | Some (base, rs) \<Rightarrow>
        vmm_region_alloc_user um sz f s = Inl Halted \<and> length xs < 1 + 4 * ((unat sz + 4095) div 4096)
        \<or> (\<exists>s' ns' fr. vmm_region_alloc_user um sz f s = Inr (base, s') \<and> vm_ok s' um t ns'
             \<and> regions (mem s') ns' = rs \<and> range_fresh s s' t base f ((unat sz + 4095) div 4096) fr
             \<and> same_globals s s')"
  using assms by (rule vmm_region_alloc_ok)

lemma demo_regions: "regions (mem demo_state) [demo_node1, demo_node2]
  = [(demo_hhdm, 0x1000000), (0xFFFFFFFF80000000, 0x100000)]"
  by (simp add: demo_load demo_cells_eq demo_defs aligned_def)

theorem vmm_region_alloc_correct_instance:
  "\<exists>s'. vmm_region_alloc_user demo_map 4096 3 demo_state = Inr (demo_hhdm + 0x1000000, s')"
proof -
  have f: "flags_ok 3" "unat (4096 :: u64) \<le> 2 ^ 31" by (simp_all add: flags_ok_def table_mask_def)
  have u: "align_up 4096 4096 = 4096" by (simp add: align_up_def)
  from vmm_region_alloc_correct [OF demo_vm f demo_free_list, unfolded demo_regions u] show ?thesis
    by (auto simp: demo_frees_eq)
qed





lemma demo_low: "\<forall>x \<in> free_set demo_state. (x - hhdm demo_state) AND phys_mask = x - hhdm demo_state"
proof -
  have "hhdm demo_state = demo_hhdm" by (simp add: demo_state_def)
  then show ?thesis by (simp add: demo_free_set demo_frees_eq phys_mask_def)
qed

lemma demo_allocated:
  "\<exists>s. vmm_region_alloc_user demo_map 4096 3 demo_state = Inr (demo_hhdm + 0x1000000, s)"
proof -
  have f: "flags_ok 3" "unat (4096 :: u64) \<le> 2 ^ 31" by (simp_all add: flags_ok_def table_mask_def)
  have u: "align_up 4096 4096 = 4096" by (simp add: align_up_def)
  from vmm_region_alloc_ok [OF demo_vm f demo_free_list, unfolded demo_regions u] show ?thesis
    by (auto simp: demo_frees_eq)
qed


text \<open>
  Round trip: let allocating a region of at most 2 GiB in a well-formed address space return a
  base that no region had before, with every free frame below \<open>2 ^ 51\<close>. Then releasing it right
  after restores the region list; the pages of the region are unmapped and every other page maps as
  before. (The condition on the base fails for the first allocation in an address space that
  \<open>new_pagemap\<close> made: that starts with an empty region at 0 and the allocation returns 0, so the
  release finds the old region first, which has no predecessor.)
\<close>

lemma region_alloc_dealloc_round_trip:
  assumes "vm_ok s um t ns" and "flags_ok f" and "unat sz \<le> 2 ^ 31" and "free_list s xs"
    and "vmm_region_alloc_user um sz f s = Inr (base, s1)" and "base \<notin> fst ` set (regions (mem s) ns)"
    and "\<forall>x \<in> free_set s. (x - hhdm s) AND phys_mask = x - hhdm s"
  shows "\<exists>s2 ns2. vmm_region_dealloc_user um base s1 = Inr s2 \<and> vm_ok s2 um t ns2
    \<and> regions (mem s2) ns2 = regions (mem s) ns
    \<and> (\<forall>q. full_path q \<longrightarrow> page_map s2 t q
         = (if \<exists>i < (unat sz + 4095) div 4096. q = index_path (base + of_nat i * 0x1000) then 0 else page_map s t q))"
  using assms by (rule region_round_trip)

lemma region_alloc_dealloc_round_trip_instance:
  "\<exists>s1 s2 ns2. vmm_region_alloc_user demo_map 4096 3 demo_state = Inr (demo_hhdm + 0x1000000, s1)
    \<and> vmm_region_dealloc_user demo_map (demo_hhdm + 0x1000000) s1 = Inr s2
    \<and> regions (mem s2) ns2 = regions (mem demo_state) [demo_node1, demo_node2]"
proof -
  have f: "flags_ok 3" "unat (4096 :: u64) \<le> 2 ^ 31" by (simp_all add: flags_ok_def table_mask_def)
  obtain s where s: "vmm_region_alloc_user demo_map 4096 3 demo_state = Inr (demo_hhdm + 0x1000000, s)"
    using demo_allocated by blast
  have n: "demo_hhdm + 0x1000000 \<notin> fst ` set (regions (mem demo_state) [demo_node1, demo_node2])"
    unfolding demo_regions by simp
  from region_alloc_dealloc_round_trip [OF demo_vm f demo_free_list s n demo_low] s show ?thesis by blast
qed

text \<open>
  C14. Releasing the last region of an address space frees its node but leaves it in the region
  list: afterwards the list runs through an object that is not live.
\<close>

theorem last_region_stays_linked:
  assumes "vm_ok s um t (xs @ [a, c])" and "load64 (mem s) c = base"
    and "load64 (mem s) (c + 8) = of_nat (4096 * n)" and "\<forall>k \<in> set (xs @ [a]). load64 (mem s) k \<noteq> base"
    and "region_frames s t um base n fr"
  shows "\<exists>s'. vmm_region_dealloc_user um base s = Inr s' \<and> \<not> live 2 s' c
    \<and> chain (get_field 24 (mem s')) (load64 (mem s') um) (xs @ [a, c])"
  using assms by (rule vmm_region_dealloc_last)

text \<open>The demonstration machine with an empty last region.\<close>

definition demo_empty_last :: kstate where
  "demo_empty_last = demo_state\<lparr>mem := store64 (mem demo_state) (demo_node2 + 8) 0\<rparr>"

lemma demo_empty_last_vm: "vm_ok demo_empty_last demo_map demo_pml4 [demo_node1, demo_node2]"
  "load64 (mem demo_empty_last) demo_node2 = 0xFFFFFFFF80000000"
  "load64 (mem demo_empty_last) demo_node1 = demo_hhdm" "load64 (mem demo_empty_last) (demo_node2 + 8) = 0"
proof -
  have l: "live 2 demo_state demo_node1" "live 2 demo_state demo_node2" using demo_vm by (auto simp: vm_ok_def)
  note st = vm_store [OF demo_vm l(2), where d = 8 and v = 0, folded demo_empty_last_def, simplified]
  have ne: "demo_node1 \<noteq> demo_node2" by (simp add: demo_defs)
  note n1 = st(11) [OF l(1)] and n2 = st(11) [OF l(2)]
  have "chain (get_field 24 (mem demo_empty_last)) demo_node1 [demo_node1, demo_node2]"
    using demo_vm n1 [of 24] n2 [of 24] ne by (auto simp: vm_ok_def get_field_def)
  then show "vm_ok demo_empty_last demo_map demo_pml4 [demo_node1, demo_node2]"
    using demo_vm st(1-9) st(12) [of 0] st(12) [of 8] l by (auto simp: vm_ok_def same_globals_def)
  show "load64 (mem demo_empty_last) demo_node2 = 0xFFFFFFFF80000000"
    "load64 (mem demo_empty_last) demo_node1 = demo_hhdm" "load64 (mem demo_empty_last) (demo_node2 + 8) = 0"
    using n2 [of 0] n2 [of 8] n1 [of 0] demo_regions by auto
qed

theorem last_region_stays_linked_instance:
  "\<exists>s'. vmm_region_dealloc_user demo_map 0xFFFFFFFF80000000 demo_empty_last = Inr s'
    \<and> \<not> live 2 s' demo_node2
    \<and> chain (get_field 24 (mem s')) (load64 (mem s') demo_map) [demo_node1, demo_node2]"
proof -
  have "region_frames demo_empty_last demo_pml4 demo_map 0xFFFFFFFF80000000 0 (\<lambda>_. 0)"
    by (simp add: region_frames_def)
  from last_region_stays_linked [of demo_empty_last demo_map demo_pml4 "[]", OF _ _ _ _ this] demo_empty_last_vm
  show ?thesis by simp
qed

section \<open>Moving memory\<close>

text \<open>
  C15. \<open>memmove\<close> of ranges that do not wrap around gives every target byte the old value of its
  source byte, overlapping or not, and changes nothing else; \<open>memcpy\<close> does so whenever the target
  does not start behind the start of the source and inside it (when it does, it may not: the
  instance shows a case).
\<close>

theorem memmove_correct:
  assumes "unat src + unat n \<le> 2 ^ 64" and "unat dest + unat n \<le> 2 ^ 64"
  shows "memmove m dest src n = moved m dest src (unat n)
    \<and> (unat src + unat n \<le> unat dest \<or> unat dest \<le> unat src \<longrightarrow> memcpy m dest src n = moved m dest src (unat n))"
  using memmove_moved [OF assms] memcpy_moved [OF assms] by blast

theorem memmove_correct_instance:
  "memmove (\<lambda>x. ucast x) 0x1001 0x1000 3 = moved (\<lambda>x. ucast x) 0x1001 0x1000 3
    \<and> memcpy (\<lambda>x. ucast x) 0x1001 0x1000 3 0x1002 \<noteq> moved (\<lambda>x. ucast x) 0x1001 0x1000 3 0x1002"
proof
  show "memmove (\<lambda>x. ucast x) 0x1001 0x1000 3 = moved (\<lambda>x. ucast x) 0x1001 0x1000 3"
    using memmove_correct [of "0x1000" 3 "0x1001" "\<lambda>x. ucast x"] by simp
  show "memcpy (\<lambda>x. ucast x) 0x1001 0x1000 3 0x1002 \<noteq> moved (\<lambda>x. ucast x) 0x1001 0x1000 3 0x1002"
  proof -
    have u: "unat (3 :: u64) = 3" by simp
    have "copy_forward (\<lambda>x. ucast x) 0x1001 0x1000 3 0x1002 = (0 :: u8)"
      by (simp add: numeral_3_eq_3 Let_def)
    moreover have "moved (\<lambda>x. ucast x) 0x1001 0x1000 3 0x1002 = (1 :: u8)" by (simp add: moved_def)
    ultimately show ?thesis unfolding memcpy_def u by simp
  qed
qed

end
