(* ===== verification/Cstrings.thy ===== *)
theory Cstrings
  imports Libc
begin

text \<open>
  The string and number functions of \<open>kernel/src/main.c\<close>, on NUL-terminated strings in the
  machine memory. A loop that looks for the end of a string returns only if there is one.
  \<open>char\<close> is signed on the target, which \<open>strncmp\<close> depends on.
\<close>

section \<open>The functions\<close>

fun memcmp_loop :: "memory \<Rightarrow> u64 \<Rightarrow> u64 \<Rightarrow> nat \<Rightarrow> int" where
  "memcmp_loop m p1 p2 0 = 0"
| "memcmp_loop m p1 p2 (Suc n) =
     (if m p1 \<noteq> m p2 then if m p1 < m p2 then - 1 else 1 else memcmp_loop m (p1 + 1) (p2 + 1) n)"

definition memcmp :: "memory \<Rightarrow> u64 \<Rightarrow> u64 \<Rightarrow> u64 \<Rightarrow> int" where
  "memcmp m s1 s2 n = memcmp_loop m s1 s2 (unat n)"

partial_function (option) string_end :: "memory \<Rightarrow> u64 \<Rightarrow> u64 option" where
  "string_end m s = (if m s \<noteq> 0 then string_end m (s + 1) else Some s)"

definition strlen :: "memory \<Rightarrow> u64 \<Rightarrow> u64 option" where
  "strlen m str = map_option (\<lambda>s. s - str) (string_end m str)"

fun strnlen_loop :: "memory \<Rightarrow> u64 \<Rightarrow> u64 \<Rightarrow> nat \<Rightarrow> u64" where
  "strnlen_loop m s len 0 = len"
| "strnlen_loop m s len (Suc n) = (if m s = 0 then len else strnlen_loop m (s + 1) (len + 1) n)"

definition strnlen :: "memory \<Rightarrow> u64 \<Rightarrow> u64 \<Rightarrow> u64" where
  "strnlen m s maxlen = strnlen_loop m s 0 (unat maxlen)"

fun strncmp_loop :: "memory \<Rightarrow> u64 \<Rightarrow> u64 \<Rightarrow> nat \<Rightarrow> int" where
  "strncmp_loop m a b 0 = 0"
| "strncmp_loop m a b (Suc n) =
     (let ret = sint (m a) - sint (m b)
      in if ret \<noteq> 0 \<or> m a = 0 \<or> m b = 0 then ret else strncmp_loop m (a + 1) (b + 1) n)"

definition strncmp :: "memory \<Rightarrow> u64 \<Rightarrow> u64 \<Rightarrow> u64 \<Rightarrow> int" where
  "strncmp m a b len = strncmp_loop m a b (unat len)"

partial_function (option) strcmp :: "memory \<Rightarrow> u64 \<Rightarrow> u64 \<Rightarrow> int option" where
  "strcmp m s1 s2 =
     (if m s1 = m s2 then if m s1 = 0 then Some 0 else strcmp m (s1 + 1) (s2 + 1)
      else Some (uint (m s1) - uint (m s2)))"

partial_function (option) strcpy :: "memory \<Rightarrow> u64 \<Rightarrow> u64 \<Rightarrow> memory option" where
  "strcpy m to from =
     (let m' = m(to := m from) in if m' to = 0 then Some m' else strcpy m' (to + 1) (from + 1))"

definition prepend :: "memory \<Rightarrow> u64 \<Rightarrow> u64 \<Rightarrow> memory option" where
  "prepend m s t =
     Option.bind (strlen m t) (\<lambda>len. Option.bind (strlen m s) (\<lambda>slen.
       Some (memcpy (memmove m (s + len) s (slen + 1)) s t len)))"

text \<open>\<open>ilog10\<close> and \<open>ilog16\<close>: \<open>x\<close> counts the divisions until nothing is left.\<close>

function ilog_loop :: "u64 \<Rightarrow> u64 \<Rightarrow> u64 \<Rightarrow> u64" where
  "ilog_loop base x number =
     (if number \<noteq> 0 \<and> 1 < base then ilog_loop base (x + 1) (number div base) else x)"
  by pat_completeness auto
termination
proof (relation "measure (\<lambda>(base, x, number). unat number)", goal_cases)
  case (2 base x number)
  then have "0 < unat number" "1 < unat base" by (auto simp: word_less_nat_alt unat_gt_0)
  then show ?case by (simp add: unat_div)
qed simp

declare ilog_loop.simps [simp del]

definition ilog10 :: "u64 \<Rightarrow> u64" where
  "ilog10 number = (if number = 0 then 0 else ilog_loop 10 0 number - 1)"

definition ilog16 :: "u64 \<Rightarrow> u64" where
  "ilog16 number = (if number = 0 then 0 else ilog_loop 16 0 number - 1)"

definition digits :: "u8 list" where
  "digits = map (\<lambda>c. of_nat (of_char c)) ''0123456789''"

definition digitsh :: "u8 list" where
  "digitsh = map (\<lambda>c. of_nat (of_char c)) ''0123456789ABCDEF''"

text \<open>The common loop: \<open>n\<close> rounds are left, the next digit goes to \<open>buffer[digitcnt - i]\<close>.\<close>

fun itoa_loop :: "u8 list \<Rightarrow> memory \<Rightarrow> u64 \<Rightarrow> u64 \<Rightarrow> u64 \<Rightarrow> u64 \<Rightarrow> nat \<Rightarrow> memory" where
  "itoa_loop ds m buffer digitcnt i number 0 = m"
| "itoa_loop ds m buffer digitcnt i number (Suc n) =
     (let digit = number mod of_nat (length ds)
      in itoa_loop ds (m(buffer + (digitcnt - i) := ds ! unat digit)) buffer digitcnt (i + 1)
           (number div of_nat (length ds)) n)"

definition itoa_with :: "u8 list \<Rightarrow> (u64 \<Rightarrow> u64) \<Rightarrow> memory \<Rightarrow> u64 \<Rightarrow> u64 \<Rightarrow> memory" where
  "itoa_with ds ilog m buffer number =
     (if number = 0 then m(buffer := hd ds, buffer + 1 := 0)
      else let digitcnt = ilog number;
               m' = itoa_loop ds m buffer digitcnt 0 number (unat (digitcnt + 1))
           in m'(buffer + (digitcnt + 1) := 0))"

definition itoa :: "memory \<Rightarrow> u64 \<Rightarrow> u64 \<Rightarrow> memory" where
  "itoa = itoa_with digits ilog10"

definition itoah :: "memory \<Rightarrow> u64 \<Rightarrow> u64 \<Rightarrow> memory" where
  "itoah = itoa_with digitsh ilog16"

text \<open>What the callers print: the string in a cleared buffer of 64 bytes after a conversion.\<close>

definition itoa_text :: "u64 \<Rightarrow> u8 list" where
  "itoa_text number = takeWhile (\<lambda>b. b \<noteq> 0) (map (\<lambda>i. itoa (\<lambda>_. 0) 0 number (of_nat i)) [0..<64])"

definition itoah_text :: "u64 \<Rightarrow> u8 list" where
  "itoah_text number = takeWhile (\<lambda>b. b \<noteq> 0) (map (\<lambda>i. itoah (\<lambda>_. 0) 0 number (of_nat i)) [0..<64])"

section \<open>Strings in memory\<close>

text \<open>The bytes \<open>xs\<close> at \<open>a\<close>, and a string: non-zero bytes with a NUL behind them.\<close>

fun bytes_at :: "memory \<Rightarrow> u64 \<Rightarrow> u8 list \<Rightarrow> bool" where
  "bytes_at m a [] \<longleftrightarrow> True"
| "bytes_at m a (x # xs) \<longleftrightarrow> m a = x \<and> bytes_at m (a + 1) xs"

definition cstring :: "memory \<Rightarrow> u64 \<Rightarrow> u8 list \<Rightarrow> bool" where
  "cstring m a xs \<longleftrightarrow> bytes_at m a (xs @ [0]) \<and> 0 \<notin> set xs"

lemma cstring_simps [simp]:
  "cstring m a [] \<longleftrightarrow> m a = 0"
  "cstring m a (x # xs) \<longleftrightarrow> m a = x \<and> x \<noteq> 0 \<and> cstring m (a + 1) xs"
  by (auto simp: cstring_def)

lemma cstring_unique: "cstring m a xs \<Longrightarrow> cstring m a ys \<Longrightarrow> xs = ys"
proof (induction xs arbitrary: a ys)
  case Nil
  then show ?case by (cases ys) auto
next
  case (Cons x xs)
  then show ?case by (cases ys) auto
qed

lemma string_end_cstring: "cstring m a xs \<Longrightarrow> string_end m a = Some (a + of_nat (length xs))"
proof (induction xs arbitrary: a)
  case Nil
  then show ?case by (subst string_end.simps) simp
next
  case (Cons x xs)
  then show ?case by (subst string_end.simps) (simp add: algebra_simps)
qed

lemma strlen_cstring: "cstring m a xs \<Longrightarrow> strlen m a = Some (of_nat (length xs))"
  by (simp add: strlen_def string_end_cstring)

text \<open>The lexicographic order that \<open>strcmp\<close> decides, on unsigned bytes.\<close>

fun bytes_compare :: "u8 list \<Rightarrow> u8 list \<Rightarrow> int" where
  "bytes_compare [] [] = 0"
| "bytes_compare [] (y # ys) = - uint y"
| "bytes_compare (x # xs) [] = uint x"
| "bytes_compare (x # xs) (y # ys) = (if x = y then bytes_compare xs ys else uint x - uint y)"

lemma strcmp_cstring:
  "cstring m a xs \<Longrightarrow> cstring m b ys \<Longrightarrow> strcmp m a b = Some (bytes_compare xs ys)"
proof (induction xs ys arbitrary: a b rule: bytes_compare.induct)
  case 1
  then show ?case by (subst strcmp.simps) simp
next
  case (2 y ys)
  then show ?case by (subst strcmp.simps) auto
next
  case (3 x xs)
  then show ?case by (subst strcmp.simps) auto
next
  case (4 x xs y ys)
  then show ?case by (subst strcmp.simps) auto
qed

lemma bytes_compare_0: "0 \<notin> set xs \<Longrightarrow> 0 \<notin> set ys \<Longrightarrow> bytes_compare xs ys = 0 \<longleftrightarrow> xs = ys"
  by (induction xs ys rule: bytes_compare.induct) (auto simp: uint_0_iff word_uint_eq_iff [symmetric])

text \<open>\<open>strncmp\<close> of the first \<open>n\<close> bytes is zero exactly if the strings agree that far.\<close>

lemma strncmp_0:
  "cstring m a xs \<Longrightarrow> cstring m b ys \<Longrightarrow> strncmp_loop m a b n = 0 \<longleftrightarrow> take n xs = take n ys"
proof (induction n arbitrary: a b xs ys)
  case 0
  then show ?case by simp
next
  case (Suc n)
  have z: "sint v = 0 \<longleftrightarrow> v = 0" for v :: u8 by (metis signed_0 signed_word_eqI)
  have i: "sint v = sint w \<longleftrightarrow> v = w" for v w :: u8 by (metis signed_word_eqI)
  show ?case
    using Suc.prems Suc.IH [of "a + 1" "tl xs" "b + 1" "tl ys"]
    by (cases xs; cases ys) (auto simp: Let_def z i)
qed

lemma strnlen_cstring:
  "cstring m a xs \<Longrightarrow> strnlen_loop m a len n = len + of_nat (min n (length xs))"
proof (induction n arbitrary: a xs len)
  case (Suc n)
  then show ?case by (cases xs) (auto simp: algebra_simps)
qed simp


section \<open>Numbers in decimal and hexadecimal\<close>

lemma ilog_loop_digits:
  assumes "1 < base"
  shows "\<exists>k. ilog_loop base x number = x + of_nat k \<and> unat number < unat base ^ k
    \<and> (0 < k \<longrightarrow> unat base ^ (k - 1) \<le> unat number)"
  using assms
proof (induction base x number rule: ilog_loop.induct)
  case (1 base x number)
  have b: "1 < unat base" using 1(2) by (simp add: word_less_nat_alt)
  show ?case
  proof (cases "number = 0")
    case True
    then show ?thesis by (intro exI [of _ 0]) (simp add: ilog_loop.simps)
  next
    case False
    then obtain k where k: "ilog_loop base (x + 1) (number div base) = x + 1 + of_nat k"
      "unat number div unat base < unat base ^ k"
      "0 < k \<longrightarrow> unat base ^ (k - 1) \<le> unat number div unat base"
      using 1 by (auto simp: unat_div)
    have "unat number < unat base ^ Suc k"
      using k(2) b by (simp add: div_less_iff_less_mult mult.commute)
    moreover have "unat base ^ k \<le> unat number"
    proof (cases k)
      case 0
      then show ?thesis using False by (simp add: Suc_leI unat_gt_0)
    next
      case (Suc l)
      then have "unat base ^ l * unat base \<le> unat number"
        using k(3) b by (simp add: less_eq_div_iff_mult_less_eq)
      then show ?thesis by (simp add: Suc mult.commute)
    qed
    moreover have "ilog_loop base x number = x + of_nat (Suc k)"
      using k(1) False 1(2) by (subst ilog_loop.simps) (simp add: add.assoc)
    ultimately show ?thesis by (intro exI [of _ "Suc k"]) simp
  qed
qed

text \<open>The digits of \<open>n\<close> to base \<open>b\<close>, \<open>k\<close> of them, the most significant first, and their value.\<close>

definition digit_list :: "nat \<Rightarrow> nat \<Rightarrow> nat \<Rightarrow> nat list" where
  "digit_list b k n = map (\<lambda>j. n div b ^ (k - 1 - j) mod b) [0..<k]"

definition digits_value :: "nat \<Rightarrow> nat list \<Rightarrow> nat" where
  "digits_value b ds = foldl (\<lambda>v d. b * v + d) 0 ds"

lemma digit_list_Suc: "digit_list b (Suc k) n = digit_list b k (n div b) @ [n mod b]"
proof -
  have "n div b ^ (k - j) mod b = n div b div b ^ (k - 1 - j) mod b" if "j < k" for j
  proof -
    have "k - j = Suc (k - 1 - j)" using that by simp
    then show ?thesis by (simp add: div_mult2_eq)
  qed
  then show ?thesis by (simp add: digit_list_def)
qed

lemma digits_value_list: "digits_value b (digit_list b k n) = n mod b ^ k"
proof (induction k arbitrary: n)
  case 0
  then show ?case by (simp add: digit_list_def digits_value_def)
next
  case (Suc k)
  have "digits_value b (digit_list b (Suc k) n) = b * digits_value b (digit_list b k (n div b)) + n mod b"
    by (simp add: digit_list_Suc digits_value_def)
  also have "\<dots> = n mod b ^ Suc k" by (simp add: Suc mod_mult2_eq)
  finally show ?case .
qed

lemma bytes_at_append: "bytes_at m a (xs @ ys) \<longleftrightarrow> bytes_at m a xs \<and> bytes_at m (a + of_nat (length xs)) ys"
  by (induction xs arbitrary: a) (auto simp: algebra_simps)

lemma bytes_at_cong:
  "(\<And>i. i < length xs \<Longrightarrow> m' (a + of_nat i) = m (a + of_nat i)) \<Longrightarrow> bytes_at m a xs \<Longrightarrow> bytes_at m' a xs"
proof (induction xs arbitrary: a)
  case (Cons x xs)
  have "bytes_at m' (a + 1) xs"
  proof (rule Cons.IH)
    fix i assume "i < length xs"
    then show "m' (a + 1 + of_nat i) = m (a + 1 + of_nat i)"
      using Cons.prems(1) [of "Suc i"] by (simp add: algebra_simps)
  qed (use Cons.prems in simp)
  then show ?case using Cons.prems(1) [of 0] Cons.prems(2) by simp
qed simp

lemma itoa_loop_bytes:
  assumes "unat number < b ^ n" and "b = length ds" and "1 < b" and "b < 256" and "n \<le> 64"
    and "0 < n \<Longrightarrow> digitcnt - i = of_nat (n - 1)"
  shows "bytes_at (itoa_loop ds m buffer digitcnt i number n) buffer
      (map ((!) ds) (digit_list b n (unat number)))
    \<and> (\<forall>x. n \<le> unat (x - buffer) \<longrightarrow> itoa_loop ds m buffer digitcnt i number n x = m x)"
  using assms
proof (induction n arbitrary: m i number)
  case 0
  then show ?case by (simp add: digit_list_def)
next
  case (Suc n)
  have bw: "unat (of_nat b :: u64) = b" using Suc.prems(4) by (simp add: unat_of_nat)
  define m' where "m' = m(buffer + (digitcnt - i) := ds ! unat (number mod of_nat b))"
  have e: "itoa_loop ds m buffer digitcnt i number (Suc n)
      = itoa_loop ds m' buffer digitcnt (i + 1) (number div of_nat b) n"
    using Suc.prems(2) by (simp add: m'_def Let_def)
  have u: "unat (number div of_nat b) = unat number div b" "unat (number mod of_nat b) = unat number mod b"
    by (simp_all add: unat_div unat_mod bw)
  have "unat number div b < b ^ n" using Suc.prems(1,3) by (simp add: div_less_iff_less_mult mult.commute)
  then have pre: "unat (number div of_nat b) < b ^ n" by (simp only: u)
  have pd: "digitcnt - (i + 1) = of_nat (n - 1)" if "0 < n"
  proof -
    have "digitcnt - (i + 1) = of_nat n - 1" using Suc.prems(6) by (simp add: algebra_simps)
    then show ?thesis using that by (simp add: of_nat_diff)
  qed
  have n64: "n \<le> 64" using Suc.prems(5) by simp
  note IH' = Suc.IH [OF pre Suc.prems(2,3,4) n64 pd, of m', unfolded u(1)]
  have IH: "bytes_at (itoa_loop ds m' buffer digitcnt (i + 1) (number div of_nat b) n) buffer
      (map ((!) ds) (digit_list b n (unat number div b)))"
    "\<forall>x. n \<le> unat (x - buffer) \<longrightarrow> itoa_loop ds m' buffer digitcnt (i + 1) (number div of_nat b) n x = m' x"
    using IH' by auto
  have at: "digitcnt - i = of_nat n" using Suc.prems(6) by simp
  have un: "unat (of_nat n :: u64) = n" using Suc.prems(5) by (simp add: unat_of_nat)
  have "itoa_loop ds m' buffer digitcnt (i + 1) (number div of_nat b) n (buffer + of_nat n)
      = ds ! (unat number mod b)"
    using IH(2) by (simp add: un m'_def at u)
  moreover have "m' x = m x" if "Suc n \<le> unat (x - buffer)" for x
  proof -
    have "x \<noteq> buffer + of_nat n" using that un by auto
    then show ?thesis by (simp add: m'_def at)
  qed
  ultimately show ?case using IH unfolding e
    by (simp add: digit_list_Suc bytes_at_append) (simp add: digit_list_def)
qed

lemma itoa_with_digits:
  assumes "ds = digits \<and> ilog = ilog10 \<or> ds = digitsh \<and> ilog = ilog16"
  shows "\<exists>k. 0 < k \<and> k \<le> 20 \<and> digits_value (length ds) (digit_list (length ds) k (unat number)) = unat number
    \<and> (1 < k \<longrightarrow> length ds ^ (k - 1) \<le> unat number)
    \<and> cstring (itoa_with ds ilog m buffer number) buffer (map ((!) ds) (digit_list (length ds) k (unat number)))"
proof -
  define b where "b = length ds"
  define base :: u64 where "base = of_nat b"
  have b: "1 < b" "b < 256" "10 \<le> b" and ilog: "ilog number = (if number = 0 then 0 else ilog_loop base 0 number - 1)"
    and z: "\<forall>d < b. ds ! d \<noteq> 0"
  proof -
    have "\<forall>d \<in> set digits. d \<noteq> 0" "\<forall>d \<in> set digitsh. d \<noteq> 0" by (simp_all add: digits_def digitsh_def)
    then show "\<forall>d < b. ds ! d \<noteq> 0" using assms by (auto simp: b_def)
    show "1 < b" "b < 256" "10 \<le> b" using assms by (auto simp: b_def digits_def digitsh_def)
    have "length digits = 10" "length digitsh = 16" by (simp_all add: digits_def digitsh_def)
    then show "ilog number = (if number = 0 then 0 else ilog_loop base 0 number - 1)"
      using assms by (auto simp: base_def b_def ilog10_def ilog16_def)
  qed
  have ub: "unat base = b" using b by (simp add: base_def unat_of_nat)
  show ?thesis
  proof (cases "number = 0")
    case True
    have "ds ! 0 = hd ds" using b(1) by (cases ds) (auto simp: b_def)
    moreover have "ds ! 0 \<noteq> 0" using z b(1) by auto
    ultimately show ?thesis using True b
      by (intro exI [of _ 1]) (simp add: itoa_with_def digit_list_def digits_value_def b_def)
  next
    case False
    obtain k where k: "ilog_loop base 0 number = of_nat k" "unat number < b ^ k"
      "0 < k \<longrightarrow> b ^ (k - 1) \<le> unat number"
      using ilog_loop_digits [of base 0 number] b ub by (auto simp: word_less_nat_alt)
    have k0: "0 < k" using k(2) False by (cases k) (auto simp: unat_eq_0 simp flip: word_unat_eq_iff)
    have k20: "k \<le> 20"
    proof (rule ccontr)
      assume "\<not> k \<le> 20"
      then have "(10::nat) ^ 20 \<le> 10 ^ (k - 1)" by (intro power_increasing) auto
      also have "\<dots> \<le> b ^ (k - 1)" using b(3) by (intro power_mono) auto
      also have "\<dots> \<le> unat number" using k(3) k0 by simp
      finally show False using unat_u64_less [of number] by simp
    qed
    have d: "ilog number = of_nat (k - 1)" using k(1) k0 False by (simp add: ilog of_nat_diff)
    have d1: "ilog number + 1 = of_nat k" using d k0 by (simp add: of_nat_diff)
    have uk: "unat (of_nat k :: u64) = k" using k20 by (simp add: unat_of_nat)
    define m' where "m' = itoa_loop ds m buffer (of_nat (k - 1)) 0 number k"
    have lp: "bytes_at m' buffer (map ((!) ds) (digit_list b k (unat number)))"
      unfolding m'_def using itoa_loop_bytes [OF k(2) b_def b(1,2), of "of_nat (k - 1)" 0 m buffer] k20 by simp
    define r where "r = m'(buffer + of_nat k := 0)"
    have r: "itoa_with ds ilog m buffer number = r"
      unfolding itoa_with_def r_def m'_def using False uk d d1 by (simp add: Let_def)
    have l: "length (digit_list b k (unat number)) = k" by (simp add: digit_list_def)
    have "bytes_at r buffer (map ((!) ds) (digit_list b k (unat number)))"
    proof (rule bytes_at_cong [OF _ lp])
      fix i assume "i < length (map ((!) ds) (digit_list b k (unat number)))"
      then have "i < k" by (simp add: l)
      then have "(of_nat i :: u64) \<noteq> of_nat k" using k20 by (simp add: word_unat_eq_iff unat_of_nat)
      then show "r (buffer + of_nat i) = m' (buffer + of_nat i)" by (simp add: r_def)
    qed
    then have "bytes_at r buffer (map ((!) ds) (digit_list b k (unat number)) @ [0])"
      by (simp add: bytes_at_append l) (simp add: r_def)
    moreover have "0 \<notin> set (map ((!) ds) (digit_list b k (unat number)))"
      using z b(1) by (auto simp: digit_list_def)
    ultimately have "cstring r buffer (map ((!) ds) (digit_list b k (unat number)))" by (simp add: cstring_def)
    moreover have "digits_value b (digit_list b k (unat number)) = unat number"
      using k(2) by (simp add: digits_value_list)
    ultimately show ?thesis using k0 k20 k(3) r unfolding b_def by blast
  qed
qed

section \<open>What callers rely on\<close>

lemma number_strings_correct_parts:
  "\<exists>ds. ds \<noteq> [] \<and> length ds \<le> 20 \<and> digits_value 10 ds = unat number \<and> (\<forall>d \<in> set ds. d < 10)
     \<and> (1 < length ds \<longrightarrow> 10 ^ (length ds - 1) \<le> unat number)
     \<and> cstring (itoa m buffer number) buffer (map ((!) digits) ds)"
  "\<exists>ds. ds \<noteq> [] \<and> length ds \<le> 20 \<and> digits_value 16 ds = unat number \<and> (\<forall>d \<in> set ds. d < 16)
     \<and> (1 < length ds \<longrightarrow> 16 ^ (length ds - 1) \<le> unat number)
     \<and> cstring (itoah m buffer number) buffer (map ((!) digitsh) ds)"
proof -
  have l: "length digits = 10" "length digitsh = 16" by (simp_all add: digits_def digitsh_def)
  have d: "length (digit_list b k n) = k" "1 < b \<Longrightarrow> \<forall>x \<in> set (digit_list b k n). x < b" for b k n
    by (auto simp: digit_list_def)
  obtain k where k: "0 < k" "k \<le> 20" "digits_value 10 (digit_list 10 k (unat number)) = unat number"
    "1 < k \<longrightarrow> 10 ^ (k - 1) \<le> unat number"
    "cstring (itoa m buffer number) buffer (map ((!) digits) (digit_list 10 k (unat number)))"
    using itoa_with_digits [of digits ilog10 number m buffer] unfolding l itoa_def by blast
  show "\<exists>ds. ds \<noteq> [] \<and> length ds \<le> 20 \<and> digits_value 10 ds = unat number \<and> (\<forall>d \<in> set ds. d < 10)
     \<and> (1 < length ds \<longrightarrow> 10 ^ (length ds - 1) \<le> unat number)
     \<and> cstring (itoa m buffer number) buffer (map ((!) digits) ds)"
  proof (intro exI conjI)
    show "digit_list 10 k (unat number) \<noteq> []" using k(1) d(1) [of 10 k "unat number"] by auto
    show "\<forall>d \<in> set (digit_list 10 k (unat number)). d < 10" by (rule d(2)) simp
  qed (use k(2-5) in \<open>simp_all only: d(1)\<close>)
  obtain k where k: "0 < k" "k \<le> 20" "digits_value 16 (digit_list 16 k (unat number)) = unat number"
    "1 < k \<longrightarrow> 16 ^ (k - 1) \<le> unat number"
    "cstring (itoah m buffer number) buffer (map ((!) digitsh) (digit_list 16 k (unat number)))"
    using itoa_with_digits [of digitsh ilog16 number m buffer] unfolding l itoah_def by blast
  show "\<exists>ds. ds \<noteq> [] \<and> length ds \<le> 20 \<and> digits_value 16 ds = unat number \<and> (\<forall>d \<in> set ds. d < 16)
     \<and> (1 < length ds \<longrightarrow> 16 ^ (length ds - 1) \<le> unat number)
     \<and> cstring (itoah m buffer number) buffer (map ((!) digitsh) ds)"
  proof (intro exI conjI)
    show "digit_list 16 k (unat number) \<noteq> []" using k(1) d(1) [of 16 k "unat number"] by auto
    show "\<forall>d \<in> set (digit_list 16 k (unat number)). d < 16" by (rule d(2)) simp
  qed (use k(2-5) in \<open>simp_all only: d(1)\<close>)
qed

text \<open>
  C24. \<open>itoa\<close> and \<open>itoah\<close> leave a C string of at most twenty digits whose value to base 10 or 16 is the
  number, for every 64-bit number, without leading zeros.
\<close>

theorem number_strings_correct:
  "(\<exists>ds. ds \<noteq> [] \<and> length ds \<le> 20 \<and> digits_value 10 ds = unat number \<and> (\<forall>d \<in> set ds. d < 10)
     \<and> (1 < length ds \<longrightarrow> 10 ^ (length ds - 1) \<le> unat number)
     \<and> cstring (itoa m buffer number) buffer (map ((!) digits) ds))
   \<and> (\<exists>ds. ds \<noteq> [] \<and> length ds \<le> 20 \<and> digits_value 16 ds = unat number \<and> (\<forall>d \<in> set ds. d < 16)
     \<and> (1 < length ds \<longrightarrow> 16 ^ (length ds - 1) \<le> unat number)
     \<and> cstring (itoah m buffer number) buffer (map ((!) digitsh) ds))"
  by (intro conjI number_strings_correct_parts)

theorem number_strings_correct_instance:
  "cstring (itoa (\<lambda>_. 0) 0x1000 42) 0x1000 [52, 50] \<and> cstring (itoah (\<lambda>_. 0) 0x1000 42) 0x1000 [50, 65]"
proof -
  have two: "\<exists>x y. ds = [x, y]" if "length ds = 2" for ds :: "nat list" using that by (auto simp: length_Suc_conv numeral_2_eq_2)
  have len: "length ds = 2" if "b \<in> {10, 16}" "ds \<noteq> []" "digits_value b ds = 42" "\<forall>d \<in> set ds. d < b"
      "1 < length ds \<longrightarrow> b ^ (length ds - 1) \<le> 42" for b :: nat and ds
  proof (rule ccontr)
    assume "length ds \<noteq> 2"
    moreover have "length ds \<noteq> 1" using that(1,3,4) by (auto simp: length_Suc_conv digits_value_def)
    ultimately have "2 \<le> length ds - 1" using that(2) by (cases "length ds") auto
    then have "b ^ 2 \<le> b ^ (length ds - 1)" using that(1) by (intro power_increasing) auto
    then show False using that(1,5) \<open>2 \<le> length ds - 1\<close> by auto
  qed
  note T = number_strings_correct [of "42 :: u64" "\<lambda>_. 0" "0x1000"]
  from T obtain ds where ds: "ds \<noteq> []" "digits_value 10 ds = 42" "\<forall>d \<in> set ds. d < 10"
    "1 < length ds \<longrightarrow> 10 ^ (length ds - 1) \<le> (42 :: nat)" "cstring (itoa (\<lambda>_. 0) 0x1000 42) 0x1000 (map ((!) digits) ds)" by auto
  from T obtain hs where hs: "hs \<noteq> []" "digits_value 16 hs = 42" "\<forall>d \<in> set hs. d < 16"
    "1 < length hs \<longrightarrow> 16 ^ (length hs - 1) \<le> (42 :: nat)" "cstring (itoah (\<lambda>_. 0) 0x1000 42) 0x1000 (map ((!) digitsh) hs)" by auto
  obtain x y where xy: "ds = [x, y]" using two [OF len [of 10 ds]] ds by blast
  then have "10 * x + y = 42" "y < 10" using ds(2,3) by (simp_all add: digits_value_def)
  then have "x = 4" "y = 2" by presburger+
  moreover obtain u v where uv: "hs = [u, v]" using two [OF len [of 16 hs]] hs by blast
  then have "16 * u + v = 42" "v < 16" using hs(2,3) by (simp_all add: digits_value_def)
  then have "u = 2" "v = 10" by presburger+
  ultimately show ?thesis using ds(5) hs(5) by (simp add: xy uv digits_def digitsh_def of_char_def)
qed

lemma bytes_compare_less: "0 \<notin> set xs \<Longrightarrow> 0 \<notin> set ys \<Longrightarrow> bytes_compare xs ys < 0 \<longleftrightarrow> ord_class.lexordp xs ys"
proof (induction xs ys rule: bytes_compare.induct)
  case (2 y ys)
  have "0 < uint y" using 2 by (metis list.set_intros(1) order_le_less uint_0_iff uint_ge_0)
  then show ?case by simp
next
  case (4 x xs y ys)
  then show ?case by (auto simp: word_less_def word_uint_eq_iff)
qed auto

text \<open>
  \<open>strcmp\<close> on two C strings always returns; the sign of the result orders the strings
  lexicographically by unsigned bytes, and it is zero exactly for equal strings, which is what
  looking up a name in a directory relies on.
\<close>

lemma strcmp_correct:
  assumes "cstring m a xs" and "cstring m b ys"
  shows "\<exists>r. strcmp m a b = Some r \<and> (r = 0 \<longleftrightarrow> xs = ys) \<and> (r < 0 \<longleftrightarrow> ord_class.lexordp xs ys)"
  using assms strcmp_cstring bytes_compare_0 bytes_compare_less by (auto simp: cstring_def)

lemma strcmp_correct_instance:
  "\<exists>r. strcmp ((\<lambda>_. 0)(1 := 97, 2 := 98, 8 := 97)) 1 8 = Some r \<and> 0 < r"
  using strcmp_correct [of "(\<lambda>_. 0)(1 := 97, 2 := 98, 8 := 97)" 1 "[97, 98]" 8 "[97]"]
  by (auto simp: not_less)

text \<open>Copying a string to a place that it does not overlap.\<close>

lemma strcpy_copies:
  assumes "cstring m src xs" and "\<And>i j. i \<le> length xs \<Longrightarrow> j \<le> length xs \<Longrightarrow> dst + of_nat i \<noteq> src + of_nat j"
    and "length xs < 2 ^ 64"
  shows "\<exists>m'. strcpy m dst src = Some m' \<and> cstring m' dst xs
    \<and> (\<forall>w. length xs < unat (w - dst) \<longrightarrow> m' w = m w)"
  using assms
proof (induction xs arbitrary: m dst src)
  case Nil
  have "\<And>w. 0 < unat (w - dst) \<Longrightarrow> w \<noteq> dst" by auto
  then show ?case using Nil.prems(1) by (subst strcpy.simps) (auto simp: Let_def)
next
  case (Cons x xs)
  define m1 where "m1 = m(dst := m src)"
  have c1: "cstring m1 (src + 1) xs"
  proof -
    have "m1 (src + 1 + of_nat i) = m (src + 1 + of_nat i)" if "i < length (xs @ [0])" for i
      using Cons.prems(2) [of 0 "Suc i"] that by (auto simp: m1_def add.assoc)
    then show ?thesis using Cons.prems(1) bytes_at_cong [of "xs @ [0]" m1 "src + 1" m]
      by (auto simp: cstring_def)
  qed
  have d: "dst + 1 + of_nat i \<noteq> src + 1 + of_nat j" if "i \<le> length xs" "j \<le> length xs" for i j
    using Cons.prems(2) [of i j] that by simp
  obtain m' where m': "strcpy m1 (dst + 1) (src + 1) = Some m'" "cstring m' (dst + 1) xs"
    "\<forall>w. length xs < unat (w - (dst + 1)) \<longrightarrow> m' w = m1 w"
    using Cons.IH [OF c1 d] Cons.prems(3) by auto
  have u: "unat (dst - (dst + 1)) = 2 ^ 64 - 1"
  proof -
    have "dst - (dst + 1) = (0xFFFFFFFFFFFFFFFF :: u64)" by simp
    then show ?thesis by (simp only:) simp
  qed
  have far: "length xs < unat (w - (dst + 1)) \<and> w \<noteq> dst" if "Suc (length xs) < unat (w - dst)" for w
  proof -
    have "w - dst \<noteq> 0" using that by auto
    then have "unat (w - dst - 1) = unat (w - dst) - 1" by (rule unat_minus_one)
    then show ?thesis using that by (auto simp: algebra_simps)
  qed
  have "m' dst = m1 dst" using m'(3) u Cons.prems(3) by (metis length_Cons less_diff_conv Suc_eq_plus1)
  then have "cstring m' dst (x # xs)" using m'(2) Cons.prems(1) by (auto simp: m1_def)
  moreover have "strcpy m dst src = Some m'"
    using m'(1) Cons.prems(1) by (subst strcpy.simps) (simp add: Let_def m1_def)
  moreover have "m' w = m w" if "length (x # xs) < unat (w - dst)" for w
    using far [of w] that m'(3) by (simp add: m1_def)
  ultimately show ?case by blast
qed

end
