(* ===== verification/Name_Space.thy ===== *)
theory Name_Space
  imports Prelude
begin

text \<open>
  The contract between the virtual file system and a mounted file system: \<open>struct vnodeops\<close> of
  \<open>kernel/src/fs/vfs.h\<close>. A provider has vnodes, some of which are directories, a lookup and a way to
  add a named vnode to a directory. What path resolution relies on is proved once here.
\<close>

text \<open>Following a list of names with a lookup function: the specification of path resolution.\<close>

fun descend :: "(nat \<Rightarrow> string \<Rightarrow> nat option) \<Rightarrow> nat \<Rightarrow> string list \<Rightarrow> nat option" where
  "descend lk cur [] = Some cur"
| "descend lk cur (c # cs) = (case lk cur c of None \<Rightarrow> None | Some r \<Rightarrow> descend lk r cs)"

lemma descend_append:
  "descend lk cur (xs @ ys) = (case descend lk cur xs of None \<Rightarrow> None | Some r \<Rightarrow> descend lk r ys)"
  by (induction xs arbitrary: cur) (auto split: option.splits)

lemma descend_cong:
  "(\<And>u n. lk u n = lk' u n) \<Longrightarrow> descend lk cur cs = descend lk' cur cs"
  by (induction cs arbitrary: cur) (auto split: option.splits)

locale name_space =
  fixes inv :: "'s \<Rightarrow> bool"
    and node :: "'s \<Rightarrow> nat \<Rightarrow> bool"
    and dir :: "'s \<Rightarrow> nat \<Rightarrow> bool"
    and lookup :: "'s \<Rightarrow> nat \<Rightarrow> string \<Rightarrow> (int \<times> nat option) res"
    and mk :: "'s \<Rightarrow> nat \<Rightarrow> string \<Rightarrow> (int \<times> nat option \<times> 's) res"
    and child :: "'s \<Rightarrow> nat \<Rightarrow> string \<Rightarrow> nat option"
  assumes lookup_law: "inv s \<Longrightarrow> node s v \<Longrightarrow> \<exists>r. lookup s v n = Inr (r, child s v n)"
    and child_law: "inv s \<Longrightarrow> child s v n = Some w \<Longrightarrow> node s w \<and> v < w"
    and mk_law: "inv s \<Longrightarrow> dir s v \<Longrightarrow> \<exists>w s'. mk s v n = Inr (0, Some w, s') \<and> inv s'
      \<and> \<not> node s w \<and> node s' w \<and> (\<forall>u. node s u \<longrightarrow> node s' u \<and> dir s' u = dir s u)
      \<and> (\<forall>u m. node s u \<longrightarrow> child s' u m = (if u = v \<and> m = n then Some w else child s u m))"
begin

text \<open>Directories form a tree: a walk never comes back, so it does not see an entry added at its end.\<close>

lemma descend_later:
  "inv s \<Longrightarrow> descend (child s) u cs = Some v \<Longrightarrow> cs \<noteq> [] \<Longrightarrow> u < v"
proof (induction cs arbitrary: u)
  case (Cons c cs)
  then obtain r where r: "child s u c = Some r" "descend (child s) r cs = Some v"
    by (auto split: option.splits)
  then have "u < r" using child_law Cons.prems(1) by blast
  then show ?case using Cons.IH [OF Cons.prems(1) r(2)] r by (cases "cs = []") auto
qed simp

lemma descend_node:
  "inv s \<Longrightarrow> node s u \<Longrightarrow> descend (child s) u cs = Some v \<Longrightarrow> node s v"
proof (induction cs arbitrary: u)
  case (Cons c cs)
  then obtain r where r: "child s u c = Some r" "descend (child s) r cs = Some v"
    by (auto split: option.splits)
  then show ?case using Cons.IH [OF Cons.prems(1) _ r(2)] child_law [OF Cons.prems(1) r(1)] by blast
qed simp

text \<open>A path that resolves does not change its meaning when a fresh name is added somewhere.\<close>

lemma descend_frame:
  assumes "inv s" and "node s u" and "descend (child s) u cs = Some x"
    and "mk s v n = Inr (0, Some w, s')" and "dir s v" and "child s v n = None"
  shows "descend (child s') u cs = Some x"
  using assms(2,3)
proof (induction cs arbitrary: u)
  case (Cons c cs)
  then obtain r where r: "child s u c = Some r" "descend (child s) r cs = Some x"
    by (auto split: option.splits)
  have "child s' u c = child s u c" using mk_law [OF assms(1,5), of n] assms(4,6) Cons.prems(1) r(1) by auto
  moreover have "node s r" using child_law assms(1) r(1) by blast
  ultimately show ?case using Cons.IH r by simp
qed simp

text \<open>A path to a directory still leads there when an entry is added to that directory.\<close>

lemma descend_to_parent:
  assumes "inv s" and "node s u" and "descend (child s) u cs = Some v"
    and "mk s v n = Inr (0, Some w, s')" and "dir s v"
  shows "descend (child s') u cs = Some v"
  using assms(2,3)
proof (induction cs arbitrary: u)
  case (Cons c cs)
  then obtain r where r: "child s u c = Some r" "descend (child s) r cs = Some v"
    by (auto split: option.splits)
  have "u < v" using descend_later [OF assms(1) Cons.prems(2)] by simp
  then have "child s' u c = child s u c" using mk_law [OF assms(1,5), of n] assms(4) Cons.prems(1) by auto
  moreover have "node s r" using child_law assms(1) r(1) by blast
  ultimately show ?case using Cons.IH r by simp
qed simp

text \<open>After a creation, the path extended by the new name leads to the new vnode.\<close>

lemma descend_created:
  assumes "inv s" and "node s u" and "descend (child s) u cs = Some v"
    and "mk s v n = Inr (0, Some w, s')" and "dir s v"
  shows "descend (child s') u (cs @ [n]) = Some w"
proof -
  have "node s v" using descend_node assms(1,2,3) by blast
  then have "child s' v n = Some w" using mk_law [OF assms(1,5), of n] assms(4) by auto
  then show ?thesis using descend_to_parent [OF assms] by (simp add: descend_append)
qed

end

end
