(* ===== verification/Tmpfs.thy ===== *)
theory Tmpfs
  imports Name_Space
begin

text \<open>
  The in-memory file system \<open>kernel/src/fs/tmpfs.c\<close>. Vnodes, directories and files are heap
  objects that are never freed, so the heap is abstracted to a store of vnodes named by numbers;
  running out of memory, which halts the machine inside \<open>kmalloc\<close>, is left to the theory of the
  allocator. Names are C strings, given by their characters without the final NUL, so that
  \<open>strcmp(a, b) == 0\<close> is equality (\<open>bytes_compare_0\<close> in the theory of the string functions).
\<close>

section \<open>The state\<close>

datatype vnode_type = NYAVNODE_DIR | NYAVNODE_FILE | NYAVNODE_SYMLINK

record tmpfs_dir_entry =
  de_name :: string
  ptr_to_vnode :: nat

text \<open>
  What \<open>data\<close> of a vnode points to: the entry list of a \<open>struct tmpfs_dir\<close>, or the contents of a
  \<open>struct tmpfs_node\<close>, whose \<open>size\<close> is the length of the byte list.
\<close>

datatype vnode_data = Tmpfs_dir "tmpfs_dir_entry list" | Tmpfs_node "u8 list"

record vnode =
  vtype :: vnode_type
  vdata :: vnode_data

text \<open>
  \<open>buffer_at v n\<close> is the address of the buffer of \<open>n\<close> bytes that \<open>kmalloc\<close> gave for the file \<open>v\<close>.
  A file gets a new buffer only when it grows, so this names every buffer; reading compares
  pointers into it, which may wrap around.
\<close>

record fs_state =
  vnodes :: "nat \<Rightarrow> vnode option"
  next_vnode :: nat
  buffer_at :: "nat \<Rightarrow> nat \<Rightarrow> u64"

section \<open>The operations\<close>

text \<open>
  \<open>vnode_lookup\<close>: the return value and \<open>*res\<close>, which the callers initialise to NULL. A vnode
  whose data is not of its type's kind would be read as something else.
\<close>

primrec dir_search :: "tmpfs_dir_entry list \<Rightarrow> string \<Rightarrow> int \<times> nat option" where
  "dir_search [] part = (- 1, None)"
| "dir_search (ok # next) part =
     (if de_name ok = part then (0, Some (ptr_to_vnode ok)) else dir_search next part)"

definition vnode_lookup :: "fs_state \<Rightarrow> nat \<Rightarrow> string \<Rightarrow> (int \<times> nat option) res" where
  "vnode_lookup fs v part =
     (case vnodes fs v of
        None \<Rightarrow> Inl Undefined
      | Some vn \<Rightarrow>
          if vtype vn = NYAVNODE_DIR then
            case vdata vn of
              Tmpfs_dir es \<Rightarrow> Inr (dir_search es part)
            | Tmpfs_node _ \<Rightarrow> Inl Undefined
          else Inr (- 1, None))"

text \<open>The common part of \<open>vnode_mkdir\<close> and \<open>vnode_create\<close>: a new vnode, linked in front.\<close>

definition add_vnode :: "fs_state \<Rightarrow> nat \<Rightarrow> string \<Rightarrow> vnode \<Rightarrow> (int \<times> nat option \<times> fs_state) res" where
  "add_vnode fs v name new =
     (case vnodes fs v of
        None \<Rightarrow> Inl Undefined
      | Some vn \<Rightarrow>
          if vtype vn = NYAVNODE_DIR then
            case vdata vn of
              Tmpfs_node _ \<Rightarrow> Inl Undefined
            | Tmpfs_dir es \<Rightarrow>
                let n = next_vnode fs;
                    entry = \<lparr>de_name = name, ptr_to_vnode = n\<rparr>;
                    dir = vn\<lparr>vdata := Tmpfs_dir (entry # es)\<rparr>
                in Inr (0, Some n, fs\<lparr>vnodes := (vnodes fs)(n \<mapsto> new, v \<mapsto> dir), next_vnode := n + 1\<rparr>)
          else Inr (- 1, None, fs))"

definition vnode_mkdir :: "fs_state \<Rightarrow> nat \<Rightarrow> string \<Rightarrow> (int \<times> nat option \<times> fs_state) res" where
  "vnode_mkdir fs v name = add_vnode fs v name \<lparr>vtype = NYAVNODE_DIR, vdata = Tmpfs_dir []\<rparr>"

definition vnode_create :: "fs_state \<Rightarrow> nat \<Rightarrow> string \<Rightarrow> (int \<times> nat option \<times> fs_state) res" where
  "vnode_create fs v name = add_vnode fs v name \<lparr>vtype = NYAVNODE_FILE, vdata = Tmpfs_node []\<rparr>"

text \<open>A \<open>ptrdiff_t\<close> returned as \<open>int\<close>.\<close>

definition int_of_size :: "nat \<Rightarrow> int" where
  "int_of_size n = sint (of_nat n :: u32)"

text \<open>
  The read branch: \<open>memcpy\<close> of what lies between two pointers, cut at the end of the buffer \<open>p\<close>. The
  pointer arithmetic is that of 64-bit addresses. Bytes outside the buffer are not the file's.
\<close>

definition file_read :: "u64 \<Rightarrow> u8 list \<Rightarrow> u64 \<Rightarrow> u64 \<Rightarrow> (int \<times> u8 list) res" where
  "file_read p data size_of_buf offset =
     (if length data = 0 then Inr (- 1, [])
      else let start = p + offset;
               fin = start + size_of_buf;
               fin' = (if fin > p + of_nat (length data) then p + of_nat (length data) else fin);
               start' = (if start > fin' then fin' else start);
               count = unat (fin' - start');
               from_p = unat (start' - p)
           in if count = 0 then Inr (0, [])
              else if from_p + count \<le> length data then Inr (int_of_size count, take count (drop from_p data))
              else Inl Undefined)"

text \<open>
  The write branch. The new size is computed in 64 bits. A first write clears the new buffer; a
  growing write copies the old contents and leaves the rest of the new buffer as \<open>kmalloc\<close> gave
  it, \<open>fresh\<close>. A copy past the end of the buffer is undefined.
\<close>

definition file_write :: "(nat \<Rightarrow> u8) \<Rightarrow> u8 list \<Rightarrow> u8 list \<Rightarrow> u64 \<Rightarrow> u64 \<Rightarrow> u8 list res" where
  "file_write fresh data buf size_of_buf offset =
     (let total = size_of_buf + offset;
          data' = (if length data = 0 then replicate (unat total) 0
                   else if unat total > length data then data @ map fresh [length data..<unat total]
                   else data)
      in if unat offset + unat size_of_buf \<le> length data' then
           Inr (take (unat offset) data' @ take (unat size_of_buf) buf
                @ drop (unat offset + unat size_of_buf) data')
         else Inl Undefined)"

definition vnode_rdwr ::
  "(nat \<Rightarrow> u8) \<Rightarrow> fs_state \<Rightarrow> nat \<Rightarrow> u64 \<Rightarrow> u64 \<Rightarrow> u8 list \<Rightarrow> int \<Rightarrow> (int \<times> u8 list \<times> fs_state) res" where
  "vnode_rdwr fresh fs v size_of_buf offset buf rw =
     (case vnodes fs v of
        None \<Rightarrow> Inl Undefined
      | Some vn \<Rightarrow>
          if vtype vn = NYAVNODE_FILE then
            case vdata vn of
              Tmpfs_dir _ \<Rightarrow> Inl Undefined
            | Tmpfs_node data \<Rightarrow>
                if rw = 0 then
                  andthen (file_read (buffer_at fs v (length data)) data size_of_buf offset)
                    (\<lambda>(n, bytes). Inr (n, bytes, fs))
                else
                  andthen (file_write fresh data buf size_of_buf offset) (\<lambda>data'.
                    Inr (0, [], fs\<lparr>vnodes := (vnodes fs)(v \<mapsto> vn\<lparr>vdata := Tmpfs_node data'\<rparr>)\<rparr>))
          else Inr (- 1, [], fs))"

definition vnode_filesz :: "fs_state \<Rightarrow> nat \<Rightarrow> u64 res" where
  "vnode_filesz fs v =
     (case vnodes fs v of
        None \<Rightarrow> Inl Undefined
      | Some vn \<Rightarrow> (case vdata vn of Tmpfs_node data \<Rightarrow> Inr (of_nat (length data)) | Tmpfs_dir _ \<Rightarrow> Inl Undefined))"

section \<open>The invariant\<close>

text \<open>
  Every entry points to a vnode that exists, data is of the kind of its type, and numbers from
  \<open>next_vnode\<close> on are unused. Entries point to later vnodes, so the directories form a tree.
\<close>

definition kind_ok :: "vnode \<Rightarrow> bool" where
  "kind_ok vn \<longleftrightarrow> (vtype vn = NYAVNODE_DIR \<longleftrightarrow> (\<exists>es. vdata vn = Tmpfs_dir es))"

definition fs_ok :: "fs_state \<Rightarrow> bool" where
  "fs_ok fs \<longleftrightarrow>
     (\<forall>v vn. vnodes fs v = Some vn \<longrightarrow> v < next_vnode fs \<and> kind_ok vn
        \<and> (\<forall>es. vdata vn = Tmpfs_dir es \<longrightarrow>
             (\<forall>e \<in> set es. v < ptr_to_vnode e \<and> vnodes fs (ptr_to_vnode e) \<noteq> None)))"

definition is_dir :: "fs_state \<Rightarrow> nat \<Rightarrow> bool" where
  "is_dir fs v \<longleftrightarrow> (\<exists>vn. vnodes fs v = Some vn \<and> vtype vn = NYAVNODE_DIR)"

text \<open>The abstract view: the name space as a partial function from a directory and a name.\<close>

definition child :: "fs_state \<Rightarrow> nat \<Rightarrow> string \<Rightarrow> nat option" where
  "child fs v name =
     (case vnodes fs v of
        Some vn \<Rightarrow> (case vdata vn of Tmpfs_dir es \<Rightarrow> snd (dir_search es name) | Tmpfs_node _ \<Rightarrow> None)
      | None \<Rightarrow> None)"

lemma dir_search_eq:
  "dir_search es part = (case find (\<lambda>e. de_name e = part) es of
     Some e \<Rightarrow> (0, Some (ptr_to_vnode e)) | None \<Rightarrow> (- 1, None))"
  by (induction es) auto

lemma dir_search_in: "snd (dir_search es part) = Some w \<Longrightarrow> \<exists>e \<in> set es. de_name e = part \<and> ptr_to_vnode e = w"
  by (induction es) (auto split: if_splits)

lemma vnode_lookup_child:
  assumes "fs_ok fs" and "vnodes fs v \<noteq> None"
  shows "vnode_lookup fs v part = Inr (if child fs v part = None then - 1 else 0, child fs v part)"
proof -
  obtain vn where vn: "vnodes fs v = Some vn" using assms(2) by auto
  then have "kind_ok vn" using assms(1) by (simp add: fs_ok_def)
  then show ?thesis using vn
    by (cases "vdata vn") (auto simp: vnode_lookup_def child_def kind_ok_def dir_search_eq split: option.splits)
qed

lemma child_ok:
  assumes "fs_ok fs" and "child fs v name = Some w"
  shows "vnodes fs w \<noteq> None" and "v < w" and "is_dir fs v"
proof -
  obtain vn es where vn: "vnodes fs v = Some vn" "vdata vn = Tmpfs_dir es" "snd (dir_search es name) = Some w"
    using assms(2) by (auto simp: child_def split: option.splits vnode_data.splits)
  then obtain e where "e \<in> set es" "ptr_to_vnode e = w" using dir_search_in by blast
  then show "vnodes fs w \<noteq> None" "v < w" using assms(1) vn by (auto simp: fs_ok_def)
  show "is_dir fs v" using assms(1) vn by (auto simp: fs_ok_def kind_ok_def is_dir_def)
qed

lemma add_vnode_ok:
  assumes ok: "fs_ok fs" and d: "is_dir fs v" and new: "kind_ok new" "\<forall>es. vdata new = Tmpfs_dir es \<longrightarrow> es = []"
  shows "\<exists>fs'. add_vnode fs v name new = Inr (0, Some (next_vnode fs), fs') \<and> fs_ok fs'
    \<and> vnodes fs' (next_vnode fs) = Some new
    \<and> (\<forall>u. u \<noteq> next_vnode fs \<longrightarrow> is_dir fs' u = is_dir fs u)
    \<and> (\<forall>u n. u \<noteq> next_vnode fs \<longrightarrow>
         child fs' u n = (if u = v \<and> n = name then Some (next_vnode fs) else child fs u n))
    \<and> (\<forall>u. u \<noteq> next_vnode fs \<longrightarrow> u \<noteq> v \<longrightarrow> vnodes fs' u = vnodes fs u)"
proof -
  obtain vn es where vn: "vnodes fs v = Some vn" "vtype vn = NYAVNODE_DIR" "vdata vn = Tmpfs_dir es"
    using d ok by (auto simp: is_dir_def fs_ok_def kind_ok_def)
  define n where "n = next_vnode fs"
  define dir where "dir = vn\<lparr>vdata := Tmpfs_dir (\<lparr>de_name = name, ptr_to_vnode = n\<rparr> # es)\<rparr>"
  define fs' where "fs' = fs\<lparr>vnodes := (vnodes fs)(n \<mapsto> new, v \<mapsto> dir), next_vnode := n + 1\<rparr>"
  have run: "add_vnode fs v name new = Inr (0, Some n, fs')"
    using vn by (simp add: add_vnode_def fs'_def dir_def n_def Let_def)
  have vn': "v < n" using ok vn(1) by (simp add: fs_ok_def n_def)
  have "fs_ok fs'"
    unfolding fs_ok_def
  proof (intro allI impI)
    fix u un assume u: "vnodes fs' u = Some un"
    have old: "vnodes fs w \<noteq> None \<Longrightarrow> vnodes fs' w \<noteq> None" for w by (simp add: fs'_def)
    consider "u = v" | "u = n" "u \<noteq> v" | "u \<noteq> v" "u \<noteq> n" by blast
    then show "u < next_vnode fs' \<and> kind_ok un \<and> (\<forall>es. vdata un = Tmpfs_dir es \<longrightarrow>
             (\<forall>e \<in> set es. u < ptr_to_vnode e \<and> vnodes fs' (ptr_to_vnode e) \<noteq> None))"
    proof cases
      case 1
      then have "un = dir" using u by (simp add: fs'_def)
      moreover have "\<forall>e \<in> set es. v < ptr_to_vnode e \<and> vnodes fs' (ptr_to_vnode e) \<noteq> None"
        using ok vn(1,3) old by (auto simp: fs_ok_def)
      ultimately show ?thesis using 1 vn' vn(2) by (auto simp: dir_def kind_ok_def fs'_def)
    next
      case 2
      then show ?thesis using u new by (auto simp: fs'_def)
    next
      case 3
      then have "vnodes fs u = Some un" using u by (simp add: fs'_def)
      then have "u < n" "kind_ok un" "\<forall>es. vdata un = Tmpfs_dir es \<longrightarrow>
          (\<forall>e \<in> set es. u < ptr_to_vnode e \<and> vnodes fs (ptr_to_vnode e) \<noteq> None)"
        using ok by (auto simp: fs_ok_def n_def)
      then show ?thesis using old by (auto simp: fs'_def)
    qed
  qed
  moreover have "is_dir fs' u = is_dir fs u" if "u \<noteq> n" for u
    using that vn by (auto simp: is_dir_def fs'_def dir_def)
  moreover have "child fs' u m = (if u = v \<and> m = name then Some n else child fs u m)" if "u \<noteq> n" for u m
    using that vn by (auto simp: child_def fs'_def dir_def)
  ultimately show ?thesis using run vn' by (auto simp: n_def fs'_def)
qed

lemma add_vnode_not_dir:
  "vnodes fs v \<noteq> None \<Longrightarrow> \<not> is_dir fs v \<Longrightarrow> add_vnode fs v name new = Inr (- 1, None, fs)"
  by (auto simp: add_vnode_def is_dir_def split: option.splits)

section \<open>Reading and writing\<close>

text \<open>Contents as a function of the position: what a write does, and what a read sees.\<close>

lemma file_write_first:
  assumes "unat size_of_buf + unat offset < 2 ^ 64" and "length buf = unat size_of_buf" and "data = []"
  shows "file_write fresh data buf size_of_buf offset = Inr (replicate (unat offset) 0 @ buf)"
proof -
  have "unat (size_of_buf + offset) = unat size_of_buf + unat offset"
    using assms(1) unat_add_lem [of size_of_buf offset] by simp
  then show ?thesis using assms(2,3) by (simp add: file_write_def Let_def)
qed

lemma file_write_at:
  assumes "unat size_of_buf + unat offset < 2 ^ 64" and "length buf = unat size_of_buf" and "data \<noteq> []"
  shows "\<exists>data'. file_write fresh data buf size_of_buf offset = Inr data'
    \<and> length data' = max (length data) (unat offset + unat size_of_buf)
    \<and> (\<forall>i < length data'. data' ! i = (if unat offset \<le> i \<and> i < unat offset + unat size_of_buf then buf ! (i - unat offset)
         else if i < length data then data ! i else fresh i))"
proof -
  have t: "unat (size_of_buf + offset) = unat size_of_buf + unat offset"
    using assms(1) unat_add_lem [of size_of_buf offset] by simp
  define d where "d = (if unat (size_of_buf + offset) > length data
    then data @ map fresh [length data..<unat (size_of_buf + offset)] else data)"
  have l: "length d = max (length data) (unat offset + unat size_of_buf)" using t by (auto simp: d_def)
  have nth: "d ! i = (if i < length data then data ! i else fresh i)" if "i < length d" for i
    using that by (auto simp: d_def nth_append split: if_splits)
  define r where "r = take (unat offset) d @ take (unat size_of_buf) buf @ drop (unat offset + unat size_of_buf) d"
  have "file_write fresh data buf size_of_buf offset = Inr r"
    using assms(3) l by (simp add: file_write_def Let_def d_def [symmetric] r_def)
  moreover have lr: "length r = length d" using l assms(2) by (auto simp: r_def)
  moreover have "r ! i = (if unat offset \<le> i \<and> i < unat offset + unat size_of_buf then buf ! (i - unat offset)
         else if i < length data then data ! i else fresh i)" if "i < length r" for i
    using that nth [of i] lr l assms(2) by (auto simp: r_def nth_append)
  ultimately show ?thesis using l by auto
qed

text \<open>
  Neither the buffer of a file nor the range that is read wraps around the end of the address
  space. Buffers never do; a range does when the offset is near \<open>2 ^ 64\<close>.
\<close>

definition range_ok :: "u64 \<Rightarrow> u8 list \<Rightarrow> u64 \<Rightarrow> u64 \<Rightarrow> bool" where
  "range_ok p data n off \<longleftrightarrow> unat p + length data < 2 ^ 64 \<and> unat p + unat off + unat n < 2 ^ 64"

lemma int_of_size_small: "k < 2 ^ 31 \<Longrightarrow> int_of_size k = int k"
  by (simp add: int_of_size_def signed_of_nat take_bit_nat_eq_self signed_take_bit_int_eq_self)

lemma file_read_range:
  assumes "data \<noteq> []" and "range_ok p data n off"
  shows "file_read p data n off
    = Inr (int_of_size (min (unat n) (length data - unat off)), take (unat n) (drop (unat off) data))"
proof -
  define l where "l = (of_nat (length data) :: u64)"
  have r: "unat p + length data < 2 ^ 64" "unat p + unat off + unat n < 2 ^ 64"
    using assms(2) by (simp_all add: range_ok_def)
  have l: "unat l = length data" using r(1) by (simp add: l_def unsigned_of_nat take_bit_nat_eq_self)
  have pl: "unat (p + l) = unat p + length data" using r(1) l unat_add_lem [of p l] by simp
  have po: "unat (p + off) = unat p + unat off" using r(2) unat_add_lem [of p off] by simp
  have pon: "unat (p + off + n) = unat p + unat off + unat n" using r(2) po unat_add_lem [of "p + off" n] by simp
  define fin where "fin = (if p + off + n > p + l then p + l else p + off + n)"
  define st where "st = (if p + off > fin then fin else p + off)"
  have fin: "unat fin = unat p + min (length data) (unat off + unat n)"
    using pl pon by (simp add: fin_def word_less_nat_alt)
  have st: "unat st = unat p + min (length data) (unat off)"
    using po fin by (simp add: st_def word_less_nat_alt)
  have le: "st \<le> fin" "p \<le> st" using st fin by (simp_all add: word_le_nat_alt)
  have c: "unat (fin - st) = min (unat n) (length data - unat off)"
    using unat_sub [OF le(1)] st fin by linarith
  have s: "unat (st - p) = min (length data) (unat off)" using unat_sub [OF le(2)] st by simp
  have run: "file_read p data n off = (if unat (fin - st) = 0 then Inr (0, [])
      else if unat (st - p) + unat (fin - st) \<le> length data
        then Inr (int_of_size (unat (fin - st)), take (unat (fin - st)) (drop (unat (st - p)) data)) else Inl Undefined)"
    by (simp only: file_read_def Let_def l_def [symmetric] fin_def [symmetric] st_def [symmetric]
        length_0_conv assms(1) if_False)
  have z: "take (unat n) (drop (unat off) data) = []" if "min (unat n) (length data - unat off) = 0"
    using that by auto
  have m: "take (min (unat n) (length data - unat off)) (drop (min (length data) (unat off)) data)
      = take (unat n) (drop (unat off) data)"
    by (auto simp: min_def)
  have f: "min (length data) (unat off) + min (unat n) (length data - unat off) \<le> length data" by linarith
  show ?thesis
  proof (cases "min (unat n) (length data - unat off) = 0")
    case True
    then show ?thesis unfolding run c s m using z int_of_size_small [of 0] by simp
  next
    case False
    then show ?thesis unfolding run c s m using f by simp
  qed
qed

lemma file_read_bytes:
  assumes "data \<noteq> []" and "length data < 2 ^ 31" and "range_ok p data n off"
  shows "file_read p data n off
    = Inr (int (min (unat n) (length data - unat off)), take (unat n) (drop (unat off) data))"
  using file_read_range [OF assms(1,3)] assms(2) by (simp add: int_of_size_small)

text \<open>An offset that wraps around makes the range start before the buffer.\<close>

lemma file_read_before:
  assumes "data \<noteq> []" and "unat p + length data < 2 ^ 64" and "0 < k" and "k \<le> p"
    and "n \<noteq> 0" and "unat p + unat n < 2 ^ 64"
  shows "file_read p data n (- k) = Inl Undefined"
proof -
  define l where "l = (of_nat (length data) :: u64)"
  have l: "unat l = length data" using assms(2) by (simp add: l_def unsigned_of_nat take_bit_nat_eq_self)
  have pl: "unat (p + l) = unat p + length data" using assms(2) l unat_add_lem [of p l] by simp
  have pk: "unat (p - k) = unat p - unat k" using assms(4) by (rule unat_sub)
  have kp: "0 < unat k" "unat k \<le> unat p" using assms(3,4) by (simp_all add: word_less_nat_alt word_le_nat_alt)
  have n: "0 < unat n" using assms(5) by (simp add: unat_gt_0)
  have "unat (p - k) + unat n < 2 ^ LENGTH(64)" using assms(6) kp pk by simp
  then have pkn: "unat (p - k + n) = unat p - unat k + unat n"
    using unat_add_lem [of "p - k" n] pk by simp
  define fin where "fin = (if p - k + n > p + l then p + l else p - k + n)"
  have fin: "unat fin = min (unat p + length data) (unat p - unat k + unat n)"
    using pl pkn by (simp add: fin_def word_less_nat_alt)
  have lt: "p - k < fin" using kp n unfolding word_less_nat_alt fin pk min_less_iff_conj by linarith
  then have c: "0 < unat (fin - (p - k))" using unat_sub [of "p - k" fin] by (simp add: word_less_nat_alt word_le_nat_alt)
  have "\<not> unat p + unat (- k) < 2 ^ 64"
    using unat_add_lem [of p "- k"] pk kp by simp
  then have "\<not> unat (- k) + unat (fin - (p - k)) \<le> length data" using assms(2) by simp
  moreover have "p + - k = p - k" "p - k - p = - k" "(if p - k > fin then fin else p - k) = p - k"
    using lt order_less_not_sym [OF lt] by simp_all
  ultimately have "file_read p data n (- k) = (if unat (fin - (p - k)) = 0 then Inr (0, [])
      else if unat (- k) + unat (fin - (p - k)) \<le> length data
        then Inr (int_of_size (unat (fin - (p - k))), take (unat (fin - (p - k))) (drop (unat (- k)) data)) else Inl Undefined)"
    by (simp only: file_read_def Let_def l_def [symmetric] fin_def [symmetric] length_0_conv assms(1) if_False)
  then show ?thesis using c \<open>\<not> unat (- k) + _ \<le> _\<close> by simp
qed

section \<open>The name space of tmpfs\<close>

text \<open>Both ways to make a vnode satisfy the contract of the vnode operations.\<close>

definition is_node :: "fs_state \<Rightarrow> nat \<Rightarrow> bool" where
  "is_node fs v \<longleftrightarrow> vnodes fs v \<noteq> None"

lemma add_vnode_law:
  assumes ok: "fs_ok fs" and d: "is_dir fs v" and new: "kind_ok new" "\<forall>es. vdata new = Tmpfs_dir es \<longrightarrow> es = []"
  shows "\<exists>w fs'. add_vnode fs v n new = Inr (0, Some w, fs') \<and> fs_ok fs'
    \<and> \<not> is_node fs w \<and> is_node fs' w \<and> (\<forall>u. is_node fs u \<longrightarrow> is_node fs' u \<and> is_dir fs' u = is_dir fs u)
    \<and> (\<forall>u m. is_node fs u \<longrightarrow> child fs' u m = (if u = v \<and> m = n then Some w else child fs u m))"
proof -
  obtain fs' where f: "add_vnode fs v n new = Inr (0, Some (next_vnode fs), fs')" "fs_ok fs'"
    "vnodes fs' (next_vnode fs) = Some new"
    "\<And>u. u \<noteq> next_vnode fs \<Longrightarrow> is_dir fs' u = is_dir fs u"
    "\<And>u m. u \<noteq> next_vnode fs \<Longrightarrow> child fs' u m = (if u = v \<and> m = n then Some (next_vnode fs) else child fs u m)"
    "\<And>u. u \<noteq> next_vnode fs \<Longrightarrow> u \<noteq> v \<Longrightarrow> vnodes fs' u = vnodes fs u"
    using add_vnode_ok [OF ok d new, of n] by blast
  have fresh: "u \<noteq> next_vnode fs" if "is_node fs u" for u
    using that ok by (auto simp: is_node_def fs_ok_def)
  have "is_dir fs' v" using f(4) [of v] d fresh [of v] by (auto simp: is_dir_def is_node_def)
  then have v: "is_node fs' v" by (auto simp: is_dir_def is_node_def)
  show ?thesis
  proof (rule exI [of _ "next_vnode fs"], rule exI [of _ fs'], intro conjI allI impI)
    show "\<not> is_node fs (next_vnode fs)" using fresh by blast
    fix u assume u: "is_node fs u"
    show "is_node fs' u" using u v f(6) [OF fresh [OF u]] by (cases "u = v") (auto simp: is_node_def)
  qed (use f fresh in \<open>auto simp: is_node_def\<close>)
qed

interpretation mkdir_space: name_space fs_ok is_node is_dir vnode_lookup vnode_mkdir child
proof
  fix fs :: fs_state and v n w
  show "\<exists>r. vnode_lookup fs v n = Inr (r, child fs v n)" if "fs_ok fs" "is_node fs v"
    using vnode_lookup_child [OF that(1), of v n] that(2) by (simp add: is_node_def)
  show "is_node fs w \<and> v < w" if "fs_ok fs" "child fs v n = Some w"
    using child_ok [OF that] by (simp add: is_node_def)
qed (unfold vnode_mkdir_def, rule add_vnode_law, simp_all add: kind_ok_def)

interpretation create_space: name_space fs_ok is_node is_dir vnode_lookup vnode_create child
proof
  fix fs :: fs_state and v n w
  show "\<exists>r. vnode_lookup fs v n = Inr (r, child fs v n)" if "fs_ok fs" "is_node fs v"
    by (rule mkdir_space.lookup_law [OF that])
  show "is_node fs w \<and> v < w" if "fs_ok fs" "child fs v n = Some w"
    by (rule mkdir_space.child_law [OF that])
qed (unfold vnode_create_def, rule add_vnode_law, simp_all add: kind_ok_def)

end
