(* ===== verification/Vfs.thy ===== *)
theory Vfs
  imports Tmpfs Pool
begin

text \<open>
  The virtual file system \<open>kernel/src/fs/vfs.c\<close>: path resolution over the vnode operations,
  creation by path, and the descriptor bitmaps of processes.
\<close>

section \<open>Searching a string\<close>

text \<open>\<open>strchr\<close>: the position of the first \<open>ch\<close>, also of the final NUL; \<open>p\<close> is what follows in memory.\<close>

fun strchr :: "u8 list \<Rightarrow> int \<Rightarrow> nat \<Rightarrow> nat option res" where
  "strchr [] ch k = Inl Undefined"
| "strchr (p # ps) ch k =
     (if p = word_of_int ch then Inr (Some k)
      else if p = 0 then Inr None
      else strchr ps ch (Suc k))"

section \<open>Path resolution\<close>

abbreviation NUL :: char where "NUL \<equiv> CHR 0x00"

text \<open>The working copy of a path: every slash is a NUL, and there is a final NUL.\<close>

definition work_with_me :: "string \<Rightarrow> string" where
  "work_with_me path = map (\<lambda>c. if c = CHR ''/'' then NUL else c) path @ [NUL]"

text \<open>
  The loop over trailing slashes: \<open>islast\<close> after it. It tests \<open>i < pathlen\<close> where \<open>j\<close> was meant, so
  it runs past the buffer: \<open>past\<close> is the byte behind it. If that is NUL, \<open>islast\<close> is set to
  false there and stays false; a non-NUL byte is assumed to follow somewhere.
\<close>

function trailing :: "string \<Rightarrow> nat \<Rightarrow> char \<Rightarrow> nat \<Rightarrow> bool \<Rightarrow> bool" where
  "trailing buf n past j islast =
     (if n < j then (if past = NUL then False else islast)
      else if buf ! j = NUL then trailing buf n past (Suc j) (j = n)
      else islast)"
  by pat_completeness auto
termination
  by (relation "measure (\<lambda>(buf, n, past, j, islast). Suc n - j)") auto

declare trailing.simps [simp del]

text \<open>
  How one run of the component loop ends: a return with the vnode (or NULL) and what was copied
  to \<open>componentlast\<close>, or a symbolic link to follow from the directory it is in.
\<close>

datatype walk_end = Done "nat option" "string option" | Follow nat string

text \<open>The target of a link is the C string in its file's buffer.\<close>

definition symlink_target :: "vnode \<Rightarrow> string res" where
  "symlink_target vn =
     (case vdata vn of
        Tmpfs_dir _ \<Rightarrow> Inl Undefined
      | Tmpfs_node bs \<Rightarrow>
          if bs = [] then Inl PageFault
          else if 0 \<in> set bs then Inr (map (\<lambda>b. char_of (unat b)) (takeWhile (\<lambda>b. b \<noteq> 0) bs))
          else Inl Undefined)"

text \<open>
  \<open>want\<close>: \<open>componentlast\<close> is not NULL. \<open>n\<close> is \<open>pathlen\<close>. A directory found moves \<open>i\<close> behind the
  component.
\<close>

function walk_parts ::
  "fs_state \<Rightarrow> char \<Rightarrow> string \<Rightarrow> nat \<Rightarrow> bool \<Rightarrow> bool \<Rightarrow> nat \<Rightarrow> nat \<Rightarrow> walk_end res" where
  "walk_parts fs past buf n getparent want i cur =
     (if i < n then
        if buf ! i = NUL then walk_parts fs past buf n getparent want (Suc i) cur
        else
          let component = takeWhile (\<lambda>c. c \<noteq> NUL) (drop i buf);
              len_of_comp = length component;
              islast0 = (i + len_of_comp = n);
              islast = (if \<not> islast0 then trailing buf n past (i + len_of_comp) islast0 else islast0)
          in if islast \<and> getparent then
               if want then Inr (Done (Some cur) (Some component)) else Inl PageFault
             else
               andthen (vnode_lookup fs cur component) (\<lambda>(_, res).
                 case res of
                   None \<Rightarrow>
                     Inr (Done (if getparent then Some cur else None) (if want then Some component else None))
                 | Some r \<Rightarrow>
                     (case vnodes fs r of
                        None \<Rightarrow> Inl Undefined
                      | Some rn \<Rightarrow>
                          if vtype rn = NYAVNODE_DIR then
                            walk_parts fs past buf n getparent want (Suc (i + len_of_comp)) r
                          else if vtype rn = NYAVNODE_SYMLINK then
                            andthen (symlink_target rn) (\<lambda>t. Inr (Follow cur t))
                          else Inr (Done (Some r) None)))
      else Inr (Done (Some cur) None))"
  by pat_completeness auto
termination
  by (relation "measure (\<lambda>(fs, past, buf, n, getparent, want, i, cur). n - i)") auto

declare walk_parts.simps [simp del]

text \<open>
  \<open>rt\<close> is the root vnode: of the current process, or of the mounted file system. Links are
  followed with the rest of the path dropped, \<open>getparent\<close> false and \<open>componentlast\<close> NULL; a cycle
  of links recurses for ever, which is \<open>None\<close>. \<open>past\<close> gives the byte behind the buffer of a path.
\<close>

partial_function (option) vnode_path_lookup ::
  "fs_state \<Rightarrow> nat option \<Rightarrow> (string \<Rightarrow> char) \<Rightarrow> nat \<Rightarrow> string \<Rightarrow> bool \<Rightarrow> bool
    \<Rightarrow> (nat option \<times> string option) res option" where
  "vnode_path_lookup fs rt past cur path getparent want =
     (case (if path \<noteq> [] \<and> hd path = CHR ''/'' then rt else Some cur) of
        None \<Rightarrow> Some (Inl PageFault)
      | Some start \<Rightarrow>
          (case walk_parts fs (past path) (work_with_me path) (length path) getparent want 0 start of
             Inl e \<Rightarrow> Some (Inl e)
           | Inr (Done r c) \<Rightarrow> Some (Inr (r, c))
           | Inr (Follow d t) \<Rightarrow> vnode_path_lookup fs rt past d t False False))"

text \<open>
  \<open>vfs_create\<close>. A component buffer that the lookup did not fill holds whatever \<open>kmalloc\<close> gave.
  \<open>nameless\<close> is what both operations do then: a directory would read the name, and what is not a
  directory is refused before the name is read, so that nothing is created and \<open>*res\<close> is NULL.
\<close>

definition nameless :: "fs_state \<Rightarrow> nat \<Rightarrow> (int \<times> nat option \<times> fs_state) res" where
  "nameless fs par =
     (case vnodes fs par of
        None \<Rightarrow> Inl Undefined
      | Some vn \<Rightarrow> if vtype vn = NYAVNODE_DIR then Inl Undefined else Inr (- 1, None, fs))"

definition vfs_create ::
  "fs_state \<Rightarrow> nat option \<Rightarrow> (string \<Rightarrow> char) \<Rightarrow> nat \<Rightarrow> string \<Rightarrow> int \<Rightarrow> (int \<times> nat option \<times> fs_state) res option" where
  "vfs_create fs rt past indir path type =
     (if path = [] then Some (Inr (- 1, None, fs))
      else
        case vnode_path_lookup fs rt past indir path True True of
          None \<Rightarrow> None
        | Some r \<Rightarrow> Some (andthen r (\<lambda>(our_par, component).
            case our_par of
              None \<Rightarrow> Inr (- 1, None, fs)
            | Some par \<Rightarrow>
                if type = 0 then
                  andthen (case component of None \<Rightarrow> nameless fs par | Some c \<Rightarrow> vnode_mkdir fs par c)
                    (\<lambda>(_, created, fs'). Inr (0, created, fs'))
                else if type = 1 then
                  andthen (case component of None \<Rightarrow> nameless fs par | Some c \<Rightarrow> vnode_create fs par c)
                    (\<lambda>(_, created, fs'). Inr (0, created, fs'))
                else Inr (- 1, None, fs))))"

section \<open>Descriptor bitmaps\<close>

text \<open>One byte per descriptor. A full bitmap makes the function end without a \<open>return\<close>.\<close>

definition reserve_std :: "u8 list \<Rightarrow> u8 list" where
  "reserve_std b = (if b ! 0 = 0 \<and> b ! 1 = 0 then b[0 := 1, 1 := 1] else b)"

function find_fd :: "u8 list \<Rightarrow> nat \<Rightarrow> nat \<Rightarrow> (int \<times> u8 list) res" where
  "find_fd b sz i =
     (if i < sz then
        if length b \<le> i then Inl Undefined
        else if b ! i = 0 then Inr (int i, b[i := 1])
        else find_fd b sz (Suc i)
      else Inl Undefined)"
  by pat_completeness auto
termination
  by (relation "measure (\<lambda>(b, sz, i). sz - i)") auto

declare find_fd.simps [simp del]

definition allocate_fd_from_bitmap :: "u8 list \<Rightarrow> nat \<Rightarrow> (int \<times> u8 list) res" where
  "allocate_fd_from_bitmap bitmap sz =
     (if length bitmap < 2 then Inl Undefined else find_fd (reserve_std bitmap) sz 0)"

definition deallocate_fd_from_bitmap :: "u8 list \<Rightarrow> int \<Rightarrow> (int \<times> u8 list) res" where
  "deallocate_fd_from_bitmap bitmap fd =
     (if 0 \<le> fd \<and> nat fd < length bitmap then
        if bitmap ! nat fd = 1 then Inr (0, bitmap[nat fd := 0]) else Inr (- 1, bitmap)
      else Inl Undefined)"

section \<open>The specification of path resolution\<close>

text \<open>The components of a working copy, and of a path: the maximal runs without a slash.\<close>

function parts :: "string \<Rightarrow> string list" where
  "parts s =
     (case dropWhile (\<lambda>c. c = NUL) s of
        [] \<Rightarrow> []
      | c # r \<Rightarrow> takeWhile (\<lambda>c. c \<noteq> NUL) (c # r) # parts (dropWhile (\<lambda>c. c \<noteq> NUL) (c # r)))"
  by pat_completeness auto
termination
proof (relation "measure length", goal_cases)
  case (2 s c r)
  have "length (dropWhile (\<lambda>c. c \<noteq> NUL) (c # r)) \<le> length r"
    using 2 length_dropWhile_le [of "\<lambda>c. c \<noteq> NUL" r] by (cases "c = NUL") (auto simp: dropWhile_eq_Cons_conv)
  moreover have "length (c # r) \<le> length s" using length_dropWhile_le [of "\<lambda>c. c = NUL" s] 2 by metis
  ultimately show ?case by simp
qed simp

declare parts.simps [simp del]

definition components :: "string \<Rightarrow> string list" where
  "components path = parts (map (\<lambda>c. if c = CHR ''/'' then NUL else c) path)"

text \<open>
  Resolution over components: directories are entered, a file ends the walk, a link is followed;
  with \<open>getparent\<close> the last component is returned instead of looked up.
\<close>

fun resolve :: "fs_state \<Rightarrow> bool \<Rightarrow> bool \<Rightarrow> nat \<Rightarrow> string list \<Rightarrow> walk_end res" where
  "resolve fs getparent want cur [] = Inr (Done (Some cur) None)"
| "resolve fs getparent want cur (c # cs) =
     (if cs = [] \<and> getparent then if want then Inr (Done (Some cur) (Some c)) else Inl PageFault
      else andthen (vnode_lookup fs cur c) (\<lambda>(_, res).
        case res of
          None \<Rightarrow> Inr (Done (if getparent then Some cur else None) (if want then Some c else None))
        | Some r \<Rightarrow>
            (case vnodes fs r of
               None \<Rightarrow> Inl Undefined
             | Some rn \<Rightarrow>
                 if vtype rn = NYAVNODE_DIR then resolve fs getparent want r cs
                 else if vtype rn = NYAVNODE_SYMLINK then andthen (symlink_target rn) (\<lambda>t. Inr (Follow cur t))
                 else Inr (Done (Some r) None))))"

lemma parts_Nil [simp]: "parts [] = []"
  by (simp add: parts.simps)

lemma parts_NUL [simp]: "parts (NUL # s) = parts s"
  by (subst (1 2) parts.simps) simp

lemma parts_Cons:
  "c \<noteq> NUL \<Longrightarrow> parts (c # s) = takeWhile (\<lambda>c. c \<noteq> NUL) (c # s) # parts (dropWhile (\<lambda>c. c \<noteq> NUL) (c # s))"
  by (subst parts.simps) simp

lemma parts_empty_iff: "parts s = [] \<longleftrightarrow> (\<forall>c \<in> set s. c = NUL)"
proof (induction s)
  case (Cons c s)
  then show ?case by (cases "c = NUL") (simp_all add: parts_Cons [of c s])
qed simp

lemma drop_takeWhile: "drop (length (takeWhile P xs)) xs = dropWhile P xs"
  by (induction xs) auto

text \<open>What \<open>islast\<close> means: no component follows, if the byte behind the buffer is not NUL.\<close>

lemma trailing_eq:
  assumes "j \<le> n" and "length w = n" and "past \<noteq> NUL"
  shows "trailing (w @ [NUL]) n past j islast \<longleftrightarrow> (if j < n \<and> w ! j \<noteq> NUL then islast else (\<forall>c \<in> set (drop j w). c = NUL))"
  using assms
proof (induction "n - j" arbitrary: j islast)
  case 0
  then show ?case
    by (simp add: trailing.simps [of _ j _ j] trailing.simps [of _ j _ "Suc j"] nth_append)
next
  case (Suc k)
  then have j: "j < n" by simp
  have d: "drop j w = w ! j # drop (Suc j) w" using j Suc.prems(2) by (simp add: Cons_nth_drop_Suc)
  show ?case
  proof (cases "w ! j = NUL")
    case True
    have IH: "trailing (w @ [NUL]) n past (Suc j) False
        \<longleftrightarrow> (if Suc j < n \<and> w ! Suc j \<noteq> NUL then False else (\<forall>c \<in> set (drop (Suc j) w). c = NUL))"
      using Suc by (intro Suc.hyps(1)) auto
    have "Suc j < n \<Longrightarrow> w ! Suc j \<in> set (drop (Suc j) w)"
      using Suc.prems(2) by (metis Cons_nth_drop_Suc list.set_intros(1))
    then show ?thesis using IH True j Suc.prems(2) d
      by (subst trailing.simps) (auto simp: nth_append)
  next
    case False
    then show ?thesis using j Suc.prems(2) by (subst trailing.simps) (simp add: nth_append)
  qed
qed

text \<open>Path resolution is resolution over the components of the path.\<close>

lemma walk_parts_eq:
  assumes "length w = n" and "getparent \<Longrightarrow> past \<noteq> NUL \<or> w = [] \<or> last w \<noteq> NUL"
  shows "walk_parts fs past (w @ [NUL]) n getparent want i cur = resolve fs getparent want cur (parts (drop i w))"
  using assms
proof (induction "n - i" arbitrary: i cur rule: less_induct)
  case less
  show ?case
  proof (cases "i < n")
    case False
    then show ?thesis using assms(1) by (subst walk_parts.simps) simp
  next
    case i: True
    have d: "drop i w = w ! i # drop (Suc i) w" using i assms(1) by (simp add: Cons_nth_drop_Suc)
    have bi: "(w @ [NUL]) ! i = w ! i" using i assms(1) by (simp add: nth_append)
    show ?thesis
    proof (cases "w ! i = NUL")
      case True
      then show ?thesis using less.hyps [of "Suc i"] assms i bi d by (subst walk_parts.simps) simp
    next
      case False
      define comp where "comp = takeWhile (\<lambda>c. c \<noteq> NUL) (drop i w)"
      define k where "k = i + length comp"
      have cb: "takeWhile (\<lambda>c. c \<noteq> NUL) (drop i (w @ [NUL])) = comp"
      proof -
        have "drop i (w @ [NUL]) = drop i w @ [NUL]" using i assms(1) by simp
        moreover have "takeWhile (\<lambda>c. c \<noteq> NUL) (s @ [NUL]) = takeWhile (\<lambda>c. c \<noteq> NUL) s" for s
          by (induction s) auto
        ultimately show ?thesis by (simp add: comp_def)
      qed
      have dk: "drop k w = dropWhile (\<lambda>c. c \<noteq> NUL) (drop i w)"
        using drop_takeWhile [of "\<lambda>c. c \<noteq> NUL" "drop i w"] by (simp add: comp_def k_def add.commute)
      have kn: "k \<le> n"
        using length_takeWhile_le [of "\<lambda>c. c \<noteq> NUL" "drop i w"] i assms(1) by (simp add: comp_def k_def)
      have wk: "w ! k = NUL" if "k < n"
      proof -
        have "drop k w \<noteq> []" using that assms(1) by simp
        then have "hd (drop k w) = NUL" using hd_dropWhile [of "\<lambda>c. c \<noteq> NUL" "drop i w"] dk by metis
        then show ?thesis using that assms(1) by (simp add: hd_drop_conv_nth)
      qed
      have pk: "parts (drop k w) = parts (drop (Suc k) w)"
      proof (cases "k < n")
        case True
        then have "drop k w = NUL # drop (Suc k) w" using wk assms(1) by (simp add: Cons_nth_drop_Suc [symmetric])
        then show ?thesis by simp
      qed (use kn assms(1) in simp)
      have ps: "parts (drop i w) = comp # parts (drop (Suc k) w)"
        using parts_Cons [OF False, of "drop (Suc i) w"] d dk pk by (simp add: comp_def)
      define islast where "islast = (if \<not> (k = n) then trailing (w @ [NUL]) n past k (k = n) else (k = n))"
      have il: "islast \<longleftrightarrow> parts (drop (Suc k) w) = []" if "getparent"
      proof (cases "k = n")
        case True
        then show ?thesis using assms(1) by (simp add: islast_def)
      next
        case kne: False
        then have k: "k < n" using kn by simp
        show ?thesis
        proof (cases "past = NUL")
          case True
          then have lw: "last w \<noteq> NUL" "w \<noteq> []" using assms(2) [OF that] i assms(1) by auto
          have "last w \<in> set (drop (Suc k) w)"
          proof -
            have "k \<noteq> n - 1" using lw wk [OF k] assms(1) by (auto simp: last_conv_nth)
            then have "Suc k < length w" using k assms(1) by simp
            then show ?thesis by (metis drop_eq_Nil last_drop last_in_set not_less)
          qed
          then have "parts (drop (Suc k) w) \<noteq> []" using lw by (auto simp: parts_empty_iff)
          moreover have "\<not> trailing (w @ [NUL]) n NUL j b" if "\<not> b" "j \<le> n" for j b
            using that assms(1)
          proof (induction "Suc n - j" arbitrary: j b)
            case 0
            then show ?case by simp
          next
            case (Suc x)
            show ?case
            proof (cases "j = n")
              case True
              then show ?thesis by (subst trailing.simps, subst trailing.simps) (simp add: Suc.prems)
            next
              case False
              then show ?thesis using Suc.hyps(1) [of "Suc j" False] Suc.hyps(2) Suc.prems
                by (subst trailing.simps) auto
            qed
          qed
          ultimately show ?thesis using kne True kn by (simp add: islast_def)
        next
          case False
          then show ?thesis
            using trailing_eq [OF kn assms(1) False, of False] wk [OF k] k kne
            by (simp add: islast_def pk [symmetric] parts_empty_iff)
        qed
      qed
      have rec: "walk_parts fs past (w @ [NUL]) n getparent want (Suc k) r
          = resolve fs getparent want r (parts (drop (Suc k) w))" for r
        using less.hyps [of "Suc k" r] i assms by (simp add: k_def)
      have step: "walk_parts fs past (w @ [NUL]) n getparent want i cur =
          (if islast \<and> getparent then if want then Inr (Done (Some cur) (Some comp)) else Inl PageFault
           else andthen (vnode_lookup fs cur comp) (\<lambda>(_, res).
             case res of
               None \<Rightarrow> Inr (Done (if getparent then Some cur else None) (if want then Some comp else None))
             | Some r \<Rightarrow>
                 (case vnodes fs r of
                    None \<Rightarrow> Inl Undefined
                  | Some rn \<Rightarrow>
                      if vtype rn = NYAVNODE_DIR then walk_parts fs past (w @ [NUL]) n getparent want (Suc k) r
                      else if vtype rn = NYAVNODE_SYMLINK then andthen (symlink_target rn) (\<lambda>t. Inr (Follow cur t))
                      else Inr (Done (Some r) None))))"
        using i bi False
        by (subst walk_parts.simps) (simp only: Let_def cb k_def islast_def if_True if_False not_False_eq_True)
      show ?thesis unfolding step rec ps using il by auto
    qed
  qed
qed

section \<open>Path resolution over the name space\<close>

text \<open>Every directory on the way is entered, so a walk through directories can be cut at any of them.\<close>

lemma resolve_prefix:
  assumes "fs_ok fs" and "is_node fs cur" and "descend (child fs) cur cs = Some d" and "is_dir fs d"
    and "rest \<noteq> []"
  shows "resolve fs getparent want cur (cs @ rest) = resolve fs getparent want d rest"
  using assms(2,3)
proof (induction cs arbitrary: cur)
  case (Cons c cs)
  then obtain r where r: "child fs cur c = Some r" "descend (child fs) r cs = Some d"
    by (auto split: option.splits)
  obtain k where l: "vnode_lookup fs cur c = Inr (k, Some r)"
    using mkdir_space.lookup_law [OF assms(1) Cons.prems(1), of c] r(1) by auto
  have n: "is_node fs r" using mkdir_space.child_law [OF assms(1) r(1)] by simp
  have "is_dir fs r"
  proof (cases cs)
    case Nil
    then show ?thesis using r assms(4) by simp
  next
    case (Cons e es)
    then have "child fs r e \<noteq> None" using r(2) by (auto split: option.splits)
    then show ?thesis using child_ok(3) [OF assms(1)] by blast
  qed
  then obtain rn where "vnodes fs r = Some rn" "vtype rn = NYAVNODE_DIR" by (auto simp: is_dir_def)
  then show ?case using l Cons.IH [OF n r(2)] assms(5) by simp
qed simp

text \<open>The three ways a walk ends at its last component.\<close>

lemma resolve_parent:
  assumes "fs_ok fs" and "is_node fs cur" and "descend (child fs) cur cs = Some d" and "is_dir fs d"
  shows "resolve fs True True cur (cs @ [c]) = Inr (Done (Some d) (Some c))"
  using resolve_prefix [OF assms, of "[c]"] by simp

lemma resolve_last:
  assumes "fs_ok fs" and "is_node fs cur" and "descend (child fs) cur cs = Some d" and "is_dir fs d"
    and "\<And>w wn. child fs d c = Some w \<Longrightarrow> vnodes fs w = Some wn \<Longrightarrow> vtype wn \<noteq> NYAVNODE_SYMLINK"
  shows "resolve fs False want cur (cs @ [c])
    = Inr (Done (child fs d c) (if child fs d c = None \<and> want then Some c else None))"
proof -
  have "is_node fs d" using assms(4) by (auto simp: is_dir_def is_node_def)
  then obtain k where l: "vnode_lookup fs d c = Inr (k, child fs d c)"
    using mkdir_space.lookup_law [OF assms(1)] by blast
  show ?thesis
  proof (cases "child fs d c")
    case None
    then show ?thesis using resolve_prefix [OF assms(1-4), of "[c]"] l by simp
  next
    case (Some w)
    then obtain wn where "vnodes fs w = Some wn" using child_ok(1) [OF assms(1) Some] by auto
    then show ?thesis using resolve_prefix [OF assms(1-4), of "[c]"] l Some assms(5) [OF Some]
      by (cases "vtype wn") auto
  qed
qed

lemma resolve_link:
  assumes "fs_ok fs" and "is_node fs cur" and "descend (child fs) cur cs = Some d" and "is_dir fs d"
    and "child fs d c = Some w" and "vnodes fs w = Some wn" and "vtype wn = NYAVNODE_SYMLINK"
    and "symlink_target wn = Inr t"
  shows "resolve fs False want cur (cs @ c # rest) = Inr (Follow d t)"
proof -
  have "is_node fs d" using assms(4) by (auto simp: is_dir_def is_node_def)
  then obtain k where l: "vnode_lookup fs d c = Inr (k, Some w)"
    using mkdir_space.lookup_law [OF assms(1), of d c] assms(5) by auto
  show ?thesis using resolve_prefix [OF assms(1-4), of "c # rest"] l assms(6-) by simp
qed

section \<open>Path lookup\<close>

text \<open>
  A path as the callers pass it: a C string whose last character is not a slash, or that has a
  byte other than NUL behind its copy.
\<close>

definition path_ok :: "(string \<Rightarrow> char) \<Rightarrow> string \<Rightarrow> bool" where
  "path_ok past path \<longleftrightarrow> NUL \<notin> set path \<and> (past path \<noteq> NUL \<or> path = [] \<or> last path \<noteq> CHR ''/'')"

definition start_of :: "nat option \<Rightarrow> nat \<Rightarrow> string \<Rightarrow> nat option" where
  "start_of rt cur path = (if path \<noteq> [] \<and> hd path = CHR ''/'' then rt else Some cur)"

lemma walk_of_path:
  assumes "path_ok past path"
  shows "walk_parts fs (past path) (work_with_me path) (length path) getparent want 0 start
    = resolve fs getparent want start (components path)"
proof -
  define w where "w = map (\<lambda>c. if c = CHR ''/'' then NUL else c) path"
  have "past path \<noteq> NUL \<or> w = [] \<or> last w \<noteq> NUL"
    using assms by (cases "path = []") (auto simp: path_ok_def w_def last_map dest: last_in_set)
  then have "walk_parts fs (past path) (w @ [NUL]) (length path) getparent want 0 start
      = resolve fs getparent want start (parts (drop 0 w))"
    by (intro walk_parts_eq) (auto simp: w_def)
  then show ?thesis by (simp add: work_with_me_def w_def components_def)
qed

text \<open>Lookup of a path that meets no symbolic link is resolution over its components.\<close>

lemma path_lookup_done:
  assumes "path_ok past path" and "start_of rt cur path = Some start"
    and "resolve fs getparent want start (components path) = Inr (Done r c)"
  shows "vnode_path_lookup fs rt past cur path getparent want = Some (Inr (r, c))"
  using assms(2,3) unfolding start_of_def
  by (subst vnode_path_lookup.simps) (simp add: walk_of_path [OF assms(1)])

text \<open>A symbolic link restarts resolution with its target, in the directory that holds the link.\<close>

lemma path_lookup_follow:
  assumes "path_ok past path" and "start_of rt cur path = Some start"
    and "resolve fs getparent want start (components path) = Inr (Follow d t)"
  shows "vnode_path_lookup fs rt past cur path getparent want = vnode_path_lookup fs rt past d t False False"
  using assms(2,3) unfolding start_of_def
  by (subst vnode_path_lookup.simps) (simp add: walk_of_path [OF assms(1)])

section \<open>Descriptors as a pool\<close>

lemma find_fd_result:
  "find_fd b sz i = Inr (r, b') \<Longrightarrow>
     \<exists>k. i \<le> k \<and> k < sz \<and> k < length b \<and> b ! k = 0 \<and> r = int k \<and> b' = b[k := 1]"
proof (induction b sz i rule: find_fd.induct)
  case (1 b sz i)
  show ?case
  proof (cases "i < sz \<and> i < length b \<and> b ! i \<noteq> 0")
    case True
    then have "find_fd b sz (Suc i) = Inr (r, b')" using "1.prems" by (simp add: find_fd.simps [of b sz i])
    then show ?thesis using "1.IH" True by fastforce
  next
    case False
    then show ?thesis using "1.prems" by (auto simp: find_fd.simps [of b sz i] split: if_splits)
  qed
qed

lemma find_fd_progress:
  "i \<le> k \<Longrightarrow> k < sz \<Longrightarrow> sz \<le> length b \<Longrightarrow> b ! k = 0 \<Longrightarrow> \<exists>r b'. find_fd b sz i = Inr (r, b')"
proof (induction b sz i rule: find_fd.induct)
  case (1 b sz i)
  show ?case
  proof (cases "b ! i = 0")
    case True
    then show ?thesis using "1.prems" by (subst find_fd.simps) simp
  next
    case False
    then have "i \<noteq> k" using "1.prems" by auto
    then show ?thesis using "1.IH" False "1.prems" by (subst find_fd.simps) simp
  qed
qed

text \<open>
  A bitmap in use: the standard descriptors are both reserved or, before the first allocation,
  both free. What is handed out are the descriptors from 2 on.
\<close>

definition bitmap_ok :: "u8 list \<Rightarrow> bool" where
  "bitmap_ok b \<longleftrightarrow> length b = 256 \<and> set b \<subseteq> {0, 1} \<and> b ! 0 = b ! 1"

definition free_fds :: "u8 list \<Rightarrow> int set" where
  "free_fds b = int ` {k. 2 \<le> k \<and> k < 256 \<and> b ! k = 0}"

definition take_fd :: "u8 list \<Rightarrow> (int \<times> u8 list) res" where
  "take_fd b = allocate_fd_from_bitmap b 256"

definition give_fd :: "int \<Rightarrow> u8 list \<Rightarrow> u8 list res" where
  "give_fd fd b = andthen (deallocate_fd_from_bitmap b fd) (\<lambda>(_, b'). Inr b')"

lemma bitmap_ok_reserve:
  assumes "bitmap_ok b"
  shows "bitmap_ok (reserve_std b)" and "reserve_std b ! 0 = 1" and "reserve_std b ! 1 = 1"
    and "2 \<le> k \<Longrightarrow> reserve_std b ! k = b ! k"
proof -
  have l: "length b = 256" "b ! 0 = b ! 1" "set b \<subseteq> {0, 1}" using assms by (simp_all add: bitmap_ok_def)
  have z: "b ! 0 = 0 \<or> b ! 0 = 1" using subsetD [OF l(3) nth_mem [of 0 b]] l(1) by simp
  show "reserve_std b ! 0 = 1" "reserve_std b ! 1 = 1" using l z by (auto simp: reserve_std_def)
  show "2 \<le> k \<Longrightarrow> reserve_std b ! k = b ! k" by (auto simp: reserve_std_def)
  have "set (reserve_std b) \<subseteq> {0, 1}"
    using l(3) set_update_subset_insert [of b 0 1] set_update_subset_insert [of "b[0 := 1]" 1 1]
    by (auto simp: reserve_std_def)
  then show "bitmap_ok (reserve_std b)" using l \<open>reserve_std b ! 0 = 1\<close> \<open>reserve_std b ! 1 = 1\<close>
    by (simp add: bitmap_ok_def reserve_std_def)
qed

lemma bitmap_ok_update:
  assumes "bitmap_ok b" and "2 \<le> k" and "x \<in> {0, 1}"
  shows "bitmap_ok (b[k := x])"
  using assms set_update_subset_insert [of b k x] by (auto simp: bitmap_ok_def)

interpretation fd: resource_pool bitmap_ok free_fds take_fd give_fd "\<lambda>b r. 2 \<le> r \<and> r < 256"
proof
  fix b r b'
  assume ok: "bitmap_ok b" and t: "take_fd b = Inr (r, b')"
  have l: "length b = 256" using ok by (simp add: bitmap_ok_def)
  note R = bitmap_ok_reserve [OF ok]
  obtain k where k: "k < 256" "reserve_std b ! k = 0" "r = int k" "b' = (reserve_std b)[k := 1]"
    using t l find_fd_result [of "reserve_std b" 256 0 r b'] by (auto simp: take_fd_def allocate_fd_from_bitmap_def)
  have k2: "2 \<le> k" using k(2) R(2,3) by (cases "k = 0"; cases "k = 1") auto
  have lr: "length (reserve_std b) = 256" using R(1) by (simp add: bitmap_ok_def)
  have "{j. 2 \<le> j \<and> j < 256 \<and> b' ! j = 0} = {j. 2 \<le> j \<and> j < 256 \<and> b ! j = 0} - {k}"
    using k k2 R(4) lr by (auto simp: nth_list_update)
  then have "free_fds b' = free_fds b - {r}"
    by (simp add: free_fds_def k(3) image_set_diff inj_of_nat)
  moreover have "r \<in> free_fds b" using k k2 R(4) by (auto simp: free_fds_def)
  moreover have "bitmap_ok b'" using bitmap_ok_update [OF R(1) k2] k(4) by simp
  ultimately show "r \<in> free_fds b \<and> free_fds b' = free_fds b - {r} \<and> bitmap_ok b' \<and> (\<lambda>r. 2 \<le> r \<and> r < 256) = (\<lambda>r. 2 \<le> r \<and> r < 256)"
    by simp
next
  fix b :: "u8 list"
  assume ok: "bitmap_ok b" and "free_fds b \<noteq> {}"
  then obtain k where k: "2 \<le> k" "k < 256" "b ! k = 0" by (auto simp: free_fds_def)
  have "length b = 256" "length (reserve_std b) = 256" using ok bitmap_ok_reserve(1) [OF ok] by (simp_all add: bitmap_ok_def)
  then show "\<exists>r b'. take_fd b = Inr (r, b')"
    using find_fd_progress [of 0 k 256 "reserve_std b"] k bitmap_ok_reserve(4) [OF ok k(1)]
    by (simp add: take_fd_def allocate_fd_from_bitmap_def)
next
  fix b r b'
  assume ok: "bitmap_ok b" and v: "2 \<le> r \<and> r < 256" and n: "r \<notin> free_fds b" and g: "give_fd r b = Inr b'"
  define k where "k = nat r"
  have k: "2 \<le> k" "k < 256" "r = int k" using v by (auto simp: k_def)
  have l: "length b = 256" using ok by (simp add: bitmap_ok_def)
  have "b ! k \<noteq> 0" using n k by (auto simp: free_fds_def)
  moreover have "b ! k \<in> {0, 1}"
    using subsetD [OF _ nth_mem [of k b], of "{0, 1}"] ok k(2) l unfolding bitmap_ok_def by simp
  ultimately have b': "b' = b[k := 0]" using g k l by (simp add: give_fd_def deallocate_fd_from_bitmap_def)
  have "{j. 2 \<le> j \<and> j < 256 \<and> b' ! j = 0} = insert k {j. 2 \<le> j \<and> j < 256 \<and> b ! j = 0}"
    using k l b' by (auto simp: nth_list_update)
  then have "free_fds b' = insert r (free_fds b)" by (simp add: free_fds_def k(3))
  moreover have "bitmap_ok b'" using bitmap_ok_update [OF ok k(1)] b' by simp
  ultimately show "free_fds b' = insert r (free_fds b) \<and> bitmap_ok b' \<and> (\<lambda>r. 2 \<le> r \<and> r < 256) = (\<lambda>r. 2 \<le> r \<and> r < 256)"
    by simp
next
  fix b r
  assume "r \<in> free_fds b"
  then show "2 \<le> r \<and> r < 256" by (auto simp: free_fds_def)
qed

end
