(* ===== verification/Tar.thy ===== *)
theory Tar
  imports Vfs Cstrings Paging
begin

text \<open>
  The USTAR loader \<open>kernel/src/fs/tar.c\<close>: it walks over the archive that the boot loader put in
  memory and creates directories, files and links in a new tmpfs. The addresses of the two string
  literals it compares with are parameters.
\<close>

section \<open>The loader\<close>

text \<open>Twelve octal digits, of which the first eleven count; \<open>size\<close> wraps around.\<close>

fun getsize_loop :: "memory \<Rightarrow> u64 \<Rightarrow> u32 \<Rightarrow> u32 \<Rightarrow> nat \<Rightarrow> u32" where
  "getsize_loop m inp count sz 0 = sz"
| "getsize_loop m inp count sz (Suc j) =
     getsize_loop m inp (count * 8) (sz + (scast (m (inp + of_nat j)) - 48) * count) j"

definition getsize :: "memory \<Rightarrow> u64 \<Rightarrow> u32" where
  "getsize m inp = getsize_loop m inp 1 0 11"

text \<open>Offsets of the fields of \<open>struct tar_header\<close>.\<close>

abbreviation hdr_filesize :: u64 where "hdr_filesize \<equiv> 124"
abbreviation hdr_type :: u64 where "hdr_type \<equiv> 156"
abbreviation hdr_link :: u64 where "hdr_link \<equiv> 157"

text \<open>The C string at an address, as a path for the file system.\<close>

definition string_at :: "memory \<Rightarrow> u64 \<Rightarrow> string option" where
  "string_at m a = map_option (\<lambda>n. map (\<lambda>i. char_of (unat (m (a + of_nat i)))) [0..<unat n]) (strlen m a)"

definition read_bytes :: "memory \<Rightarrow> u64 \<Rightarrow> nat \<Rightarrow> u8 list" where
  "read_bytes m a n = map (\<lambda>i. m (a + of_nat i)) [0..<n]"

text \<open>Sequencing of code that may run for ever, \<open>None\<close>, or fail.\<close>

definition orelse_run :: "'a res option \<Rightarrow> ('a \<Rightarrow> 'b res option) \<Rightarrow> 'b res option" where
  "orelse_run x f = (case x of None \<Rightarrow> None | Some (Inl e) \<Rightarrow> Some (Inl e) | Some (Inr a) \<Rightarrow> f a)"

text \<open>\<open>strncmp(hdr_ptr->type, lit, strlen(hdr_ptr->type)) == 0\<close>\<close>

definition type_matches :: "memory \<Rightarrow> u64 \<Rightarrow> u64 \<Rightarrow> bool option" where
  "type_matches m hdr lit = map_option (\<lambda>n. strncmp m (hdr + hdr_type) lit n = 0) (strlen m (hdr + hdr_type))"

definition set_type :: "nat \<Rightarrow> vnode_type \<Rightarrow> fs_state \<Rightarrow> fs_state" where
  "set_type v t fs = (case vnodes fs v of None \<Rightarrow> fs | Some vn \<Rightarrow> fs\<lparr>vnodes := (vnodes fs)(v \<mapsto> vn\<lparr>vtype := t\<rparr>)\<rparr>)"

text \<open>
  The three kinds of entries. \<open>roo\<close> is the new root vnode; there is no current process yet, so it
  is also the root of absolute names. \<open>*res\<close> stays NULL when nothing was created.
\<close>

definition make_dir :: "(string \<Rightarrow> char) \<Rightarrow> nat \<Rightarrow> string \<Rightarrow> fs_state \<Rightarrow> fs_state res option" where
  "make_dir past roo name fs =
     orelse_run (vfs_create fs (Some roo) past roo name 0) (\<lambda>(_, _, fs'). Some (Inr fs'))"

definition make_file :: "(string \<Rightarrow> char) \<Rightarrow> (nat \<Rightarrow> u8) \<Rightarrow> nat \<Rightarrow> string \<Rightarrow> u8 list \<Rightarrow> fs_state \<Rightarrow> fs_state res option" where
  "make_file past fresh roo name bytes fs =
     orelse_run (vfs_create fs (Some roo) past roo name 1) (\<lambda>(_, notneeded, fs1).
       case notneeded of
         None \<Rightarrow> Some (Inr fs1)
       | Some v \<Rightarrow>
           Some (andthen (vnode_rdwr fresh fs1 v (of_nat (length bytes)) 0 bytes 1) (\<lambda>(_, _, fs2). Inr fs2)))"

definition make_link :: "(string \<Rightarrow> char) \<Rightarrow> (nat \<Rightarrow> u8) \<Rightarrow> nat \<Rightarrow> string \<Rightarrow> u8 list \<Rightarrow> fs_state \<Rightarrow> fs_state res option" where
  "make_link past fresh roo name target fs =
     orelse_run (vfs_create fs (Some roo) past roo name 1) (\<lambda>(_, notneeded, fs1).
       case notneeded of
         None \<Rightarrow> Some (Inr fs1)
       | Some v \<Rightarrow>
           Some (andthen (vnode_rdwr fresh fs1 v (of_nat (length target)) 0 target 1)
             (\<lambda>(_, _, fs2). Inr (set_type v NYAVNODE_SYMLINK fs2))))"

definition tar_entry :: "memory \<Rightarrow> u64 \<Rightarrow> u64 \<Rightarrow> (string \<Rightarrow> char) \<Rightarrow> (nat \<Rightarrow> u8) \<Rightarrow> nat \<Rightarrow> u64 \<Rightarrow> fs_state \<Rightarrow> fs_state res option" where
  "tar_entry m lit5 lit0 past fresh roo hdr fs =
     (let sz = unat (getsize m (hdr + hdr_filesize)) in
      case type_matches m hdr lit5 of
        None \<Rightarrow> None
      | Some True \<Rightarrow>
          (case string_at m hdr of None \<Rightarrow> None | Some name \<Rightarrow> make_dir past roo name fs)
      | Some False \<Rightarrow>
          (case type_matches m hdr lit0 of
             None \<Rightarrow> None
           | Some True \<Rightarrow>
               (case string_at m hdr of None \<Rightarrow> None
                | Some name \<Rightarrow> make_file past fresh roo name (read_bytes m (hdr + 512) sz) fs)
           | Some False \<Rightarrow>
               if m (hdr + hdr_type) = 50 then
                 (case string_at m hdr of None \<Rightarrow> None
                  | Some name \<Rightarrow>
                      (case strlen m (hdr + hdr_link) of None \<Rightarrow> None
                       | Some n \<Rightarrow> make_link past fresh roo name (read_bytes m (hdr + hdr_link) (unat (n + 1))) fs))
               else Some (Inr fs)))"

definition next_header :: "memory \<Rightarrow> u64 \<Rightarrow> u64" where
  "next_header m hdr = hdr + 512 + align_up (ucast (getsize m (hdr + hdr_filesize))) 512"

partial_function (option) tar_loop ::
  "memory \<Rightarrow> u64 \<Rightarrow> u64 \<Rightarrow> (string \<Rightarrow> char) \<Rightarrow> (nat \<Rightarrow> u8) \<Rightarrow> nat \<Rightarrow> u64 \<Rightarrow> u64 \<Rightarrow> fs_state \<Rightarrow> fs_state res option" where
  "tar_loop m lit5 lit0 past fresh roo stop hdr fs =
     (if hdr < stop then
        (case tar_entry m lit5 lit0 past fresh roo hdr fs of
           None \<Rightarrow> None
         | Some r \<Rightarrow>
             (case r of
                Inl e \<Rightarrow> Some (Inl e)
              | Inr fs' \<Rightarrow> tar_loop m lit5 lit0 past fresh roo stop (next_header m hdr) fs'))
      else Some (Inr fs))"

text \<open>
  The new file system: a root directory without entries, as vnode 0; \<open>buffers\<close> are the addresses
  that the allocator will give for files.
\<close>

definition empty_root :: "(nat \<Rightarrow> nat \<Rightarrow> u64) \<Rightarrow> fs_state" where
  "empty_root buffers =
     \<lparr>vnodes = [0 \<mapsto> \<lparr>vtype = NYAVNODE_DIR, vdata = Tmpfs_dir []\<rparr>], next_vnode = 1, buffer_at = buffers\<rparr>"

definition parse_tar_and_populate_tmpfs ::
  "memory \<Rightarrow> u64 \<Rightarrow> u64 \<Rightarrow> (string \<Rightarrow> char) \<Rightarrow> (nat \<Rightarrow> u8) \<Rightarrow> (nat \<Rightarrow> nat \<Rightarrow> u64) \<Rightarrow> u64 \<Rightarrow> u64
    \<Rightarrow> fs_state res option" where
  "parse_tar_and_populate_tmpfs m lit5 lit0 past fresh buffers address sz =
     tar_loop m lit5 lit0 past fresh 0 (address + sz - 1024) address (empty_root buffers)"

section \<open>Octal sizes\<close>

lemma getsize_loop_value:
  assumes "\<And>i. i < n \<Longrightarrow> m (inp + of_nat i) = of_nat (48 + ds ! i)" and "length ds = n" and "\<forall>d \<in> set ds. d < 8"
  shows "getsize_loop m inp count sz n = sz + count * of_nat (digits_value 8 ds)"
  using assms
proof (induction n arbitrary: count sz ds)
  case 0
  then show ?case by (simp add: digits_value_def)
next
  case (Suc n)
  obtain ds' d where ds: "ds = ds' @ [d]" "length ds' = n"
    using Suc.prems(2) by (metis append_butlast_last_id length_butlast diff_Suc_1 list.size(3) nat.distinct(1))
  have d8: "d < 8" using Suc.prems(3) ds by simp
  have "m (inp + of_nat n) = of_nat (48 + d)" using Suc.prems(1) [of n] ds by (simp add: nth_append)
  moreover have "scast (of_nat (48 + d) :: u8) - 48 = (of_nat d :: u32)"
  proof -
    have "d \<in> {0..<8}" using d8 by simp
    then have "d \<in> {0, 1, 2, 3, 4, 5, 6, 7}" by auto
    then show ?thesis by (elim insertE) simp_all
  qed
  ultimately have e: "scast (m (inp + of_nat n)) - 48 = (of_nat d :: u32)" by simp
  have "getsize_loop m inp (count * 8) (sz + of_nat d * count) n
      = sz + of_nat d * count + count * 8 * of_nat (digits_value 8 ds')"
  proof (rule Suc.IH)
    show "m (inp + of_nat i) = of_nat (48 + ds' ! i)" if "i < n" for i
      using Suc.prems(1) [of i] that ds by (simp add: nth_append)
  qed (use ds Suc.prems(3) in auto)
  then show ?case using e ds by (simp add: digits_value_def algebra_simps)
qed

text \<open>Eleven octal digits give back every size that fits into 32 bits.\<close>

lemma getsize_octal:
  assumes "bytes_at m inp (map (\<lambda>d. of_nat (48 + d)) (digit_list 8 11 n))" and "n < 2 ^ 32"
  shows "getsize m inp = of_nat n"
proof -
  have at: "m (inp + of_nat i) = xs ! i" if "bytes_at m inp xs" "i < length xs" for xs i
    using that
  proof (induction xs arbitrary: inp i)
    case (Cons x xs)
    then show ?case using Cons.IH [of "inp + 1" "i - 1"]
      by (cases i) (auto simp: add.assoc add.commute [of 1])
  qed simp
  have l: "length (digit_list 8 11 n) = 11" by (simp add: digit_list_def)
  have v: "digits_value 8 (digit_list 8 11 n) = n" using assms(2) by (simp add: digits_value_list)
  have "getsize_loop m inp 1 0 11 = 0 + 1 * of_nat (digits_value 8 (digit_list 8 11 n))"
    by (rule getsize_loop_value)
      (use at [OF assms(1)] l in \<open>auto simp: digit_list_def\<close>)
  then show ?thesis by (simp add: getsize_def v)
qed

section \<open>Archives\<close>

text \<open>
  What an archive says: a list of entries. A link's target includes its final NUL. An entry of any
  other type is skipped with its contents.
\<close>

datatype tar_item = Dir string | File string "u8 list" | Link string "u8 list" | Other nat

primrec contents_length :: "tar_item \<Rightarrow> nat" where
  "contents_length (Dir name) = 0"
| "contents_length (File name bytes) = length bytes"
| "contents_length (Link name target) = 0"
| "contents_length (Other n) = n"

text \<open>The header of an entry in memory, with the contents behind it.\<close>

fun type_field :: "memory \<Rightarrow> u64 \<Rightarrow> tar_item \<Rightarrow> bool" where
  "type_field m hdr (Dir name) \<longleftrightarrow> cstring m (hdr + hdr_type) [53] \<and> cstring m hdr (bytes_of name)"
| "type_field m hdr (File name bytes) \<longleftrightarrow> cstring m (hdr + hdr_type) [48] \<and> cstring m hdr (bytes_of name)
    \<and> bytes_at m (hdr + 512) bytes"
| "type_field m hdr (Link name target) \<longleftrightarrow> target \<noteq> [] \<and> cstring m (hdr + hdr_type) (50 # butlast target)
    \<and> last target = 0 \<and> cstring m hdr (bytes_of name)"
| "type_field m hdr (Other n) \<longleftrightarrow> (\<exists>xs. cstring m (hdr + hdr_type) xs \<and> xs \<noteq> [] \<and> hd xs \<notin> {48, 50, 53})"

definition header_at :: "memory \<Rightarrow> u64 \<Rightarrow> tar_item \<Rightarrow> bool" where
  "header_at m hdr e \<longleftrightarrow> type_field m hdr e \<and> contents_length e < 2 ^ 32
    \<and> bytes_at m (hdr + hdr_filesize) (map (\<lambda>d. of_nat (48 + d)) (digit_list 8 11 (contents_length e)))"

fun archive_at :: "memory \<Rightarrow> u64 \<Rightarrow> u64 \<Rightarrow> tar_item list \<Rightarrow> bool" where
  "archive_at m stop hdr [] \<longleftrightarrow> \<not> hdr < stop"
| "archive_at m stop hdr (e # es) \<longleftrightarrow> hdr < stop \<and> header_at m hdr e
    \<and> archive_at m stop (hdr + of_nat (512 + 512 * ((contents_length e + 511) div 512))) es"

text \<open>What the entries mean: each is created in turn.\<close>

primrec apply_item :: "(string \<Rightarrow> char) \<Rightarrow> (nat \<Rightarrow> u8) \<Rightarrow> nat \<Rightarrow> tar_item \<Rightarrow> fs_state \<Rightarrow> fs_state res option" where
  "apply_item past fresh roo (Dir name) fs = make_dir past roo name fs"
| "apply_item past fresh roo (File name bytes) fs = make_file past fresh roo name bytes fs"
| "apply_item past fresh roo (Link name target) fs = make_link past fresh roo name target fs"
| "apply_item past fresh roo (Other n) fs = Some (Inr fs)"

primrec apply_items :: "(string \<Rightarrow> char) \<Rightarrow> (nat \<Rightarrow> u8) \<Rightarrow> nat \<Rightarrow> tar_item list \<Rightarrow> fs_state \<Rightarrow> fs_state res option" where
  "apply_items past fresh roo [] fs = Some (Inr fs)"
| "apply_items past fresh roo (e # es) fs =
     orelse_run (apply_item past fresh roo e fs) (\<lambda>fs'. apply_items past fresh roo es fs')"

lemma align_up_512:
  assumes "k < 2 ^ 32"
  shows "align_up (of_nat k) 512 = of_nat (512 * ((k + 511) div 512))"
proof -
  have e: "(of_nat k :: u64) + 511 = of_nat (k + 511)" by simp
  have "align_up (of_nat k) 512 = of_nat (k + 511) AND NOT (mask 9)"
    by (simp add: align_up_def mask_eq_exp_minus_1 add.commute)
  also have "\<dots> = push_bit 9 (drop_bit 9 (of_nat (k + 511)))"
    by (rule bit_word_eqI) (auto simp: bit_simps)
  also have "\<dots> = of_nat (512 * ((k + 511) div 512))"
  proof -
    have u: "unat (of_nat (k + 511) :: u64) = k + 511" using assms by (simp only: unat_of_nat) simp
    have "unat (drop_bit 9 (of_nat (k + 511) :: u64)) = (k + 511) div 512"
      unfolding unat_drop_bit_eq u by (simp add: drop_bit_eq_div)
    then have "drop_bit 9 (of_nat (k + 511) :: u64) = of_nat ((k + 511) div 512)"
      by (metis of_nat_unat ucast_id)
    then show ?thesis by (simp add: push_bit_eq_mult)
  qed
  finally show ?thesis .
qed

lemma bytes_at_nth: "bytes_at m a xs \<Longrightarrow> i < length xs \<Longrightarrow> m (a + of_nat i) = xs ! i"
proof (induction xs arbitrary: a i)
  case (Cons x xs)
  then show ?case using Cons.IH [of "a + 1" "i - 1"]
    by (cases i) (auto simp: add.assoc add.commute [of 1])
qed simp

lemma read_bytes_at: "bytes_at m a xs \<Longrightarrow> read_bytes m a (length xs) = xs"
  by (rule nth_equalityI) (simp_all add: read_bytes_def bytes_at_nth)

text \<open>Memory is finite, so a string in it is shorter than the address space.\<close>

lemma cstring_length:
  assumes "cstring m a xs"
  shows "length xs < 2 ^ 64"
proof (rule ccontr)
  assume n: "\<not> length xs < 2 ^ 64"
  define i where "i = length xs mod 2 ^ 64"
  have i: "i < length xs" using n mod_less_divisor [of "2 ^ 64" "length xs"] by (simp add: i_def)
  have b: "bytes_at m a (xs @ [0])" "0 \<notin> set xs" using assms by (simp_all add: cstring_def)
  have "(of_nat i :: u64) = of_nat (length xs)"
    by (simp add: i_def word_unat_eq_iff unat_of_nat)
  then have "xs ! i = 0"
    using bytes_at_nth [OF b(1), of i] bytes_at_nth [OF b(1), of "length xs"] i by (simp add: nth_append)
  then show False using b(2) i by (metis nth_mem)
qed

lemma string_at_bytes_of:
  assumes "cstring m a (bytes_of name)"
  shows "string_at m a = Some name"
proof -
  note l = length_bytes_of [of name]
  have b: "bytes_at m a (bytes_of name)" using assms(1) by (simp add: cstring_def bytes_at_append)
  have "char_of (unat (m (a + of_nat i))) = name ! i" if "i < length name" for i
    using bytes_at_nth [OF b, of i] that by (simp add: l bytes_of_def unat_of_nat)
  then have "map (\<lambda>i. char_of (unat (m (a + of_nat i)))) [0..<length name] = name"
    by (intro nth_equalityI) simp_all
  then show ?thesis using strlen_cstring [OF assms(1)] cstring_length [OF assms(1)]
    by (simp add: string_at_def l unat_of_nat)
qed

text \<open>The type tests compare the whole string that starts in the type field.\<close>

lemma type_matches_cstring:
  assumes "cstring m (hdr + hdr_type) xs" and "cstring m lit [c]" and "xs \<noteq> []"
  shows "type_matches m hdr lit = Some (xs = [c])"
proof -
  have l: "unat (of_nat (length xs) :: u64) = length xs" using cstring_length [OF assms(1)] by (simp add: unat_of_nat)
  have "strncmp m (hdr + hdr_type) lit (of_nat (length xs)) = 0 \<longleftrightarrow> take (length xs) xs = take (length xs) [c]"
    unfolding strncmp_def l by (rule strncmp_0 [OF assms(1,2)])
  also have "\<dots> \<longleftrightarrow> xs = [c]" using assms(3) by (cases xs) auto
  finally show ?thesis by (simp add: type_matches_def strlen_cstring [OF assms(1)])
qed

lemma tar_entry_item:
  assumes "header_at m hdr e" and lits: "cstring m lit5 [53]" "cstring m lit0 [48]"
  shows "tar_entry m lit5 lit0 past fresh roo hdr fs = apply_item past fresh roo e fs"
proof -
  have t: "type_field m hdr e" and sz: "unat (getsize m (hdr + hdr_filesize)) = contents_length e"
    using assms(1) getsize_octal by (auto simp: header_at_def unat_of_nat)
  show ?thesis
  proof (cases e)
    case (Dir name)
    then have c: "cstring m (hdr + hdr_type) [53]" "cstring m hdr (bytes_of name)" using t by auto
    show ?thesis using type_matches_cstring [OF c(1) lits(1)]
      by (simp add: tar_entry_def Let_def Dir string_at_bytes_of [OF c(2)])
  next
    case (File name bytes)
    then have c: "cstring m (hdr + hdr_type) [48]" "cstring m hdr (bytes_of name)" "bytes_at m (hdr + 512) bytes"
      using t by auto
    show ?thesis using type_matches_cstring [OF c(1) lits(1)] type_matches_cstring [OF c(1) lits(2)]
      by (simp add: tar_entry_def Let_def File string_at_bytes_of [OF c(2)] sz read_bytes_at [OF c(3)])
  next
    case (Link name target)
    then have c: "cstring m (hdr + hdr_type) (50 # butlast target)" "cstring m hdr (bytes_of name)"
      "target \<noteq> []" "last target = 0" using t by auto
    have ct: "cstring m (hdr + hdr_link) (butlast target)" using c(1) by (simp add: add.assoc)
    have tt: "butlast target @ [0] = target" using c(3,4) by (metis append_butlast_last_id)
    then have bt: "bytes_at m (hdr + hdr_link) target" using ct by (simp add: cstring_def)
    have n: "strlen m (hdr + hdr_link) = Some (of_nat (length target - 1))"
      using strlen_cstring [OF ct] by simp
    have "length target - 1 < 2 ^ 64 - 1" using cstring_length [OF c(1)] by simp
    moreover have "(of_nat (length target - 1) + 1 :: u64) = of_nat (length target)"
      using c(3) by (cases target) simp_all
    ultimately have "unat (of_nat (length target - 1) + 1 :: u64) = length target"
      using c(3) by (simp only: unat_of_nat) simp
    then show ?thesis
      using type_matches_cstring [OF c(1) lits(1)] type_matches_cstring [OF c(1) lits(2)] c(1)
      by (simp add: tar_entry_def Let_def Link string_at_bytes_of [OF c(2)] n read_bytes_at [OF bt])
  next
    case (Other k)
    then obtain xs where x: "cstring m (hdr + hdr_type) xs" "xs \<noteq> []" "hd xs \<notin> {48, 50, 53}" using t by auto
    then have "m (hdr + hdr_type) \<noteq> 50" "xs \<noteq> [53]" "xs \<noteq> [48]" by (cases xs; auto)+
    then show ?thesis
      using type_matches_cstring [OF x(1) lits(1) x(2)] type_matches_cstring [OF x(1) lits(2) x(2)]
      by (simp add: tar_entry_def Let_def Other)
  qed
qed

lemma next_header_item:
  assumes "header_at m hdr e"
  shows "next_header m hdr = hdr + of_nat (512 + 512 * ((contents_length e + 511) div 512))"
proof -
  have g: "getsize m (hdr + hdr_filesize) = of_nat (contents_length e)" and l: "contents_length e < 2 ^ 32"
    using assms getsize_octal by (auto simp: header_at_def)
  have "(ucast (of_nat (contents_length e) :: u32) :: u64) = of_nat (contents_length e)"
    using l by (simp add: word_unat_eq_iff unat_of_nat unsigned_ucast_eq take_bit_nat_eq_self)
  then show ?thesis using align_up_512 [OF l] by (simp add: next_header_def g algebra_simps)
qed

text \<open>The loader does what the entries of the archive say.\<close>

lemma tar_loop_items:
  assumes "archive_at m stop hdr es" and lits: "cstring m lit5 [53]" "cstring m lit0 [48]"
  shows "tar_loop m lit5 lit0 past fresh roo stop hdr fs = apply_items past fresh roo es fs"
  using assms(1)
proof (induction es arbitrary: hdr fs)
  case Nil
  then show ?case by (subst tar_loop.simps) simp
next
  case (Cons e es)
  then have "header_at m hdr e" by simp
  then show ?case using Cons.prems Cons.IH
    by (subst tar_loop.simps)
      (auto simp: tar_entry_item [OF _ lits] next_header_item orelse_run_def split: option.splits sum.splits)
qed

end
