(* ===== verification/Filesystem_Properties.thy ===== *)
theory Filesystem_Properties
  imports Tar
begin

text \<open>
  The properties of the file system: path lookup, creation, reading and writing, symbolic links,
  file descriptors, and the archive loader.
\<close>

section \<open>A small file system\<close>

text \<open>The root 0 with a directory \<open>usr\<close> (1) that holds the file \<open>a\<close> (2) and a link \<open>l\<close> (3) to itself.\<close>

definition demo_fs :: fs_state where
  "demo_fs = \<lparr>vnodes =
     [0 \<mapsto> \<lparr>vtype = NYAVNODE_DIR, vdata = Tmpfs_dir [\<lparr>de_name = ''usr'', ptr_to_vnode = 1\<rparr>]\<rparr>,
      1 \<mapsto> \<lparr>vtype = NYAVNODE_DIR, vdata = Tmpfs_dir [\<lparr>de_name = ''l'', ptr_to_vnode = 3\<rparr>, \<lparr>de_name = ''a'', ptr_to_vnode = 2\<rparr>]\<rparr>,
      2 \<mapsto> \<lparr>vtype = NYAVNODE_FILE, vdata = Tmpfs_node [104, 105]\<rparr>,
      3 \<mapsto> \<lparr>vtype = NYAVNODE_SYMLINK, vdata = Tmpfs_node [108, 0]\<rparr>], next_vnode = 4,
      buffer_at = \<lambda>_ _. 0x4000\<rparr>"

lemma demo_buffers: "buffer_at demo_fs v n = 0x4000"
  by (simp add: demo_fs_def)

lemma demo_fs_ok: "fs_ok demo_fs"
  by (auto simp: fs_ok_def demo_fs_def kind_ok_def split: if_splits)

lemma demo_fs_facts:
  "is_node demo_fs 0" "is_node demo_fs 1" "is_dir demo_fs 0" "is_dir demo_fs 1"
  "child demo_fs 0 ''usr'' = Some 1" "child demo_fs 1 ''a'' = Some 2" "child demo_fs 1 ''l'' = Some 3"
  "child demo_fs 1 ''b'' = None"
  "vnodes demo_fs 2 = Some \<lparr>vtype = NYAVNODE_FILE, vdata = Tmpfs_node [104, 105]\<rparr>"
  "vnodes demo_fs 3 = Some \<lparr>vtype = NYAVNODE_SYMLINK, vdata = Tmpfs_node [108, 0]\<rparr>"
  by (simp_all add: demo_fs_def is_node_def is_dir_def child_def)

lemma demo_link_target:
  "symlink_target \<lparr>vtype = NYAVNODE_SYMLINK, vdata = Tmpfs_node [108, 0]\<rparr> = Inr ''l''"
  by code_simp

lemmas demo_fs_simps = demo_link_target demo_fs_ok demo_fs_facts demo_fs_facts [unfolded One_nat_def] path_ok_def start_of_def

lemma demo_components:
  "components ''/usr//a'' = [''usr''] @ [''a'']" "components ''l'' = [] @ [''l'']"
  "components ''/usr/l/x'' = [''usr''] @ [''l''] @ [''x'']" "components ''usr/b'' = [''usr''] @ [''b'']"
  by (simp_all add: components_def parts_Cons)

section \<open>Path lookup\<close>

text \<open>
  C16. Looking up a path whose last component is in a directory reached through directories, and is
  not a symbolic link, gives exactly the entry of that name: its vnode, or NULL if there is none,
  for absolute and relative paths and however many slashes separate the components.
\<close>

theorem path_lookup_correct:
  assumes "fs_ok fs" and "path_ok past pth" and "start_of rt cur pth = Some st" and "is_node fs st"
    and "components pth = cs @ [c]" and "descend (child fs) st cs = Some d" and "is_dir fs d"
    and "\<And>w wn. child fs d c = Some w \<Longrightarrow> vnodes fs w = Some wn \<Longrightarrow> vtype wn \<noteq> NYAVNODE_SYMLINK"
  shows "vnode_path_lookup fs rt past cur pth False False = Some (Inr (child fs d c, None))"
  using path_lookup_done [OF assms(2,3)] resolve_last [OF assms(1,4,6,7,8)] assms(5) by simp

theorem path_lookup_correct_instance:
  "vnode_path_lookup demo_fs (Some 0) (\<lambda>_. NUL) 1 ''/usr//a'' False False = Some (Inr (Some 2, None))"
proof -
  have "vtype wn \<noteq> NYAVNODE_SYMLINK" if "child demo_fs 1 ''a'' = Some w" "vnodes demo_fs w = Some wn" for w wn
    using that by (auto simp: demo_fs_simps)
  then show ?thesis
    using path_lookup_correct [of demo_fs "\<lambda>_. NUL" "''/usr//a''" "Some 0" 1 0 "[''usr'']" "''a''" 1]
    by (simp add: demo_fs_simps demo_components)
qed

text \<open>
  C17. A symbolic link is followed from the directory that holds it, and whatever the path has
  behind the link is lost: the lookup of the whole path is the lookup of the link's target alone.
\<close>

theorem symlink_drops_rest:
  assumes "fs_ok fs" and "path_ok past pth" and "start_of rt cur pth = Some st" and "is_node fs st"
    and "components pth = cs @ c # rest" and "descend (child fs) st cs = Some d" and "is_dir fs d"
    and "child fs d c = Some w" and "vnodes fs w = Some wn" and "vtype wn = NYAVNODE_SYMLINK"
    and "symlink_target wn = Inr t"
  shows "vnode_path_lookup fs rt past cur pth False False = vnode_path_lookup fs rt past d t False False"
  using path_lookup_follow [OF assms(2,3)] resolve_link [OF assms(1,4,6-11)] assms(5) by simp

theorem symlink_drops_rest_instance:
  "vnode_path_lookup demo_fs (Some 0) (\<lambda>_. NUL) 0 ''/usr/l/x'' False False
   = vnode_path_lookup demo_fs (Some 0) (\<lambda>_. NUL) 1 ''l'' False False"
  using symlink_drops_rest [of demo_fs "\<lambda>_. NUL" "''/usr/l/x''" "Some 0" 0 0 "[''usr'']" "''l''" "[''x'']" 1 3
      "\<lparr>vtype = NYAVNODE_SYMLINK, vdata = Tmpfs_node [108, 0]\<rparr>" "''l''"]
  by (simp add: demo_fs_simps demo_components)

text \<open>
  C18. A symbolic link whose target is its own name makes the lookup recurse for ever: no result,
  not even an error, is ever returned.
\<close>

theorem self_link_diverges:
  assumes "fs_ok fs" and "path_ok past t" and "start_of rt d t = Some d" and "components t = [c]"
    and "is_dir fs d" and "child fs d c = Some w" and "vnodes fs w = Some wn"
    and "vtype wn = NYAVNODE_SYMLINK" and "symlink_target wn = Inr t"
  shows "vnode_path_lookup fs rt past d t False False = None"
proof (rule ccontr)
  assume "vnode_path_lookup fs rt past d t False False \<noteq> None"
  then obtain y where y: "vnode_path_lookup fs rt past d t False False = Some y" by blast
  have n: "is_node fs d" using assms(5) by (auto simp: is_dir_def is_node_def)
  have walk: "walk_parts fs (past t) (work_with_me t) (length t) False False 0 d = Inr (Follow d t)"
  proof -
    have "resolve fs False False d ([] @ c # []) = Inr (Follow d t)"
      by (rule resolve_link [OF assms(1) n _ assms(5-9)]) simp
    then show ?thesis by (simp add: walk_of_path [OF assms(2)] assms(4) del: resolve.simps)
  qed
  define P where "P = (\<lambda>f rt' p cur pth gp want (z :: (nat option \<times> string option) res).
    \<not> (f = fs \<and> rt' = rt \<and> p = past \<and> cur = d \<and> pth = t \<and> \<not> gp \<and> \<not> want))"
  have "P fs rt past d t False False y"
  proof (rule vnode_path_lookup.raw_induct [where P = P, OF _ y])
    fix rec f rt' p cur pth gp want z
    assume IH: "\<And>f rt' p cur pth gp want z. rec f rt' p cur pth gp want = Some z \<Longrightarrow> P f rt' p cur pth gp want z"
      and run: "(case if pth \<noteq> [] \<and> hd pth = CHR ''/'' then rt' else Some cur of None \<Rightarrow> Some (Inl PageFault)
        | Some start \<Rightarrow>
            (case walk_parts f (p pth) (work_with_me pth) (length pth) gp want 0 start of
               Inl e \<Rightarrow> Some (Inl e)
             | Inr (Done r c) \<Rightarrow> Some (Inr (r, c))
             | Inr (Follow d t) \<Rightarrow> rec f rt' p d t False False)) = Some z"
    show "P f rt' p cur pth gp want z"
      unfolding P_def
    proof (rule notI)
      assume a: "f = fs \<and> rt' = rt \<and> p = past \<and> cur = d \<and> pth = t \<and> \<not> gp \<and> \<not> want"
      then have e: "f = fs" "rt' = rt" "p = past" "cur = d" "pth = t" "gp = False" by blast+
      have "rec fs rt past d t False False = Some z"
        using run walk assms(3) a unfolding start_of_def e by simp
      then show False using IH unfolding P_def by blast
    qed
  qed
  then show False by (simp add: P_def)
qed

theorem self_link_diverges_instance:
  "vnode_path_lookup demo_fs (Some 0) (\<lambda>_. NUL) 1 ''l'' False False = None"
  using self_link_diverges [of demo_fs "\<lambda>_. NUL" "''l''" "Some 0" 1 "''l''" 3
      "\<lparr>vtype = NYAVNODE_SYMLINK, vdata = Tmpfs_node [108, 0]\<rparr>"]
  by (simp add: demo_fs_simps demo_components)

section \<open>Creation\<close>

text \<open>What creating by path does to the tree, from the contract of the vnode operations.\<close>

lemma vfs_create_new:
  assumes "fs_ok fs" and "path_ok past pth" and "start_of rt cur pth = Some st" and "is_node fs st"
    and "components pth = cs @ [c]" and "descend (child fs) st cs = Some d" and "is_dir fs d"
    and new: "ty = 0 \<and> new = \<lparr>vtype = NYAVNODE_DIR, vdata = Tmpfs_dir []\<rparr>
      \<or> ty = 1 \<and> new = \<lparr>vtype = NYAVNODE_FILE, vdata = Tmpfs_node []\<rparr>"
  shows "\<exists>w fs'. vfs_create fs rt past cur pth ty = Some (Inr (0, Some w, fs')) \<and> fs_ok fs'
    \<and> vnodes fs w = None \<and> vnodes fs' w = Some new
    \<and> descend (child fs') st (cs @ [c]) = Some w
    \<and> (\<forall>u. u \<noteq> d \<longrightarrow> u \<noteq> w \<longrightarrow> vnodes fs' u = vnodes fs u)
    \<and> descend (child fs') st cs = Some d \<and> is_dir fs' d \<and> child fs' d c = Some w \<and> is_node fs' st"
proof -
  have ne: "pth \<noteq> []" using assms(5) by (auto simp: components_def)
  have lk: "vnode_path_lookup fs rt past cur pth True True = Some (Inr (Some d, Some c))"
    using path_lookup_done [OF assms(2,3)] resolve_parent [OF assms(1,4,6,7)] assms(5) by simp
  have k: "kind_ok new" "\<forall>es. vdata new = Tmpfs_dir es \<longrightarrow> es = []" using new by (auto simp: kind_ok_def)
  obtain fs' where a: "add_vnode fs d c new = Inr (0, Some (next_vnode fs), fs')" "fs_ok fs'"
    "vnodes fs' (next_vnode fs) = Some new"
    "\<And>u. u \<noteq> next_vnode fs \<Longrightarrow> is_dir fs' u = is_dir fs u"
    "\<And>u m. u \<noteq> next_vnode fs \<Longrightarrow> child fs' u m = (if u = d \<and> m = c then Some (next_vnode fs) else child fs u m)"
    "\<And>u. u \<noteq> next_vnode fs \<Longrightarrow> u \<noteq> d \<Longrightarrow> vnodes fs' u = vnodes fs u"
    using add_vnode_ok [OF assms(1,7) k, of c] by blast
  have fresh: "vnodes fs (next_vnode fs) = None"
    using assms(1) by (cases "vnodes fs (next_vnode fs)") (auto simp: fs_ok_def)
  have dn: "d \<noteq> next_vnode fs" using fresh assms(7) by (auto simp: is_dir_def)
  have run: "vfs_create fs rt past cur pth ty = Some (Inr (0, Some (next_vnode fs), fs'))"
    using new a(1) by (auto simp: vfs_create_def ne lk vnode_mkdir_def vnode_create_def)
  have mk: "vnode_mkdir fs d c = Inr (0, Some (next_vnode fs), fs') \<or> vnode_create fs d c = Inr (0, Some (next_vnode fs), fs')"
    using new a(1) by (auto simp: vnode_mkdir_def vnode_create_def)
  have ds: "descend (child fs') st cs = Some d"
    using mk mkdir_space.descend_to_parent [OF assms(1,4,6) _ assms(7)]
      create_space.descend_to_parent [OF assms(1,4,6) _ assms(7)] by blast
  have "st \<noteq> next_vnode fs" using assms(4) fresh by (auto simp: is_node_def)
  then have "is_node fs' st" using a(4,6) assms(4,7) dn by (cases "st = d") (auto simp: is_node_def is_dir_def)
  moreover have "child fs' d c = Some (next_vnode fs)" using a(5) [OF dn] by simp
  ultimately show ?thesis using run a fresh ds dn assms(7) by (auto simp: descend_append)
qed

text \<open>
  C19. Creating a directory or a file by its path succeeds if all but the last component of the path
  lead to a directory (and the path has no trailing slash behind whose copy in memory a NUL
  happens to follow, which the lookup mistakes for another component); the
  new vnode is fresh and empty, looking the same path up afterwards finds it, no vnode but the
  parent changes, and the file system stays well-formed.
\<close>

theorem create_then_lookup:
  assumes "fs_ok fs" and "path_ok past pth" and "start_of rt cur pth = Some st" and "is_node fs st"
    and "components pth = cs @ [c]" and "descend (child fs) st cs = Some d" and "is_dir fs d"
    and "ty = 0 \<or> ty = 1"
  shows "\<exists>w fs'. vfs_create fs rt past cur pth ty = Some (Inr (0, Some w, fs')) \<and> fs_ok fs'
    \<and> vnodes fs w = None
    \<and> vnodes fs' w = Some (if ty = 0 then \<lparr>vtype = NYAVNODE_DIR, vdata = Tmpfs_dir []\<rparr>
        else \<lparr>vtype = NYAVNODE_FILE, vdata = Tmpfs_node []\<rparr>)
    \<and> vnode_path_lookup fs' rt past cur pth False False = Some (Inr (Some w, None))
    \<and> (\<forall>u. u \<noteq> d \<longrightarrow> u \<noteq> w \<longrightarrow> vnodes fs' u = vnodes fs u)"
proof -
  define new where "new = (if ty = 0 then \<lparr>vtype = NYAVNODE_DIR, vdata = Tmpfs_dir []\<rparr>
    else \<lparr>vtype = NYAVNODE_FILE, vdata = Tmpfs_node []\<rparr>)"
  have "ty = 0 \<and> new = \<lparr>vtype = NYAVNODE_DIR, vdata = Tmpfs_dir []\<rparr>
      \<or> ty = 1 \<and> new = \<lparr>vtype = NYAVNODE_FILE, vdata = Tmpfs_node []\<rparr>" using assms(8) by (auto simp: new_def)
  from vfs_create_new [OF assms(1-7) this] obtain w fs' where
    run: "vfs_create fs rt past cur pth ty = Some (Inr (0, Some w, fs'))" and f: "fs_ok fs'" "vnodes fs w = None"
      "vnodes fs' w = Some new" "\<forall>u. u \<noteq> d \<longrightarrow> u \<noteq> w \<longrightarrow> vnodes fs' u = vnodes fs u"
    and d: "descend (child fs') st cs = Some d" "is_dir fs' d" "child fs' d c = Some w" "is_node fs' st" by blast
  have nl: "vtype xn \<noteq> NYAVNODE_SYMLINK" if "child fs' d c = Some x" "vnodes fs' x = Some xn" for x xn
    using that d(3) f(3) by (auto simp: new_def)
  have "resolve fs' False False st (cs @ [c])
      = Inr (Done (child fs' d c) (if child fs' d c = None \<and> False then Some c else None))"
    by (rule resolve_last [OF f(1) d(4,1,2)]) (rule nl)
  then have "resolve fs' False False st (cs @ [c]) = Inr (Done (Some w) None)" using d(3) by simp
  then have "vnode_path_lookup fs' rt past cur pth False False = Some (Inr (Some w, None))"
    using path_lookup_done [OF assms(2,3)] assms(5) by simp
  then show ?thesis using run f unfolding new_def by blast
qed

theorem create_then_lookup_instance:
  "\<exists>w fs'. vfs_create demo_fs (Some 0) (\<lambda>_. NUL) 0 ''usr/b'' 1 = Some (Inr (0, Some w, fs'))
    \<and> vnode_path_lookup fs' (Some 0) (\<lambda>_. NUL) 0 ''usr/b'' False False = Some (Inr (Some w, None))"
  using create_then_lookup [of demo_fs "\<lambda>_. NUL" "''usr/b''" "Some 0" 0 0 "[''usr'']" "''b''" 1 1]
  by (simp add: demo_fs_simps demo_components) blast

section \<open>Reading and writing\<close>

text \<open>
  C20. A write of at least one byte to a regular file, at an offset such that the file stays below
  2 GiB and its buffer ends below the top of the address space, succeeds, grows the file if needed,
  and reading the same range afterwards returns exactly the bytes written; no other vnode changes,
  and of the old contents only the written range does. (A write of no bytes to an empty file leaves
  it empty, and then reading fails with -1; from 2 GiB on the count no longer fits the \<open>int\<close>
  result.)
\<close>

theorem read_after_write:
  assumes "vnodes fs v = Some vn" and "vtype vn = NYAVNODE_FILE" and "vdata vn = Tmpfs_node data"
    and "length buf = unat n" and "n \<noteq> 0" and "length data < 2 ^ 31" and "unat n + unat off < 2 ^ 31"
    and "len' = max (length data) (unat off + unat n)" and "unat (buffer_at fs v len') + len' < 2 ^ 64"
  shows "\<exists>fs'. vnode_rdwr fresh fs v n off buf 1 = Inr (0, [], fs')
    \<and> vnode_rdwr fresh fs' v n off [] 0 = Inr (int (length buf), buf, fs')
    \<and> (\<forall>u. u \<noteq> v \<longrightarrow> vnodes fs' u = vnodes fs u)
    \<and> (\<exists>data'. vnodes fs' v = Some (vn\<lparr>vdata := Tmpfs_node data'\<rparr>)
        \<and> length data' = max (length data) (unat off + unat n)
        \<and> (\<forall>i < length data. i < unat off \<or> unat off + unat n \<le> i \<longrightarrow> data' ! i = data ! i))"
proof -
  have small: "unat n + unat off < 2 ^ 64" using assms(7) by simp
  obtain data' where w: "file_write fresh data buf n off = Inr data'"
    "length data' = max (length data) (unat off + unat n)"
    "\<And>i. unat off \<le> i \<Longrightarrow> i < unat off + unat n \<Longrightarrow> data' ! i = buf ! (i - unat off)"
    "\<And>i. i < length data \<Longrightarrow> i < unat off \<or> unat off + unat n \<le> i \<Longrightarrow> data' ! i = data ! i"
  proof (cases "data = []")
    case True
    show ?thesis
      by (rule that [OF file_write_first [OF small assms(4) True]])
        (use True assms(4) in \<open>auto simp: nth_append\<close>)
  next
    case False
    then obtain data' where d: "file_write fresh data buf n off = Inr data'"
      "length data' = max (length data) (unat off + unat n)"
      "\<forall>i < length data'. data' ! i = (if unat off \<le> i \<and> i < unat off + unat n then buf ! (i - unat off)
         else if i < length data then data ! i else fresh i)"
      using file_write_at [OF small assms(4)] by blast
    show ?thesis by (rule that [OF d(1,2)]) (use d in auto)
  qed
  define fs' where "fs' = fs\<lparr>vnodes := (vnodes fs)(v \<mapsto> vn\<lparr>vdata := Tmpfs_node data'\<rparr>)\<rparr>"
  have run: "vnode_rdwr fresh fs v n off buf 1 = Inr (0, [], fs')"
    using assms(1-3) w(1) by (simp add: vnode_rdwr_def fs'_def)
  have n0: "0 < unat n" using assms(5) by (simp add: unat_gt_0)
  have "data' \<noteq> []" using w(2) n0 by auto
  moreover have "length data' < 2 ^ 31" using w(2) assms(6,7) by simp
  moreover have "range_ok (buffer_at fs v (length data')) data' n off"
    using w(2) assms(8,9) by (simp add: range_ok_def max_def split: if_splits)
  ultimately have "file_read (buffer_at fs v (length data')) data' n off
      = Inr (int (min (unat n) (length data' - unat off)), take (unat n) (drop (unat off) data'))"
    by (rule file_read_bytes)
  moreover have "min (unat n) (length data' - unat off) = length buf" using w(2) assms(4) by auto
  moreover have "take (unat n) (drop (unat off) data') = buf"
    by (rule nth_equalityI) (use w(2,3) assms(4) in auto)
  ultimately have "vnode_rdwr fresh fs' v n off [] 0 = Inr (int (length buf), buf, fs')"
    using assms(1,2) by (simp add: vnode_rdwr_def fs'_def)
  then show ?thesis using run w(2,4) by (auto simp: fs'_def)
qed

theorem read_after_write_instance:
  "\<exists>fs'. vnode_rdwr (\<lambda>_. 0) demo_fs 2 3 1 [1, 2, 3] 1 = Inr (0, [], fs')
    \<and> vnode_rdwr (\<lambda>_. 0) fs' 2 3 1 [] 0 = Inr (3, [1, 2, 3], fs')"
proof -
  have p: "vnodes demo_fs 2 = Some \<lparr>vtype = NYAVNODE_FILE, vdata = Tmpfs_node [104, 105]\<rparr>"
    "unat (buffer_at demo_fs 2 4) + 4 < 2 ^ 64"
    by (simp_all add: demo_fs_facts demo_buffers)
  have w: "length [1, 2, 3 :: u8] = unat (3 :: u64)" "(3 :: u64) \<noteq> 0" "length [104, 105 :: u8] < 2 ^ 31"
    "unat (3 :: u64) + unat (1 :: u64) < 2 ^ 31" "(4 :: nat) = max (length [104, 105 :: u8]) (unat (1 :: u64) + unat (3 :: u64))"
    by simp_all
  obtain fs' where "vnode_rdwr (\<lambda>_. 0) demo_fs 2 3 1 [1, 2, 3] 1 = Inr (0, [], fs')"
    "vnode_rdwr (\<lambda>_. 0) fs' 2 3 1 [] 0 = Inr (int (length [1, 2, 3 :: u8]), [1, 2, 3], fs')"
    using read_after_write [OF p(1) vnode.select_convs(1) vnode.select_convs(2) w p(2), of "\<lambda>_. 0"]
    by (elim exE conjE) (rule that)
  then show ?thesis by (intro exI [of _ fs']) simp
qed

section \<open>What can happen to the file system\<close>

text \<open>The states that the vnode operations reach from the empty root; only files become links.\<close>

inductive fs_reach :: "fs_state \<Rightarrow> bool" where
  reach_root: "fs_reach (empty_root buffers)"
| reach_mkdir: "fs_reach fs \<Longrightarrow> vnode_mkdir fs v n = Inr (r, w, fs') \<Longrightarrow> fs_reach fs'"
| reach_create: "fs_reach fs \<Longrightarrow> vnode_create fs v n = Inr (r, w, fs') \<Longrightarrow> fs_reach fs'"
| reach_rdwr: "fs_reach fs \<Longrightarrow> vnode_rdwr fresh fs v n off buf rw = Inr (r, bs, fs') \<Longrightarrow> fs_reach fs'"
| reach_link: "fs_reach fs \<Longrightarrow> vnodes fs v = Some vn \<Longrightarrow> vtype vn = NYAVNODE_FILE \<Longrightarrow>
    fs_reach (set_type v NYAVNODE_SYMLINK fs)"

lemma add_vnode_keeps:
  assumes "fs_ok fs" and "add_vnode fs v n new = Inr (r, w, fs')"
    and "kind_ok new" and "\<forall>es. vdata new = Tmpfs_dir es \<longrightarrow> es = []"
  shows "fs_ok fs'"
proof (cases "is_dir fs v")
  case True
  then show ?thesis using add_vnode_ok [OF assms(1) True assms(3,4), of n] assms(2) by auto
next
  case False
  have "vnodes fs v \<noteq> None" using assms(2) by (auto simp: add_vnode_def split: option.splits)
  then show ?thesis using add_vnode_not_dir [OF _ False] assms(1,2) by auto
qed

lemma same_shape_ok:
  assumes "fs_ok fs" and "vnodes fs v = Some vn" and "kind_ok vn'"
    and "vdata vn' = vdata vn \<or> (\<forall>es. vdata vn' \<noteq> Tmpfs_dir es)"
  shows "fs_ok (fs\<lparr>vnodes := (vnodes fs)(v \<mapsto> vn')\<rparr>)"
  using assms by (fastforce simp: fs_ok_def)

lemma rdwr_keeps:
  assumes "fs_ok fs" and "vnode_rdwr fresh fs v n off buf rw = Inr (r, bs, fs')"
  shows "fs_ok fs'"
proof -
  obtain vn where vn: "vnodes fs v = Some vn" using assms(2) by (auto simp: vnode_rdwr_def split: option.splits)
  have "fs' = fs \<or> vtype vn = NYAVNODE_FILE \<and> (\<exists>d. fs' = fs\<lparr>vnodes := (vnodes fs)(v \<mapsto> vn\<lparr>vdata := Tmpfs_node d\<rparr>)\<rparr>)"
    using assms(2) vn by (auto simp: vnode_rdwr_def andthen_eq_Inr split: if_splits vnode_data.splits prod.splits)
  then show ?thesis
    using assms(1) same_shape_ok [OF assms(1) vn] by (auto simp: kind_ok_def)
qed

lemma set_link_keeps:
  assumes "fs_ok fs" and "vnodes fs v = Some vn" and "vtype vn = NYAVNODE_FILE"
  shows "fs_ok (set_type v NYAVNODE_SYMLINK fs)"
proof -
  have "kind_ok vn" using assms(1,2) by (simp add: fs_ok_def)
  then have "kind_ok (vn\<lparr>vtype := NYAVNODE_SYMLINK\<rparr>)" using assms(3) by (simp add: kind_ok_def)
  then show ?thesis using same_shape_ok [OF assms(1,2)] assms(2) by (simp add: set_type_def)
qed

lemma empty_root_ok: "fs_ok (empty_root buffers)"
  by (auto simp: fs_ok_def empty_root_def kind_ok_def split: if_splits)

lemma fs_reach_ok: "fs_reach fs \<Longrightarrow> fs_ok fs"
proof (induction rule: fs_reach.induct)
  case reach_root
  then show ?case by (rule empty_root_ok)
next
  case (reach_mkdir fs v n r w fs')
  then show ?case using add_vnode_keeps [of fs v n] by (auto simp: vnode_mkdir_def kind_ok_def)
next
  case (reach_create fs v n r w fs')
  then show ?case using add_vnode_keeps [of fs v n] by (auto simp: vnode_create_def kind_ok_def)
next
  case (reach_rdwr fs fresh v n off buf rw r bs fs')
  then show ?case using rdwr_keeps by blast
next
  case (reach_link fs v vn)
  then show ?case using set_link_keeps by blast
qed

text \<open>Reading \<open>n\<close> bytes at \<open>off\<close> from \<open>v\<close>, if it is a file, computes no pointer that wraps around.\<close>

definition reads_in_range :: "fs_state \<Rightarrow> nat \<Rightarrow> u64 \<Rightarrow> u64 \<Rightarrow> bool" where
  "reads_in_range fs v n off \<longleftrightarrow>
     (\<forall>vn data. vnodes fs v = Some vn \<longrightarrow> vdata vn = Tmpfs_node data \<longrightarrow>
        range_ok (buffer_at fs v (length data)) data n off)"

lemma file_read_defined: "range_ok p data n off \<Longrightarrow> \<exists>r. file_read p data n off = Inr r"
  using file_read_range [of data p n off] by (cases "data = []") (auto simp: file_read_def)

lemma fs_operations_defined_parts:
  assumes "fs_reach fs" and "is_node fs v"
  shows "fs_ok fs" and "\<exists>r. vnode_lookup fs v name = Inr r" and "\<exists>r. vnode_mkdir fs v name = Inr r"
    and "\<exists>r. vnode_create fs v name = Inr r"
    and "reads_in_range fs v n off \<Longrightarrow> \<exists>r. vnode_rdwr fresh fs v n off [] 0 = Inr r"
    and "\<And>w. child fs v name = Some w \<Longrightarrow> v < w \<and> is_node fs w"
proof -
  show ok: "fs_ok fs" using fs_reach_ok [OF assms(1)] .
  obtain vn where vn: "vnodes fs v = Some vn" using assms(2) by (auto simp: is_node_def)
  have k: "vtype vn = NYAVNODE_DIR \<longleftrightarrow> (\<exists>es. vdata vn = Tmpfs_dir es)" using ok vn by (simp add: fs_ok_def kind_ok_def)
  show "\<exists>r. vnode_lookup fs v name = Inr r" using mkdir_space.lookup_law [OF ok assms(2)] by blast
  have "\<exists>r. add_vnode fs v name new = Inr r" for new
    using vn k by (cases "vdata vn") (auto simp: add_vnode_def Let_def)
  then show "\<exists>r. vnode_mkdir fs v name = Inr r" "\<exists>r. vnode_create fs v name = Inr r"
    by (simp_all add: vnode_mkdir_def vnode_create_def)
  show "\<exists>r. vnode_rdwr fresh fs v n off [] 0 = Inr r" if rng: "reads_in_range fs v n off"
  proof (cases "vdata vn")
    case (Tmpfs_node data)
    then obtain r bs where "file_read (buffer_at fs v (length data)) data n off = Inr (r, bs)"
      using file_read_defined [of "buffer_at fs v (length data)" data n off] rng vn by (force simp: reads_in_range_def)
    then show ?thesis using vn Tmpfs_node by (simp add: vnode_rdwr_def)
  qed (use vn k in \<open>auto simp: vnode_rdwr_def\<close>)
  show "v < w \<and> is_node fs w" if "child fs v name = Some w" for w
    using mkdir_space.child_law [OF ok that] by blast
qed

text \<open>
  C21. In every state that the vnode operations can reach, the file system is a well-formed tree,
  lookup and creation never meet undefined behaviour on an existing vnode, and neither does reading
  at an offset and of a size for which the pointers into the file's buffer do not wrap around. (An
  offset near \<open>2 ^ 64\<close>, which a seek to a negative offset sets, does wrap: the bytes before the
  buffer are read then.)
\<close>

theorem fs_operations_defined:
  assumes "fs_reach fs" and "is_node fs v"
  shows "fs_ok fs \<and> (\<exists>r. vnode_lookup fs v name = Inr r) \<and> (\<exists>r. vnode_mkdir fs v name = Inr r)
    \<and> (\<exists>r. vnode_create fs v name = Inr r)
    \<and> (reads_in_range fs v n off \<longrightarrow> (\<exists>r. vnode_rdwr fresh fs v n off [] 0 = Inr r))
    \<and> (\<forall>w. child fs v name = Some w \<longrightarrow> v < w \<and> is_node fs w)"
  by (simp only: fs_operations_defined_parts(1-4) [OF assms] simp_thms)
    (intro conjI allI impI fs_operations_defined_parts(5,6) [OF assms])

theorem fs_operations_defined_instance:
  "\<exists>r. vnode_rdwr (\<lambda>_. 0) (set_type 1 NYAVNODE_SYMLINK (snd (snd (projr (vnode_create (empty_root (\<lambda>_ _. 0)) 0 ''a''))))) 1 4 0 [] 0 = Inr r"
proof -
  define fs where "fs = snd (snd (projr (vnode_create (empty_root (\<lambda>_ _. 0)) 0 ''a'')))"
  have c: "vnode_create (empty_root (\<lambda>_ _. 0)) 0 ''a'' = Inr (0, Some 1, fs)"
    by (simp add: fs_def vnode_create_def add_vnode_def empty_root_def Let_def)
  then have v: "vnodes fs 1 = Some \<lparr>vtype = NYAVNODE_FILE, vdata = Tmpfs_node []\<rparr>"
    by (auto simp: vnode_create_def add_vnode_def empty_root_def Let_def)
  have "fs_reach (set_type 1 NYAVNODE_SYMLINK fs)"
    using reach_link [OF reach_create [OF reach_root c] v] by simp
  moreover have "is_node (set_type 1 NYAVNODE_SYMLINK fs) 1" using v by (simp add: is_node_def set_type_def)
  moreover have "reads_in_range (set_type 1 NYAVNODE_SYMLINK fs) 1 4 0"
    using v c by (auto simp: reads_in_range_def set_type_def range_ok_def vnode_create_def add_vnode_def empty_root_def Let_def)
  ultimately show ?thesis using fs_operations_defined unfolding fs_def by blast
qed

section \<open>File descriptors\<close>

lemma descriptors_never_shared_parts:
  assumes "pool_run take_fd give_fd b0 b L" and "bitmap_ok b0" and "\<forall>k. 2 \<le> k \<and> k < 256 \<longrightarrow> b0 ! k = 0"
  shows "take_fd b = Inr (r, b') \<longrightarrow> r \<notin> L \<and> 2 \<le> r \<and> r < 256"
    and "L \<noteq> {2..255} \<longrightarrow> (\<exists>r b'. take_fd b = Inr (r, b'))"
proof -
  have a: "free_fds b0 = {2..255}"
  proof -
    have "{k. 2 \<le> k \<and> k < 256 \<and> b0 ! k = 0} = {2..255}" using assms(3) by auto
    then show ?thesis by (simp add: free_fds_def image_int_atLeastAtMost)
  qed
  show "take_fd b = Inr (r, b') \<longrightarrow> r \<notin> L \<and> 2 \<le> r \<and> r < 256"
    using fd.no_double_take [OF assms(1,2)] a by auto
  have "L \<subseteq> {2..255}" using fd.run_invariant [OF assms(1,2)] a by blast
  then show "L \<noteq> {2..255} \<longrightarrow> (\<exists>r b'. take_fd b = Inr (r, b'))"
    using fd.take_succeeds [OF assms(1,2)] a by blast
qed

text \<open>
  C22. Over any sequence of opens and of closes of descriptors that an open returned and that are
  still open, on a process's descriptor bitmap that started with no descriptor in use, a new
  descriptor is between 2 and 255 and is not one that is still open; and as long as fewer than all
  254 are open, opening succeeds. (Closing the standard descriptors 0 and 1, which the system call
  accepts, is outside the claim: a later open returns them.)
\<close>

theorem descriptors_never_shared:
  assumes "pool_run take_fd give_fd b0 b L" and "bitmap_ok b0" and "\<forall>k. 2 \<le> k \<and> k < 256 \<longrightarrow> b0 ! k = 0"
  shows "(\<forall>r b'. take_fd b = Inr (r, b') \<longrightarrow> r \<notin> L \<and> 2 \<le> r \<and> r < 256)
    \<and> (L \<noteq> {2..255} \<longrightarrow> (\<exists>r b'. take_fd b = Inr (r, b')))"
  using descriptors_never_shared_parts [OF assms] by blast

theorem descriptors_never_shared_instance:
  "take_fd (replicate 256 0) = Inr (2, (replicate 256 0)[0 := 1, 1 := 1, 2 := 1])
   \<and> (\<exists>r b'. take_fd ((replicate 256 0)[0 := 1, 1 := 1, 2 := 1]) = Inr (r, b') \<and> r \<noteq> 2 \<and> r < 256)"
proof -
  define b0 :: "u8 list" where "b0 = replicate 256 0"
  have t: "take_fd b0 = Inr (2, b0[0 := 1, 1 := 1, 2 := 1])"
    by (simp add: take_fd_def allocate_fd_from_bitmap_def reserve_std_def b0_def find_fd.simps nth_list_update numeral_2_eq_2)
  have ok: "bitmap_ok b0" by (simp add: bitmap_ok_def b0_def)
  have "pool_run take_fd give_fd b0 (b0[0 := 1, 1 := 1, 2 := 1]) {2}"
    using run_take [OF run_start [where tk = take_fd and gv = give_fd and ?s0.0 = b0], OF t] by simp
  moreover have "\<forall>k. 2 \<le> k \<and> k < 256 \<longrightarrow> b0 ! k = 0" by (simp add: b0_def)
  moreover have "(3 :: int) \<in> {2..255}" "(3 :: int) \<notin> {2}" by simp_all
  then have "{2 :: int} \<noteq> {2..255}" by metis
  ultimately have "\<exists>r b'. take_fd (b0[0 := 1, 1 := 1, 2 := 1]) = Inr (r, b') \<and> r \<noteq> 2 \<and> r < 256"
    using descriptors_never_shared [OF _ ok] by blast
  then show ?thesis using t by (simp add: b0_def)
qed

section \<open>The archive loader\<close>

lemma vfs_create_reach:
  assumes "fs_reach fs" and "vfs_create fs rt past cur pth ty = Some (Inr (r, w, fs'))"
  shows "fs_reach fs'" and "\<And>v. ty = 1 \<Longrightarrow> w = Some v \<Longrightarrow> \<exists>vn. vnodes fs' v = Some vn \<and> vtype vn = NYAVNODE_FILE"
proof -
  have c: "fs' = fs \<and> w = None \<or> ty = 0 \<and> (\<exists>d c r'. vnode_mkdir fs d c = Inr (r', w, fs'))
      \<or> ty = 1 \<and> (\<exists>d c r'. vnode_create fs d c = Inr (r', w, fs'))"
  proof (cases "pth = []")
    case True
    then show ?thesis using assms(2) by (simp add: vfs_create_def)
  next
    case False
    then obtain p c where l: "vnode_path_lookup fs rt past cur pth True True = Some (Inr (p, c))"
    proof (cases "vnode_path_lookup fs rt past cur pth True True")
      case None
      then show ?thesis using assms(2) False by (simp add: vfs_create_def)
    next
      case (Some x)
      then show ?thesis using assms(2) False that by (cases x) (auto simp: vfs_create_def)
    qed
    show ?thesis
    proof (cases "p = None \<or> c = None")
      case True
      then show ?thesis using assms(2) l False 
        by (cases p) (auto simp: vfs_create_def andthen_eq_Inr nameless_def split: if_splits option.splits)
    next
      case pc: False
      then obtain d n where "p = Some d" "c = Some n" by auto
      then show ?thesis using assms(2) l False
        by (auto simp: vfs_create_def andthen_eq_Inr split: if_splits)
    qed
  qed
  then show "fs_reach fs'" using assms(1) reach_mkdir reach_create by metis
  fix v assume "ty = 1" "w = Some v"
  then obtain d c r' where "vnode_create fs d c = Inr (r', Some v, fs')" using c by auto
  then have "\<exists>dn es. v = next_vnode fs \<and> vnodes fs d = Some dn
      \<and> fs' = fs\<lparr>vnodes := (vnodes fs)(v \<mapsto> \<lparr>vtype = NYAVNODE_FILE, vdata = Tmpfs_node []\<rparr>, d \<mapsto> dn\<lparr>vdata := Tmpfs_dir es\<rparr>), next_vnode := v + 1\<rparr>"
    by (auto simp: vnode_create_def add_vnode_def Let_def split: option.splits if_splits vnode_data.splits)
  moreover have "d \<noteq> next_vnode fs" if "vnodes fs d = Some dn" for dn
    using fs_reach_ok [OF assms(1)] that by (auto simp: fs_ok_def)
  ultimately show "\<exists>vn. vnodes fs' v = Some vn \<and> vtype vn = NYAVNODE_FILE" by auto
qed

lemma orelse_run_Inr:
  "orelse_run x f = Some (Inr b) \<longleftrightarrow> (\<exists>a. x = Some (Inr a) \<and> f a = Some (Inr b))"
  by (auto simp: orelse_run_def split: option.splits sum.splits)

lemma rdwr_type:
  assumes "vnode_rdwr fresh fs v n off buf rw = Inr (r, bs, fs')" and "vnodes fs v = Some vn"
    and "vtype vn = NYAVNODE_FILE"
  shows "\<exists>vn. vnodes fs' v = Some vn \<and> vtype vn = NYAVNODE_FILE"
  using assms by (auto simp: vnode_rdwr_def andthen_eq_Inr Let_def split: if_splits vnode_data.splits prod.splits)

lemma apply_item_reach:
  assumes "fs_reach fs" and "apply_item past fresh roo e fs = Some (Inr fs')"
  shows "fs_reach fs'"
proof (cases e)
  case (Dir name)
  then show ?thesis using assms vfs_create_reach(1) by (auto simp: make_dir_def orelse_run_Inr)
next
  case (File name bytes)
  then show ?thesis using assms vfs_create_reach(1) [OF assms(1)]
    by (fastforce simp: make_file_def orelse_run_Inr andthen_eq_Inr split: option.splits intro: reach_rdwr)
next
  case (Link name target)
  then obtain r w fs1 where c: "vfs_create fs (Some roo) past roo name 1 = Some (Inr (r, w, fs1))"
    and k: "(case w of None \<Rightarrow> Some (Inr fs1)
       | Some v \<Rightarrow> Some (andthen (vnode_rdwr fresh fs1 v (of_nat (length target)) 0 target 1)
             (\<lambda>(_, _, fs2). Inr (set_type v NYAVNODE_SYMLINK fs2)))) = Some (Inr fs')"
    using assms(2) by (auto simp: make_link_def orelse_run_Inr)
  note R = vfs_create_reach [OF assms(1) c]
  show ?thesis
  proof (cases w)
    case None
    then show ?thesis using k R(1) by simp
  next
    case (Some v)
    then obtain r' bs fs2 where w: "vnode_rdwr fresh fs1 v (of_nat (length target)) 0 target 1 = Inr (r', bs, fs2)"
      "fs' = set_type v NYAVNODE_SYMLINK fs2" using k by (auto simp: andthen_eq_Inr)
    obtain vn where "vnodes fs2 v = Some vn" "vtype vn = NYAVNODE_FILE"
      using R(2) [OF refl Some] rdwr_type [OF w(1)] by blast
    then show ?thesis using reach_link [OF reach_rdwr [OF R(1) w(1)]] w(2) by blast
  qed
next
  case (Other n)
  then show ?thesis using assms by simp
qed

lemma apply_items_reach:
  "fs_reach fs \<Longrightarrow> apply_items past fresh roo es fs = Some (Inr fs') \<Longrightarrow> fs_reach fs'"
  by (induction es arbitrary: fs) (auto simp: orelse_run_Inr dest: apply_item_reach)

lemma tar_loader_correct_parts:
  assumes "archive_at m (address + sz - 1024) address es" and "cstring m lit5 [53]" and "cstring m lit0 [48]"
  shows "parse_tar_and_populate_tmpfs m lit5 lit0 past fresh buffers address sz = apply_items past fresh 0 es (empty_root buffers)"
    and "\<And>fs. parse_tar_and_populate_tmpfs m lit5 lit0 past fresh buffers address sz = Some (Inr fs) \<Longrightarrow> fs_ok fs"
proof -
  show e: "parse_tar_and_populate_tmpfs m lit5 lit0 past fresh buffers address sz = apply_items past fresh 0 es (empty_root buffers)"
    unfolding parse_tar_and_populate_tmpfs_def by (rule tar_loop_items [OF assms])
  show "fs_ok fs" if "parse_tar_and_populate_tmpfs m lit5 lit0 past fresh buffers address sz = Some (Inr fs)" for fs
    using that fs_reach_ok [OF apply_items_reach [OF reach_root]] unfolding e by blast
qed

text \<open>
  C23. Loading an archive that is laid out in memory as a sequence of headers with their contents
  does exactly what its entries say, in their order, starting from an empty root directory; when
  it finishes, the file system is well-formed.
\<close>

theorem tar_loader_correct:
  assumes "archive_at m (address + sz - 1024) address es" and "cstring m lit5 [53]" and "cstring m lit0 [48]"
  shows "parse_tar_and_populate_tmpfs m lit5 lit0 past fresh buffers address sz = apply_items past fresh 0 es (empty_root buffers)
    \<and> (\<forall>fs. parse_tar_and_populate_tmpfs m lit5 lit0 past fresh buffers address sz = Some (Inr fs) \<longrightarrow> fs_ok fs)"
  using tar_loader_correct_parts [OF assms] by blast

text \<open>An archive at 0x1000 with the directory \<open>d\<close> and the file \<open>d/a\<close>.\<close>

definition demo_archive :: memory where
  "demo_archive a = (case map_of
     ([(0x1000, 100), (0x109C, 53), (0x1200, 100), (0x1201, 47), (0x1202, 97), (0x129C, 48),
       (0x1400, 104), (0x1401, 105), (0x10, 53), (0x20, 48)]
      @ map (\<lambda>i. (0x107C + of_nat i, 48)) [0..<11]
      @ map (\<lambda>i. (0x127C + of_nat i, if i = 10 then 50 else 48)) [0..<11]) a of
     None \<Rightarrow> 0 | Some b \<Rightarrow> b)"

lemma demo_archive_at:
  "archive_at demo_archive (0x1000 + 0xA00 - 1024) 0x1000 [Dir ''d'', File ''d/a'' [104, 105]]"
  "cstring demo_archive 0x10 [53]" "cstring demo_archive 0x20 [48]"
  by (simp_all add: header_at_def demo_archive_def bytes_of_def digit_list_def upt_rec of_char_def)

theorem tar_loader_correct_instance:
  "\<exists>fs. parse_tar_and_populate_tmpfs demo_archive 0x10 0x20 (\<lambda>_. CHR ''x'') (\<lambda>_. 0) (\<lambda>_ _. 0) 0x1000 0xA00 = Some (Inr fs)
    \<and> fs_ok fs \<and> vnodes fs 2 = Some \<lparr>vtype = NYAVNODE_FILE, vdata = Tmpfs_node [104, 105]\<rparr>"
proof -
  define p :: "string \<Rightarrow> char" where "p = (\<lambda>_. CHR ''x'')"
  define d where "d = \<lparr>vtype = NYAVNODE_DIR, vdata = Tmpfs_dir []\<rparr>"
  obtain fs1 where fs1: "vnode_mkdir (empty_root (\<lambda>_ _. 0)) 0 ''d'' = Inr (0, Some 1, fs1)" "next_vnode fs1 = 2"
    "child fs1 0 ''d'' = Some 1" "vnodes fs1 1 = Some d" "vnodes fs1 0 \<noteq> None" "fs_ok fs1" "is_node fs1 0"
    using add_vnode_keeps [OF empty_root_ok, of "\<lambda>_ _. 0" 0 "''d''" d]
    by (auto simp: vnode_mkdir_def add_vnode_def empty_root_def Let_def child_def d_def is_node_def kind_ok_def)
  obtain fs2 where fs2: "vnode_create fs1 1 ''a'' = Inr (0, Some 2, fs2)"
    "vnodes fs2 2 = Some \<lparr>vtype = NYAVNODE_FILE, vdata = Tmpfs_node []\<rparr>"
    using fs1(2,4) by (auto simp: vnode_create_def add_vnode_def Let_def d_def)
  have c: "components ''d'' = [] @ [''d'']" "components ''d/a'' = [''d''] @ [''a'']" by (simp_all add: components_def parts_Cons)
  have l1: "vnode_path_lookup (empty_root (\<lambda>_ _. 0)) (Some 0) p 0 ''d'' True True = Some (Inr (Some 0, Some ''d''))"
    by (rule path_lookup_done [where start = 0]) (simp_all add: path_ok_def p_def start_of_def c)
  have "is_dir fs1 1" using fs1(4) by (simp add: is_dir_def d_def)
  then have "resolve fs1 True True 0 ([''d''] @ [''a'']) = Inr (Done (Some 1) (Some ''a''))"
    by (intro resolve_parent) (simp_all add: fs1)
  then have l2: "vnode_path_lookup fs1 (Some 0) p 0 ''d/a'' True True = Some (Inr (Some 1, Some ''a''))"
    by (intro path_lookup_done [where start = 0]) (simp_all add: path_ok_def p_def start_of_def c)
  have w: "file_write (\<lambda>_. 0) [] [104, 105] 2 0 = Inr [104, 105]"
    by (simp add: file_write_def)
  have e: "\<exists>fs. apply_items p (\<lambda>_. 0) 0 [Dir ''d'', File ''d/a'' [104, 105]] (empty_root (\<lambda>_ _. 0)) = Some (Inr fs)
      \<and> vnodes fs 2 = Some \<lparr>vtype = NYAVNODE_FILE, vdata = Tmpfs_node [104, 105]\<rparr>"
    by (simp add: make_dir_def make_file_def orelse_run_def vfs_create_def l1 l2 fs1(1) fs2 fs2(1) [unfolded One_nat_def] vnode_rdwr_def w)
  note T = tar_loader_correct [OF demo_archive_at, of p "\<lambda>_. 0" "\<lambda>_ _. 0"]
  show ?thesis using T e unfolding p_def by auto
qed

end
