(* ===== verification/Interrupts.thy ===== *)
theory Interrupts
  imports Machine Cstrings
begin

text \<open>
  Descriptors, interrupts and the switch to user mode: \<open>gdt.c\<close>, \<open>idt.c\<close>, \<open>lib/kpanic.c\<close>,
  \<open>fpu/xsave.c\<close> and the part of \<open>_start\<close> in \<open>main.c\<close> that enables system calls.
\<close>

section \<open>The global descriptor table\<close>

text \<open>\<open>struct TSS\<close> is packed: 92 bytes as it is declared.\<close>

definition sizeof_TSS :: u64 where
  "sizeof_TSS = 4 + 8 + 8 + 4 + 7 * 8 + 8 + 2 + 2"

record GDTR =
  gdtr_size :: u16
  gdtr_offset :: u64

text \<open>\<open>ts\<close> and \<open>gdt\<close> are the addresses of the two variables.\<close>

definition gdt_table :: "u64 \<Rightarrow> u64 list" where
  "gdt_table ts =
     [0x0, 0x00009a000000ffff, 0x000093000000ffff, 0x00cf9a000000ffff, 0x00cf93000000ffff,
      0x00af9b000000ffff, 0x00af93000000ffff, 0x00aff3000000ffff, 0x00affb000000ffff,
      push_bit 40 0x9 OR push_bit 47 1 OR (sizeof_TSS AND 0xFFFF)
        OR push_bit 16 (ts AND 0xFFFF) OR push_bit 32 (drop_bit 16 ts AND 0xFF)
        OR push_bit 56 (drop_bit 24 ts AND 0xFF),
      drop_bit 32 ts]"

definition init_gdt :: "u64 \<Rightarrow> u64 \<Rightarrow> u64 list \<times> GDTR" where
  "init_gdt ts gdt = (gdt_table ts, \<lparr>gdtr_size = 11 * 8, gdtr_offset = gdt\<rparr>)"

text \<open>The fields of a descriptor, as the processor reads them.\<close>

definition desc_present :: "u64 \<Rightarrow> bool" where "desc_present d = bit d 47"
definition desc_dpl :: "u64 \<Rightarrow> nat" where "desc_dpl d = unat (drop_bit 45 d AND 3)"
definition desc_segment :: "u64 \<Rightarrow> bool" where "desc_segment d = bit d 44"
definition desc_code :: "u64 \<Rightarrow> bool" where "desc_code d = bit d 43"
definition desc_long :: "u64 \<Rightarrow> bool" where "desc_long d = bit d 53"
definition desc_limit :: "u64 \<Rightarrow> u64" where
  "desc_limit d = (d AND 0xFFFF) OR push_bit 16 (drop_bit 48 d AND 0xF)"
definition desc_base :: "u64 \<Rightarrow> u64 \<Rightarrow> u64" where
  "desc_base d hi = (drop_bit 16 d AND 0xFFFFFF) OR push_bit 24 (drop_bit 56 d) OR push_bit 32 (hi AND 0xFFFFFFFF)"

text \<open>The descriptor a selector refers to, and the privilege it asks for.\<close>

definition selected :: "u64 \<Rightarrow> u64 \<Rightarrow> u64" where
  "selected ts sel = gdt_table ts ! unat (drop_bit 3 sel)"

section \<open>The interrupt descriptor table\<close>

record IDTGateDescriptor =
  offset_low :: u16
  segment_sel :: u16
  ist :: u8
  type_attrib :: u8
  offset_mid :: u16
  offset_hi :: u32
  reversed :: u32

definition gate :: "u64 \<Rightarrow> u8 \<Rightarrow> u8 \<Rightarrow> IDTGateDescriptor" where
  "gate handler selector ta =
     \<lparr>offset_low = ucast (handler AND 0xFFFF), segment_sel = ucast selector, ist = 0, type_attrib = ta,
      offset_mid = ucast (drop_bit 16 handler AND 0xFFFF), offset_hi = ucast (drop_bit 32 handler AND 0xFFFFFFFF),
      reversed = 0\<rparr>"

text \<open>An interrupt handler of the kernel, or none.\<close>

datatype handler = No_handler | Division_by_zero | Page_fault | Sched_meow | Ps2_handler

record idt_state =
  IDT :: "IDTGateDescriptor list"
  idt_handlers :: "handler list"
  cur_vec_free :: nat

text \<open>Both arrays have 256 elements; a write behind the end is undefined.\<close>

definition set_interrupt_descriptor :: "nat \<Rightarrow> u64 \<Rightarrow> u8 \<Rightarrow> u8 \<Rightarrow> idt_state \<Rightarrow> idt_state res" where
  "set_interrupt_descriptor vector handler selector ta t =
     (if vector < 256 then Inr (t\<lparr>IDT := (IDT t)[vector := gate handler selector ta]\<rparr>) else Inl Undefined)"

definition RegisterHandler :: "nat \<Rightarrow> handler \<Rightarrow> idt_state \<Rightarrow> idt_state res" where
  "RegisterHandler interrupt h t =
     (if interrupt < 256 then Inr (t\<lparr>idt_handlers := (idt_handlers t)[interrupt := h]\<rparr>) else Inl Undefined)"

definition AllocateVector :: "idt_state \<Rightarrow> nat \<times> idt_state" where
  "AllocateVector t = (cur_vec_free t, t\<lparr>cur_vec_free := cur_vec_free t + 1\<rparr>)"

text \<open>\<open>NYA_OS_IDT_INTERRUPT | NYA_OS_IDT_PRESENT | NYA_OS_IDT_RING3\<close>, where \<open>RING3\<close> is zero.\<close>

definition gate_flags :: u8 where "gate_flags = 0xE OR 0x80 OR 0"

definition init_idt :: "(nat \<Rightarrow> u64) \<Rightarrow> idt_state \<Rightarrow> idt_state res" where
  "init_idt stubs t =
     andthen (for_upto 0 256 (\<lambda>i. set_interrupt_descriptor i (stubs i) 0x28 gate_flags) t) (\<lambda>t1.
     andthen (RegisterHandler 0 Division_by_zero t1) (\<lambda>t2.
     andthen (RegisterHandler 14 Page_fault t2) (\<lambda>t3.
       let (v, t4) = AllocateVector t3 in RegisterHandler v Sched_meow t4)))"

text \<open>What the processor jumps to for a vector.\<close>

definition gate_target :: "IDTGateDescriptor \<Rightarrow> u64" where
  "gate_target g = ucast (offset_low g) OR push_bit 16 (ucast (offset_mid g)) OR push_bit 32 (ucast (offset_hi g))"

section \<open>Panic\<close>

record stack_frame =
  intnum :: u64  r15 :: u64  r14 :: u64  r13 :: u64  r12 :: u64  r11 :: u64  r10 :: u64  r9 :: u64  r8 :: u64
  rdi :: u64  rsi :: u64  rdx :: u64  rcx :: u64  rbx :: u64  rax :: u64
  rbp :: u64  error_code :: u64  rip :: u64  cs :: u64  rflags :: u64  rsp :: u64  ss :: u64

text \<open>What \<open>kpanic\<close> leaves behind when it stops the machine.\<close>

definition kpanic :: "(string \<Rightarrow> u64 list \<Rightarrow> u8 list) \<Rightarrow> u8 list \<Rightarrow> stack_frame option \<Rightarrow> machine \<Rightarrow> machine" where
  "kpanic npf msg frame c =
     (let nl = bytes_of [CHR 0x0A];
          c1 = term_out (Term_fg_rgb 0xFFFFFFFF) c;
          c2 = write_term (bytes_of ''Nya Kernel has Panicked with the Following Message: '') c1;
          c3 = write_term msg c2;
          c4 = write_term nl c3
      in case frame of
           Some f \<Rightarrow>
             (let c5 = write_term (bytes_of ''Register Dump: '') c4;
                  c6 = kprintf npf True (''RAX: 0x%lX RIP: 0x%lX'' @ [CHR 0x0A]) [rax f, rip f] c5;
                  c7 = serial_print (bytes_of ''RIP: '') c6;
                  c8 = serial_print (itoah_text (rip f)) c7;
                  c9 = serial_print nl c8;
                  c10 = serial_print (bytes_of ''CR2: '') c9;
                  c11 = serial_print (itoah_text (read_cr2 c10)) c10;
                  c12 = serial_print nl c11;
                  c13 = kprintf npf True (''CR2: 0x%lX'' @ [CHR 0x0A]) [read_cr2 c12] c12;
                  c14 = kprintf npf True (CHR 0x0A # ''STACKTRACE: '' @ [CHR 0x0A]) [] c13;
                  c15 = kprintf npf True (''--> 0x%lX'' @ [CHR 0x0A]) [rip f] c14
              in c15\<lparr>interrupts_on := False\<rparr>)
         | None \<Rightarrow>
             (let c5 = write_term (bytes_of ''No Register Dump Was Provided.'') c4;
                  c6 = write_term nl c5
              in c6\<lparr>interrupts_on := False\<rparr>))"

definition division_by_zero :: "(string \<Rightarrow> u64 list \<Rightarrow> u8 list) \<Rightarrow> stack_frame \<Rightarrow> machine \<Rightarrow> machine" where
  "division_by_zero npf frame = kpanic npf (bytes_of ''DIVISON BY ZERO'') (Some frame)"

definition page_fault :: "(string \<Rightarrow> u64 list \<Rightarrow> u8 list) \<Rightarrow> stack_frame \<Rightarrow> machine \<Rightarrow> machine" where
  "page_fault npf frame = kpanic npf (bytes_of ''PAGE FAULT VIOLATION'') (Some frame)"

section \<open>Enabling system calls and the floating-point unit\<close>

text \<open>
  The statements of \<open>_start\<close> that set up the \<open>syscall\<close> instruction: EFER, STAR, LSTAR, FMASK.
\<close>

definition enable_syscalls :: "u64 \<Rightarrow> machine \<Rightarrow> machine" where
  "enable_syscalls syscall_handler c =
     (let c1 = writemsr 0xC0000080 (readmsr 0xC0000080 c OR 1) c;
          star = readmsr 0xC0000081 c1 OR push_bit 32 0x28 OR push_bit 48 0x30;
          c2 = writemsr 0xC0000081 star c1;
          c3 = writemsr 0xC0000082 syscall_handler c2
      in writemsr 0xC0000084 (push_bit 9 1) c3)"

text \<open>\<open>cr0 & ~(0 << 2)\<close> clears nothing: the bit that was meant, EM, stays as it is.\<close>

definition enable_sse :: "machine \<Rightarrow> machine" where
  "enable_sse c =
     (let v0 = (read_cr0 c OR push_bit 1 1) AND NOT (push_bit 2 0);
          c1 = update_cr0 v0 c;
          v4 = read_cr4 c1 OR push_bit 9 1 OR push_bit 10 1
      in update_cr4 v4 c1)"

text \<open>\<open>cpuid\<close> gives the \<open>ecx\<close> that the instruction returns for \<open>eax\<close> and \<open>ecx\<close>.\<close>

definition xsetbv :: "u32 \<Rightarrow> u64 \<Rightarrow> machine \<Rightarrow> machine" where
  "xsetbv index value c = (if index = 0 then c\<lparr>xcr0 := value\<rparr> else c)"

definition setup_xsave ::
  "(string \<Rightarrow> u64 list \<Rightarrow> u8 list) \<Rightarrow> (u32 \<Rightarrow> u32 \<Rightarrow> u32) \<Rightarrow> machine \<Rightarrow> u64 \<times> machine" where
  "setup_xsave npf cpuid_ecx c =
     (let c1 = update_cr4 (read_cr4 c OR push_bit 18 1) c;
          xsave_size = ucast (cpuid_ecx 0xd 0);
          cpu_has_avx = (cpuid_ecx 1 0 AND push_bit 28 1 \<noteq> 0)
      in (xsave_size,
          if cpu_has_avx then xsetbv 0 7 (kprintf npf True (''CPU HAS AVX!'' @ [CHR 0x0A]) [] c1)
          else xsetbv 0 3 (kprintf npf True (''CPU NO AVX :pensive:'' @ [CHR 0x0A]) [] c1)))"

text \<open>The selectors that \<open>syscall\<close> and \<open>sysret\<close> to 64-bit mode load, from STAR.\<close>

definition syscall_cs :: "machine \<Rightarrow> u64" where "syscall_cs c = drop_bit 32 (msr c 0xC0000081) AND 0xFFFF"
definition syscall_ss :: "machine \<Rightarrow> u64" where "syscall_ss c = syscall_cs c + 8"
definition sysret_cs :: "machine \<Rightarrow> u64" where "sysret_cs c = (drop_bit 48 (msr c 0xC0000081) + 16) OR 3"
definition sysret_ss :: "machine \<Rightarrow> u64" where "sysret_ss c = (drop_bit 48 (msr c 0xC0000081) + 8) OR 3"

section \<open>Correctness\<close>

lemma masks:
  "(0xFF :: u64) = mask 8" "(0xFFFF :: u64) = mask 16" "(0xFFFFFF :: u64) = mask 24" "(0xFFFFFFFF :: u64) = mask 32"
  by (simp_all add: mask_eq_exp_minus_1)

text \<open>
  The base address is spread over bits 16 to 39 and 56 to 63 of the descriptor and the next entry;
  \<open>K\<close> is the rest of the descriptor.
\<close>

lemma desc_base_spread:
  assumes "K AND (push_bit 16 (mask 24) OR push_bit 56 (mask 8)) = 0"
  shows "desc_base (K OR push_bit 16 (ts AND 0xFFFF) OR push_bit 32 (drop_bit 16 ts AND 0xFF)
      OR push_bit 56 (drop_bit 24 ts AND 0xFF)) (drop_bit 32 ts) = ts"
proof -
  have k: "\<not> bit K n" if "16 \<le> n" "n < 40 \<or> 56 \<le> n" for n
  proof
    assume b: "bit K n"
    then have "n < 64" using bit_imp_le_length [OF b] by simp
    moreover have "\<not> bit (K AND (push_bit 16 (mask 24) OR push_bit 56 (mask 8))) n" using assms by simp
    ultimately show False using that b by (auto simp: bit_simps)
  qed
  show ?thesis
    unfolding desc_base_def masks
  proof (rule bit_word_eqI)
    fix n assume n: "n < LENGTH(64)"
    consider "n < 16" | "16 \<le> n" "n < 24" | "24 \<le> n" "n < 32" | "32 \<le> n" by linarith
    then show "bit ((drop_bit 16 (K OR push_bit 16 (ts AND mask 16) OR push_bit 32 (drop_bit 16 ts AND mask 8)
        OR push_bit 56 (drop_bit 24 ts AND mask 8)) AND mask 24)
      OR push_bit 24 (drop_bit 56 (K OR push_bit 16 (ts AND mask 16) OR push_bit 32 (drop_bit 16 ts AND mask 8)
        OR push_bit 56 (drop_bit 24 ts AND mask 8)))
      OR push_bit 32 (drop_bit 32 ts AND mask 32)) n = bit ts n"
      using n k [of "16 + n"] k [of "56 + (n - 24)"] by cases (auto simp: bit_simps)
  qed
qed

lemma desc_limit_low:
  assumes "K AND push_bit 48 (mask 4) = 0"
  shows "desc_limit (K OR push_bit 16 (ts AND 0xFFFF) OR push_bit 32 (drop_bit 16 ts AND 0xFF)
      OR push_bit 56 (drop_bit 24 ts AND 0xFF)) = K AND mask 16"
proof -
  have k: "\<not> bit K n" if "48 \<le> n" "n < 52" for n
  proof -
    have "\<not> bit (K AND push_bit 48 (mask 4)) n" using assms by simp
    then show ?thesis using that by (auto simp: bit_simps)
  qed
  have f: "(0xF :: u64) = mask 4" by (simp add: mask_eq_exp_minus_1)
  show ?thesis
    unfolding desc_limit_def masks f
  proof (rule bit_word_eqI)
    fix n assume n: "n < LENGTH(64)"
    consider "n < 16" | "16 \<le> n" "n < 20" | "20 \<le> n" by linarith
    then show "bit (((K OR push_bit 16 (ts AND mask 16) OR push_bit 32 (drop_bit 16 ts AND mask 8)
        OR push_bit 56 (drop_bit 24 ts AND mask 8)) AND mask 16)
      OR push_bit 16 (drop_bit 48 (K OR push_bit 16 (ts AND mask 16) OR push_bit 32 (drop_bit 16 ts AND mask 8)
        OR push_bit 56 (drop_bit 24 ts AND mask 8)) AND mask 4)) n = bit (K AND mask 16) n"
      using n k [of "48 + (n - 16)"] by cases (auto simp: bit_simps)
  qed
qed

lemma tss_descriptor:
  "desc_base (gdt_table ts ! 9) (gdt_table ts ! 10) = ts"
  "desc_limit (gdt_table ts ! 9) = sizeof_TSS" "desc_present (gdt_table ts ! 9)"
proof -
  define B where "B = push_bit 16 (ts AND 0xFFFF) OR push_bit 32 (drop_bit 16 ts AND 0xFF) OR push_bit 56 (drop_bit 24 ts AND 0xFF)"
  have "gdt_table ts ! 9 = push_bit 40 0x9 OR push_bit 47 1 OR (sizeof_TSS AND 0xFFFF) OR B"
    unfolding B_def by (simp only: gdt_table_def nth_Cons_numeral nth_Cons_0 diff_numeral_special)
      (simp add: gdt_table_def)
  also have "\<dots> = (push_bit 40 0x9 OR push_bit 47 1 OR (sizeof_TSS AND 0xFFFF)) OR B" by (simp only: or.assoc)
  also have "push_bit 40 0x9 OR push_bit 47 1 OR (sizeof_TSS AND 0xFFFF) = (0x89000000005C :: u64)"
    by (simp add: sizeof_TSS_def)
  finally have g: "gdt_table ts ! 9 = 0x89000000005C
        OR push_bit 16 (ts AND 0xFFFF) OR push_bit 32 (drop_bit 16 ts AND 0xFF) OR push_bit 56 (drop_bit 24 ts AND 0xFF)"
    "gdt_table ts ! 10 = drop_bit 32 ts" by (simp_all only: B_def) (simp add: gdt_table_def)
  show "desc_base (gdt_table ts ! 9) (gdt_table ts ! 10) = ts"
    unfolding g by (rule desc_base_spread) (simp add: mask_eq_exp_minus_1)
  show "desc_limit (gdt_table ts ! 9) = sizeof_TSS"
    unfolding g by (subst desc_limit_low) (simp_all add: mask_eq_exp_minus_1 sizeof_TSS_def)
  show "desc_present (gdt_table ts ! 9)"
    unfolding desc_present_def g by (simp add: bit_simps)
qed

lemma gate_target_gate: "gate_target (gate h sel ta) = h"
proof -
  have "(ucast (ucast (h AND mask 16) :: u16) :: u64) OR push_bit 16 (ucast (ucast (drop_bit 16 h AND mask 16) :: u16))
      OR push_bit 32 (ucast (ucast (drop_bit 32 h AND mask 32) :: u32)) = h"
  proof (rule bit_word_eqI)
    fix n assume n: "n < LENGTH(64)"
    consider "n < 16" | "16 \<le> n" "n < 32" | "32 \<le> n" by linarith
    then show "bit ((ucast (ucast (h AND mask 16) :: u16) :: u64)
        OR push_bit 16 (ucast (ucast (drop_bit 16 h AND mask 16) :: u16))
        OR push_bit 32 (ucast (ucast (drop_bit 32 h AND mask 32) :: u32))) n = bit h n"
      using n by cases (auto simp: bit_simps)
  qed
  then show ?thesis by (simp add: gate_target_def gate_def masks del: mask_numeral)
qed

lemma idt_loop:
  assumes "length (IDT t) = 256" and "i + n \<le> 256"
  shows "for_upto i n (\<lambda>i. set_interrupt_descriptor i (stubs i) sel ta) t
    = Inr (t\<lparr>IDT := map (\<lambda>j. if i \<le> j \<and> j < i + n then gate (stubs j) sel ta else IDT t ! j) [0..<256]\<rparr>)"
  using assms
proof (induction n arbitrary: i t)
  case 0
  have "map (\<lambda>j. if i \<le> j \<and> j < i + 0 then gate (stubs j) sel ta else IDT t ! j) [0..<256] = IDT t"
    using 0 by (intro nth_equalityI) auto
  then show ?case by simp
next
  case (Suc n)
  define t1 where "t1 = t\<lparr>IDT := (IDT t)[i := gate (stubs i) sel ta]\<rparr>"
  have s: "set_interrupt_descriptor i (stubs i) sel ta t = Inr t1"
    using Suc.prems by (simp add: set_interrupt_descriptor_def t1_def)
  have "map (\<lambda>j. if Suc i \<le> j \<and> j < Suc i + n then gate (stubs j) sel ta else IDT t1 ! j) [0..<256]
      = map (\<lambda>j. if i \<le> j \<and> j < i + Suc n then gate (stubs j) sel ta else IDT t ! j) [0..<256]"
    using Suc.prems by (intro nth_equalityI) (auto simp: t1_def nth_list_update)
  moreover have "for_upto (Suc i) n (\<lambda>i. set_interrupt_descriptor i (stubs i) sel ta) t1
    = Inr (t1\<lparr>IDT := map (\<lambda>j. if Suc i \<le> j \<and> j < Suc i + n then gate (stubs j) sel ta else IDT t1 ! j) [0..<256]\<rparr>)"
    using Suc.prems by (intro Suc.IH) (auto simp: t1_def)
  ultimately show ?case by (simp add: s t1_def)
qed

text \<open>
  C25. After \<open>init_idt\<close> on the zeroed handler table, each of the 256 vectors leads to its own stub
  through a present interrupt gate of the kernel's 64-bit code segment, exactly the vectors of the
  division error (0), the page fault (14) and the scheduler's timer (32) have handlers, those of
  these three, and the next vector to be allocated is 33.
\<close>

theorem init_idt_correct:
  assumes "length (IDT t) = 256" and "idt_handlers t = replicate 256 No_handler" and "cur_vec_free t = 32"
  shows "\<exists>t'. init_idt stubs t = Inr t' \<and> length (IDT t') = 256
    \<and> (\<forall>i < 256. gate_target (IDT t' ! i) = stubs i \<and> type_attrib (IDT t' ! i) = 0x8E \<and> ist (IDT t' ! i) = 0
         \<and> selected ts (ucast (segment_sel (IDT t' ! i))) = 0x00af9b000000ffff)
    \<and> length (idt_handlers t') = 256
    \<and> (\<forall>i < 256. idt_handlers t' ! i = (if i = 0 then Division_by_zero else if i = 14 then Page_fault
         else if i = 32 then Sched_meow else No_handler))
    \<and> cur_vec_free t' = 33"
proof -
  have f: "gate_flags = 0x8E" by (simp add: gate_flags_def)
  have g: "type_attrib (gate h 0x28 0x8E) = 0x8E" "ist (gate h 0x28 0x8E) = 0"
    "selected ts (ucast (segment_sel (gate h 0x28 0x8E))) = 0x00af9b000000ffff" for h
    by (simp_all add: gate_def selected_def gdt_table_def)
  show ?thesis
    using assms idt_loop [OF assms(1), of 0 256 stubs "0x28" "0x8E"]
    by (auto simp: init_idt_def f RegisterHandler_def AllocateVector_def gate_target_gate g nth_list_update)
qed

theorem init_idt_correct_instance:
  "\<exists>t'. init_idt (\<lambda>i. 0x1000 + of_nat i)
      \<lparr>IDT = replicate 256 (gate 0 0 0), idt_handlers = replicate 256 No_handler, cur_vec_free = 32\<rparr> = Inr t'
    \<and> gate_target (IDT t' ! 32) = 0x1020"
  using init_idt_correct [of "\<lparr>IDT = replicate 256 (gate 0 0 0), idt_handlers = replicate 256 No_handler, cur_vec_free = 32\<rparr>"
      "\<lambda>i. 0x1000 + of_nat i" 0] by auto

lemma selectors_match_gdt_parts:
  assumes "msr c 0xC0000081 = 0"
  shows "let c' = enable_syscalls h c in
      msr c' 0xC0000082 = h \<and> bit (msr c' 0xC0000080) 0 \<and> msr c' 0xC0000084 = 0x200
    \<and> syscall_cs c' = 0x28 \<and> syscall_ss c' = 0x30 \<and> sysret_cs c' = 0x40 OR 3 \<and> sysret_ss c' = 0x38 OR 3"
    and "\<forall>(sel, code, dpl) \<in> {(0x28, True, 0), (0x30, False, 0), (0x40 OR 3, True, 3), (0x38 OR 3, False, 3)}.
      desc_present (selected ts sel) \<and> desc_segment (selected ts sel) \<and> desc_long (selected ts sel)
      \<and> desc_code (selected ts sel) = code \<and> desc_dpl (selected ts sel) = dpl"
    and "desc_base (gdt_table ts ! 9) (gdt_table ts ! 10) = ts"
proof -
  show "let c' = enable_syscalls h c in
      msr c' 0xC0000082 = h \<and> bit (msr c' 0xC0000080) 0 \<and> msr c' 0xC0000084 = 0x200
    \<and> syscall_cs c' = 0x28 \<and> syscall_ss c' = 0x30 \<and> sysret_cs c' = 0x40 OR 3 \<and> sysret_ss c' = 0x38 OR 3"
    using assms
    by (simp add: enable_syscalls_def Let_def readmsr_eq writemsr_eq syscall_cs_def syscall_ss_def sysret_cs_def
        sysret_ss_def bit_or_iff)
  show "\<forall>(sel, code, dpl) \<in> {(0x28, True, 0), (0x30, False, 0), (0x40 OR 3, True, 3), (0x38 OR 3, False, 3)}.
      desc_present (selected ts sel) \<and> desc_segment (selected ts sel) \<and> desc_long (selected ts sel)
      \<and> desc_code (selected ts sel) = code \<and> desc_dpl (selected ts sel) = dpl"
    by (simp add: selected_def gdt_table_def desc_present_def desc_segment_def desc_long_def desc_code_def desc_dpl_def)
  show "desc_base (gdt_table ts ! 9) (gdt_table ts ! 10) = ts" by (rule tss_descriptor)
qed

text \<open>
  The selectors fit the descriptor table. If STAR was zero, then after system calls are enabled
  the \<open>syscall\<close> instruction enters the given handler with the kernel's 64-bit code segment and a
  kernel data segment, with interrupts masked, and \<open>sysret\<close> returns to a present 64-bit user code
  segment with a user data segment, with the selectors that a user thread's context gets.
\<close>

lemma selectors_match_gdt:
  assumes "msr c 0xC0000081 = 0"
  shows "(let c' = enable_syscalls h c in
      msr c' 0xC0000082 = h \<and> bit (msr c' 0xC0000080) 0 \<and> msr c' 0xC0000084 = 0x200
    \<and> syscall_cs c' = 0x28 \<and> syscall_ss c' = 0x30 \<and> sysret_cs c' = 0x40 OR 3 \<and> sysret_ss c' = 0x38 OR 3)
    \<and> (\<forall>(sel, code, dpl) \<in> {(0x28, True, 0), (0x30, False, 0), (0x40 OR 3, True, 3), (0x38 OR 3, False, 3)}.
      desc_present (selected ts sel) \<and> desc_segment (selected ts sel) \<and> desc_long (selected ts sel)
      \<and> desc_code (selected ts sel) = code \<and> desc_dpl (selected ts sel) = dpl)
    \<and> desc_base (gdt_table ts ! 9) (gdt_table ts ! 10) = ts"
  by (intro conjI selectors_match_gdt_parts [OF assms])

definition demo_machine :: machine where
  "demo_machine = \<lparr>io_log = [], device = (\<lambda>_ _. 0), term_log = [], msr = (\<lambda>_. 0), cr0 = 0, cr2 = 0, cr3 = 0, cr4 = 0,
     xcr0 = 0, interrupts_on = False\<rparr>"

lemma selectors_match_gdt_instance:
  "msr (enable_syscalls 0x1234 demo_machine) 0xC0000082 = 0x1234"
  using selectors_match_gdt [of demo_machine "0x1234"] by (simp add: demo_machine_def Let_def)

end
