(* ===== verification/Access.thy ===== *)
theory Access
  imports Memory
begin

text \<open>
  Little-endian accesses of one to eight bytes: the fields of the structures that the boot loader,
  the firmware and files bring along, which are smaller than a cell or not aligned.
\<close>

primrec load_bytes :: "nat \<Rightarrow> memory \<Rightarrow> u64 \<Rightarrow> u64" where
  "load_bytes 0 m a = 0"
| "load_bytes (Suc n) m a = ucast (m a) OR push_bit 8 (load_bytes n m (a + 1))"

primrec store_bytes :: "nat \<Rightarrow> memory \<Rightarrow> u64 \<Rightarrow> u64 \<Rightarrow> memory" where
  "store_bytes 0 m a v = m"
| "store_bytes (Suc n) m a v = (store_bytes n m (a + 1) (drop_bit 8 v))(a := ucast v)"

lemma store_bytes_other: "n \<le> unat (x - a) \<Longrightarrow> store_bytes n m a v x = m x"
proof (induction n arbitrary: a v)
  case (Suc n)
  then have z: "x - a \<noteq> 0" by auto
  have "unat (x - a - 1) = unat (x - a) - 1" using z by (rule unat_minus_one)
  then have "n \<le> unat (x - (a + 1))" using Suc.prems by (simp add: algebra_simps)
  then show ?case using Suc.IH z by auto
qed simp

lemma load_bytes_cong: "(\<And>i. i < n \<Longrightarrow> m (a + of_nat i) = m' (a + of_nat i)) \<Longrightarrow> load_bytes n m a = load_bytes n m' a"
proof (induction n arbitrary: a)
  case (Suc n)
  have "load_bytes n m (a + 1) = load_bytes n m' (a + 1)"
    using Suc.prems [of "Suc i" for i] by (intro Suc.IH) (simp add: add.assoc)
  then show ?case using Suc.prems [of 0] by simp
qed simp

lemma take_bit_step: "take_bit (8 * Suc n) v = take_bit 8 v OR push_bit 8 (take_bit (8 * n) (drop_bit 8 v))" for v :: u64
proof (rule bit_word_eqI)
  fix k assume k: "k < LENGTH(64)"
  show "bit (take_bit (8 * Suc n) v) k = bit (take_bit 8 v OR push_bit 8 (take_bit (8 * n) (drop_bit 8 v))) k"
    using k by (cases "k < 8") (auto simp: bit_simps)
qed

lemma load_store_bytes: "n \<le> 8 \<Longrightarrow> load_bytes n (store_bytes n m a v) a = take_bit (8 * n) v"
proof (induction n arbitrary: a v)
  case (Suc n)
  have "load_bytes n ((store_bytes n m (a + 1) (drop_bit 8 v))(a := ucast v)) (a + 1)
      = load_bytes n (store_bytes n m (a + 1) (drop_bit 8 v)) (a + 1)"
  proof (rule load_bytes_cong)
    fix i assume i: "i < n"
    then have "Suc i < 2 ^ 64" using Suc.prems by simp
    then have "(of_nat (Suc i) :: u64) \<noteq> 0" by (subst word_of_nat_eq_0_iff) (auto dest: dvd_imp_le)
    then have "a + 1 + of_nat i \<noteq> a" by (simp add: algebra_simps)
    then show "((store_bytes n m (a + 1) (drop_bit 8 v))(a := ucast v)) (a + 1 + of_nat i)
        = store_bytes n m (a + 1) (drop_bit 8 v) (a + 1 + of_nat i)" by simp
  qed
  then have "load_bytes n (store_bytes (Suc n) m a v) (a + 1) = take_bit (8 * n) (drop_bit 8 v)"
    using Suc by (simp only: store_bytes.simps)
  moreover have "store_bytes (Suc n) m a v a = ucast v" by simp
  ultimately show ?case unfolding take_bit_step by (simp only: load_bytes.simps ucast_byte)
qed simp

end
