(* ===== verification/Apic.thy ===== *)
theory Apic
  imports Interrupts Access
begin

text \<open>
  The interrupt controllers, \<open>kernel/src/drivers/apic.c\<close>: the registers of the local APIC and the
  I/O APICs, the routing of interrupts, the HPET delay and the set-up from the ACPI tables. The
  tables are in memory, at the addresses that the ACPI library reports; their layout is that of
  the ACPI specification. \<open>hhdm\<close> is the offset of the direct map.
\<close>

section \<open>State\<close>

text \<open>
  \<open>ioapics\<close> holds the used part of the array: the table entry and \<open>max_gsi\<close> of each. The counter
  \<open>lapic_ticks_per_10ms\<close> is shadowed by a local variable and never set.
\<close>

record apic_state =
  lapic_addr :: u32
  hpet_addrs :: u64
  time_per_tick_hpet :: u64
  ioapics :: "(u64 \<times> u64) list"
  isos :: "u8 \<Rightarrow> u64"

section \<open>Registers\<close>

definition mmio_read :: "nat \<Rightarrow> u64 \<Rightarrow> machine \<Rightarrow> u64 \<times> machine" where
  "mmio_read w a c = (let (v, c') = io_read (Mmio_read w a) c in (take_bit (8 * w) v, c'))"

definition mmio_write :: "nat \<Rightarrow> u64 \<Rightarrow> u64 \<Rightarrow> machine \<Rightarrow> machine" where
  "mmio_write w a v = io_write (Mmio_write w a v)"

definition ioapic_address :: "memory \<Rightarrow> u64 \<Rightarrow> u32" where
  "ioapic_address m info = ucast (load_bytes 4 m (info + 4))"

definition ioapic_gsi_base :: "memory \<Rightarrow> u64 \<Rightarrow> u32" where
  "ioapic_gsi_base m info = ucast (load_bytes 4 m (info + 8))"

definition select_ioapic_register :: "memory \<Rightarrow> u64 \<Rightarrow> u64 \<Rightarrow> u8 \<Rightarrow> machine \<Rightarrow> machine" where
  "select_ioapic_register m hhdm info ioapic_reg =
     mmio_write 4 (ucast (ioapic_address m info) + hhdm) (ucast ioapic_reg)"

definition write_ioapic_selectedregister :: "memory \<Rightarrow> u64 \<Rightarrow> u64 \<Rightarrow> u32 \<Rightarrow> machine \<Rightarrow> machine" where
  "write_ioapic_selectedregister m hhdm info data =
     mmio_write 4 (ucast (ioapic_address m info + 0x10) + hhdm) (ucast data)"

definition read_ioapic_selectedregister :: "memory \<Rightarrow> u64 \<Rightarrow> u64 \<Rightarrow> machine \<Rightarrow> u32 \<times> machine" where
  "read_ioapic_selectedregister m hhdm info c =
     (let (v, c') = mmio_read 4 (ucast (ioapic_address m info + 0x10) + hhdm) c in (ucast v, c'))"

definition get_ioapic_maxgsi :: "memory \<Rightarrow> u64 \<Rightarrow> u64 \<Rightarrow> machine \<Rightarrow> u8 \<times> machine" where
  "get_ioapic_maxgsi m hhdm info c =
     (let (v, c') = read_ioapic_selectedregister m hhdm info (select_ioapic_register m hhdm info 0x1 c)
      in (ucast (drop_bit 16 v AND 0xff), c'))"

definition read_lapic_register :: "u64 \<Rightarrow> u32 \<Rightarrow> u16 \<Rightarrow> machine \<Rightarrow> u32 \<times> machine" where
  "read_lapic_register hhdm lapic_base reg_offset c =
     (let (v, c') = mmio_read 4 (ucast (lapic_base + ucast reg_offset) + hhdm) c in (ucast v, c'))"

definition write_lapic_register :: "u64 \<Rightarrow> u32 \<Rightarrow> u16 \<Rightarrow> u32 \<Rightarrow> machine \<Rightarrow> machine" where
  "write_lapic_register hhdm lapic_base reg_offset data =
     mmio_write 4 (ucast (lapic_base + ucast reg_offset) + hhdm) (ucast data)"

definition send_lapic_eoi :: "u64 \<Rightarrow> apic_state \<Rightarrow> machine \<Rightarrow> machine" where
  "send_lapic_eoi hhdm a = write_lapic_register hhdm (lapic_addr a) 0xb0 0"

definition get_lapic_id :: "u64 \<Rightarrow> apic_state \<Rightarrow> machine \<Rightarrow> u32 \<times> machine" where
  "get_lapic_id hhdm a = read_lapic_register hhdm (lapic_addr a) 0x20"

section \<open>The delay loop\<close>

definition hpet_counter :: "u64 \<Rightarrow> apic_state \<Rightarrow> machine \<Rightarrow> u64 \<times> machine" where
  "hpet_counter hhdm a = mmio_read 8 (hpet_addrs a + hhdm + 0x0f0)"

partial_function (option) ksleep_loop :: "u64 \<Rightarrow> apic_state \<Rightarrow> u64 \<Rightarrow> u64 \<Rightarrow> machine \<Rightarrow> machine option" where
  "ksleep_loop hhdm a poll_start ms c =
     (let (cur, c') = hpet_counter hhdm a c
      in if (cur - poll_start) * time_per_tick_hpet a < ms * 1000000
         then ksleep_loop hhdm a poll_start ms c' else Some c')"

definition ksleep :: "u64 \<Rightarrow> apic_state \<Rightarrow> u64 \<Rightarrow> machine \<Rightarrow> machine option" where
  "ksleep hhdm a ms c = (let (poll_start, c') = hpet_counter hhdm a c in ksleep_loop hhdm a poll_start ms c')"

section \<open>Routing\<close>

text \<open>The last I/O APIC whose range, as the code computes it, contains the interrupt.\<close>

definition in_range :: "memory \<Rightarrow> u8 \<Rightarrow> u64 \<times> u64 \<Rightarrow> bool" where
  "in_range m gsi io \<longleftrightarrow> ioapic_gsi_base m (fst io) \<le> ucast gsi
     \<and> ucast (ioapic_gsi_base m (fst io)) + snd io > ucast gsi"

definition find_ioapic :: "memory \<Rightarrow> u8 \<Rightarrow> (u64 \<times> u64) list \<Rightarrow> (u64 \<times> u64) option" where
  "find_ioapic m gsi ios = foldl (\<lambda>he io. if in_range m gsi io then Some io else he) None ios"

definition redirection :: "u8 \<Rightarrow> u16 \<Rightarrow> u32 \<Rightarrow> u64" where
  "redirection vec flags lapic_id =
     ucast vec OR (if flags AND 3 = 3 then push_bit 13 1 else 0)
     OR (if drop_bit 2 flags AND 3 = 3 then push_bit 15 1 else 0)
     OR push_bit 56 (ucast lapic_id)"

definition route_irq :: "memory \<Rightarrow> u64 \<Rightarrow> apic_state \<Rightarrow> u8 \<Rightarrow> u32 \<Rightarrow> u8 \<Rightarrow> machine \<Rightarrow> bool \<times> machine" where
  "route_irq m hhdm a irq lapic_id vec c =
     (let iso = isos a irq;
          gsi = (if iso \<noteq> null then ucast (load_bytes 4 m (iso + 4)) else irq) :: u8;
          flags = (if iso \<noteq> null then ucast (load_bytes 2 m (iso + 8)) else 0) :: u16
      in case find_ioapic m gsi (ioapics a) of
           None \<Rightarrow> (False, c)
         | Some (he, _) \<Rightarrow>
             let meow = redirection vec flags lapic_id;
                 reg = 0x10 + (ucast gsi - ioapic_gsi_base m he) * 0x02;
                 c1 = select_ioapic_register m hhdm he (ucast reg) c;
                 c2 = write_ioapic_selectedregister m hhdm he (ucast meow) c1;
                 c3 = select_ioapic_register m hhdm he (ucast (reg + 1)) c2
             in (True, write_ioapic_selectedregister m hhdm he (ucast (drop_bit 32 meow)) c3))"

section \<open>The set-up\<close>

text \<open>One entry of the MADT; a seventeenth I/O APIC is written behind the array.\<close>

definition madt_entry :: "memory \<Rightarrow> u64 \<Rightarrow> u64 \<Rightarrow> apic_state \<times> machine \<Rightarrow> (apic_state \<times> machine) res" where
  "madt_entry m hhdm ent s =
     (let (a, c) = s; ty = m ent
      in if ty = 2 then Inr (a\<lparr>isos := (isos a)(m (ent + 3) := ent)\<rparr>, c)
         else if ty = 1 then
           if length (ioapics a) < 16 then
             let (maxgsi, c') = get_ioapic_maxgsi m hhdm ent c
             in Inr (a\<lparr>ioapics := ioapics a @ [(ent, ucast maxgsi)]\<rparr>, c')
           else Inl Undefined
         else if ty = 4 then
           let c1 = serial_print (bytes_of ''LOCAL APIC LINT THIS NMI IS CONNECTED TO: '') c;
               c2 = serial_print (itoa_text (ucast (m (ent + 5)))) c1;
               c3 = serial_print (bytes_of '' FOR PROCESSER ID: '') c2;
               c4 = serial_print (itoah_text (ucast (m (ent + 2)))) c3
           in Inr (a, serial_print (bytes_of [CHR 0x0A]) c4)
         else Inr (a, c))"

text \<open>An entry of length zero keeps the loop where it is, for ever.\<close>

partial_function (option) madt_loop ::
  "memory \<Rightarrow> u64 \<Rightarrow> u64 \<Rightarrow> u64 \<Rightarrow> u64 \<Rightarrow> apic_state \<times> machine \<Rightarrow> (apic_state \<times> machine) res option" where
  "madt_loop m hhdm entries len offset s =
     (if offset < len then
        (case madt_entry m hhdm (entries + offset) s of
           Inl e \<Rightarrow> Some (Inl e)
         | Inr s' \<Rightarrow> madt_loop m hhdm entries len (offset + ucast (m (entries + offset + 1))) s')
      else Some (Inr s))"

text \<open>The tables' addresses, as the ACPI library found them.\<close>

definition calibrate :: "u64 \<Rightarrow> apic_state \<Rightarrow> machine \<Rightarrow> machine option" where
  "calibrate hhdm a c =
     (let c1 = write_lapic_register hhdm (lapic_addr a) 0x380 0xffffffff c
      in case ksleep hhdm a 10 c1 of
           None \<Rightarrow> None
         | Some c2 \<Rightarrow>
             let (cur, c3) = read_lapic_register hhdm (lapic_addr a) 0x390 c2;
                 ticks = 0xffffffff - cur;
                 c4 = serial_print (bytes_of ''LAPIC TICKS PER 10MS: '') c3;
                 c5 = serial_print (itoa_text (ucast ticks)) c4;
                 c6 = serial_print (bytes_of [CHR 0x0A]) c5;
                 c7 = serial_print (bytes_of (''FINISHED WAITING 10MS'' @ [CHR 0x0A])) c6;
                 c8 = write_lapic_register hhdm (lapic_addr a) 0x380 ticks c7;
                 c9 = write_lapic_register hhdm (lapic_addr a) 0x320 (32 OR push_bit 16 0 OR push_bit 17 1) c8
             in Some (c9\<lparr>interrupts_on := False\<rparr>))"

definition start_hpet :: "memory \<Rightarrow> u64 \<Rightarrow> u64 option \<Rightarrow> apic_state \<Rightarrow> machine \<Rightarrow> (apic_state \<times> machine) res" where
  "start_hpet m hhdm hpet a c =
     (case hpet of
        None \<Rightarrow> Inl Halted
      | Some h \<Rightarrow>
          if m (h + 40) \<noteq> 0 then Inl Halted
          else
            let hpet_base = load64 m (h + 44);
                a1 = a\<lparr>hpet_addrs := hpet_base\<rparr>;
                c1 = serial_print (bytes_of ''HPET COUNTER SIZE: '') c;
                (config_and_id, c2) = mmio_read 4 (hpet_base + hhdm) c1
            in if config_and_id AND push_bit 13 1 = 0 then Inl Halted
               else
                 let c3 = serial_print (bytes_of (''CAPABLE'' @ [CHR 0x0A])) c2;
                     (config_reg, c4) = mmio_read 8 (hpet_base + hhdm + 0x010) c3;
                     c5 = (if config_reg AND 1 \<noteq> 0
                           then serial_print (bytes_of (''COUNTER IS RUNNING!'' @ [CHR 0x0A])) c4
                           else mmio_write 8 (hpet_base + hhdm + 0x010) 1
                             (serial_print (bytes_of (''NOT RUNNING ENABLING HPET COUNTER...'' @ [CHR 0x0A])) c4));
                     (cap, c6) = mmio_read 8 (hpet_base + hhdm) c5;
                     time_per_tick = (drop_bit 32 cap AND 0xFFFFFFFF) div 1000000
                 in Inr (a1\<lparr>time_per_tick_hpet := time_per_tick\<rparr>, c6))"

definition apic_init :: "memory \<Rightarrow> u64 \<Rightarrow> u64 \<Rightarrow> u64 option \<Rightarrow> apic_state \<Rightarrow> machine \<Rightarrow> (apic_state \<times> machine) res option" where
  "apic_init m hhdm madt hpet a c =
     (let length_of_entries = ucast (ucast (load_bytes 4 m (madt + 4)) :: u32) - 44
      in case madt_loop m hhdm (madt + 44) length_of_entries 0 (a, c) of
           None \<Rightarrow> None
         | Some (Inl e) \<Rightarrow> Some (Inl e)
         | Some (Inr (a1, c1)) \<Rightarrow>
             let a2 = a1\<lparr>lapic_addr := ucast (load_bytes 4 m (madt + 36))\<rparr>;
                 c2 = c1\<lparr>interrupts_on := True\<rparr>;
                 c3 = write_lapic_register hhdm (lapic_addr a2) 0xf0 (0x100 OR 33) c2;
                 c4 = write_lapic_register hhdm (lapic_addr a2) 0x3e0 1 c3;
                 c5 = write_lapic_register hhdm (lapic_addr a2) 0x320 (34 OR push_bit 16 1) c4
             in case start_hpet m hhdm hpet a2 c5 of
                  Inl e \<Rightarrow> Some (Inl e)
                | Inr (a3, c6) \<Rightarrow>
                    (case calibrate hhdm a3 c6 of None \<Rightarrow> None | Some c7 \<Rightarrow> Some (Inr (a3, c7))))"

section \<open>Correctness of the routing\<close>

text \<open>The two words that are written to the selected registers, put together again.\<close>

lemma join_words: "push_bit 32 (drop_bit 32 v) OR take_bit 32 v = (v :: u64)"
proof (rule bit_word_eqI)
  fix n assume "n < LENGTH(64)"
  then show "bit (push_bit 32 (drop_bit 32 v) OR take_bit 32 v) n = bit v n"
    by (cases "n < 32") (auto simp: bit_simps)
qed

text \<open>The fields of a redirection entry.\<close>

lemma redirection_fields:
  "take_bit 8 (redirection vec flags lid) = ucast vec"
  "bit (redirection vec flags lid) 13 \<longleftrightarrow> flags AND 3 = 3"
  "bit (redirection vec flags lid) 15 \<longleftrightarrow> drop_bit 2 flags AND 3 = 3"
  "8 \<le> n \<Longrightarrow> n < 56 \<Longrightarrow> n \<noteq> 13 \<Longrightarrow> n \<noteq> 15 \<Longrightarrow> \<not> bit (redirection vec flags lid) n"
  "drop_bit 56 (redirection vec flags lid) = ucast (ucast lid :: u8)"
proof -
  have v: "\<not> bit vec n" if "8 \<le> n" for n using that by (auto dest: bit_imp_le_length)
  have o: "bit (if P then push_bit k 1 else 0 :: u64) n \<longleftrightarrow> P \<and> n = k \<and> k < 64" for P k n
    by (auto simp: bit_simps)
  have b: "bit (redirection vec flags lid) n \<longleftrightarrow> n < 64 \<and> (bit vec n \<or> flags AND 3 = 3 \<and> n = 13
      \<or> drop_bit 2 flags AND 3 = 3 \<and> n = 15 \<or> 56 \<le> n \<and> bit lid (n - 56))" for n
    unfolding redirection_def bit_or_iff o by (auto simp: bit_simps dest: bit_imp_le_length)
  show "take_bit 8 (redirection vec flags lid) = ucast vec"
    by (rule bit_word_eqI) (auto simp: bit_take_bit_iff b bit_unsigned_iff dest: bit_imp_le_length)
  show "bit (redirection vec flags lid) 13 \<longleftrightarrow> flags AND 3 = 3"
    "bit (redirection vec flags lid) 15 \<longleftrightarrow> drop_bit 2 flags AND 3 = 3"
    using v by (auto simp: b)
  show "8 \<le> n \<Longrightarrow> n < 56 \<Longrightarrow> n \<noteq> 13 \<Longrightarrow> n \<noteq> 15 \<Longrightarrow> \<not> bit (redirection vec flags lid) n"
    using v by (auto simp: b)
  show "drop_bit 56 (redirection vec flags lid) = ucast (ucast lid :: u8)"
    by (rule bit_word_eqI) (use v in \<open>auto simp: bit_drop_bit_eq b bit_unsigned_iff\<close>)
qed

lemma route_irq_correct_parts:
  fixes gsi :: u8 and flags :: u16
  assumes "gsi = (if isos a irq \<noteq> 0 then ucast (load_bytes 4 m (isos a irq + 4)) else irq)"
    and "flags = (if isos a irq \<noteq> 0 then ucast (load_bytes 2 m (isos a irq + 8)) else 0)"
  shows "find_ioapic m gsi (ioapics a) = None \<Longrightarrow> route_irq m hhdm a irq lapic_id vec c = (False, c)"
    and "find_ioapic m gsi (ioapics a) = Some (he, n) \<Longrightarrow>
      \<exists>lo hi. route_irq m hhdm a irq lapic_id vec c = (True, c\<lparr>io_log := io_log c
        @ [Mmio_write 4 (ucast (ioapic_address m he) + hhdm) (ucast (ucast (0x10 + (ucast gsi - ioapic_gsi_base m he) * 2) :: u8)),
           Mmio_write 4 (ucast (ioapic_address m he + 0x10) + hhdm) lo,
           Mmio_write 4 (ucast (ioapic_address m he) + hhdm) (ucast (ucast (0x11 + (ucast gsi - ioapic_gsi_base m he) * 2) :: u8)),
           Mmio_write 4 (ucast (ioapic_address m he + 0x10) + hhdm) hi]\<rparr>)
      \<and> take_bit 8 lo = ucast vec \<and> (bit lo 13 \<longleftrightarrow> flags AND 3 = 3) \<and> (bit lo 15 \<longleftrightarrow> drop_bit 2 flags AND 3 = 3)
      \<and> (\<forall>i. 8 \<le> i \<and> i \<noteq> 13 \<and> i \<noteq> 15 \<longrightarrow> \<not> bit lo i)
      \<and> drop_bit 24 hi = ucast (ucast lapic_id :: u8) \<and> take_bit 24 hi = 0"
proof -
  show "route_irq m hhdm a irq lapic_id vec c = (False, c)" if "find_ioapic m gsi (ioapics a) = None"
    using that assms by (simp add: route_irq_def Let_def)
  assume f: "find_ioapic m gsi (ioapics a) = Some (he, n)"
  define e where "e = redirection vec flags lapic_id"
  define lo hi where "lo = (ucast (ucast e :: u32) :: u64)" and "hi = (ucast (ucast (drop_bit 32 e) :: u32) :: u64)"
  have l: "lo = take_bit 32 e" "hi = drop_bit 32 e"
    unfolding lo_def hi_def by (rule bit_word_eqI; auto simp: bit_simps dest: bit_imp_le_length)+
  note F = redirection_fields(4) [of _ vec flags lapic_id, folded e_def]
  note G = redirection_fields(1-3,5) [of vec flags lapic_id, folded e_def]
  have "take_bit 8 lo = ucast vec" using G(1) by (simp add: l)
  moreover have "bit lo 13 \<longleftrightarrow> flags AND 3 = 3" "bit lo 15 \<longleftrightarrow> drop_bit 2 flags AND 3 = 3"
    using G(2,3) by (simp_all add: l bit_take_bit_iff)
  moreover have "\<not> bit lo i" if "8 \<le> i" "i \<noteq> 13" "i \<noteq> 15" for i
    using F [of i] that by (cases "i < 32") (simp_all add: l bit_take_bit_iff)
  moreover have "drop_bit 24 hi = ucast (ucast lapic_id :: u8)" using G(4) by (simp add: l)
  moreover have "take_bit 24 hi = 0"
  proof (rule bit_word_eqI)
    fix i assume "i < LENGTH(64)"
    show "bit (take_bit 24 hi) i = bit 0 i"
      using F [of "i + 32"] by (auto simp: l bit_take_bit_iff bit_drop_bit_eq add.commute)
  qed
  ultimately have fields: "take_bit 8 lo = ucast vec \<and> (bit lo 13 \<longleftrightarrow> flags AND 3 = 3) \<and> (bit lo 15 \<longleftrightarrow> drop_bit 2 flags AND 3 = 3)
      \<and> (\<forall>i. 8 \<le> i \<and> i \<noteq> 13 \<and> i \<noteq> 15 \<longrightarrow> \<not> bit lo i)
      \<and> drop_bit 24 hi = ucast (ucast lapic_id :: u8) \<and> take_bit 24 hi = 0"
    by blast
  have r: "(0x10 + x * 2 + 1 :: u32) = 0x11 + x * 2" for x by simp
  have "route_irq m hhdm a irq lapic_id vec c = (True, c\<lparr>io_log := io_log c
        @ [Mmio_write 4 (ucast (ioapic_address m he) + hhdm) (ucast (ucast (0x10 + (ucast gsi - ioapic_gsi_base m he) * 2) :: u8)),
           Mmio_write 4 (ucast (ioapic_address m he + 0x10) + hhdm) lo,
           Mmio_write 4 (ucast (ioapic_address m he) + hhdm) (ucast (ucast (0x11 + (ucast gsi - ioapic_gsi_base m he) * 2) :: u8)),
           Mmio_write 4 (ucast (ioapic_address m he + 0x10) + hhdm) hi]\<rparr>)"
    unfolding route_irq_def Let_def assms [symmetric] f
    by (simp add: select_ioapic_register_def write_ioapic_selectedregister_def mmio_write_def
        io_write_def e_def lo_def hi_def r)
  then show "\<exists>lo hi. route_irq m hhdm a irq lapic_id vec c = (True, c\<lparr>io_log := io_log c
        @ [Mmio_write 4 (ucast (ioapic_address m he) + hhdm) (ucast (ucast (0x10 + (ucast gsi - ioapic_gsi_base m he) * 2) :: u8)),
           Mmio_write 4 (ucast (ioapic_address m he + 0x10) + hhdm) lo,
           Mmio_write 4 (ucast (ioapic_address m he) + hhdm) (ucast (ucast (0x11 + (ucast gsi - ioapic_gsi_base m he) * 2) :: u8)),
           Mmio_write 4 (ucast (ioapic_address m he + 0x10) + hhdm) hi]\<rparr>)
      \<and> take_bit 8 lo = ucast vec \<and> (bit lo 13 \<longleftrightarrow> flags AND 3 = 3) \<and> (bit lo 15 \<longleftrightarrow> drop_bit 2 flags AND 3 = 3)
      \<and> (\<forall>i. 8 \<le> i \<and> i \<noteq> 13 \<and> i \<noteq> 15 \<longrightarrow> \<not> bit lo i)
      \<and> drop_bit 24 hi = ucast (ucast lapic_id :: u8) \<and> take_bit 24 hi = 0" using fields by blast
qed

text \<open>
  The lines an I/O APIC is given: from its first global interrupt on, as many as the maximal entry
  number that it reported. (That number counts from 0, so a controller has one line more.)
\<close>

definition serves :: "memory \<Rightarrow> u64 \<times> u64 \<Rightarrow> u8 \<Rightarrow> bool" where
  "serves m io gsi \<longleftrightarrow>
     unat gsi \<in> {unat (ioapic_gsi_base m (fst io)) ..< unat (ioapic_gsi_base m (fst io)) + unat (snd io)}"

lemma in_range_serves:
  assumes "snd io < 256"
  shows "in_range m gsi io \<longleftrightarrow> serves m io gsi"
proof -
  define b where "b = ioapic_gsi_base m (fst io)"
  have b: "unat (ucast b :: u64) = unat b" "unat b < 2 ^ 32"
    using unsigned_less [of b, where ?'a = nat] by (simp_all add: unsigned_ucast_eq take_bit_nat_eq_self)
  moreover have "unat (snd io) < 256" using assms by (simp add: word_less_nat_alt)
  ultimately have "unat (ucast b + snd io) = unat b + unat (snd io)"
    using unat_add_lem [of "ucast b :: u64" "snd io"] by simp
  moreover have "unat (ucast gsi :: u32) = unat gsi" "unat (ucast gsi :: u64) = unat gsi"
    using unsigned_less [of gsi, where ?'a = nat] by (simp_all add: unsigned_ucast_eq take_bit_nat_eq_self)
  ultimately show ?thesis
    by (simp add: in_range_def serves_def b_def [symmetric] word_less_nat_alt word_le_nat_alt)
qed

text \<open>The search keeps the last one.\<close>

lemma find_ioapic_none: "(\<forall>io \<in> set ios. \<not> in_range m gsi io) \<Longrightarrow> find_ioapic m gsi ios = None"
  unfolding find_ioapic_def by (induction ios rule: rev_induct) auto

lemma find_ioapic_last:
  "in_range m gsi io \<Longrightarrow> (\<forall>io' \<in> set later. \<not> in_range m gsi io')
    \<Longrightarrow> find_ioapic m gsi (earlier @ io # later) = Some io"
  unfolding find_ioapic_def by (induction later rule: rev_induct) auto

text \<open>
  C26. Let the line of an interrupt be the low byte of what the firmware's override for it says, or
  else its own number. If some I/O APIC serves the line, its number being at least the controller's
  first line and below the first line plus the maximal entry number that the controller reported,
  then routing programs exactly the two registers of that line in the last such controller: together
  they hold the vector, fixed delivery to a physical destination, level or edge and the polarity
  from the override's flags, an unmasked entry, and the low byte of the given id as destination. If
  no controller serves the line, nothing is written and the caller is told; the last entry of every
  controller is not served in this sense although the hardware has it.
\<close>

theorem route_irq_correct:
  fixes gsi :: u8 and flags :: u16
  assumes "gsi = (if isos a irq \<noteq> 0 then ucast (load_bytes 4 m (isos a irq + 4)) else irq)"
    and "flags = (if isos a irq \<noteq> 0 then ucast (load_bytes 2 m (isos a irq + 8)) else 0)"
    and "\<forall>io \<in> set (ioapics a). snd io < 256"
  shows "((\<forall>io \<in> set (ioapics a). \<not> serves m io gsi) \<longrightarrow> route_irq m hhdm a irq lapic_id vec c = (False, c))
    \<and> (\<forall>earlier he n later. ioapics a = earlier @ (he, n) # later \<and> serves m (he, n) gsi
         \<and> (\<forall>io \<in> set later. \<not> serves m io gsi) \<longrightarrow> (
      \<exists>lo hi. route_irq m hhdm a irq lapic_id vec c = (True, c\<lparr>io_log := io_log c
        @ [Mmio_write 4 (ucast (ioapic_address m he) + hhdm) (ucast (ucast (0x10 + (ucast gsi - ioapic_gsi_base m he) * 2) :: u8)),
           Mmio_write 4 (ucast (ioapic_address m he + 0x10) + hhdm) lo,
           Mmio_write 4 (ucast (ioapic_address m he) + hhdm) (ucast (ucast (0x11 + (ucast gsi - ioapic_gsi_base m he) * 2) :: u8)),
           Mmio_write 4 (ucast (ioapic_address m he + 0x10) + hhdm) hi]\<rparr>)
      \<and> take_bit 8 lo = ucast vec \<and> (bit lo 13 \<longleftrightarrow> flags AND 3 = 3) \<and> (bit lo 15 \<longleftrightarrow> drop_bit 2 flags AND 3 = 3)
      \<and> (\<forall>i. 8 \<le> i \<and> i \<noteq> 13 \<and> i \<noteq> 15 \<longrightarrow> \<not> bit lo i)
      \<and> drop_bit 24 hi = ucast (ucast lapic_id :: u8) \<and> take_bit 24 hi = 0))"
proof (intro conjI impI allI)
  have r: "in_range m gsi io \<longleftrightarrow> serves m io gsi" if "io \<in> set (ioapics a)" for io
    using in_range_serves assms(3) that by blast
  show "route_irq m hhdm a irq lapic_id vec c = (False, c)" if "\<forall>io \<in> set (ioapics a). \<not> serves m io gsi"
    by (rule route_irq_correct_parts(1) [OF assms(1,2)], rule find_ioapic_none) (use that r in blast)
  fix earlier he n later
  assume s: "ioapics a = earlier @ (he, n) # later \<and> serves m (he, n) gsi \<and> (\<forall>io \<in> set later. \<not> serves m io gsi)"
  then have "find_ioapic m gsi (ioapics a) = Some (he, n)"
    using find_ioapic_last [of m gsi "(he, n)" later earlier] r by simp
  from route_irq_correct_parts(2) [OF assms(1,2) this]
  show "\<exists>lo hi. route_irq m hhdm a irq lapic_id vec c = (True, c\<lparr>io_log := io_log c
        @ [Mmio_write 4 (ucast (ioapic_address m he) + hhdm) (ucast (ucast (0x10 + (ucast gsi - ioapic_gsi_base m he) * 2) :: u8)),
           Mmio_write 4 (ucast (ioapic_address m he + 0x10) + hhdm) lo,
           Mmio_write 4 (ucast (ioapic_address m he) + hhdm) (ucast (ucast (0x11 + (ucast gsi - ioapic_gsi_base m he) * 2) :: u8)),
           Mmio_write 4 (ucast (ioapic_address m he + 0x10) + hhdm) hi]\<rparr>)
      \<and> take_bit 8 lo = ucast vec \<and> (bit lo 13 \<longleftrightarrow> flags AND 3 = 3) \<and> (bit lo 15 \<longleftrightarrow> drop_bit 2 flags AND 3 = 3)
      \<and> (\<forall>i. 8 \<le> i \<and> i \<noteq> 13 \<and> i \<noteq> 15 \<longrightarrow> \<not> bit lo i)
      \<and> drop_bit 24 hi = ucast (ucast lapic_id :: u8) \<and> take_bit 24 hi = 0" .
qed

section \<open>Delays end\<close>

text \<open>How often the counter was read in a log of accesses.\<close>

definition polls :: "u64 \<Rightarrow> io_op list \<Rightarrow> nat" where
  "polls a ops = length (filter (\<lambda>op. op = Mmio_read 8 a) ops)"

lemma polls_snoc [simp]: "polls a (ops @ [op]) = (if op = Mmio_read 8 a then Suc (polls a ops) else polls a ops)"
  by (simp add: polls_def)

lemma take_bit_64 [simp]: "take_bit 64 v = v" for v :: u64
  by (rule bit_word_eqI) (simp add: bit_simps)

lemma ksleep_loop_ends:
  assumes dev: "\<And>ops. device c ops (Mmio_read 8 addr) = counter (polls addr ops)"
    and addr: "addr = hpet_addrs a + hhdm + 0x0f0" and p: "polls addr (io_log c) = i"
    and wait: "\<And>j. i \<le> j \<Longrightarrow> j < i + n \<Longrightarrow> (counter j - start) * time_per_tick_hpet a < ms * 1000000"
    and fin: "\<not> (counter (i + n) - start) * time_per_tick_hpet a < ms * 1000000"
  shows "ksleep_loop hhdm a start ms c = Some (c\<lparr>io_log := io_log c @ replicate (Suc n) (Mmio_read 8 addr)\<rparr>)"
  using assms
proof (induction n arbitrary: c i)
  case 0
  then show ?case
    by (subst ksleep_loop.simps) (simp add: hpet_counter_def mmio_read_def io_read_def Let_def)
next
  case (Suc n)
  define c' where "c' = c\<lparr>io_log := io_log c @ [Mmio_read 8 addr]\<rparr>"
  have w: "(counter i - start) * time_per_tick_hpet a < ms * 1000000" using Suc.prems(4) by simp
  have "ksleep_loop hhdm a start ms c' = Some (c'\<lparr>io_log := io_log c' @ replicate (Suc n) (Mmio_read 8 addr)\<rparr>)"
  proof (rule Suc.IH)
    show "polls addr (io_log c') = Suc i" using Suc.prems(3) by (simp add: c'_def)
    show "device c' ops (Mmio_read 8 addr) = counter (polls addr ops)" for ops using Suc.prems(1) by (simp add: c'_def)
    show "(counter j - start) * time_per_tick_hpet a < ms * 1000000" if "Suc i \<le> j" "j < Suc i + n" for j
      using Suc.prems(4) [of j] that by simp
  qed (use Suc.prems in simp_all)
  then show ?case using w Suc.prems(1-3)
    by (subst ksleep_loop.simps) (simp add: hpet_counter_def mmio_read_def io_read_def Let_def c'_def)
qed

text \<open>
  C27. If the counter, however it advances between two reads, eventually shows that the requested
  time has passed, then \<open>ksleep\<close> returns, at the first read that shows it and not before.
\<close>

theorem ksleep_returns:
  assumes "\<And>ops. device c ops (Mmio_read 8 (hpet_addrs a + hhdm + 0x0f0)) = counter (polls (hpet_addrs a + hhdm + 0x0f0) ops)"
    and "polls (hpet_addrs a + hhdm + 0x0f0) (io_log c) = i"
    and "\<not> (counter k - counter i) * time_per_tick_hpet a < ms * 1000000" and "i < k"
  shows "\<exists>n. ksleep hhdm a ms c = Some (c\<lparr>io_log := io_log c @ replicate (n + 2) (Mmio_read 8 (hpet_addrs a + hhdm + 0x0f0))\<rparr>)
    \<and> Suc i + n \<le> k \<and> \<not> (counter (Suc i + n) - counter i) * time_per_tick_hpet a < ms * 1000000
    \<and> (\<forall>j. Suc i \<le> j \<and> j < Suc i + n \<longrightarrow> (counter j - counter i) * time_per_tick_hpet a < ms * 1000000)"
proof -
  define addr where "addr = hpet_addrs a + hhdm + 0x0f0"
  define over where "over j \<longleftrightarrow> \<not> (counter j - counter i) * time_per_tick_hpet a < ms * 1000000" for j
  define n where "n = (LEAST n. over (Suc i + n))"
  have "over (Suc i + (k - Suc i))" using assms(3,4) by (simp add: over_def)
  then have n: "over (Suc i + n)" "n \<le> k - Suc i" unfolding n_def by (rule LeastI, rule Least_le)
  have before: "\<not> over (Suc i + j)" if "j < n" for j using that not_less_Least unfolding n_def by blast
  define c1 where "c1 = c\<lparr>io_log := io_log c @ [Mmio_read 8 addr]\<rparr>"
  have "ksleep_loop hhdm a (counter i) ms c1 = Some (c1\<lparr>io_log := io_log c1 @ replicate (Suc n) (Mmio_read 8 addr)\<rparr>)"
  proof (rule ksleep_loop_ends)
    show "device c1 ops (Mmio_read 8 addr) = counter (polls addr ops)" for ops
      using assms(1) by (simp add: c1_def addr_def)
    show "polls addr (io_log c1) = Suc i" using assms(2) by (simp add: c1_def addr_def)
    show "(counter j - counter i) * time_per_tick_hpet a < ms * 1000000" if "Suc i \<le> j" "j < Suc i + n" for j
      using before [of "j - Suc i"] that by (simp add: over_def)
    show "\<not> (counter (Suc i + n) - counter i) * time_per_tick_hpet a < ms * 1000000" using n(1) by (simp add: over_def)
  qed (simp add: addr_def)
  moreover have "ksleep hhdm a ms c = ksleep_loop hhdm a (counter i) ms c1"
    using assms(1,2)
    by (simp add: ksleep_def hpet_counter_def mmio_read_def io_read_def c1_def addr_def [symmetric] Let_def)
  ultimately have "ksleep hhdm a ms c = Some (c\<lparr>io_log := io_log c @ replicate (n + 2) (Mmio_read 8 addr)\<rparr>)"
    by (simp add: c1_def)
  moreover have "(counter j - counter i) * time_per_tick_hpet a < ms * 1000000" if "Suc i \<le> j" "j < Suc i + n" for j
    using before [of "j - Suc i"] that by (simp add: over_def)
  ultimately show ?thesis using n assms(4) unfolding addr_def over_def by (intro exI [of _ n]) auto
qed

text \<open>A device that counts, and one I/O APIC whose table entry is at 0x100.\<close>

definition demo_apic :: apic_state where
  "demo_apic = \<lparr>lapic_addr = 0xFEE00000, hpet_addrs = 0x1000, time_per_tick_hpet = 10, ioapics = [(0x100, 23)], isos = (\<lambda>_. 0)\<rparr>"

theorem route_irq_correct_instance:
  "\<exists>c'. route_irq (\<lambda>_. 0) 0 demo_apic 1 0 33 demo_machine = (True, c') \<and> length (io_log c') = 4"
proof -
  define m :: memory where "m = (\<lambda>_. 0)"
  have z: "load_bytes n m x = 0" for n x by (induction n arbitrary: x) (simp_all add: m_def)
  have f: "ioapics demo_apic = [] @ (0x100, 23) # []" "serves m (0x100, 23) 1"
    "\<forall>io \<in> set (ioapics demo_apic). snd io < 256"
    by (simp_all add: serves_def demo_apic_def ioapic_gsi_base_def z)
  have g: "(1 :: u8) = (if isos demo_apic 1 \<noteq> 0 then ucast (load_bytes 4 m (isos demo_apic 1 + 4)) else 1)"
    "(0 :: u16) = (if isos demo_apic 1 \<noteq> 0 then ucast (load_bytes 2 m (isos demo_apic 1 + 8)) else 0)"
    by (simp_all add: demo_apic_def)
  show ?thesis
    using route_irq_correct [OF g f(3), of 0 0 33 demo_machine] f(1,2) unfolding m_def [symmetric]
    by (elim conjE) (drule spec [where x = "[]"], auto simp: demo_machine_def)
qed

theorem ksleep_returns_instance:
  "\<exists>c'. ksleep 0 demo_apic 1 (demo_machine\<lparr>device := \<lambda>ops _. of_nat (polls 0x10F0 ops) * 1000\<rparr>) = Some c'"
proof -
  define counter :: "nat \<Rightarrow> u64" where "counter j = of_nat j * 1000" for j
  define c where "c = demo_machine\<lparr>device := \<lambda>ops _. counter (polls 0x10F0 ops)\<rparr>"
  have a: "hpet_addrs demo_apic + 0 + 0x0f0 = 0x10F0" by (simp add: demo_apic_def)
  have "polls 0x10F0 (io_log c) = 0" by (simp add: c_def demo_machine_def polls_def)
  moreover have "\<not> (counter 100 - counter 0) * time_per_tick_hpet demo_apic < 1 * 1000000"
    by (simp add: counter_def demo_apic_def)
  ultimately have "\<exists>c'. ksleep 0 demo_apic 1 c = Some c'"
    using ksleep_returns [of c demo_apic 0 counter 0 100 1] unfolding a by (auto simp: c_def)
  then show ?thesis by (simp add: c_def counter_def)
qed

end
