(* ===== verification/Ps2.thy ===== *)
theory Ps2
  imports Apic
begin

text \<open>
  The PS/2 keyboard driver, \<open>kernel/src/drivers/ps2.c\<close> and \<open>ps2.h\<close>: the interrupt handler that
  turns scan codes into events, and the discovery of the device through the ACPI library, whose
  answers (a list of devices, each with its resources or an error) are a parameter.
\<close>

section \<open>State\<close>

datatype KEYKEY =
    KEY_ESCAPE | KEY_BACKSPACE | KEY_TAB | KEY_ENTER | KEY_LCTRL | KEY_LSHIFT | KEY_RSHIFT | KEY_LALT
  | KEY_CAPSLOCK | KEY_F1 | KEY_F2 | KEY_F3 | KEY_F4 | KEY_F5 | KEY_F6 | KEY_F7 | KEY_F8 | KEY_F9
  | KEY_F10 | KEY_F11 | KEY_F12 | KEY_NUMLOCK | KEY_SCRLLOCK | KEY_KEYPAD7 | KEY_KEYPAD8 | KEY_KEYPAD9
  | KEY_KEYPADMINUS | KEY_KEYPAD4 | KEY_KEYPAD5 | KEY_KEYPAD6 | KEY_KEYPADPLUS | KEY_KEYPAD1
  | KEY_KEYPAD2 | KEY_KEYPAD3 | KEY_KEYPAD0 | KEY_KEYPADDOT | KEY_KEYPADENTER | KEY_PRINTSCRN
  | KEY_PAUSE | KEY_UNKNOWN

record KeyboardEvent =
  printable :: u8
  key :: KEYKEY
  released :: bool

text \<open>\<open>key_buf\<close> has 8 elements, \<open>events\<close> has 32.\<close>

record ps2_state =
  key_buf :: "u8 list"
  key_buf_count :: u8
  events :: "KeyboardEvent list"
  event_count :: nat
  ps2_irq :: u32
  ps2_port :: u8
  ps2_exists :: bool

definition us_qwerty_keyboard :: "u8 list" where
  "us_qwerty_keyboard =
     [0, 0] @ bytes_of ''1234567890-='' @ [0, 0] @ bytes_of ''QWERTYUIOP[]'' @ [0, 0]
     @ bytes_of (''ASDFGHJKL;'' @ [CHR 0x27, CHR 0x60]) @ [0] @ bytes_of (CHR 0x5C # ''ZXCVBNM,./'') @ [0]
     @ bytes_of ''*'' @ replicate 33 0"

section \<open>The interrupt handler\<close>

text \<open>Writes outside the arrays are undefined; \<open>kassert\<close> panics.\<close>

definition put_byte :: "u8 \<Rightarrow> ps2_state \<Rightarrow> ps2_state res" where
  "put_byte b p =
     (if unat (key_buf_count p) < 8
      then Inr (p\<lparr>key_buf := (key_buf p)[unat (key_buf_count p) := b], key_buf_count := key_buf_count p + 1\<rparr>)
      else Inl Undefined)"

definition put_event :: "u8 \<Rightarrow> KEYKEY \<Rightarrow> bool \<Rightarrow> ps2_state \<Rightarrow> ps2_state" where
  "put_event ch k rel p =
     p\<lparr>events := (events p)[event_count p := \<lparr>printable = ch, key = k, released = rel\<rparr>], event_count := event_count p + 1\<rparr>"

definition take_event :: "u8 \<Rightarrow> u8 \<Rightarrow> KEYKEY \<Rightarrow> bool \<Rightarrow> ps2_state \<Rightarrow> ps2_state res" where
  "take_event n ch k rel p =
     (let p1 = p\<lparr>key_buf_count := key_buf_count p - n\<rparr>
      in if event_count p1 < 32 then Inr (put_event ch k rel p1) else Inl Panicked)"

definition special_key :: "u8 \<Rightarrow> KEYKEY" where
  "special_key code =
     (if code = 0x01 then KEY_ESCAPE
      else if code = 0x0E then KEY_BACKSPACE
      else if code = 0x0F then KEY_TAB
      else if code = 0x1C then KEY_ENTER
      else if code = 0x1D then KEY_LCTRL
      else if code = 0x2A then KEY_LSHIFT
      else if code = 0x36 then KEY_RSHIFT
      else KEY_UNKNOWN)"

definition ps2_byte :: "u8 \<Rightarrow> ps2_state \<Rightarrow> ps2_state res" where
  "ps2_byte our_guy p0 = andthen (put_byte our_guy p0) (\<lambda>p.
     let buf = key_buf p; n = key_buf_count p
     in if buf ! 0 = 0xE0 then
          if n > 1 then
            if buf ! 1 = 0x2A then
              if n > 3 \<and> take 4 buf = [0xE0, 0x2A, 0xE0, 0x37] then take_event 4 0 KEY_PRINTSCRN False p else Inr p
            else if buf ! 1 = 0xB7 then
              if n > 3 \<and> take 4 buf = [0xE0, 0xB7, 0xE0, 0xAA] then take_event 4 0 KEY_PRINTSCRN True p else Inr p
            else take_event 2 0 KEY_UNKNOWN (buf ! 1 AND 0x80 \<noteq> 0) p
          else Inr p
        else if buf ! 0 = 0xE1 then
          if n > 5 \<and> take 6 buf = [0xE1, 0x1D, 0x45, 0xE1, 0x9D, 0xC5] then
            (let p1 = p\<lparr>key_buf_count := n - 6\<rparr>
             in if event_count p1 + 1 < 32 then Inr (put_event 0 KEY_PAUSE True (put_event 0 KEY_PAUSE False p1))
                else Inl Panicked)
          else Inr p
        else
          (let rel = buf ! 0 AND 0x80 \<noteq> 0; i = unat (buf ! 0 AND 0x7F)
           in if \<not> event_count p < 32 then Inl Panicked
              else if \<not> i < length us_qwerty_keyboard then Inl Undefined
              else let ch = us_qwerty_keyboard ! i
                   in take_event 1 ch (if ch = 0 then special_key (buf ! 0 AND 0x7F) else KEY_UNKNOWN) rel p))"

definition ps2_handler :: "u64 \<Rightarrow> apic_state \<Rightarrow> ps2_state \<Rightarrow> machine \<Rightarrow> (ps2_state \<times> machine) res" where
  "ps2_handler hhdm a p c =
     (let (our_guy, c1) = inb (ucast (ps2_port p)) c
      in andthen (ps2_byte our_guy p) (\<lambda>p1. Inr (p1, send_lapic_eoi hhdm a c1)))"

section \<open>Discovery\<close>

datatype uacpi_resource = Irq "u8 list" | Fixed_io u16 | Io u16 | Other_resource

definition ps2_res :: "uacpi_resource \<Rightarrow> ps2_state \<Rightarrow> ps2_state" where
  "ps2_res resource p =
     (case resource of
        Irq irqs \<Rightarrow> p\<lparr>ps2_irq := ucast (irqs ! 0)\<rparr>
      | Fixed_io a \<Rightarrow> if ps2_port p = 0 then p\<lparr>ps2_port := ucast a\<rparr> else p
      | Io a \<Rightarrow> if ps2_port p = 0 then p\<lparr>ps2_port := ucast a\<rparr> else p
      | Other_resource \<Rightarrow> p)"

text \<open>A device is given by the resources that the ACPI library reports for it, or by an error.\<close>

definition found_ps2 ::
  "(string \<Rightarrow> u64 list \<Rightarrow> u8 list) \<Rightarrow> uacpi_resource list option \<Rightarrow> ps2_state \<times> machine \<Rightarrow> (ps2_state \<times> machine) res" where
  "found_ps2 npf node s =
     (let p1 = (fst s)\<lparr>ps2_exists := True\<rparr>;
          c1 = kprintf npf True (''ps2driver: scanning for device'' @ [CHR 0x0A]) [] (snd s)
      in case node of
           None \<Rightarrow> Inl Panicked
         | Some kb_res \<Rightarrow> Inr (foldl (\<lambda>p r. ps2_res r p) p1 kb_res, c1))"

definition ps2_init ::
  "(string \<Rightarrow> u64 list \<Rightarrow> u8 list) \<Rightarrow> memory \<Rightarrow> u64 \<Rightarrow> apic_state \<Rightarrow> uacpi_resource list option list
   \<Rightarrow> ps2_state \<Rightarrow> idt_state \<Rightarrow> machine \<Rightarrow> (ps2_state \<times> idt_state \<times> machine) res" where
  "ps2_init npf m hhdm a devices p t c =
     andthen (foldl (\<lambda>r d. andthen r (found_ps2 npf d)) (Inr (p, c)) devices) (\<lambda>(p1, c1).
       if \<not> ps2_exists p1 then Inl Panicked
       else let c2 = kprintf npf True (''ps2driver: Devices Found!'' @ [CHR 0x0A]) [] c1;
                (vec, t1) = AllocateVector t
            in andthen (RegisterHandler vec Ps2_handler t1) (\<lambda>t2.
                 let (lapic_id, c3) = get_lapic_id hhdm a c2;
                     (routed, c4) = route_irq m hhdm a (ucast (ps2_irq p1)) lapic_id (of_nat vec) c3
                 in Inr (p1, t2, c4)))"

section \<open>Decoding\<close>

text \<open>What a keyboard sends: the make or break code of a key, of an extended key, the two long
  sequences of the print screen key and the one of the pause key.\<close>

datatype key_input = Key u8 bool | Extended u8 bool | Print_screen bool | Pause

definition scan_byte :: "u8 \<Rightarrow> bool \<Rightarrow> u8" where
  "scan_byte code rel = (if rel then code OR 0x80 else code)"

fun scan_codes :: "key_input \<Rightarrow> u8 list" where
  "scan_codes (Key code rel) = [scan_byte code rel]"
| "scan_codes (Extended code rel) = [0xE0, scan_byte code rel]"
| "scan_codes (Print_screen False) = [0xE0, 0x2A, 0xE0, 0x37]"
| "scan_codes (Print_screen True) = [0xE0, 0xB7, 0xE0, 0xAA]"
| "scan_codes Pause = [0xE1, 0x1D, 0x45, 0xE1, 0x9D, 0xC5]"

fun key_events :: "key_input \<Rightarrow> KeyboardEvent list" where
  "key_events (Key code rel) =
     (let ch = us_qwerty_keyboard ! unat code
      in [\<lparr>printable = ch, key = (if ch = 0 then special_key code else KEY_UNKNOWN), released = rel\<rparr>])"
| "key_events (Extended code rel) = [\<lparr>printable = 0, key = KEY_UNKNOWN, released = rel\<rparr>]"
| "key_events (Print_screen rel) = [\<lparr>printable = 0, key = KEY_PRINTSCRN, released = rel\<rparr>]"
| "key_events Pause = [\<lparr>printable = 0, key = KEY_PAUSE, released = False\<rparr>, \<lparr>printable = 0, key = KEY_PAUSE, released = True\<rparr>]"

text \<open>Keys of the table; extended keys that do not look like the start of a print screen sequence.\<close>

fun known_input :: "key_input \<Rightarrow> bool" where
  "known_input (Key code rel) \<longleftrightarrow> code < 0x59"
| "known_input (Extended code rel) \<longleftrightarrow> code < 0x80 \<and> scan_byte code rel \<noteq> 0x2A \<and> scan_byte code rel \<noteq> 0xB7"
| "known_input _ \<longleftrightarrow> True"

text \<open>The handler, run once for every byte.\<close>

primrec ps2_bytes :: "u8 list \<Rightarrow> ps2_state \<Rightarrow> ps2_state res" where
  "ps2_bytes [] p = Inr p"
| "ps2_bytes (b # bs) p = andthen (ps2_byte b p) (ps2_bytes bs)"

lemma ps2_bytes_append: "ps2_bytes (xs @ ys) p = andthen (ps2_bytes xs p) (ps2_bytes ys)"
proof (induction xs arbitrary: p)
  case (Cons b xs)
  then have "ps2_bytes (xs @ ys) = (\<lambda>p. andthen (ps2_bytes xs p) (ps2_bytes ys))" by blast
  then show ?case by (simp add: andthen_assoc)
qed simp

text \<open>The events so far, and an idle driver.\<close>

definition pending :: "ps2_state \<Rightarrow> KeyboardEvent list" where
  "pending p = take (event_count p) (events p)"

definition ps2_ok :: "ps2_state \<Rightarrow> bool" where
  "ps2_ok p \<longleftrightarrow> length (key_buf p) = 8 \<and> length (events p) = 32 \<and> event_count p \<le> 32"

definition idle :: "ps2_state \<Rightarrow> bool" where
  "idle p \<longleftrightarrow> ps2_ok p \<and> key_buf_count p = 0"

lemma length_table: "length us_qwerty_keyboard = 89"
  by (simp add: us_qwerty_keyboard_def)


lemma scan_byte_split:
  assumes "code < 0x80"
  shows "scan_byte code rel AND 0x7F = code" and "scan_byte code rel AND 0x80 \<noteq> 0 \<longleftrightarrow> rel"
proof -
  have "take_bit 7 code = code"
    using assms by (subst word_unat_eq_iff) (simp add: unsigned_take_bit_eq take_bit_nat_eq_self word_less_nat_alt)
  then have b: "\<not> bit code 7" by (metis bit_take_bit_iff less_irrefl)
  have m: "(0x7F :: u8) = mask 7" by (simp add: mask_eq_exp_minus_1)
  have h: "bit (0x80 :: u8) n \<longleftrightarrow> n = 7" for n
    using bit_exp_iff [of 7 n, where 'a = u8] by auto
  have "scan_byte code rel AND 0x7F = take_bit 7 code"
  proof (rule bit_word_eqI)
    fix n
    show "bit (scan_byte code rel AND 0x7F) n = bit (take_bit 7 code) n"
      using h [of n] by (auto simp: scan_byte_def m bit_and_iff bit_or_iff bit_mask_iff bit_take_bit_iff)
  qed
  then show "scan_byte code rel AND 0x7F = code" using \<open>take_bit 7 code = code\<close> by simp
  have "bit (scan_byte code rel) 7 \<longleftrightarrow> rel" unfolding scan_byte_def using b by (simp add: bit_or_iff h)
  then show "scan_byte code rel AND 0x80 \<noteq> 0 \<longleftrightarrow> rel"
    using and_exp_eq_0_iff_not_bit [of "scan_byte code rel" 7] by simp
qed

lemma pending_put:
  assumes "ps2_ok p" and "event_count p < 32"
  shows "ps2_ok (put_event ch k rel p)" and "key_buf_count (put_event ch k rel p) = key_buf_count p"
    and "pending (put_event ch k rel p) = pending p @ [\<lparr>printable = ch, key = k, released = rel\<rparr>]"
    and "event_count (put_event ch k rel p) = Suc (event_count p)"
  using assms by (simp_all add: ps2_ok_def put_event_def pending_def take_Suc_conv_app_nth)

lemma short_word: "scan_byte code rel \<noteq> 0xE0 \<and> scan_byte code rel \<noteq> 0xE1" if "code < 0x59"
proof -
  have "code < 0x80" using that by (simp add: word_less_nat_alt)
  then have "scan_byte code rel AND 0x7F < 0x59" using that scan_byte_split(1) by simp
  then show ?thesis by auto
qed

lemma eight_elements: "length xs = 8 \<Longrightarrow> \<exists>a0 a1 a2 a3 a4 a5 a6 a7. xs = [a0, a1, a2, a3, a4, a5, a6, a7]"
  by (auto simp: length_Suc_conv numeral_eq_Suc)

lemma one_input:
  assumes "idle p" and "known_input i" and "event_count p + length (key_events i) \<le> 32"
  shows "\<exists>p'. ps2_bytes (scan_codes i) p = Inr p' \<and> idle p' \<and> pending p' = pending p @ key_events i"
proof -
  obtain a0 a1 a2 a3 a4 a5 a6 a7 where buf: "key_buf p = [a0, a1, a2, a3, a4, a5, a6, a7]"
    using assms(1) eight_elements [of "key_buf p"] unfolding idle_def ps2_ok_def by blast
  have z: "key_buf_count p = 0" using assms(1) by (simp add: idle_def)
  show ?thesis
  proof (cases i)
    case (Key code rel)
    then have c: "code < 0x59" using assms(2) by simp
    then have l: "code < 0x80" "unat code < 89" by (simp_all add: word_less_nat_alt)
    show ?thesis using assms(1,3) buf z l(2) short_word [OF c] scan_byte_split [OF l(1)]
      by (simp add: Key ps2_byte_def put_byte_def take_event_def idle_def ps2_ok_def pending_def put_event_def
          take_Suc_conv_app_nth length_table Let_def)
  next
    case (Extended code rel)
    then show ?thesis using assms buf z scan_byte_split(2) [of code rel] pending_put
      by (simp add: ps2_byte_def put_byte_def take_event_def idle_def ps2_ok_def pending_def put_event_def take_Suc_conv_app_nth)
  next
    case (Print_screen rel)
    then show ?thesis using assms buf z
      by (cases rel) (simp_all add: ps2_byte_def put_byte_def take_event_def idle_def ps2_ok_def pending_def put_event_def take_Suc_conv_app_nth)
  next
    case Pause
    then show ?thesis using assms buf z
      by (simp add: ps2_byte_def put_byte_def take_event_def idle_def ps2_ok_def pending_def put_event_def take_Suc_conv_app_nth)
  qed
qed

text \<open>
  C28. From an idle driver, the bytes of any sequence of known key presses and releases are decoded
  without an error into exactly their events, in order, as long as the event buffer has room, and
  the driver is idle again.
\<close>

theorem ps2_decodes:
  assumes "idle p" and "\<forall>i \<in> set inputs. known_input i"
    and "event_count p + length (concat (map key_events inputs)) \<le> 32"
  shows "\<exists>p'. ps2_bytes (concat (map scan_codes inputs)) p = Inr p' \<and> idle p'
    \<and> pending p' = pending p @ concat (map key_events inputs)"
  using assms
proof (induction inputs arbitrary: p)
  case (Cons i inputs)
  then obtain p1 where p1: "ps2_bytes (scan_codes i) p = Inr p1" "idle p1" "pending p1 = pending p @ key_events i"
    using one_input [of p i] by auto
  have "length (pending q) = event_count q" if "idle q" for q
    using that by (simp add: idle_def ps2_ok_def pending_def)
  from this [OF p1(2)] this [OF Cons.prems(1)] have "event_count p1 = event_count p + length (key_events i)"
    using p1(3) by simp
  then obtain p2 where "ps2_bytes (concat (map scan_codes inputs)) p1 = Inr p2" "idle p2"
    "pending p2 = pending p1 @ concat (map key_events inputs)"
    using Cons.IH [OF p1(2)] Cons.prems(2,3) by auto
  then show ?case using p1 by (simp add: ps2_bytes_append)
qed simp

definition demo_ps2 :: ps2_state where
  "demo_ps2 = \<lparr>key_buf = replicate 8 0, key_buf_count = 0,
     events = replicate 32 \<lparr>printable = 0, key = KEY_ESCAPE, released = False\<rparr>, event_count = 0,
     ps2_irq = 1, ps2_port = 0x60, ps2_exists = True\<rparr>"

lemma demo_ps2_idle: "idle demo_ps2" "event_count demo_ps2 = 0" "pending demo_ps2 = []"
  by (simp_all add: demo_ps2_def idle_def ps2_ok_def pending_def)

theorem ps2_decodes_instance:
  "\<exists>p'. ps2_bytes [0x1E, 0xE0, 0x48, 0xE1, 0x1D, 0x45, 0xE1, 0x9D, 0xC5, 0x9E] demo_ps2 = Inr p' \<and> idle p'
    \<and> map printable (pending p') = [65, 0, 0, 0, 65]"
proof -
  define inputs where "inputs = [Key 0x1E False, Extended 0x48 False, Pause, Key 0x1E True]"
  have k: "\<forall>i \<in> set inputs. known_input i" by (simp add: inputs_def scan_byte_def)
  have e: "map printable (concat (map key_events inputs)) = [65, 0, 0, 0, 65]" unfolding inputs_def by code_simp
  have "length (concat (map key_events inputs)) = 5" unfolding inputs_def by code_simp
  then have "event_count demo_ps2 + length (concat (map key_events inputs)) \<le> 32" by (simp add: demo_ps2_idle)
  from ps2_decodes [OF demo_ps2_idle(1) k this] e demo_ps2_idle(3)
  show ?thesis by (auto simp: inputs_def scan_byte_def)
qed

lemma ps2_fake_shift_blocks_parts:
  assumes "idle p" and "[x, y] \<noteq> [0xE0, 0x37]"
  shows "length bs \<le> 4 \<Longrightarrow> \<exists>p'. ps2_bytes ([0xE0, 0x2A, x, y] @ bs) p = Inr p' \<and> pending p' = pending p"
    and "length bs = 5 \<Longrightarrow> ps2_bytes ([0xE0, 0x2A, x, y] @ bs) p = Inl Undefined"
proof -
  define stuck where "stuck n q \<longleftrightarrow> ps2_ok q \<and> take 4 (key_buf q) = [0xE0, 0x2A, x, y] \<and> key_buf_count q = of_nat n
    \<and> pending q = pending p" for n :: nat and q
  have step: "\<exists>q'. ps2_byte b q = Inr q' \<and> stuck (Suc n) q'" if st: "stuck n q" "4 \<le> n" "n < 8" for n q b
  proof -
    have "n = 4 \<or> n = 5 \<or> n = 6 \<or> n = 7" using st by auto
    moreover obtain b0 b1 b2 b3 b4 b5 b6 b7 where "key_buf q = [b0, b1, b2, b3, b4, b5, b6, b7]"
      using st(1) eight_elements [of "key_buf q"] unfolding stuck_def ps2_ok_def by blast
    ultimately show ?thesis using st assms(2)
      by (elim disjE) (auto simp: stuck_def ps2_ok_def ps2_byte_def put_byte_def pending_def)
  qed
  obtain a0 a1 a2 a3 a4 a5 a6 a7 where buf: "key_buf p = [a0, a1, a2, a3, a4, a5, a6, a7]"
    using assms(1) eight_elements [of "key_buf p"] unfolding idle_def ps2_ok_def by blast
  have z: "key_buf_count p = 0" using assms(1) by (simp add: idle_def)
  have start: "\<exists>q. ps2_bytes [0xE0, 0x2A, x, y] p = Inr q \<and> stuck 4 q"
    using assms buf z by (auto simp: ps2_byte_def put_byte_def idle_def ps2_ok_def pending_def stuck_def Let_def)
  have run: "\<exists>q'. ps2_bytes bs q = Inr q' \<and> stuck (n + length bs) q'" if "stuck n q" "4 \<le> n" "n + length bs \<le> 8" for n q bs
    using that
  proof (induction bs arbitrary: n q)
    case (Cons b bs)
    then show ?case using step [of n q b] Cons.IH [of "Suc n"] by fastforce
  qed simp
  from start obtain q1 where q1: "ps2_bytes [0xE0, 0x2A, x, y] p = Inr q1" "stuck 4 q1" by blast
  show "\<exists>p'. ps2_bytes ([0xE0, 0x2A, x, y] @ bs) p = Inr p' \<and> pending p' = pending p" if "length bs \<le> 4"
    using q1 run [OF q1(2), of bs] that unfolding ps2_bytes_append stuck_def by force
  assume l: "length bs = 5"
  obtain cs b where cs: "bs = cs @ [b]" "length cs = 4" using l by (cases bs rule: rev_cases) auto
  obtain q2 where q2: "ps2_bytes cs q1 = Inr q2" "stuck 8 q2" using run [OF q1(2), of cs] cs by auto
  have "ps2_byte b q2 = Inl Undefined" using q2(2) by (simp add: stuck_def ps2_byte_def put_byte_def)
  then show "ps2_bytes ([0xE0, 0x2A, x, y] @ bs) p = Inl Undefined"
    using q1 q2 unfolding cs(1) ps2_bytes_append by simp
qed

text \<open>
  C29. The sequence that starts like a print screen press but goes on differently, as a keyboard
  sends it before an arrow key while num lock is on, blocks the driver: no byte that follows gives
  an event, whatever it is, and the ninth byte of the sequence is written behind the buffer.
\<close>

theorem ps2_fake_shift_blocks:
  assumes "idle p" and "[x, y] \<noteq> [0xE0, 0x37]"
  shows "(length bs \<le> 4 \<longrightarrow> (\<exists>p'. ps2_bytes ([0xE0, 0x2A, x, y] @ bs) p = Inr p' \<and> pending p' = pending p))
    \<and> (length bs = 5 \<longrightarrow> ps2_bytes ([0xE0, 0x2A, x, y] @ bs) p = Inl Undefined)"
  using ps2_fake_shift_blocks_parts [OF assms] by blast

theorem ps2_fake_shift_blocks_instance:
  "ps2_bytes [0xE0, 0x2A, 0xE0, 0x48, 0xE0, 0xC8, 0xE0, 0xAA, 0x1E] demo_ps2 = Inl Undefined"
  using ps2_fake_shift_blocks [OF demo_ps2_idle(1), of "0xE0" "0x48" "[0xE0, 0xC8, 0xE0, 0xAA, 0x1E]"] by simp

end
