(* ===== verification/Bump.thy ===== *)
theory Bump
  imports Ps2 Paging
begin

text \<open>
  The early bump allocator, \<open>kernel/src/bump.c\<close>: a fixed window of the direct map that is handed
  out from the bottom and never taken back. The log on the serial port is part of the model.
\<close>

record bump_state =
  base :: u64
  max_size :: u64

definition bump_start :: bump_state where
  "bump_start = \<lparr>base = 0, max_size = 4096 * 10000\<rparr>"

definition bump_init :: "u64 \<Rightarrow> bump_state \<Rightarrow> bump_state" where
  "bump_init off b = (let b1 = b\<lparr>base := 0x100000000 + off\<rparr> in b1\<lparr>max_size := base b1 + max_size b1\<rparr>)"

definition bump_alloc :: "u64 \<Rightarrow> bump_state \<Rightarrow> machine \<Rightarrow> (u64 \<times> bump_state) res \<times> machine" where
  "bump_alloc sz b c =
     (let nl = bytes_of [CHR 0x0A];
          c1 = serial_print (bytes_of ''Max Size: '') c;
          c2 = serial_print (itoa_text (max_size b)) c1;
          c3 = serial_print nl c2;
          c4 = serial_print (bytes_of ''bump(): alloc of size '') c3;
          c5 = serial_print (itoa_text sz) c4
      in if base b < max_size b \<and> base b + align_up sz 8 < max_size b
         then (let c6 = serial_print nl c5; aligned = align_up sz 8; result = base b
               in (Inr (result, b\<lparr>base := base b + aligned\<rparr>), c6))
         else (let c6 = serial_print (bytes_of ('' Failed'' @ [CHR 0x0A])) c5
               in (Inl Panicked, c6)))"

text \<open>
  A request that does not wrap around is served from the window, above everything that was handed
  out before; a failure stops the machine. The limit itself is never reached: the last bytes of the
  window stay unused.
\<close>

lemma bump_alloc_ok:
  assumes "bump_alloc sz b c = (Inr (p, b'), c')" and "unat sz + 7 < 2 ^ 64"
    and "unat (base b) + unat (align_up sz 8) < 2 ^ 64"
  shows "p = base b" and "unat p + unat (align_up sz 8) = unat (base b')" and "base b' < max_size b"
    and "max_size b' = max_size b"
proof -
  have b: "p = base b" "base b' = base b + align_up sz 8" "base b + align_up sz 8 < max_size b" "max_size b' = max_size b"
    using assms(1) by (auto simp: bump_alloc_def Let_def split: if_splits)
  then show "p = base b" "base b' < max_size b" "max_size b' = max_size b" by simp_all
  show "unat p + unat (align_up sz 8) = unat (base b')"
    using assms(3) b by (simp add: unat_add_lem [THEN iffD1])
qed

text \<open>Without that condition the check passes although the request is larger than the memory.\<close>

lemma bump_alloc_wraps:
  "fst (bump_alloc 0xFFFFFFFFFFFFFFFF (bump_init 0xFFFF800000000000 bump_start) demo_machine)
   = Inr (0xFFFF800100000000, bump_init 0xFFFF800000000000 bump_start)"
  by (simp add: bump_alloc_def bump_init_def bump_start_def align_up_def Let_def)

end
