(* ===== verification/Uacpi.thy ===== *)
theory Uacpi
  imports Vmm Access Ps2
begin

text \<open>
  The host interface that the ACPI library (a separate project, not part of the sources) calls,
  \<open>kernel/src/ACPI/uacpi.c\<close>, and the set-up in \<open>kernel/src/ACPI/acpi.c\<close>. Addresses of devices are
  accessed like memory, as the code does. The library's entry points are parameters of \<open>acpi_init\<close>.
\<close>

datatype uacpi_status = UACPI_STATUS_OK | UACPI_STATUS_INVALID_ARGUMENT | UACPI_STATUS_UNIMPLEMENTED | Other_status

section \<open>Raw accesses\<close>

text \<open>\<open>__builtin_ctzll(0)\<close> is undefined; \<open>1<<firstBitPos\<close> is an \<open>int\<close>, sign-extended by \<open>&=\<close>.\<close>

definition builtin_ctzll :: "u64 \<Rightarrow> nat" where
  "builtin_ctzll num = length (takeWhile (\<lambda>i. \<not> bit num i) [0..<64])"

definition isPower2 :: "u64 \<Rightarrow> bool res" where
  "isPower2 num =
     (if num = 0 then Inl Undefined
      else let firstBitPos = builtin_ctzll num
           in if firstBitPos < 31 then Inr (num AND NOT (push_bit firstBitPos 1) = 0) else Inl Undefined)"

definition uacpi_kernel_raw_memory_read :: "u64 \<Rightarrow> u8 \<Rightarrow> kstate \<Rightarrow> uacpi_status \<times> u64 option" where
  "uacpi_kernel_raw_memory_read address byte_width s =
     (let virt = address + hhdm s
      in if byte_width = 1 then (UACPI_STATUS_OK, Some (load_bytes 1 (mem s) virt))
         else if byte_width = 2 then (UACPI_STATUS_OK, Some (load_bytes 2 (mem s) virt))
         else if byte_width = 4 then (UACPI_STATUS_OK, Some (load_bytes 4 (mem s) virt))
         else if byte_width = 8 then (UACPI_STATUS_OK, Some (load_bytes 8 (mem s) virt))
         else (UACPI_STATUS_INVALID_ARGUMENT, None))"

definition uacpi_kernel_raw_memory_write :: "u64 \<Rightarrow> u8 \<Rightarrow> u64 \<Rightarrow> kstate \<Rightarrow> uacpi_status \<times> kstate" where
  "uacpi_kernel_raw_memory_write address byte_width in_value s =
     (let virt = address + hhdm s
      in if byte_width = 1 then (UACPI_STATUS_OK, s\<lparr>mem := store_bytes 1 (mem s) virt in_value\<rparr>)
         else if byte_width = 2 then (UACPI_STATUS_OK, s\<lparr>mem := store_bytes 2 (mem s) virt in_value\<rparr>)
         else if byte_width = 4 then (UACPI_STATUS_OK, s\<lparr>mem := store_bytes 4 (mem s) virt in_value\<rparr>)
         else if byte_width = 8 then (UACPI_STATUS_OK, s\<lparr>mem := store_bytes 8 (mem s) virt in_value\<rparr>)
         else (UACPI_STATUS_INVALID_ARGUMENT, s))"

definition uacpi_kernel_raw_io_read :: "u64 \<Rightarrow> u8 \<Rightarrow> machine \<Rightarrow> (uacpi_status \<times> u64 option \<times> machine) res" where
  "uacpi_kernel_raw_io_read address byte_width c =
     andthen (isPower2 (ucast byte_width)) (\<lambda>p2.
       if \<not> p2 then Inr (UACPI_STATUS_INVALID_ARGUMENT, None, c)
       else if byte_width > 8 then Inr (UACPI_STATUS_INVALID_ARGUMENT, None, c)
       else if byte_width = 1 then let (v, c') = inb (ucast address) c in Inr (UACPI_STATUS_OK, Some (ucast v), c')
       else if byte_width = 2 then let (v, c') = inw (ucast address) c in Inr (UACPI_STATUS_OK, Some (ucast v), c')
       else if byte_width = 4 then let (v, c') = ind (ucast address) c in Inr (UACPI_STATUS_OK, Some (ucast v), c')
       else Inr (UACPI_STATUS_INVALID_ARGUMENT, None, c))"

definition uacpi_kernel_raw_io_write :: "u64 \<Rightarrow> u8 \<Rightarrow> u64 \<Rightarrow> machine \<Rightarrow> (uacpi_status \<times> machine) res" where
  "uacpi_kernel_raw_io_write address byte_width in_value c =
     andthen (isPower2 (ucast byte_width)) (\<lambda>p2.
       if \<not> p2 then Inr (UACPI_STATUS_INVALID_ARGUMENT, c)
       else if byte_width > 8 then Inr (UACPI_STATUS_INVALID_ARGUMENT, c)
       else if byte_width = 1 then Inr (UACPI_STATUS_OK, outb (ucast address) (ucast in_value) c)
       else if byte_width = 2 then Inr (UACPI_STATUS_OK, outw (ucast address) (ucast in_value) c)
       else if byte_width = 4 then Inr (UACPI_STATUS_OK, outd (ucast address) (ucast in_value) c)
       else Inr (UACPI_STATUS_INVALID_ARGUMENT, c))"

definition uacpi_kernel_pci_read :: "u64 \<Rightarrow> u64 \<Rightarrow> u8 \<Rightarrow> uacpi_status" where
  "uacpi_kernel_pci_read address offset byte_width = UACPI_STATUS_UNIMPLEMENTED"

definition uacpi_kernel_pci_write :: "u64 \<Rightarrow> u64 \<Rightarrow> u8 \<Rightarrow> u64 \<Rightarrow> uacpi_status" where
  "uacpi_kernel_pci_write address offset byte_width val = UACPI_STATUS_UNIMPLEMENTED"

section \<open>Port ranges\<close>

text \<open>\<open>struct io_range\<close>: the base at offset 0 and the length at offset 8.\<close>

definition sizeof_io_range :: u64 where "sizeof_io_range = 16"

definition uacpi_kernel_io_map :: "u64 \<Rightarrow> u64 \<Rightarrow> kstate \<Rightarrow> (uacpi_status \<times> u64 \<times> kstate) res" where
  "uacpi_kernel_io_map base len s =
     andthen (kmalloc sizeof_io_range s) (\<lambda>(rng, s1).
     andthen (store_ptr rng 0 base s1) (\<lambda>s2.
     andthen (store_ptr rng 8 len s2) (\<lambda>s3. Inr (UACPI_STATUS_OK, rng, s3))))"

definition uacpi_kernel_io_unmap :: "u64 \<Rightarrow> kstate \<Rightarrow> kstate res" where
  "uacpi_kernel_io_unmap handle s = kfree handle sizeof_io_range s"

definition uacpi_kernel_io_read ::
  "u64 \<Rightarrow> u64 \<Rightarrow> u8 \<Rightarrow> kstate \<Rightarrow> machine \<Rightarrow> (uacpi_status \<times> u64 option \<times> machine) res" where
  "uacpi_kernel_io_read hnd offset byte_width s c =
     (if hnd = null then Inl PageFault
      else if offset \<ge> load64 (mem s) (hnd + 8) then Inr (UACPI_STATUS_INVALID_ARGUMENT, None, c)
      else uacpi_kernel_raw_io_read (load64 (mem s) hnd + offset) byte_width c)"

definition uacpi_kernel_io_write ::
  "u64 \<Rightarrow> u64 \<Rightarrow> u8 \<Rightarrow> u64 \<Rightarrow> kstate \<Rightarrow> machine \<Rightarrow> (uacpi_status \<times> machine) res" where
  "uacpi_kernel_io_write hnd offset byte_width val s c =
     (if hnd = null then Inl PageFault
      else if offset \<ge> load64 (mem s) (hnd + 8) then Inr (UACPI_STATUS_INVALID_ARGUMENT, c)
      else uacpi_kernel_raw_io_write (load64 (mem s) hnd + offset) byte_width val c)"

section \<open>Memory\<close>

definition uacpi_kernel_map :: "u64 \<Rightarrow> u64 \<Rightarrow> kstate \<Rightarrow> u64" where
  "uacpi_kernel_map addr len s = addr + hhdm s"

definition uacpi_kernel_unmap :: "u64 \<Rightarrow> u64 \<Rightarrow> kstate \<Rightarrow> kstate" where
  "uacpi_kernel_unmap addr len s = s"

definition uacpi_kernel_alloc :: "u64 \<Rightarrow> kstate \<Rightarrow> (u64 \<times> kstate) res" where
  "uacpi_kernel_alloc sz s = kmalloc sz s"

definition uacpi_kernel_calloc :: "u64 \<Rightarrow> u64 \<Rightarrow> kstate \<Rightarrow> (u64 \<times> kstate) res" where
  "uacpi_kernel_calloc count sz s =
     andthen (kmalloc (count * sz) s) (\<lambda>(man, s1).
       if man = null \<and> count * sz \<noteq> 0 then Inl PageFault
       else Inr (man, s1\<lparr>mem := memset (mem s1) man 0 (count * sz)\<rparr>))"

definition uacpi_kernel_free :: "u64 \<Rightarrow> u64 \<Rightarrow> kstate \<Rightarrow> kstate res" where
  "uacpi_kernel_free p size_hint s = kfree p size_hint s"

section \<open>Log, time and the operations that are not implemented\<close>

datatype uacpi_log_level = UACPI_LOG_TRACE | UACPI_LOG_INFO | UACPI_LOG_WARN | UACPI_LOG_ERROR | Other_level

text \<open>The prefix is chosen and never printed; the text is cut to the buffer of 128 bytes by the
  formatter, whose result is the parameter \<open>npf\<close>.\<close>

definition uacpi_kernel_vlog ::
  "(nat \<Rightarrow> string \<Rightarrow> u64 list \<Rightarrow> u8 list) \<Rightarrow> uacpi_log_level \<Rightarrow> string \<Rightarrow> u64 list \<Rightarrow> machine \<Rightarrow> machine" where
  "uacpi_kernel_vlog npf level format args c =
     (let prefix = (case level of UACPI_LOG_TRACE \<Rightarrow> ''TRACE'' | UACPI_LOG_INFO \<Rightarrow> ''INFO'' | UACPI_LOG_WARN \<Rightarrow> ''WARN''
                    | UACPI_LOG_ERROR \<Rightarrow> ''ERROR'' | Other_level \<Rightarrow> ''UNKNOWN'');
          buff = npf 128 format args
      in serial_print buff c)"

definition uacpi_kernel_log ::
  "(nat \<Rightarrow> string \<Rightarrow> u64 list \<Rightarrow> u8 list) \<Rightarrow> uacpi_log_level \<Rightarrow> string \<Rightarrow> u64 list \<Rightarrow> machine \<Rightarrow> machine" where
  "uacpi_kernel_log npf level format args c = uacpi_kernel_vlog npf level format args c"

definition uacpi_kernel_get_ticks :: u64 where "uacpi_kernel_get_ticks = 46644"

definition uacpi_kernel_stall :: "u64 \<Rightarrow> apic_state \<Rightarrow> u8 \<Rightarrow> machine \<Rightarrow> machine option" where
  "uacpi_kernel_stall off a usec c = ksleep off a (ucast usec * 1000) c"

definition uacpi_kernel_sleep :: "u64 \<Rightarrow> machine \<Rightarrow> machine" where "uacpi_kernel_sleep msec c = c"

definition uacpi_kernel_create_mutex :: u64 where "uacpi_kernel_create_mutex = 1"
definition uacpi_kernel_create_event :: u64 where "uacpi_kernel_create_event = 1"
definition uacpi_kernel_create_spinlock :: u64 where "uacpi_kernel_create_spinlock = 1"
definition uacpi_kernel_free_mutex :: "u64 \<Rightarrow> machine \<Rightarrow> machine" where "uacpi_kernel_free_mutex h c = c"
definition uacpi_kernel_free_event :: "u64 \<Rightarrow> machine \<Rightarrow> machine" where "uacpi_kernel_free_event h c = c"
definition uacpi_kernel_acquire_mutex :: "u64 \<Rightarrow> u16 \<Rightarrow> bool" where "uacpi_kernel_acquire_mutex h timeout = True"
definition uacpi_kernel_release_mutex :: "u64 \<Rightarrow> machine \<Rightarrow> machine" where "uacpi_kernel_release_mutex h c = c"
definition uacpi_kernel_wait_for_event :: "u64 \<Rightarrow> u16 \<Rightarrow> bool" where "uacpi_kernel_wait_for_event h timeout = True"
definition uacpi_kernel_signal_event :: "u64 \<Rightarrow> machine \<Rightarrow> machine" where "uacpi_kernel_signal_event h c = c"
definition uacpi_kernel_reset_event :: "u64 \<Rightarrow> machine \<Rightarrow> machine" where "uacpi_kernel_reset_event h c = c"
definition uacpi_kernel_handle_firmware_request :: "u64 \<Rightarrow> uacpi_status" where
  "uacpi_kernel_handle_firmware_request r = UACPI_STATUS_UNIMPLEMENTED"
definition uacpi_kernel_install_interrupt_handler :: "u32 \<Rightarrow> u64 \<Rightarrow> u64 \<Rightarrow> uacpi_status" where
  "uacpi_kernel_install_interrupt_handler irq h context = UACPI_STATUS_UNIMPLEMENTED"
definition uacpi_kernel_uninstall_interrupt_handler :: "u64 \<Rightarrow> u64 \<Rightarrow> uacpi_status" where
  "uacpi_kernel_uninstall_interrupt_handler h irq_handle = UACPI_STATUS_UNIMPLEMENTED"
definition uacpi_kernel_spinlock_lock :: "u64 \<Rightarrow> u64" where "uacpi_kernel_spinlock_lock h = 1"
definition uacpi_kernel_spinlock_unlock :: "u64 \<Rightarrow> u64 \<Rightarrow> machine \<Rightarrow> machine" where "uacpi_kernel_spinlock_unlock h f c = c"
definition uacpi_kernel_schedule_work :: "u64 \<Rightarrow> u64 \<Rightarrow> u64 \<Rightarrow> uacpi_status" where
  "uacpi_kernel_schedule_work ty work context = UACPI_STATUS_UNIMPLEMENTED"
definition uacpi_kernel_wait_for_work_completion :: uacpi_status where
  "uacpi_kernel_wait_for_work_completion = UACPI_STATUS_UNIMPLEMENTED"
definition uacpi_kernel_get_thread_id :: u64 where "uacpi_kernel_get_thread_id = 0"

section \<open>Start of the ACPI library\<close>

text \<open>A failed initialisation is reported in the colours of a panic, and the boot goes on.\<close>

definition acpi_init ::
  "(u64 \<Rightarrow> machine \<Rightarrow> uacpi_status \<times> machine) \<Rightarrow> (machine \<Rightarrow> uacpi_status \<times> machine) \<Rightarrow> (machine \<Rightarrow> uacpi_status \<times> machine)
   \<Rightarrow> u64 \<Rightarrow> u64 \<Rightarrow> machine \<Rightarrow> machine" where
  "acpi_init uacpi_initialize uacpi_namespace_load uacpi_namespace_initialize rsdp_address off c =
     (let rsdp = rsdp_address - off; (st, c1) = uacpi_initialize rsdp c
      in if st = UACPI_STATUS_OK
         then let (st1, c2) = uacpi_namespace_load c1; (st2, c3) = uacpi_namespace_initialize c2 in c3
         else write_color (bytes_of (''im a failure lol'' @ [CHR 0x0A])) 4 c1)"

section \<open>Correctness\<close>

lemma uacpi_raw_memory_correct_parts:
  assumes "uacpi_kernel_raw_memory_write a w v s = (st, s')"
  shows "w \<in> {1, 2, 4, 8} \<Longrightarrow> st = UACPI_STATUS_OK
      \<and> uacpi_kernel_raw_memory_read a w s' = (UACPI_STATUS_OK, Some (take_bit (8 * unat w) v))
      \<and> (\<forall>x. unat w \<le> unat (x - (a + hhdm s)) \<longrightarrow> mem s' x = mem s x)"
    and "w \<notin> {1, 2, 4, 8} \<Longrightarrow> st = UACPI_STATUS_INVALID_ARGUMENT \<and> s' = s
      \<and> uacpi_kernel_raw_memory_read a w s = (UACPI_STATUS_INVALID_ARGUMENT, None)"
proof -
  show "st = UACPI_STATUS_OK \<and> uacpi_kernel_raw_memory_read a w s' = (UACPI_STATUS_OK, Some (take_bit (8 * unat w) v))
      \<and> (\<forall>x. unat w \<le> unat (x - (a + hhdm s)) \<longrightarrow> mem s' x = mem s x)" if w: "w \<in> {1, 2, 4, 8}"
  proof -
    have "st = UACPI_STATUS_OK" "s' = s\<lparr>mem := store_bytes (unat w) (mem s) (a + hhdm s) v\<rparr>"
      using assms w by (auto simp: uacpi_kernel_raw_memory_write_def Let_def)
    moreover have "uacpi_kernel_raw_memory_read a w s' = (UACPI_STATUS_OK, Some (load_bytes (unat w) (mem s') (a + hhdm s')))"
      using w by (auto simp: uacpi_kernel_raw_memory_read_def Let_def)
    moreover have "unat w \<le> 8" using w by auto
    ultimately show ?thesis by (simp add: load_store_bytes store_bytes_other)
  qed
  show "st = UACPI_STATUS_INVALID_ARGUMENT \<and> s' = s
      \<and> uacpi_kernel_raw_memory_read a w s = (UACPI_STATUS_INVALID_ARGUMENT, None)" if "w \<notin> {1, 2, 4, 8}"
    using assms that by (auto simp: uacpi_kernel_raw_memory_write_def uacpi_kernel_raw_memory_read_def Let_def split: if_splits)
qed

text \<open>
  The width decides everything: at widths 1, 2, 4 and 8 a raw memory write succeeds, a read of
  the same address and width then returns the value cut to the width, and no byte outside the
  range has changed; every other width is refused by both and changes nothing.
\<close>

lemma uacpi_raw_memory_correct:
  assumes "uacpi_kernel_raw_memory_write a w v s = (st, s')"
  shows "if w \<in> {1, 2, 4, 8}
    then st = UACPI_STATUS_OK
      \<and> uacpi_kernel_raw_memory_read a w s' = (UACPI_STATUS_OK, Some (take_bit (8 * unat w) v))
      \<and> (\<forall>x. unat w \<le> unat (x - (a + hhdm s)) \<longrightarrow> mem s' x = mem s x)
    else st = UACPI_STATUS_INVALID_ARGUMENT \<and> s' = s
      \<and> uacpi_kernel_raw_memory_read a w s = (UACPI_STATUS_INVALID_ARGUMENT, None)"
  using uacpi_raw_memory_correct_parts [OF assms] by simp

lemma uacpi_raw_memory_correct_instance:
  "\<exists>s'. uacpi_kernel_raw_memory_write 0x1000 2 0x12345 \<lparr>mem = (\<lambda>_. 0), hhdm = 0xFFFF800000000000, head = 0,
      kmalloc_cache = [], kernel_pagemap = 0, kerneL_higher_half_size = 0\<rparr> = (UACPI_STATUS_OK, s')
    \<and> uacpi_kernel_raw_memory_read 0x1000 2 s' = (UACPI_STATUS_OK, Some 0x2345)"
proof -
  define s where "s = \<lparr>mem = (\<lambda>_. 0), hhdm = 0xFFFF800000000000, head = 0,
      kmalloc_cache = [], kernel_pagemap = 0, kerneL_higher_half_size = 0\<rparr>"
  obtain st s' where w: "uacpi_kernel_raw_memory_write 0x1000 2 0x12345 s = (st, s')"
    by (cases "uacpi_kernel_raw_memory_write 0x1000 2 0x12345 s")
  from uacpi_raw_memory_correct [OF w] show ?thesis using w unfolding s_def [symmetric]
    by (simp add: take_bit_eq_mask mask_eq_exp_minus_1)
qed

end
