(* ===== verification/Sched.thy ===== *)
theory Sched
  imports Vmm Access Ps2 Tar
begin

text \<open>
  Processes and threads: the structures of \<open>kernel/src/sched/sched.h\<close> and the state of the whole
  kernel, in which the memory managers (\<open>km\<close>), the processor and devices (\<open>mc\<close>), the file system
  (\<open>files\<close>) and the scheduler meet. Threads, processes, contexts and per-thread blocks are allocated
  with \<open>kmalloc\<close>; the address it returns names the object, whose fields are kept in a store of its
  type. What \<open>kmalloc\<close> left in the memory of a new object is unknown: the components \<open>raw_\<close> give it
  for each address. Memory below the higher half is reached through the page tables.
\<close>

section \<open>The structures\<close>

record cpu_context =
  frame :: stack_frame
  fpu_state :: u64

record per_thread_cpu_info =
  kernel_stack_ptr :: u64
  user_stack_ptr :: u64
  self_ptr :: u64

record file_descriptor =
  fd_vnode :: "nat option"
  fd_offset :: u64

record process_info =
  root_vfs :: "nat option"
  pagemap :: u64
  cur_working_directory :: "nat option"
  process_name :: string
  pid :: u64
  Descriptors :: "file_descriptor list"
  descriptor_bitmap :: "u8 list"

record thread =
  thread_name :: string
  context_ptr :: u64
  next_thread :: u64
  tid :: u64
  info :: u64
  fs_base :: u64
  gs_base :: u64
  parameter_window_size :: u64

record kernel =
  km :: kstate
  mc :: machine
  files :: fs_state
  root_list :: "nat option"
  threads :: "u64 \<Rightarrow> thread option"
  processes :: "u64 \<Rightarrow> process_info option"
  contexts :: "u64 \<Rightarrow> cpu_context option"
  cpu_infos :: "u64 \<Rightarrow> per_thread_cpu_info option"
  start_of_queue :: u64
  current_thread :: u64
  fpu :: "u8 list"
  xsave_size :: u64
  raw_thread :: "u64 \<Rightarrow> thread"
  raw_process :: "u64 \<Rightarrow> process_info"
  raw_context :: "u64 \<Rightarrow> cpu_context"
  raw_cpu_info :: "u64 \<Rightarrow> per_thread_cpu_info"

text \<open>Following a pointer: NULL faults, and a pointer to no object of the type is undefined.\<close>

definition deref :: "(u64 \<Rightarrow> 'a option) \<Rightarrow> u64 \<Rightarrow> 'a res" where
  "deref objects p =
     (if p = null then Inl PageFault else case objects p of None \<Rightarrow> Inl Undefined | Some x \<Rightarrow> Inr x)"

lemma deref_simps [simp]:
  "deref objects null = Inl PageFault"
  "p \<noteq> null \<Longrightarrow> objects p = Some x \<Longrightarrow> deref objects p = Inr x"
  by (simp_all add: deref_def)

text \<open>Running an operation of the memory managers on the kernel.\<close>

definition on_memory :: "(kstate \<Rightarrow> ('a \<times> kstate) res) \<Rightarrow> kernel \<Rightarrow> ('a \<times> kernel) res" where
  "on_memory f k = andthen (f (km k)) (\<lambda>(x, s). Inr (x, k\<lparr>km := s\<rparr>))"

section \<open>Virtual memory\<close>

text \<open>
  The address in the direct map that a virtual address stands for, with the page tables whose
  physical address is in \<open>cr3\<close>: the four-level walk of the processor, in which a missing entry is
  a page fault. The kernel maps all user pages writable, so permissions are not modelled; the
  higher half is taken to be mapped as it is.
\<close>

definition translate :: "kstate \<Rightarrow> u64 \<Rightarrow> u64 \<Rightarrow> u64 option" where
  "translate s pml4 v =
     (if v \<ge> 0xFFFF800000000000 then Some v
      else let e = page_map s pml4 (index_path v)
           in if e AND 1 = 0 then None else Some ((e AND table_mask) + (v AND 0xFFF) + hhdm s))"

primrec read_virt :: "kstate \<Rightarrow> u64 \<Rightarrow> u64 \<Rightarrow> nat \<Rightarrow> u8 list res" where
  "read_virt s pml4 v 0 = Inr []"
| "read_virt s pml4 v (Suc n) =
     (case translate s pml4 v of
        None \<Rightarrow> Inl PageFault
      | Some a \<Rightarrow> andthen (read_virt s pml4 (v + 1) n) (\<lambda>bs. Inr (mem s a # bs)))"

primrec write_virt :: "u64 \<Rightarrow> u64 \<Rightarrow> u8 list \<Rightarrow> kstate \<Rightarrow> kstate res" where
  "write_virt pml4 v [] s = Inr s"
| "write_virt pml4 v (b # bs) s =
     (case translate s pml4 v of
        None \<Rightarrow> Inl PageFault
      | Some a \<Rightarrow> write_virt pml4 (v + 1) bs (s\<lparr>mem := (mem s)(a := b)\<rparr>))"

text \<open>A C string of the program, which is read to its end.\<close>

partial_function (option) string_from :: "kstate \<Rightarrow> u64 \<Rightarrow> u64 \<Rightarrow> string \<Rightarrow> string res option" where
  "string_from s pml4 v acc =
     (case translate s pml4 v of
        None \<Rightarrow> Some (Inl PageFault)
      | Some a \<Rightarrow>
          if mem s a = 0 then Some (Inr acc)
          else string_from s pml4 (v + 1) (acc @ [char_of (unat (mem s a))]))"

definition string_virt :: "kstate \<Rightarrow> u64 \<Rightarrow> u64 \<Rightarrow> string res option" where
  "string_virt s pml4 v = string_from s pml4 v []"

text \<open>Little-endian bytes of a value, and back.\<close>

primrec le_bytes :: "nat \<Rightarrow> u64 \<Rightarrow> u8 list" where
  "le_bytes 0 v = []"
| "le_bytes (Suc n) v = ucast v # le_bytes n (drop_bit 8 v)"

primrec of_le :: "u8 list \<Rightarrow> u64" where
  "of_le [] = 0"
| "of_le (b # bs) = ucast b OR push_bit 8 (of_le bs)"

text \<open>The processor's state buffer.\<close>

primrec write_bytes :: "memory \<Rightarrow> u64 \<Rightarrow> u8 list \<Rightarrow> memory" where
  "write_bytes m a [] = m"
| "write_bytes m a (b # bs) = (write_bytes m (a + 1) bs)(a := b)"

section \<open>Switching threads\<close>

text \<open>
  \<open>xsave\<close> and \<open>xrstore\<close>: the state of the floating-point unit is the image that the instruction
  stores, of the size that the processor reports.
\<close>

definition switch_context :: "u64 \<Rightarrow> kernel \<Rightarrow> (stack_frame \<times> kernel) res" where
  "switch_context ctx k =
     andthen (deref (contexts k) ctx) (\<lambda>x.
       Inr (frame x, k\<lparr>fpu := read_bytes (mem (km k)) (fpu_state x) (length (fpu k))\<rparr>))"

definition save_context :: "stack_frame \<Rightarrow> u64 \<Rightarrow> kernel \<Rightarrow> kernel res" where
  "save_context f ctx k =
     andthen (deref (contexts k) ctx) (\<lambda>x.
       Inr (k\<lparr>contexts := (contexts k)(ctx \<mapsto> x\<lparr>frame := f\<rparr>),
              km := (km k)\<lparr>mem := write_bytes (mem (km k)) (fpu_state x) (fpu k)\<rparr>\<rparr>))"

definition user_cs :: u64 where "user_cs = 0x40 OR 3"

text \<open>The part of \<open>switch_task\<close> that saves the interrupted thread, twice in the code.\<close>

definition leave_thread :: "stack_frame \<Rightarrow> thread \<Rightarrow> kernel \<Rightarrow> kernel res" where
  "leave_thread f t k =
     andthen (deref (contexts k) (context_ptr t)) (\<lambda>x.
       let k1 = (if cs (frame x) = user_cs
                 then k\<lparr>threads := (threads k)(current_thread k \<mapsto>
                          t\<lparr>gs_base := readmsr 0xC0000101 (mc k), fs_base := readmsr 0xC0000100 (mc k)\<rparr>)\<rparr>
                 else k)
       in save_context f (context_ptr t) k1)"

text \<open>The part that resumes the new current thread, also twice.\<close>

definition enter_thread :: "u64 \<Rightarrow> kernel \<Rightarrow> (stack_frame \<times> kernel) res" where
  "enter_thread p k0 =
     (let k = k0\<lparr>current_thread := p\<rparr>
      in andthen (deref (threads k) p) (\<lambda>t.
         andthen (switch_context (context_ptr t) k) (\<lambda>(f, k1).
         let k2 = (if cs f = user_cs
                   then k1\<lparr>mc := writemsr 0xC0000100 (fs_base t) (writemsr 0xC0000101 (gs_base t) (mc k1))\<rparr>
                   else k1)
         in andthen (deref (processes k2) (info t)) (\<lambda>pr.
            if pagemap pr = null then Inl PageFault
            else Inr (f, k2\<lparr>mc := (mc k2)\<lparr>cr3 := load64 (mem (km k2)) (pagemap pr + 8)\<rparr>\<rparr>)))))"

definition switch_task :: "stack_frame \<Rightarrow> kernel \<Rightarrow> (stack_frame \<times> kernel) res" where
  "switch_task f k =
     (if current_thread k \<noteq> null then
        andthen (deref (threads k) (current_thread k)) (\<lambda>t.
          if next_thread t \<noteq> null then
            andthen (leave_thread f t k) (enter_thread (next_thread t))
          else if start_of_queue k \<noteq> null then
            andthen (leave_thread f t k) (enter_thread (start_of_queue k))
          else Inr (f, k\<lparr>mc := serial_print (bytes_of (''NOTHING TO SWITCH TO LOL, RETTING'' @ [CHR 0x0A])) (mc k)\<rparr>))
      else if start_of_queue k \<noteq> null then enter_thread (start_of_queue k) k
      else Inr (f, k\<lparr>mc := serial_print_color (bytes_of (''Scheduler: Nothing to switch to!'' @ [CHR 0x0A])) 2 (mc k)\<rparr>))"

text \<open>The timer interrupt, \<open>sched_meow\<close> of \<open>idt.c\<close>.\<close>

definition sched_meow :: "apic_state \<Rightarrow> stack_frame \<Rightarrow> kernel \<Rightarrow> (stack_frame \<times> kernel) res" where
  "sched_meow a f k =
     andthen (switch_task f k) (\<lambda>(f', k'). Inr (f', k'\<lparr>mc := send_lapic_eoi (hhdm (km k')) a (mc k')\<rparr>))"

section \<open>Creating threads and processes\<close>

definition sizeof_cpu_context :: u64 where "sizeof_cpu_context = 184"
definition sizeof_thread :: u64 where "sizeof_thread = 88"
definition sizeof_process_info :: u64 where "sizeof_process_info = 4416"
definition sizeof_per_thread_cpu_info :: u64 where "sizeof_per_thread_cpu_info = 24"

text \<open>The legacy area starts with \<open>fcw\<close>; \<open>mxcsr\<close> is at offset 24.\<close>

definition new_context :: "u64 \<Rightarrow> u64 \<Rightarrow> bool \<Rightarrow> kernel \<Rightarrow> (u64 \<times> kernel) res" where
  "new_context entry_func sp user k =
     andthen (on_memory (kmalloc sizeof_cpu_context) k) (\<lambda>(new_guy, k1).
       if new_guy = null then Inl PageFault
       else
         let f = (frame (raw_context k1 new_guy))\<lparr>rip := entry_func, rsp := sp, rbp := sp, rflags := 0x202,
                    cs := (if user then 0x40 OR 3 else 0x28), ss := (if user then 0x38 OR 3 else 0x30)\<rparr>
         in andthen (on_memory (kmalloc (align_up (xsave_size k1) 4096)) k1) (\<lambda>(st, k2).
              if st = null then Inl PageFault
              else
                let fcw = (if user then push_bit 1 0xFF else 0x33F);
                    mxcsr = (if user then 0xFC else 0x1F80);
                    m1 = memset (mem (km k2)) st 0 (xsave_size k2);
                    m2 = store_bytes 4 (store_bytes 2 m1 st fcw) (st + 24) mxcsr
                in Inr (new_guy, k2\<lparr>contexts := (contexts k2)(new_guy \<mapsto> \<lparr>frame = f, fpu_state = st\<rparr>),
                                    km := (km k2)\<lparr>mem := m2\<rparr>\<rparr>)))"

definition create_thread :: "u64 \<Rightarrow> kernel \<Rightarrow> (u64 \<times> kernel) res" where
  "create_thread it k =
     andthen (on_memory (kmalloc sizeof_thread) k) (\<lambda>(thr, k1).
       if thr = null then Inl PageFault
       else Inr (thr, k1\<lparr>threads := (threads k1)(thr \<mapsto> (raw_thread k1 thr)\<lparr>context_ptr := it, next_thread := null\<rparr>)\<rparr>))"

text \<open>The descriptors and their bitmap keep what was in the memory.\<close>

definition make_process_info :: "string \<Rightarrow> int \<Rightarrow> kernel \<Rightarrow> (u64 \<times> kernel) res" where
  "make_process_info name p k =
     andthen (on_memory (kmalloc sizeof_process_info) k) (\<lambda>(new_process, k1).
       if new_process = null then Inl PageFault
       else if length name \<ge> 32 then Inl Undefined
       else Inr (new_process, k1\<lparr>processes := (processes k1)(new_process \<mapsto> (raw_process k1 new_process)
              \<lparr>process_name := name, pid := of_int p, pagemap := kernel_pagemap (km k1),
               root_vfs := root_list k1, cur_working_directory := root_list k1\<rparr>)\<rparr>))"

definition get_cur_process_info :: "kernel \<Rightarrow> u64 res" where
  "get_cur_process_info k =
     (if current_thread k \<noteq> null then andthen (deref (threads k) (current_thread k)) (\<lambda>t. Inr (info t))
      else Inr null)"

definition get_current_pagemap_process :: "kernel \<Rightarrow> u64 res" where
  "get_current_pagemap_process k =
     (if current_thread k \<noteq> null then
        andthen (deref (threads k) (current_thread k)) (\<lambda>t.
        andthen (deref (processes k) (info t)) (\<lambda>c. if pagemap c \<noteq> null then Inr (pagemap c) else Inr null))
      else Inr null)"

text \<open>The root directory for absolute names, as \<open>vnode_path_lookup\<close> chooses it.\<close>

definition lookup_root :: "kernel \<Rightarrow> nat option res" where
  "lookup_root k =
     andthen (get_cur_process_info k) (\<lambda>p.
       if p \<noteq> null then andthen (deref (processes k) p) (\<lambda>pr. Inr (root_vfs pr)) else Inr (root_list k))"

text \<open>
  One round of \<open>kthread_start\<close>: the event that arrived last is taken first. \<open>event_count\<close> is
  changed by the interrupt handler, too.
\<close>

definition kthread_round :: "(string \<Rightarrow> u64 list \<Rightarrow> u8 list) \<Rightarrow> ps2_state \<Rightarrow> machine \<Rightarrow> ps2_state \<times> machine" where
  "kthread_round npf p c =
     (if event_count p > 0 then
        let p1 = p\<lparr>event_count := event_count p - 1\<rparr>;
            event = events p1 ! event_count p1
        in (p1, if printable event \<noteq> 0 then kprintf npf True (''Key Pressed %c'' @ [CHR 0x0A]) [ucast (printable event)] c
                else if key event = KEY_ESCAPE then kprintf npf True (''KEY ESCAPE PRESSED!'' @ [CHR 0x0A]) [0] c
                else c)
      else (p, c))"

section \<open>Buffers\<close>

definition area :: "u64 \<Rightarrow> nat \<Rightarrow> u64 set" where
  "area a n = {a + of_nat i | i. i < n}"

lemma area_Suc: "area a (Suc n) = insert a (area (a + 1) n)"
proof -
  have "{i. i < Suc n} = insert 0 (Suc ` {i. i < n})" by (auto simp: less_Suc_eq_0_disj)
  then have "(\<lambda>i. a + of_nat i) ` {i. i < Suc n} = insert a ((\<lambda>i. a + 1 + of_nat i) ` {i. i < n})"
    by (simp add: image_image add.assoc)
  then show ?thesis by (simp add: area_def image_Collect)
qed

lemma area_fresh:
  assumes "n < 2 ^ 64" shows "a \<notin> area (a + 1) n"
proof
  assume "a \<in> area (a + 1) n"
  then obtain i where i: "i < n" "a = a + 1 + of_nat i" by (auto simp: area_def)
  have "(of_nat (Suc i) :: u64) = (a + 1 + of_nat i) - a" by simp
  also have "\<dots> = 0" using i(2) by (metis diff_self)
  finally have "2 ^ 64 dvd Suc i" by (simp only: word_of_nat_eq_0_iff) simp
  then show False using i(1) assms by (auto dest: dvd_imp_le)
qed

lemma write_bytes_other: "x \<notin> area a (length bs) \<Longrightarrow> write_bytes m a bs x = m x"
  by (induction bs arbitrary: a) (auto simp: area_Suc)

lemma read_bytes_Suc: "read_bytes m a (Suc n) = m a # read_bytes m (a + 1) n"
  unfolding read_bytes_def upt_conv_Cons [OF zero_less_Suc] map_Suc_upt [symmetric] by (simp add: add.assoc)

lemma read_bytes_cong:
  assumes "\<And>x. x \<in> area a n \<Longrightarrow> m x = m' x" shows "read_bytes m a n = read_bytes m' a n"
proof -
  have "m (a + of_nat i) = m' (a + of_nat i)" if "i < n" for i
    using assms [of "a + of_nat i"] that by (auto simp: area_def)
  then show ?thesis by (simp add: read_bytes_def)
qed

lemma read_write_bytes: "length bs < 2 ^ 64 \<Longrightarrow> read_bytes (write_bytes m a bs) a (length bs) = bs"
proof (induction bs arbitrary: a)
  case (Cons b bs)
  have "read_bytes ((write_bytes m (a + 1) bs)(a := b)) (a + 1) (length bs) = read_bytes (write_bytes m (a + 1) bs) (a + 1) (length bs)"
    using area_fresh [of "length bs" a] Cons.prems by (intro read_bytes_cong) auto
  then show ?case using Cons by (simp add: read_bytes_Suc del: fun_upd_apply) simp
qed (simp add: read_bytes_def)

section \<open>Round robin\<close>

text \<open>The thread and its context, for an address in the queue.\<close>

definition the_thread :: "kernel \<Rightarrow> u64 \<Rightarrow> thread" where "the_thread k p = the (threads k p)"
definition the_context :: "kernel \<Rightarrow> u64 \<Rightarrow> cpu_context" where
  "the_context k p = the (contexts k (context_ptr (the_thread k p)))"
definition fpu_area :: "kernel \<Rightarrow> u64 \<Rightarrow> u64 set" where
  "fpu_area k p = area (fpu_state (the_context k p)) (length (fpu k))"
definition fpu_image :: "kernel \<Rightarrow> u64 \<Rightarrow> u8 list" where
  "fpu_image k p = read_bytes (mem (km k)) (fpu_state (the_context k p)) (length (fpu k))"

text \<open>A thread whose pointers are all valid.\<close>

definition thread_ok :: "kernel \<Rightarrow> u64 \<Rightarrow> bool" where
  "thread_ok k p \<longleftrightarrow> p \<noteq> null \<and> threads k p \<noteq> None
     \<and> context_ptr (the_thread k p) \<noteq> null \<and> contexts k (context_ptr (the_thread k p)) \<noteq> None
     \<and> info (the_thread k p) \<noteq> null
     \<and> (\<exists>pr. processes k (info (the_thread k p)) = Some pr \<and> pagemap pr \<noteq> null)"

text \<open>The queue holds the threads \<open>ts\<close>, each with a context and a state buffer of its own.\<close>

definition sched_ok :: "kernel \<Rightarrow> u64 list \<Rightarrow> bool" where
  "sched_ok k ts \<longleftrightarrow> ts \<noteq> [] \<and> distinct ts \<and> start_of_queue k = hd ts \<and> length (fpu k) < 2 ^ 64
     \<and> (\<forall>p \<in> set ts. thread_ok k p)
     \<and> (\<forall>i < length ts. next_thread (the_thread k (ts ! i)) = (if Suc i < length ts then ts ! Suc i else null))
     \<and> (\<forall>p \<in> set ts. \<forall>q \<in> set ts. p \<noteq> q \<longrightarrow>
          context_ptr (the_thread k p) \<noteq> context_ptr (the_thread k q) \<and> fpu_area k p \<inter> fpu_area k q = {})"

lemma leave_thread_ok:
  assumes ok: "sched_ok k ts" and cur: "current_thread k \<in> set ts"
  defines "p \<equiv> current_thread k"
  shows "\<exists>k'. leave_thread f (the_thread k p) k = Inr k' \<and> sched_ok k' ts \<and> current_thread k' = p
    \<and> fpu k' = fpu k \<and> mc k' = mc k \<and> processes k' = processes k
    \<and> (\<forall>q \<in> set ts. frame (the_context k' q) = (if q = p then f else frame (the_context k q))
        \<and> fpu_image k' q = (if q = p then fpu k else fpu_image k q)
        \<and> fpu_state (the_context k' q) = fpu_state (the_context k q)
        \<and> next_thread (the_thread k' q) = next_thread (the_thread k q)
        \<and> info (the_thread k' q) = info (the_thread k q)
        \<and> (fs_base (the_thread k' q), gs_base (the_thread k' q)) =
            (if q = p \<and> cs (frame (the_context k p)) = user_cs
             then (msr (mc k) 0xC0000100, msr (mc k) 0xC0000101)
             else (fs_base (the_thread k q), gs_base (the_thread k q))))"
proof -
  define t x where "t = the_thread k p" and "x = the_context k p"
  have tk: "thread_ok k q" if "q \<in> set ts" for q using ok that by (simp add: sched_ok_def)
  have p: "p \<in> set ts" using cur by (simp add: p_def)
  have tx: "threads k p = Some t" "context_ptr t \<noteq> null" "contexts k (context_ptr t) = Some x"
    using tk [OF p] by (auto simp: thread_ok_def t_def x_def the_thread_def the_context_def)
  define t' where "t' = (if cs (frame x) = user_cs
      then t\<lparr>gs_base := readmsr 0xC0000101 (mc k), fs_base := readmsr 0xC0000100 (mc k)\<rparr> else t)"
  define k' where "k' = k\<lparr>threads := (threads k)(p \<mapsto> t'), contexts := (contexts k)(context_ptr t \<mapsto> x\<lparr>frame := f\<rparr>),
      km := (km k)\<lparr>mem := write_bytes (mem (km k)) (fpu_state x) (fpu k)\<rparr>\<rparr>"
  have same: "(threads k)(p \<mapsto> t) = threads k" using tx(1) by (simp add: fun_upd_idem)
  have "leave_thread f t k = Inr k'"
    using tx by (auto simp: leave_thread_def save_context_def Let_def k'_def t'_def p_def [symmetric] same)
  moreover have th: "the_thread k' q = (if q = p then t' else the_thread k q)" for q
    by (simp add: k'_def the_thread_def)
  have ptr: "context_ptr (the_thread k' q) = context_ptr (the_thread k q)"
    "next_thread (the_thread k' q) = next_thread (the_thread k q)" "info (the_thread k' q) = info (the_thread k q)" for q
    by (simp_all add: th t'_def t_def)
  have apart: "context_ptr (the_thread k q) \<noteq> context_ptr t" "fpu_area k q \<inter> fpu_area k p = {}"
    if "q \<in> set ts" "q \<noteq> p" for q
    using ok that p unfolding sched_ok_def t_def by auto
  have cx: "the_context k' q = (if q = p then x\<lparr>frame := f\<rparr> else the_context k q)" if "q \<in> set ts" for q
    using apart(1) [OF that] by (auto simp: the_context_def ptr t_def) (auto simp: k'_def t_def the_context_def)
  have st: "fpu_state (the_context k' q) = fpu_state (the_context k q)" if "q \<in> set ts" for q
    using cx [OF that] by (simp add: x_def)
  have img: "fpu_image k' q = (if q = p then fpu k else fpu_image k q)" if q: "q \<in> set ts" for q
  proof (cases "q = p")
    case True
    have "length (fpu k) < 2 ^ 64" using ok by (simp add: sched_ok_def)
    then show ?thesis using True st [OF q] by (simp add: fpu_image_def k'_def x_def read_write_bytes)
  next
    case False
    have "write_bytes (mem (km k)) (fpu_state x) (fpu k) a = mem (km k) a" if "a \<in> fpu_area k q" for a
      using apart(2) [OF q False] that by (intro write_bytes_other) (auto simp: fpu_area_def x_def)
    then show ?thesis using False st [OF q]
      by (simp add: fpu_image_def k'_def) (rule read_bytes_cong, simp add: fpu_area_def)
  qed
  have "thread_ok k' q" if "q \<in> set ts" for q
    using tk [OF that] tx unfolding thread_ok_def ptr by (simp add: k'_def)
  moreover have "fpu_area k' q = fpu_area k q" if "q \<in> set ts" for q
    using st [OF that] by (simp add: fpu_area_def k'_def)
  ultimately have "sched_ok k' ts" using ok unfolding sched_ok_def ptr by (simp add: k'_def)
  then show ?thesis
    using \<open>leave_thread f t k = Inr k'\<close> cx img st ptr th
    by (intro exI [of _ k']) (auto simp: k'_def p_def t_def t'_def readmsr_eq x_def)
qed

text \<open>What is kept for the threads of the queue: nothing of it depends on the rest of the state.\<close>

lemma sched_same:
  assumes "threads k' = threads k" "contexts k' = contexts k" "length (fpu k') = length (fpu k)"
  shows "the_thread k' p = the_thread k p" and "the_context k' p = the_context k p" and "fpu_area k' p = fpu_area k p"
  using assms by (simp_all add: the_thread_def the_context_def fpu_area_def)

lemma length_read_bytes [simp]: "length (read_bytes m a n) = n"
  by (simp add: read_bytes_def)

definition resumed :: "thread \<Rightarrow> stack_frame \<Rightarrow> machine \<Rightarrow> machine" where
  "resumed t f c =
     (if cs f = user_cs then c\<lparr>msr := (msr c)(0xC0000101 := gs_base t, 0xC0000100 := fs_base t)\<rparr> else c)"

lemma enter_thread_ok:
  assumes ok: "sched_ok k ts" and p: "p \<in> set ts"
  shows "\<exists>k' pml4. enter_thread p k = Inr (frame (the_context k p), k') \<and> sched_ok k' ts \<and> current_thread k' = p
    \<and> fpu k' = fpu_image k p \<and> km k' = km k \<and> threads k' = threads k \<and> contexts k' = contexts k
    \<and> mc k' = (resumed (the_thread k p) (frame (the_context k p)) (mc k))\<lparr>cr3 := pml4\<rparr>"
proof -
  define t x where "t = the_thread k p" and "x = the_context k p"
  have "thread_ok k p" using ok p by (simp add: sched_ok_def)
  then obtain pr where tx: "p \<noteq> null" "threads k p = Some t" "context_ptr t \<noteq> null" "contexts k (context_ptr t) = Some x"
    "info t \<noteq> null" "processes k (info t) = Some pr" "pagemap pr \<noteq> null"
    by (auto simp: thread_ok_def t_def x_def the_thread_def the_context_def)
  define k' where "k' = k\<lparr>current_thread := p, fpu := fpu_image k p,
      mc := (resumed t (frame x) (mc k))\<lparr>cr3 := load64 (mem (km k)) (pagemap pr + 8)\<rparr>\<rparr>"
  have "enter_thread p k = Inr (frame x, k')"
    using tx by (auto simp: enter_thread_def switch_context_def Let_def k'_def resumed_def writemsr_eq fpu_image_def x_def)
  moreover have l: "length (fpu k') = length (fpu k)" by (simp add: k'_def fpu_image_def)
  have "sched_ok k' ts"
    using ok sched_same [of k' k, OF _ _ l] by (simp add: sched_ok_def thread_ok_def l) (simp add: k'_def)
  ultimately show ?thesis
    by (intro exI [of _ k'] exI [of _ "load64 (mem (km k)) (pagemap pr + 8)"]) (simp add: k'_def x_def t_def)
qed

lemma switch_task_ok:
  assumes ok: "sched_ok k ts" and i: "i < length ts" "current_thread k = ts ! i"
  defines "p \<equiv> ts ! i" and "n \<equiv> ts ! (Suc i mod length ts)"
  shows "\<exists>f' k' pml4. switch_task f k = Inr (f', k') \<and> sched_ok k' ts \<and> current_thread k' = n
    \<and> f' = frame (the_context k' n) \<and> fpu k' = fpu_image k' n
    \<and> mc k' = (resumed (the_thread k' n) f' (mc k))\<lparr>cr3 := pml4\<rparr>
    \<and> (\<forall>q \<in> set ts. frame (the_context k' q) = (if q = p then f else frame (the_context k q))
        \<and> fpu_image k' q = (if q = p then fpu k else fpu_image k q)
        \<and> (fs_base (the_thread k' q), gs_base (the_thread k' q)) =
            (if q = p \<and> cs (frame (the_context k p)) = user_cs
             then (msr (mc k) 0xC0000100, msr (mc k) 0xC0000101)
             else (fs_base (the_thread k q), gs_base (the_thread k q))))"
proof -
  have p: "p \<in> set ts" "current_thread k = p" using i by (simp_all add: p_def)
  have "Suc i mod length ts < length ts" using i by (intro mod_less_divisor) auto
  then have n: "n \<in> set ts" by (simp add: n_def)
  have t: "threads k p = Some (the_thread k p)" "p \<noteq> null"
    using ok p(1) by (auto simp: sched_ok_def thread_ok_def the_thread_def)
  have start: "start_of_queue k = ts ! 0" "start_of_queue k \<noteq> null"
    using ok by (auto simp: sched_ok_def thread_ok_def hd_conv_nth)
  have nn: "q \<noteq> null" if "q \<in> set ts" for q using ok that by (auto simp: sched_ok_def thread_ok_def)
  have nx: "next_thread (the_thread k p) = (if Suc i < length ts then ts ! Suc i else null)"
    using ok i by (simp add: sched_ok_def p_def)
  have "switch_task f k = andthen (leave_thread f (the_thread k p) k) (enter_thread n)"
  proof (cases "Suc i < length ts")
    case True
    then have "ts ! Suc i \<noteq> null" by (intro nn) simp
    then show ?thesis using True t nx p(2) by (simp add: switch_task_def n_def)
  next
    case False
    then have "Suc i = length ts" using i by simp
    then show ?thesis using t nx p(2) start by (simp add: switch_task_def n_def)
  qed
  moreover obtain k1 where k1: "leave_thread f (the_thread k p) k = Inr k1" "sched_ok k1 ts" "mc k1 = mc k"
    "\<forall>q \<in> set ts. frame (the_context k1 q) = (if q = p then f else frame (the_context k q))
        \<and> fpu_image k1 q = (if q = p then fpu k else fpu_image k q)
        \<and> (fs_base (the_thread k1 q), gs_base (the_thread k1 q)) =
            (if q = p \<and> cs (frame (the_context k p)) = user_cs
             then (msr (mc k) 0xC0000100, msr (mc k) 0xC0000101)
             else (fs_base (the_thread k q), gs_base (the_thread k q)))"
    using leave_thread_ok [OF ok, of f] p by auto
  moreover obtain k2 pml4 where k2: "enter_thread n k1 = Inr (frame (the_context k1 n), k2)" "sched_ok k2 ts"
    "current_thread k2 = n" "fpu k2 = fpu_image k1 n" "km k2 = km k1" "threads k2 = threads k1" "contexts k2 = contexts k1"
    "mc k2 = (resumed (the_thread k1 n) (frame (the_context k1 n)) (mc k1))\<lparr>cr3 := pml4\<rparr>"
    using enter_thread_ok [OF k1(2) n] by auto
  moreover have "length (fpu k2) = length (fpu k1)" by (simp add: k2(4) fpu_image_def)
  note same = sched_same [OF k2(6,7) this]
  have "fpu_image k2 q = fpu_image k1 q" for q using same k2(4,5) by (simp add: fpu_image_def)
  ultimately show ?thesis using same
    by (intro exI [of _ "frame (the_context k1 n)"] exI [of _ k2] exI [of _ pml4]) simp
qed

text \<open>
  What threads may do between two ticks: everything but touching the queue, the saved contexts and
  the page maps of the processes.
\<close>

definition quiet :: "u64 list \<Rightarrow> kernel \<Rightarrow> kernel \<Rightarrow> bool" where
  "quiet ts k k' \<longleftrightarrow> threads k' = threads k \<and> contexts k' = contexts k \<and> start_of_queue k' = start_of_queue k
     \<and> current_thread k' = current_thread k \<and> length (fpu k') = length (fpu k)
     \<and> (\<forall>p \<in> set ts. thread_ok k' p \<and> (\<forall>a \<in> fpu_area k p. mem (km k') a = mem (km k) a))"

lemma quiet_ok:
  assumes "sched_ok k ts" and "quiet ts k k'"
  shows "sched_ok k' ts" and "p \<in> set ts \<Longrightarrow> fpu_image k' p = fpu_image k p"
proof -
  note same = sched_same [of k' k]
  show "sched_ok k' ts" using assms same by (simp add: sched_ok_def quiet_def)
  show "fpu_image k' p = fpu_image k p" if "p \<in> set ts"
    using assms that same unfolding fpu_image_def quiet_def
    by (auto intro!: read_bytes_cong simp: fpu_area_def)
qed

text \<open>\<open>n\<close> timer ticks: the first finds frame \<open>f\<close>, the last resumes with \<open>f'\<close>, and what the threads
  do in between, and with which frames they are interrupted, is open.\<close>

inductive ticks :: "u64 list \<Rightarrow> nat \<Rightarrow> kernel \<Rightarrow> stack_frame \<Rightarrow> stack_frame \<Rightarrow> kernel \<Rightarrow> bool" for ts where
  tick: "switch_task f k = Inr (f', k') \<Longrightarrow> ticks ts 1 k f f' k'"
| tick_more: "ticks ts n k f g k1 \<Longrightarrow> quiet ts k1 k2 \<Longrightarrow> switch_task h k2 = Inr (f', k') \<Longrightarrow> ticks ts (Suc n) k f f' k'"

text \<open>The state after \<open>n\<close> ticks, as long as the first thread has not been reached again.\<close>

lemma ticks_state:
  assumes "ticks ts n k f f' k'" and "sched_ok k ts" and "i < length ts" and "current_thread k = ts ! i"
  shows "1 \<le> n \<and> sched_ok k' ts \<and> current_thread k' = ts ! ((i + n) mod length ts)
    \<and> f' = frame (the_context k' (current_thread k')) \<and> fpu k' = fpu_image k' (current_thread k')
    \<and> (cs f' = user_cs \<longrightarrow> msr (mc k') 0xC0000100 = fs_base (the_thread k' (current_thread k'))
         \<and> msr (mc k') 0xC0000101 = gs_base (the_thread k' (current_thread k')))
    \<and> (n \<le> length ts \<longrightarrow> frame (the_context k' (ts ! i)) = f \<and> fpu_image k' (ts ! i) = fpu k
         \<and> (cs (frame (the_context k (ts ! i))) = user_cs \<longrightarrow>
              fs_base (the_thread k' (ts ! i)) = msr (mc k) 0xC0000100
              \<and> gs_base (the_thread k' (ts ! i)) = msr (mc k) 0xC0000101))"
  using assms
proof (induction rule: ticks.induct)
  case (tick f k f' k')
  have at: "\<forall>q \<in> set ts. P q \<Longrightarrow> P (ts ! i)" for P using tick(3) by simp
  show ?case using tick switch_task_ok [of k ts i f] by (auto simp: resumed_def dest!: at)
next
  case (tick_more n k f g k1 k2 h f' k')
  note IH = tick_more.IH [OF tick_more.prems]
  note q = quiet_ok [OF _ tick_more.hyps(2)]
  define j where "j = (i + n) mod length ts"
  have l: "0 < length ts" using tick_more.prems(2) by auto
  have j: "j < length ts" "current_thread k2 = ts ! j"
    using IH tick_more.hyps(2) l by (auto simp: j_def quiet_def)
  have k2: "sched_ok k2 ts" using IH q by blast
  have nj: "Suc j mod length ts = (i + Suc n) mod length ts" by (simp add: j_def mod_Suc_eq)
  have same: "the_thread k2 p = the_thread k1 p" "the_context k2 p = the_context k1 p" for p
    using tick_more.hyps(2) sched_same [of k2 k1] by (auto simp: quiet_def)
  have step: "sched_ok k' ts \<and> current_thread k' = ts ! (Suc j mod length ts)
    \<and> f' = frame (the_context k' (ts ! (Suc j mod length ts))) \<and> fpu k' = fpu_image k' (ts ! (Suc j mod length ts))
    \<and> (\<exists>pml4. mc k' = (resumed (the_thread k' (ts ! (Suc j mod length ts))) f' (mc k2))\<lparr>cr3 := pml4\<rparr>)
    \<and> (\<forall>q \<in> set ts. q \<noteq> ts ! j \<longrightarrow> frame (the_context k' q) = frame (the_context k2 q) \<and> fpu_image k' q = fpu_image k2 q
        \<and> fs_base (the_thread k' q) = fs_base (the_thread k2 q) \<and> gs_base (the_thread k' q) = gs_base (the_thread k2 q))"
    using switch_task_ok [OF k2 j, of h] tick_more.hyps(3) by auto
  have "frame (the_context k' (ts ! i)) = f \<and> fpu_image k' (ts ! i) = fpu k
         \<and> (cs (frame (the_context k (ts ! i))) = user_cs \<longrightarrow>
              fs_base (the_thread k' (ts ! i)) = msr (mc k) 0xC0000100
              \<and> gs_base (the_thread k' (ts ! i)) = msr (mc k) 0xC0000101)" if n: "Suc n \<le> length ts"
  proof -
    have "j \<noteq> i"
    proof
      assume "j = i"
      then have "(i + n) mod length ts = i mod length ts" using tick_more.prems(2) by (simp add: j_def)
      then have "length ts dvd n" by (metis add_diff_cancel_left' mod_eq_dvd_iff_nat le_add1)
      then show False using n IH by (auto dest: dvd_imp_le)
    qed
    then have "ts ! i \<noteq> ts ! j" using tick_more.prems j(1) by (simp add: sched_ok_def nth_eq_iff_index_eq)
    moreover have i: "ts ! i \<in> set ts" using tick_more.prems(2) by simp
    ultimately show ?thesis using step IH n q(2) [of "ts ! i"] same by auto
  qed
  then show ?case using step nj by (auto simp: resumed_def)
qed

lemma scheduler_is_round_robin_parts:
  assumes "sched_ok k ts" and "i < length ts" and "current_thread k = ts ! i"
  shows "\<exists>f' k'. switch_task f k = Inr (f', k') \<and> sched_ok k' ts \<and> current_thread k' = ts ! (Suc i mod length ts)"
    and "ticks ts n k f f' k' \<Longrightarrow> sched_ok k' ts \<and> current_thread k' = ts ! ((i + n) mod length ts)"
    and "p \<in> set ts \<Longrightarrow> \<exists>n. 1 \<le> n \<and> n \<le> length ts \<and> (\<forall>f' k'. ticks ts n k f f' k' \<longrightarrow> current_thread k' = p)"
proof -
  show "\<exists>f' k'. switch_task f k = Inr (f', k') \<and> sched_ok k' ts \<and> current_thread k' = ts ! (Suc i mod length ts)"
    using switch_task_ok [OF assms, of f] by (elim exE conjE) blast
  show at: "sched_ok k' ts \<and> current_thread k' = ts ! ((i + n) mod length ts)" if "ticks ts n k f f' k'" for n f f' k'
    using ticks_state [OF that assms] by blast
  assume "p \<in> set ts"
  then obtain j where j: "j < length ts" "p = ts ! j" by (auto simp: in_set_conv_nth)
  define n where "n = (if i < j then j - i else length ts + j - i)"
  have "(i + n) mod length ts = j" "1 \<le> n" "n \<le> length ts" using j(1) assms(2) by (auto simp: n_def)
  then show "\<exists>n. 1 \<le> n \<and> n \<le> length ts \<and> (\<forall>f' k'. ticks ts n k f f' k' \<longrightarrow> current_thread k' = p)"
    using at j(2) by (intro exI [of _ n]) auto
qed

text \<open>
  C30. The scheduler is round robin: with a well-formed queue every tick succeeds and leaves the
  queue well-formed, and after \<open>n\<close> ticks, whatever the threads did in between, the \<open>n\<close>-th successor
  of the current thread runs. So every thread of the queue is reached within one round.
\<close>

theorem scheduler_is_round_robin:
  assumes "sched_ok k ts" and "i < length ts" and "current_thread k = ts ! i"
  shows "(\<exists>f' k'. switch_task f k = Inr (f', k') \<and> sched_ok k' ts \<and> current_thread k' = ts ! (Suc i mod length ts))
    \<and> (\<forall>n f' k'. ticks ts n k f f' k' \<longrightarrow> sched_ok k' ts \<and> current_thread k' = ts ! ((i + n) mod length ts))
    \<and> (\<forall>p \<in> set ts. \<exists>n. 1 \<le> n \<and> n \<le> length ts \<and> (\<forall>f' k'. ticks ts n k f f' k' \<longrightarrow> current_thread k' = p))"
  by (intro conjI allI impI ballI scheduler_is_round_robin_parts [OF assms]; assumption)

lemma interrupted_thread_is_restored_parts:
  assumes "sched_ok k ts" and "i < length ts" and "current_thread k = ts ! i"
    and "ticks ts (length ts) k f f' k'"
  shows "current_thread k' = current_thread k" and "f' = f" and "fpu k' = fpu k"
    and "cs f = user_cs \<Longrightarrow> cs (frame (the_context k (current_thread k))) = user_cs \<Longrightarrow>
      msr (mc k') 0xC0000100 = msr (mc k) 0xC0000100 \<and> msr (mc k') 0xC0000101 = msr (mc k) 0xC0000101"
  using ticks_state [OF assms(4,1-3)] assms(2,3) by auto

text \<open>
  C31. A thread does not notice that it was interrupted: when the round comes back to it, the
  registers and the floating-point state are those of the interruption, and so are the FS and GS
  bases of a thread that runs in user mode, although the other threads ran in between.
\<close>

theorem interrupted_thread_is_restored:
  assumes "sched_ok k ts" and "i < length ts" and "current_thread k = ts ! i"
    and "ticks ts (length ts) k f f' k'"
  shows "current_thread k' = current_thread k \<and> f' = f \<and> fpu k' = fpu k
    \<and> (cs f = user_cs \<and> cs (frame (the_context k (current_thread k))) = user_cs \<longrightarrow>
      msr (mc k') 0xC0000100 = msr (mc k) 0xC0000100 \<and> msr (mc k') 0xC0000101 = msr (mc k) 0xC0000101)"
  using interrupted_thread_is_restored_parts [OF assms] by blast

text \<open>Two threads in user mode.\<close>

definition demo_frame :: "u64 \<Rightarrow> stack_frame" where
  "demo_frame v = \<lparr>intnum = 32, r15 = v, r14 = 0, r13 = 0, r12 = 0, r11 = 0, r10 = 0, r9 = 0, r8 = 0,
     rdi = 0, rsi = 0, rdx = 0, rcx = 0, rbx = 0, rax = 0, rbp = 0, error_code = 0, rip = 0x400000, cs = 0x43,
     rflags = 0x202, rsp = 0, ss = 0x3B\<rparr>"

definition demo_thread :: "u64 \<Rightarrow> u64 \<Rightarrow> thread" where
  "demo_thread ctx nx = \<lparr>thread_name = [], context_ptr = ctx, next_thread = nx, tid = 0, info = 0x3000,
     fs_base = 0, gs_base = 0, parameter_window_size = 0\<rparr>"

definition demo_process :: process_info where
  "demo_process = \<lparr>root_vfs = None, pagemap = 0x4000, cur_working_directory = None, process_name = [], pid = 0,
     Descriptors = [], descriptor_bitmap = []\<rparr>"

definition demo_kernel :: kernel where
  "demo_kernel = \<lparr>km = \<lparr>mem = (\<lambda>_. 0), hhdm = 0xFFFF800000000000, head = 0, kmalloc_cache = [], kernel_pagemap = 0,
       kerneL_higher_half_size = 0\<rparr>,
     mc = demo_machine, files = empty_root (\<lambda>_ _. 0), root_list = Some 0,
     threads = [0x1000 \<mapsto> demo_thread 0x5000 0x2000, 0x2000 \<mapsto> demo_thread 0x6000 0],
     processes = [0x3000 \<mapsto> demo_process],
     contexts = [0x5000 \<mapsto> \<lparr>frame = demo_frame 1, fpu_state = 0x7000\<rparr>, 0x6000 \<mapsto> \<lparr>frame = demo_frame 2, fpu_state = 0x8000\<rparr>],
     cpu_infos = (\<lambda>_. None), start_of_queue = 0x1000, current_thread = 0x1000, fpu = [7, 7], xsave_size = 2,
     raw_thread = (\<lambda>_. demo_thread 0 0), raw_process = (\<lambda>_. demo_process),
     raw_context = (\<lambda>_. \<lparr>frame = demo_frame 0, fpu_state = 0\<rparr>),
     raw_cpu_info = (\<lambda>_. \<lparr>kernel_stack_ptr = 0, user_stack_ptr = 0, self_ptr = 0\<rparr>)\<rparr>"

lemma demo_kernel_ok: "sched_ok demo_kernel [0x1000, 0x2000]" "current_thread demo_kernel = 0x1000"
proof -
  have "area a (Suc (Suc 0)) = {a, a + 1}" for a by (simp add: area_Suc) (simp add: area_def)
  then show "sched_ok demo_kernel [0x1000, 0x2000]" "current_thread demo_kernel = 0x1000"
    by (auto simp: sched_ok_def thread_ok_def the_thread_def the_context_def fpu_area_def demo_kernel_def demo_thread_def
        demo_process_def less_Suc_eq Int_commute)
qed

theorem scheduler_is_round_robin_instance:
  "\<exists>f' k'. switch_task (demo_frame 9) demo_kernel = Inr (f', k') \<and> current_thread k' = 0x2000"
  using scheduler_is_round_robin [OF demo_kernel_ok(1), of 0 "demo_frame 9"] demo_kernel_ok(2) by auto

theorem interrupted_thread_is_restored_instance:
  "\<exists>k1 k2 g. switch_task (demo_frame 9) demo_kernel = Inr (g, k1)
    \<and> switch_task (demo_frame 5) (k1\<lparr>fpu := replicate (length (fpu k1)) 1\<rparr>) = Inr (demo_frame 9, k2) \<and> fpu k2 = [7, 7]"
proof -
  note ok = demo_kernel_ok
  obtain g k1 where k1: "switch_task (demo_frame 9) demo_kernel = Inr (g, k1)" "sched_ok k1 [0x1000, 0x2000]"
    "current_thread k1 = 0x2000" using switch_task_ok [OF ok(1), of 0 "demo_frame 9"] ok(2) by auto
  define k1' where "k1' = k1\<lparr>fpu := replicate (length (fpu k1)) 1\<rparr>"
  have q: "quiet [0x1000, 0x2000] k1 k1'"
    using k1(2) by (simp add: quiet_def k1'_def sched_ok_def thread_ok_def the_thread_def)
  then obtain f2 k2 where k2: "switch_task (demo_frame 5) k1' = Inr (f2, k2)"
    using switch_task_ok [OF quiet_ok(1) [OF k1(2) q], of 1 "demo_frame 5"] k1(3) by (auto simp: k1'_def)
  have "ticks [0x1000, 0x2000] 2 demo_kernel (demo_frame 9) f2 k2"
    using tick_more [OF tick [OF k1(1)] q k2] by (simp add: numeral_2_eq_2)
  then have "ticks [0x1000, 0x2000] (length [0x1000 :: u64, 0x2000]) demo_kernel (demo_frame 9) f2 k2" by (simp add: numeral_2_eq_2)
  from interrupted_thread_is_restored [OF ok(1) _ _ this, of 0] ok(2)
  have "f2 = demo_frame 9" "fpu k2 = [7, 7]" by (simp_all add: demo_kernel_def)
  then show ?thesis using k1(1) k2 unfolding k1'_def by blast
qed

end
