(* ===== verification/User_Memory.thy ===== *)
theory User_Memory
  imports Sched
begin

text \<open>
  Memory of a program as the kernel reads and writes it: a window of virtual addresses whose
  translation is not affected by writes to the window itself. Inside such a window \<open>read_virt\<close> and
  \<open>write_virt\<close> behave like operations on an array. A window is what \<open>mmap_range\<close> gives: pages whose
  frames differ from each other and from the page tables.
\<close>

definition user_buffer :: "kstate \<Rightarrow> u64 \<Rightarrow> u64 \<Rightarrow> nat \<Rightarrow> (nat \<Rightarrow> u64) \<Rightarrow> bool" where
  "user_buffer s pml4 v n a \<longleftrightarrow> inj_on a {..<n}
     \<and> (\<forall>m. (\<forall>x. x \<notin> a ` {..<n} \<longrightarrow> m x = mem s x) \<longrightarrow>
          (\<forall>i<n. translate (s\<lparr>mem := m\<rparr>) pml4 (v + of_nat i) = Some (a i)))"

lemma user_buffer_translate: "user_buffer s p v n a \<Longrightarrow> i < n \<Longrightarrow> translate s p (v + of_nat i) = Some (a i)"
  unfolding user_buffer_def by (metis (no_types) kstate.surjective kstate.update_convs(1))

lemma user_buffer_cong:
  assumes "user_buffer s p v n a" and "\<And>x. x \<notin> a ` {..<n} \<Longrightarrow> m x = mem s x"
  shows "user_buffer (s\<lparr>mem := m\<rparr>) p v n a"
  using assms by (simp add: user_buffer_def)

lemma read_window:
  "user_buffer s p v n a \<Longrightarrow> d + l \<le> n \<Longrightarrow>
     read_virt s p (v + of_nat d) l = Inr (map (\<lambda>i. mem s (a i)) [d..<d + l])"
proof (induction l arbitrary: d)
  case (Suc l)
  have "read_virt s p (v + of_nat (Suc d)) l = Inr (map (\<lambda>i. mem s (a i)) [Suc d..<Suc d + l])"
    using Suc by (intro Suc.IH) simp_all
  moreover have "[d..<d + Suc l] = d # [Suc d..<Suc d + l]" by (simp add: upt_conv_Cons)
  moreover have "v + of_nat d + 1 = v + of_nat (Suc d)" by simp
  moreover have "translate s p (v + of_nat d) = Some (a d)" using Suc.prems by (intro user_buffer_translate) auto
  ultimately show ?case by (simp only: read_virt.simps option.case andthen_Inr list.map)
qed simp

lemma write_window:
  "user_buffer s p v n a \<Longrightarrow> d + length bs \<le> n \<Longrightarrow>
     \<exists>m. write_virt p (v + of_nat d) bs s = Inr (s\<lparr>mem := m\<rparr>) \<and> user_buffer (s\<lparr>mem := m\<rparr>) p v n a
       \<and> (\<forall>i<n. m (a i) = (if d \<le> i \<and> i < d + length bs then bs ! (i - d) else mem s (a i)))
       \<and> (\<forall>x. x \<notin> a ` {..<n} \<longrightarrow> m x = mem s x)"
proof (induction bs arbitrary: d s)
  case (Cons b bs)
  define s1 where "s1 = s\<lparr>mem := (mem s)(a d := b)\<rparr>"
  have d: "d < n" using Cons.prems(2) by simp
  have inj: "a i = a d \<longleftrightarrow> i = d" if "i < n" for i
    using Cons.prems(1) that d by (auto simp: user_buffer_def inj_on_def)
  have ub: "user_buffer s1 p v n a"
    unfolding s1_def using Cons.prems(1) d by (intro user_buffer_cong) auto
  have "v + of_nat d + 1 = v + of_nat (Suc d)" by simp
  then have w: "write_virt p (v + of_nat d) (b # bs) s = write_virt p (v + of_nat (Suc d)) bs s1"
    using user_buffer_translate [OF Cons.prems(1) d] by (simp only: write_virt.simps option.case s1_def)
  obtain m where m: "write_virt p (v + of_nat (Suc d)) bs s1 = Inr (s1\<lparr>mem := m\<rparr>)" "user_buffer (s1\<lparr>mem := m\<rparr>) p v n a"
    "\<forall>i<n. m (a i) = (if Suc d \<le> i \<and> i < Suc d + length bs then bs ! (i - Suc d) else mem s1 (a i))"
    "\<forall>x. x \<notin> a ` {..<n} \<longrightarrow> m x = mem s1 x"
    using Cons.IH [OF ub, of "Suc d"] Cons.prems(2) by auto
  have "m (a i) = (if d \<le> i \<and> i < d + length (b # bs) then (b # bs) ! (i - d) else mem s (a i))" if "i < n" for i
    using m(3) that inj [OF that] by (cases "i = d") (auto simp: s1_def nth_Cons')
  moreover have "m x = mem s x" if "x \<notin> a ` {..<n}" for x using m(4) that d by (auto simp: s1_def)
  ultimately show ?case using m(1,2) w by (intro exI [of _ m]) (simp add: s1_def)
qed (auto intro!: exI [of _ "mem s" for s])

text \<open>What was written is read back, and the rest of the window is as before.\<close>

lemma read_written:
  assumes "user_buffer s p v n a" and "d + length bs \<le> n"
  shows "\<exists>m. write_virt p (v + of_nat d) bs s = Inr (s\<lparr>mem := m\<rparr>) \<and> user_buffer (s\<lparr>mem := m\<rparr>) p v n a
    \<and> read_virt (s\<lparr>mem := m\<rparr>) p (v + of_nat d) (length bs) = Inr bs
    \<and> (\<forall>e l. e + l \<le> n \<longrightarrow> e + l \<le> d \<or> d + length bs \<le> e \<longrightarrow>
         read_virt (s\<lparr>mem := m\<rparr>) p (v + of_nat e) l = read_virt s p (v + of_nat e) l)
    \<and> (\<forall>x. x \<notin> a ` {..<n} \<longrightarrow> m x = mem s x)"
proof -
  obtain m where m: "write_virt p (v + of_nat d) bs s = Inr (s\<lparr>mem := m\<rparr>)" "user_buffer (s\<lparr>mem := m\<rparr>) p v n a"
    "\<forall>i<n. m (a i) = (if d \<le> i \<and> i < d + length bs then bs ! (i - d) else mem s (a i))"
    "\<forall>x. x \<notin> a ` {..<n} \<longrightarrow> m x = mem s x" using write_window [OF assms] by blast
  have "map (\<lambda>i. m (a i)) [d..<d + length bs] = bs"
    using m(3) assms(2) by (intro nth_equalityI) auto
  then have "read_virt (s\<lparr>mem := m\<rparr>) p (v + of_nat d) (length bs) = Inr bs"
    using read_window [OF m(2) assms(2)] by simp
  moreover have "read_virt (s\<lparr>mem := m\<rparr>) p (v + of_nat e) l = read_virt s p (v + of_nat e) l"
    if e: "e + l \<le> n" "e + l \<le> d \<or> d + length bs \<le> e" for e l
  proof -
    have "map (\<lambda>i. m (a i)) [e..<e + l] = map (\<lambda>i. mem s (a i)) [e..<e + l]" using m(3) e by auto
    then show ?thesis using read_window [OF m(2) e(1)] read_window [OF assms(1) e(1)] by simp
  qed
  ultimately show ?thesis using m by blast
qed

text \<open>Kernel addresses are a window as they are.\<close>

lemma kernel_window:
  assumes "v \<ge> 0xFFFF800000000000" and "unat v + n \<le> 2 ^ 64"
  shows "user_buffer s p v n (\<lambda>i. v + of_nat i)"
proof -
  have u: "unat (v + of_nat i) = unat v + i" if "i < n" for i
  proof -
    have "i < 2 ^ 64" using that assms(2) by linarith
    then have i: "unat (of_nat i :: u64) = i" by (simp add: unat_of_nat)
    then have "unat v + unat (of_nat i :: u64) < 2 ^ 64" using that assms(2) by linarith
    then show ?thesis using i unat_add_lem [of v "of_nat i"] by simp
  qed
  have "inj_on (\<lambda>i. v + of_nat i) {..<n}"
  proof (rule inj_onI)
    fix i j assume "i \<in> {..<n}" "j \<in> {..<n}" "v + of_nat i = v + (of_nat j :: u64)"
    then have "unat v + i = unat v + j" using u by (metis lessThan_iff)
    then show "i = j" by simp
  qed
  moreover have "0xFFFF800000000000 \<le> v + of_nat i" if "i < n" for i
    using u [OF that] assms(1) by (simp add: word_le_nat_alt)
  ultimately show ?thesis by (simp add: user_buffer_def translate_def)
qed

text \<open>Pages of a program whose frames are apart from the page tables are a window.\<close>

lemma mapped_window:
  assumes pt: "pt_ok s t" and inj: "inj_on a {..<n}"
    and tr: "\<And>i. i < n \<Longrightarrow> translate s t (v + of_nat i) = Some (a i)"
    and P: "\<And>i. i < n \<Longrightarrow> page_of (a i) \<notin> pt_pages s t"
  shows "user_buffer s t v n a"
  unfolding user_buffer_def
proof (intro conjI allI impI)
  fix m i assume m: "\<forall>x. x \<notin> a ` {..<n} \<longrightarrow> m x = mem s x" and i: "i < n"
  have "same_outside (page_of ` a ` {..<n}) (mem s) m" using m by (auto simp: same_outside_def)
  moreover have "page_of ` a ` {..<n} \<inter> pt_pages s t = {}" using P by auto
  ultimately have "page_map (s\<lparr>mem := m\<rparr>) t (index_path x) = page_map s t (index_path x)" for x
    by (intro page_map_kept [OF pt _ _ full_index_path])
  then show "translate (s\<lparr>mem := m\<rparr>) t (v + of_nat i) = Some (a i)"
    using tr [OF i] by (auto simp: translate_def Let_def split: if_splits)
qed (rule inj)

end
