(* ===== verification/Elf.thy ===== *)
theory Elf
  imports User_Memory
begin

text \<open>
  Loading programs, \<open>kernel/src/elf/elf.c\<close>, and the start of the scheduler, \<open>sched_init\<close>. The file
  is read through the file system; segments and the initial stack are written through the page
  tables of the new program.
\<close>

text \<open>
  What the code takes from outside: the formatter of \<open>kprintf\<close>, the byte behind the buffer of a
  path, the uninitialised locals \<open>stored\<close> and \<open>path\<close> of the loader, where the data of a vnode is,
  and the address of the kernel thread's code.
\<close>

record environment =
  npf :: "string \<Rightarrow> u64 list \<Rightarrow> u8 list"
  past_path :: "string \<Rightarrow> char"
  raw_stored :: u64
  raw_path :: "u8 list"
  data_address :: "nat \<Rightarrow> u64"
  kthread_start :: u64

definition print :: "environment \<Rightarrow> string \<Rightarrow> u64 list \<Rightarrow> kernel \<Rightarrow> kernel" where
  "print env format args k = k\<lparr>mc := kprintf (npf env) True format args (mc k)\<rparr>"

definition load_cr3 :: "u64 \<Rightarrow> kernel \<Rightarrow> kernel res" where
  "load_cr3 pm k =
     (if pm = null then Inl PageFault else Inr (k\<lparr>mc := (mc k)\<lparr>cr3 := load64 (mem (km k)) (pm + 8)\<rparr>\<rparr>))"

section \<open>Headers\<close>

definition sizeof_ElfHdr :: nat where "sizeof_ElfHdr = 64"
definition sizeof_phdr :: nat where "sizeof_phdr = 56"

definition field :: "u8 list \<Rightarrow> nat \<Rightarrow> nat \<Rightarrow> u64" where
  "field bs off n = of_le (take n (drop off bs))"

record elf_hdr =
  e_ident :: "u8 list"
  e_type :: u64
  e_machine :: u64
  e_version :: u64
  e_entry :: u64
  e_phoff :: u64
  e_shoff :: u64
  e_flags :: u64
  e_ehsize :: u64
  e_phentsize :: u64
  e_phnum :: u64
  e_shentsize :: u64
  e_shnum :: u64
  e_shstrndx :: u64

definition elf_hdr_of :: "u8 list \<Rightarrow> elf_hdr" where
  "elf_hdr_of bs = \<lparr>e_ident = take 16 bs, e_type = field bs 16 2, e_machine = field bs 18 2, e_version = field bs 20 4,
     e_entry = field bs 24 8, e_phoff = field bs 32 8, e_shoff = field bs 40 8, e_flags = field bs 48 4,
     e_ehsize = field bs 52 2, e_phentsize = field bs 54 2, e_phnum = field bs 56 2, e_shentsize = field bs 58 2,
     e_shnum = field bs 60 2, e_shstrndx = field bs 62 2\<rparr>"

record elf_phdr =
  p_type :: u64
  p_flags :: u64
  p_offset :: u64
  p_vaddr :: u64
  p_paddr :: u64
  p_filesz :: u64
  p_memsz :: u64
  p_align :: u64

definition elf_phdr_of :: "u8 list \<Rightarrow> elf_phdr" where
  "elf_phdr_of bs = \<lparr>p_type = field bs 0 4, p_flags = field bs 4 4, p_offset = field bs 8 8, p_vaddr = field bs 16 8,
     p_paddr = field bs 24 8, p_filesz = field bs 32 8, p_memsz = field bs 40 8, p_align = field bs 48 8\<rparr>"

text \<open>A read through \<open>v_rdwr\<close> whose result is ignored: what comes back is all that is known.\<close>

definition read_file :: "kernel \<Rightarrow> nat option \<Rightarrow> u64 \<Rightarrow> u64 \<Rightarrow> u8 list res" where
  "read_file k file n off =
     (case file of
        None \<Rightarrow> Inl PageFault
      | Some v \<Rightarrow> andthen (vnode_rdwr (\<lambda>_. 0) (files k) v n off [] 0) (\<lambda>(_, bytes, _). Inr bytes))"

text \<open>A read into a cleared structure of \<open>n\<close> bytes.\<close>

definition read_struct :: "kernel \<Rightarrow> nat option \<Rightarrow> nat \<Rightarrow> u64 \<Rightarrow> u8 list res" where
  "read_struct k file n off =
     andthen (read_file k file (of_nat n) off) (\<lambda>bytes. Inr (bytes @ replicate (n - length bytes) 0))"

section \<open>Segments\<close>

definition elf_page :: "u64 \<Rightarrow> u64 \<Rightarrow> u64 \<Rightarrow> nat \<Rightarrow> kstate \<Rightarrow> kstate res" where
  "elf_page maps base vaddr i s =
     andthen (pmm_alloc_singlep s) (\<lambda>(page, s1).
       let s2 = s1\<lparr>mem := memset (mem s1) (page + hhdm s1) 0 4096\<rparr>
       in andthen (page_offset i) (\<lambda>off.
            let virt = align_down (base + vaddr + off) 4096
            in vmm_map (load64 (mem s2) (maps + 8) + hhdm s2) virt page
                 (NYA_OS_VMM_USER OR NYA_OS_VMM_PRESENT OR NYA_OS_VMM_RW) s2))"

text \<open>The neighbours between which the new region is linked; only their ends are compared.\<close>

partial_function (option) elf_gap :: "memory \<Rightarrow> u64 \<Rightarrow> u64 \<Rightarrow> u64 \<Rightarrow> (u64 \<times> u64) option option" where
  "elf_gap m prev cur f =
     (if cur = null then Some None
      else if prev = null then elf_gap m cur (load64 m (cur + 24)) f
      else if load64 m cur \<ge> f \<and> load64 m prev + load64 m (prev + 8) \<le> f then Some (Some (prev, cur))
      else elf_gap m cur (load64 m (cur + 24)) f)"

definition elf_region :: "environment \<Rightarrow> u64 \<Rightarrow> u64 \<Rightarrow> u64 \<Rightarrow> kernel \<Rightarrow> kernel res" where
  "elf_region env maps f len k =
     (case elf_gap (mem (km k)) null (load64 (mem (km k)) maps) f of
        None \<Rightarrow> Inl Diverges
      | Some None \<Rightarrow> Inr k
      | Some (Some (prev, cur)) \<Rightarrow>
          andthen (on_memory (kmalloc sizeof_vmm_region) k) (\<lambda>(new_guy, k1).
            if new_guy = null then Inl PageFault
            else let m1 = store64 (mem (km k1)) new_guy f;
                     m2 = store64 m1 (new_guy + 8) len;
                     m3 = store64 m2 (prev + 24) new_guy;
                     m4 = store64 m3 (new_guy + 24) cur
                 in Inr (print env (''done'' @ [CHR 0x0A]) [] (k1\<lparr>km := (km k1)\<lparr>mem := m4\<rparr>\<rparr>))))"

definition write_user :: "u64 \<Rightarrow> u8 list \<Rightarrow> kernel \<Rightarrow> kernel res" where
  "write_user v bs k = andthen (write_virt (cr3 (mc k)) v bs (km k)) (\<lambda>s. Inr (k\<lparr>km := s\<rparr>))"

definition load_segment :: "environment \<Rightarrow> u64 \<Rightarrow> u64 \<Rightarrow> nat option \<Rightarrow> elf_phdr \<Rightarrow> kernel \<Rightarrow> kernel res" where
  "load_segment env maps base file ph k =
     (let misaligned = p_vaddr ph AND 4095;
          len = align_up (p_memsz ph + misaligned) 4096;
          amount_of_pages = nat (num_of_pages len);
          f = align_down (base + p_vaddr ph) 4096
      in andthen (for_upto 0 amount_of_pages (elf_page maps base (p_vaddr ph)) (km k)) (\<lambda>s.
         andthen (elf_region env maps f len (k\<lparr>km := s\<rparr>)) (\<lambda>k1.
         andthen (read_file k1 file (p_filesz ph) (p_offset ph)) (\<lambda>bytes.
           write_user (base + p_vaddr ph) bytes k1))))"

text \<open>One program header; \<open>stored\<close>, the interpreter flag and \<open>path\<close> are the locals of the loader.\<close>

definition program_header ::
  "environment \<Rightarrow> u64 \<Rightarrow> u64 \<Rightarrow> nat option \<Rightarrow> elf_hdr \<Rightarrow> nat \<Rightarrow> u64 \<times> bool \<times> u8 list \<times> kernel
   \<Rightarrow> (u64 \<times> bool \<times> u8 list \<times> kernel) res" where
  "program_header env maps base file hdr i st =
     (let (stored, interp, pth, k) = st
      in if i * unat (e_phentsize hdr) \<ge> 2 ^ 31 then Inl Undefined
         else andthen (read_struct k file sizeof_phdr (e_phoff hdr + of_nat (i * unat (e_phentsize hdr)))) (\<lambda>bs.
           let ph = elf_phdr_of bs
           in if p_type ph = 1 then
                andthen (load_segment env maps base file ph k) (\<lambda>k1. Inr (stored, interp, pth, k1))
              else if p_type ph = 6 then Inr (base + p_vaddr ph, interp, pth, k)
              else if p_type ph = 3 then
                andthen (read_file k file (p_filesz ph) (p_offset ph)) (\<lambda>bytes.
                  if length bytes > 128 then Inl Undefined
                  else Inr (stored, True, bytes @ drop (length bytes) pth, k))
              else Inr (stored, interp, pth, k)))"

section \<open>The new thread\<close>

definition NEW_THREAD_STACK :: u64 where "NEW_THREAD_STACK = 0x70000000000"

text \<open>A push below the user stack pointer, \<open>w\<close> being the size of the window so far.\<close>

definition push_user :: "u64 \<Rightarrow> u8 list \<Rightarrow> u64 \<times> kernel \<Rightarrow> (u64 \<times> kernel) res" where
  "push_user sp bs wk =
     (let (w, k) = wk; w' = w + of_nat (length bs)
      in andthen (write_user (sp - w') bs k) (\<lambda>k'. Inr (w', k')))"

text \<open>\<open>Elf64_auxvec\<close>: an \<open>int\<close>, four bytes of padding and a \<open>long\<close>.\<close>

definition auxvec :: "u64 \<Rightarrow> u64 \<Rightarrow> u8 list" where
  "auxvec ty val = le_bytes 4 ty @ replicate 4 0 @ le_bytes 8 val"

definition push_args ::
  "u64 \<Rightarrow> u64 \<Rightarrow> u64 \<Rightarrow> u64 \<Rightarrow> u64 \<Rightarrow> u64 \<Rightarrow> u64 \<Rightarrow> u64 \<Rightarrow> u64 \<times> kernel \<Rightarrow> (u64 \<times> kernel) res" where
  "push_args sp argc argv envp entry phdr_virt phent phnum wk0 =
     andthen (push_user sp (auxvec 0 0) wk0) (\<lambda>wk1.
     andthen (if entry \<noteq> 0 then push_user sp (auxvec 9 entry) wk1 else Inr wk1) (\<lambda>wk2.
     andthen (push_user sp (auxvec 3 phdr_virt) wk2) (\<lambda>wk3.
     andthen (push_user sp (auxvec 4 phent) wk3) (\<lambda>wk4.
     andthen (push_user sp (auxvec 5 phnum) wk4) (\<lambda>wk5.
     andthen (push_user sp (le_bytes 8 0) wk5) (\<lambda>wk6.
     andthen (if envp \<noteq> 0 then push_user sp (le_bytes 8 envp) wk6 else Inr wk6) (\<lambda>wk7.
     andthen (push_user sp (le_bytes 8 0) wk7) (\<lambda>wk8.
     andthen (if argv \<noteq> 0 then push_user sp (le_bytes 8 argv) wk8 else Inr wk8) (\<lambda>wk9.
       push_user sp (le_bytes 8 argc) wk9)))))))))"

text \<open>The window is moved down to a multiple of 16 bytes.\<close>

definition align_window :: "u64 \<Rightarrow> u64 \<times> kernel \<Rightarrow> (u64 \<times> kernel) res" where
  "align_window sp wk =
     (let (w, k) = wk
      in if w mod 16 \<noteq> 0 then
           let w' = w + (16 - w mod 16)
           in andthen (read_virt (km k) (cr3 (mc k)) (sp - w) (unat w)) (\<lambda>bs.
              andthen (write_user (sp - w') bs k) (\<lambda>k'. Inr (w', k')))
         else Inr (w, k))"

definition start_program ::
  "environment \<Rightarrow> u64 \<Rightarrow> u64 \<Rightarrow> elf_hdr \<Rightarrow> u64 \<Rightarrow> u64 \<Rightarrow> u64 \<Rightarrow> u64 \<Rightarrow> u64 \<Rightarrow> u64 \<Rightarrow> u64 \<Rightarrow> kernel \<Rightarrow> (u64 \<times> kernel) res" where
  "start_program env maps base hdr argc argv envp entry phdr_virt phent phnum k =
     (let sp = NEW_THREAD_STACK + 512000
      in andthen (on_memory (mmap_range maps NEW_THREAD_STACK 512000
                    (NYA_OS_VMM_PRESENT OR NYA_OS_VMM_RW OR NYA_OS_VMM_USER)) k) (\<lambda>(_, k1).
         andthen (new_context (base + e_entry hdr) sp True k1) (\<lambda>(new_ctx, k2).
         andthen (make_process_info ''ELF'' 0 k2) (\<lambda>(e, k3).
         andthen (create_thread new_ctx k3) (\<lambda>(new_guy, k4).
         andthen (on_memory (kmalloc sizeof_per_thread_cpu_info) k4) (\<lambda>(gs, k5).
         andthen (on_memory pmm_alloc_singlep k5) (\<lambda>(page, k6).
           if gs = null then Inl PageFault
           else let w0 = parameter_window_size (the_thread k6 new_guy)
           in andthen (push_args sp argc argv envp entry phdr_virt phent phnum (w0, k6)) (\<lambda>wk.
              andthen (align_window sp wk) (\<lambda>(w, k7).
                let k8 = k7\<lparr>
                      threads := (threads k7)(new_guy \<mapsto> (the_thread k7 new_guy)
                        \<lparr>info := e, gs_base := gs, parameter_window_size := w\<rparr>),
                      cpu_infos := (cpu_infos k7)(gs \<mapsto> \<lparr>kernel_stack_ptr = page + hhdm (km k7) + 4096,
                        user_stack_ptr = sp - w, self_ptr = gs\<rparr>),
                      contexts := (contexts k7)(new_ctx \<mapsto> (the (contexts k7 new_ctx))
                        \<lparr>frame := (frame (the (contexts k7 new_ctx)))\<lparr>rsp := rsp (frame (the (contexts k7 new_ctx))) - w\<rparr>\<rparr>),
                      processes := (processes k7)(e \<mapsto> (the (processes k7 e))\<lparr>pagemap := maps\<rparr>)\<rparr>
                in Inr (new_guy, print env (''elf: usrptr for new thread: %p'' @ [CHR 0x0A]) [sp - w] k8))))))))))"

section \<open>The loader\<close>

text \<open>The type of the file is not checked when the eighth byte is zero, and the magic never is.\<close>

definition accepted :: "elf_hdr \<Rightarrow> bool" where
  "accepted hdr \<longleftrightarrow> e_type hdr = 2 \<or> e_type hdr = 3 \<or> e_ident hdr ! 7 = 0"

definition c_string :: "u8 list \<Rightarrow> string res" where
  "c_string bs = (if 0 \<in> set bs then Inr (map (\<lambda>b. char_of (unat b)) (takeWhile (\<lambda>b. b \<noteq> 0) bs)) else Inl Undefined)"

definition load_program ::
  "environment \<Rightarrow> u64 \<Rightarrow> u64 \<Rightarrow> nat option \<Rightarrow> kernel \<Rightarrow> (elf_hdr \<times> u64 \<times> bool \<times> u8 list \<times> kernel) res" where
  "load_program env maps base file k0 =
     andthen (load_cr3 maps k0) (\<lambda>k.
     andthen (read_struct k file sizeof_ElfHdr 0) (\<lambda>bs.
       let hdr = elf_hdr_of bs
       in if accepted hdr then
            andthen (for_upto 0 (unat (e_phnum hdr)) (program_header env maps base file hdr)
                       (raw_stored env, False, raw_path env, k)) (\<lambda>r. Inr (hdr, r))
          else Inr (hdr, raw_stored env, False, raw_path env, k)))"

text \<open>\<open>null\<close> in front of the result is the failure that the code reports with NULL.\<close>

partial_function (option) load_elf_program ::
  "environment \<Rightarrow> u64 \<Rightarrow> u64 \<Rightarrow> nat option \<Rightarrow> u64 \<Rightarrow> u64 \<Rightarrow> u64 \<Rightarrow> u64 \<Rightarrow> u64 \<Rightarrow> u64 \<Rightarrow> u64 \<Rightarrow> kernel
   \<Rightarrow> (u64 \<times> kernel) res option" where
  "load_elf_program env maps base file argc argv envp entry phdr_virt phent phnum k =
     (case load_program env maps base file k of
        Inl e \<Rightarrow> Some (Inl e)
      | Inr (hdr, stored, interp, pth, k1) \<Rightarrow>
          if \<not> accepted hdr then
            Some (andthen (load_cr3 (kernel_pagemap (km k1)) k1) (\<lambda>k2. Inr (null, k2)))
          else if interp then
            (let k2 = print env (''elf: entry addr %p'' @ [CHR 0x0A]) [base + e_entry hdr] k1
             in case andthen (c_string pth) (\<lambda>name. andthen (lookup_root k2) (\<lambda>rt. Inr (name, rt))) of
                  Inl e \<Rightarrow> Some (Inl e)
                | Inr (name, rt) \<Rightarrow>
                    (case root_list k2 of
                       None \<Rightarrow> Some (Inl PageFault)
                     | Some cur \<Rightarrow>
                         (case vnode_path_lookup (files k2) rt (past_path env) cur name False False of
                            None \<Rightarrow> None
                          | Some (Inl e) \<Rightarrow> Some (Inl e)
                          | Some (Inr (v, _)) \<Rightarrow>
                              load_elf_program env maps 0x40000000 v argc argv envp (base + e_entry hdr) stored
                                (e_phentsize hdr) (e_phnum hdr) k2)))
          else Some (start_program env maps base hdr argc argv envp entry phdr_virt phent phnum k1))"

section \<open>The start of the scheduler\<close>

definition sched_init :: "environment \<Rightarrow> kernel \<Rightarrow> kernel res option" where
  "sched_init env k =
     (case andthen (make_process_info ''Keyboard clearer thing'' 0 k) (\<lambda>(e, k1).
           andthen (on_memory pmm_alloc_singlep k1) (\<lambda>(page, k2).
             let new_kstack = page + hhdm (km k2) + 4096
             in andthen (new_context (kthread_start env) new_kstack False k2) (\<lambda>(ctx, k3).
                andthen (create_thread ctx k3) (\<lambda>(kthread, k4).
                andthen (on_memory (kmalloc sizeof_per_thread_cpu_info) k4) (\<lambda>(gs, k5).
                  if gs = null then Inl PageFault
                  else Inr (k5\<lparr>threads := (threads k5)(kthread \<mapsto> (the_thread k5 kthread)\<lparr>info := e, gs_base := gs\<rparr>),
                         cpu_infos := (cpu_infos k5)(gs \<mapsto> (raw_cpu_info k5 gs)\<lparr>kernel_stack_ptr := new_kstack, self_ptr := gs\<rparr>),
                         start_of_queue := kthread\<rparr>)))))) of
        Inl e \<Rightarrow> Some (Inl e)
      | Inr k6 \<Rightarrow>
          (case (lookup_root k6, root_list k6) of
             (Inl e, _) \<Rightarrow> Some (Inl e)
           | (Inr _, None) \<Rightarrow> Some (Inl PageFault)
           | (Inr rt, Some cur) \<Rightarrow>
               orelse_run (vnode_path_lookup (files k6) rt (past_path env) cur ''/usr/bin/bash'' False False) (\<lambda>(pro, _).
                 case pro of
                   None \<Rightarrow> Some (Inl Panicked)
                 | Some v \<Rightarrow>
                     (case andthen (on_memory new_pagemap k6) (\<lambda>(for_elf, k7).
                           Inr (for_elf, print env (''Addr of file data from found vnode: %p'' @ [CHR 0x0A]) [data_address env v] k7)) of
                        Inl e \<Rightarrow> Some (Inl e)
                      | Inr (for_elf, k8) \<Rightarrow>
                          orelse_run (load_elf_program env for_elf 0 (Some v) 0 0 0 0 0 0 0 k8) (\<lambda>(fr, k9).
                            let k10 = (if fr \<noteq> null
                                       then k9\<lparr>threads := (threads k9)(fr \<mapsto> (the_thread k9 fr)\<lparr>next_thread := start_of_queue k9\<rparr>),
                                               start_of_queue := fr\<rparr>
                                       else print env (''Failed to load elf program!'' @ [CHR 0x0A]) [] k9)
                            in Some (Inr (k10\<lparr>mc := (mc k10)\<lparr>interrupts_on := True\<rparr>\<rparr>)))))))"

section \<open>The initial stack\<close>

lemma length_le_bytes [simp]: "length (le_bytes n v) = n"
  by (induction n arbitrary: v) simp_all

lemma length_auxvec [simp]: "length (auxvec ty val) = 16"
  by (simp add: auxvec_def)

lemma read_virt_append:
  "read_virt s p v (n + m) = andthen (read_virt s p v n) (\<lambda>xs. andthen (read_virt s p (v + of_nat n) m) (\<lambda>ys. Inr (xs @ ys)))"
proof (induction n arbitrary: v)
  case (Suc n)
  have "v + of_nat (Suc n) = v + 1 + of_nat n" by simp
  then show ?case using Suc.IH [of "v + 1"]
    by (simp only: add_Suc read_virt.simps) (simp split: option.splits add: andthen_assoc del: of_nat_Suc)
next
  case 0
  show ?case by (cases "read_virt s p v m") simp_all
qed

text \<open>The bytes \<open>S\<close> have been pushed into the window below \<open>sp\<close>; nothing else has changed.\<close>

definition pushed :: "u64 \<Rightarrow> nat \<Rightarrow> (nat \<Rightarrow> u64) \<Rightarrow> kernel \<Rightarrow> u8 list \<Rightarrow> u64 \<times> kernel \<Rightarrow> bool" where
  "pushed sp N a k0 S wk \<longleftrightarrow>
     (let (w, k) = wk
      in w = of_nat (length S) \<and> length S \<le> N \<and> k = k0\<lparr>km := (km k0)\<lparr>mem := mem (km k)\<rparr>\<rparr>
         \<and> user_buffer (km k) (cr3 (mc k)) (sp - of_nat N) N a
         \<and> read_virt (km k) (cr3 (mc k)) (sp - w) (length S) = Inr S
         \<and> (\<forall>x. x \<notin> a ` {..<N} \<longrightarrow> mem (km k) x = mem (km k0) x))"

lemma below: "n \<le> N \<Longrightarrow> sp - of_nat n = (sp - of_nat N) + of_nat (N - n)" for sp :: u64
  by (simp add: of_nat_diff)

lemma push_ok:
  assumes st: "pushed sp N a k0 S wk" and fit: "length bs + length S \<le> N"
  shows "\<exists>wk'. push_user sp bs wk = Inr wk' \<and> pushed sp N a k0 (bs @ S) wk'"
proof -
  obtain w k where wk: "wk = (w, k)" by (cases wk)
  define p d where "p = cr3 (mc k)" and "d = N - (length bs + length S)"
  have k: "w = of_nat (length S)" "k = k0\<lparr>km := (km k0)\<lparr>mem := mem (km k)\<rparr>\<rparr>"
    "user_buffer (km k) p (sp - of_nat N) N a" "read_virt (km k) p (sp - w) (length S) = Inr S"
    "\<forall>x. x \<notin> a ` {..<N} \<longrightarrow> mem (km k) x = mem (km k0) x"
    using st by (auto simp: pushed_def wk p_def)
  define w' where "w' = w + of_nat (length bs)"
  have w': "w' = of_nat (length (bs @ S))" by (simp add: w'_def k(1))
  have at: "sp - w' = (sp - of_nat N) + of_nat d" "sp - w = (sp - of_nat N) + of_nat (d + length bs)"
    using below [of "length (bs @ S)" N sp] below [of "length S" N sp] fit unfolding w' k(1) by (simp_all add: d_def)
  have len: "d + length bs \<le> N" "d + length bs + length S \<le> N" using fit by (simp_all add: d_def)
  obtain m where m: "write_virt p (sp - w') bs (km k) = Inr ((km k)\<lparr>mem := m\<rparr>)"
    "user_buffer ((km k)\<lparr>mem := m\<rparr>) p (sp - of_nat N) N a"
    "read_virt ((km k)\<lparr>mem := m\<rparr>) p (sp - w') (length bs) = Inr bs"
    "\<forall>e l. e + l \<le> N \<longrightarrow> e + l \<le> d \<or> d + length bs \<le> e \<longrightarrow>
         read_virt ((km k)\<lparr>mem := m\<rparr>) p (sp - of_nat N + of_nat e) l = read_virt (km k) p (sp - of_nat N + of_nat e) l"
    "\<forall>x. x \<notin> a ` {..<N} \<longrightarrow> m x = mem (km k) x"
    using read_written [OF k(3) len(1)] unfolding at(1) by blast
  have S: "read_virt ((km k)\<lparr>mem := m\<rparr>) p (sp - w) (length S) = read_virt (km k) p (sp - w) (length S)"
    using m(4) len(2) unfolding at(2) by blast
  have "sp - w' + of_nat (length bs) = sp - w" by (simp add: w'_def)
  then have r: "read_virt ((km k)\<lparr>mem := m\<rparr>) p (sp - w') (length (bs @ S)) = Inr (bs @ S)"
    using m(3) S k(4) by (simp only: length_append read_virt_append) simp
  define k' where "k' = k\<lparr>km := (km k)\<lparr>mem := m\<rparr>\<rparr>"
  have "push_user sp bs wk = Inr (w', k')"
    using m(1) by (simp add: push_user_def wk write_user_def p_def [symmetric] w'_def [symmetric] k'_def)
  moreover have kk: "km k' = (km k)\<lparr>mem := m\<rparr>" "mc k' = mc k" by (simp_all add: k'_def)
  have eq: "k' = k0\<lparr>km := (km k0)\<lparr>mem := mem (km k')\<rparr>\<rparr>" by (simp add: kk(1)) (subst k'_def, subst (1 2) k(2), simp)
  have "pushed sp N a k0 (bs @ S) (w', k')"
    unfolding pushed_def prod.case Let_def
  proof (intro conjI)
    show "w' = of_nat (length (bs @ S))" "length (bs @ S) \<le> N" using w' len by simp_all
    show "k' = k0\<lparr>km := (km k0)\<lparr>mem := mem (km k')\<rparr>\<rparr>" by (rule eq)
    show "user_buffer (km k') (cr3 (mc k')) (sp - of_nat N) N a"
      "read_virt (km k') (cr3 (mc k')) (sp - w') (length (bs @ S)) = Inr (bs @ S)"
      using m(2) r unfolding kk p_def by simp_all
    show "\<forall>x. x \<notin> a ` {..<N} \<longrightarrow> mem (km k') x = mem (km k0) x" using m(5) k(5) unfolding kk by simp
  qed
  ultimately show ?thesis by blast
qed

lemma push_if_ok:
  assumes "pushed sp N a k0 S wk" and "length bs + length S \<le> N"
  shows "\<exists>wk'. (if c then push_user sp bs wk else Inr wk) = Inr wk' \<and> pushed sp N a k0 ((if c then bs else []) @ S) wk'"
  using push_ok [OF assms] assms(1) by (cases wk, cases c) auto

definition stack_image :: "u64 \<Rightarrow> u64 \<Rightarrow> u64 \<Rightarrow> u64 \<Rightarrow> u64 \<Rightarrow> u64 \<Rightarrow> u64 \<Rightarrow> u8 list" where
  "stack_image argc argv envp entry phdr_virt phent phnum =
     le_bytes 8 argc @ (if argv \<noteq> 0 then le_bytes 8 argv else []) @ le_bytes 8 0
     @ (if envp \<noteq> 0 then le_bytes 8 envp else []) @ le_bytes 8 0
     @ auxvec 5 phnum @ auxvec 4 phent @ auxvec 3 phdr_virt @ (if entry \<noteq> 0 then auxvec 9 entry else []) @ auxvec 0 0"

lemma push_args_ok:
  assumes "pushed sp 128 a k [] (0, k)"
  shows "\<exists>wk. push_args sp argc argv envp entry phdr_virt phent phnum (0, k) = Inr wk
    \<and> pushed sp 128 a k (stack_image argc argv envp entry phdr_virt phent phnum) wk"
proof -
  define A where "A = auxvec 0 0"
  define B where "B = (if entry \<noteq> 0 then auxvec 9 entry else []) @ A"
  define E where "E = (if envp \<noteq> 0 then le_bytes 8 envp else []) @ le_bytes 8 0 @ auxvec 5 phnum @ auxvec 4 phent @ auxvec 3 phdr_virt @ B"
  define V where "V = (if argv \<noteq> 0 then le_bytes 8 argv else []) @ le_bytes 8 0 @ E"
  have l: "length A = 16" "length B \<le> 32" "length E \<le> 96" "length V \<le> 112" by (simp_all add: A_def B_def E_def V_def)
  obtain wk1 where 1: "push_user sp (auxvec 0 0) (0, k) = Inr wk1" "pushed sp 128 a k A wk1"
    using push_ok [OF assms, of "auxvec 0 0"] by (auto simp: A_def)
  obtain wk2 where 2: "(if entry \<noteq> 0 then push_user sp (auxvec 9 entry) wk1 else Inr wk1) = Inr wk2" "pushed sp 128 a k B wk2"
    using push_if_ok [OF 1(2), of "auxvec 9 entry" "entry \<noteq> 0"] l(1) unfolding B_def by auto
  obtain wk3 where 3: "push_user sp (auxvec 3 phdr_virt) wk2 = Inr wk3" "pushed sp 128 a k (auxvec 3 phdr_virt @ B) wk3"
    using push_ok [OF 2(2), of "auxvec 3 phdr_virt"] l by auto
  obtain wk4 where 4: "push_user sp (auxvec 4 phent) wk3 = Inr wk4" "pushed sp 128 a k (auxvec 4 phent @ auxvec 3 phdr_virt @ B) wk4"
    using push_ok [OF 3(2), of "auxvec 4 phent"] l by auto
  obtain wk5 where 5: "push_user sp (auxvec 5 phnum) wk4 = Inr wk5"
    "pushed sp 128 a k (auxvec 5 phnum @ auxvec 4 phent @ auxvec 3 phdr_virt @ B) wk5"
    using push_ok [OF 4(2), of "auxvec 5 phnum"] l by auto
  obtain wk6 where 6: "push_user sp (le_bytes 8 0) wk5 = Inr wk6"
    "pushed sp 128 a k (le_bytes 8 0 @ auxvec 5 phnum @ auxvec 4 phent @ auxvec 3 phdr_virt @ B) wk6"
    using push_ok [OF 5(2), of "le_bytes 8 0"] l by auto
  obtain wk7 where 7: "(if envp \<noteq> 0 then push_user sp (le_bytes 8 envp) wk6 else Inr wk6) = Inr wk7" "pushed sp 128 a k E wk7"
    using push_if_ok [OF 6(2), of "le_bytes 8 envp" "envp \<noteq> 0"] l unfolding E_def by auto
  obtain wk8 where 8: "push_user sp (le_bytes 8 0) wk7 = Inr wk8" "pushed sp 128 a k (le_bytes 8 0 @ E) wk8"
    using push_ok [OF 7(2), of "le_bytes 8 0"] l by auto
  obtain wk9 where 9: "(if argv \<noteq> 0 then push_user sp (le_bytes 8 argv) wk8 else Inr wk8) = Inr wk9" "pushed sp 128 a k V wk9"
    using push_if_ok [OF 8(2), of "le_bytes 8 argv" "argv \<noteq> 0"] l unfolding V_def by auto
  obtain wk where "push_user sp (le_bytes 8 argc) wk9 = Inr wk" "pushed sp 128 a k (le_bytes 8 argc @ V) wk"
    using push_ok [OF 9(2), of "le_bytes 8 argc"] l by auto
  moreover have "le_bytes 8 argc @ V = stack_image argc argv envp entry phdr_virt phent phnum"
    by (simp add: V_def E_def B_def A_def stack_image_def)
  ultimately show ?thesis by (simp only: push_args_def 1 2 3 4 5 6 7 8 9 andthen_Inr) auto
qed

lemma align_window_ok:
  assumes st: "pushed sp 128 a k0 S (w, k)"
  shows "\<exists>w' k'. align_window sp (w, k) = Inr (w', k') \<and> w' mod 16 = 0 \<and> length S \<le> unat w' \<and> unat w' \<le> 128
    \<and> read_virt (km k') (cr3 (mc k')) (sp - w') (length S) = Inr S
    \<and> k' = k0\<lparr>km := (km k0)\<lparr>mem := mem (km k')\<rparr>\<rparr> \<and> (\<forall>x. x \<notin> a ` {..<128} \<longrightarrow> mem (km k') x = mem (km k0) x)"
proof -
  define p l where "p = cr3 (mc k)" and "l = length S"
  have k: "w = of_nat l" "l \<le> 128" "k = k0\<lparr>km := (km k0)\<lparr>mem := mem (km k)\<rparr>\<rparr>"
    "user_buffer (km k) p (sp - of_nat 128) 128 a" "read_virt (km k) p (sp - w) l = Inr S"
    "\<forall>x. x \<notin> a ` {..<128} \<longrightarrow> mem (km k) x = mem (km k0) x"
    using st unfolding pushed_def Let_def prod.case l_def p_def by (simp only: of_nat_numeral, blast)+
  have u: "unat w = l" using k(1,2) by (simp add: unat_of_nat)
  have md: "w mod 16 = of_nat (l mod 16)"
    using k(2) by (subst word_unat_eq_iff) (simp add: unat_mod u unat_of_nat)
  show ?thesis
  proof (cases "w mod 16 = 0")
    case True
    then show ?thesis using k u by (intro exI [of _ w] exI [of _ k]) (simp add: align_window_def l_def p_def)
  next
    case False
    have m: "l mod 16 \<noteq> 0"
    proof
      assume "l mod 16 = 0"
      then have "w mod 16 = of_nat 0" using md by (simp only:)
      then show False using False by simp
    qed
    define l' where "l' = l + (16 - l mod 16)"
    have l': "l' \<le> 128" "l \<le> l'" "16 dvd l'"
    proof -
      have "l \<noteq> 128" using m by auto
      then have "l div 16 \<le> 7" using k(2) by simp
      moreover have "l + (16 - r) = 16 * (q + 1)" if "16 * q + r = l" "r < 16" for q r using that by auto
      from this [OF mult_div_mod_eq] have "l' = 16 * (l div 16 + 1)" by (simp add: l'_def)
      ultimately show "l' \<le> 128" "16 dvd l'" by simp_all
      show "l \<le> l'" by (simp add: l'_def)
    qed
    define w' where "w' = w + (16 - w mod 16)"
    have "w' = of_nat l + (16 - of_nat (l mod 16))" unfolding w'_def md by (simp only: k(1))
    then have w': "w' = of_nat l'" by (simp add: l'_def of_nat_diff less_imp_le)
    have u': "unat w' = l'" using l'(1) by (simp add: w' unat_of_nat)
    have al: "w' mod 16 = 0" using l'(3) by (subst word_unat_eq_iff) (simp add: unat_mod u' mod_eq_0_iff_dvd)
    have at: "sp - w' = (sp - of_nat 128) + of_nat (128 - l')" unfolding w' by (rule below [OF l'(1)])
    have fit: "128 - l' + length S \<le> 128" using l' by (simp add: l_def)
    obtain mm where mm: "write_virt p (sp - w') S (km k) = Inr ((km k)\<lparr>mem := mm\<rparr>)"
      "read_virt ((km k)\<lparr>mem := mm\<rparr>) p (sp - w') l = Inr S" "\<forall>x. x \<notin> a ` {..<128} \<longrightarrow> mm x = mem (km k) x"
      using read_written [OF k(4) fit] unfolding at l_def by blast
    define k' where "k' = k\<lparr>km := (km k)\<lparr>mem := mm\<rparr>\<rparr>"
    have "align_window sp (w, k) = Inr (w', k')"
      using False mm(1) k(5) by (simp add: align_window_def write_user_def p_def [symmetric] w'_def [symmetric] Let_def u k'_def)
    moreover have kk: "km k' = (km k)\<lparr>mem := mm\<rparr>" "mc k' = mc k" by (simp_all add: k'_def)
    moreover have "k' = k0\<lparr>km := (km k0)\<lparr>mem := mem (km k')\<rparr>\<rparr>"
      by (simp add: kk(1)) (subst k'_def, subst (1 2) k(3), simp)
    moreover have "\<forall>x. x \<notin> a ` {..<128} \<longrightarrow> mem (km k') x = mem (km k0) x" using mm(3) k(6) unfolding kk by simp
    moreover have "read_virt (km k') (cr3 (mc k')) (sp - w') (length S) = Inr S" using mm(2) unfolding kk p_def l_def .
    moreover have "length S \<le> unat w'" "unat w' \<le> 128" using l' by (simp_all add: u' l_def)
    ultimately show ?thesis using al by - (intro exI conjI, assumption+)
  qed
qed

text \<open>
  C32. When the window starts empty, the loader leaves at the new stack pointer, aligned to 16 bytes,
  the image a program expects: the argument count, the argument and environment words, each list
  closed by a zero word, and the auxiliary vector with the program headers and, for an interpreted
  program, its entry, closed by the null entry. Nothing outside the 128 bytes below the top changes.
\<close>

theorem elf_initial_stack:
  assumes "user_buffer (km k) (cr3 (mc k)) (sp - 128) 128 a"
  shows "\<exists>w k'. andthen (push_args sp argc argv envp entry phdr_virt phent phnum (0, k)) (align_window sp) = Inr (w, k')
    \<and> w mod 16 = 0
    \<and> (let image = stack_image argc argv envp entry phdr_virt phent phnum
       in length image \<le> unat w \<and> unat w \<le> 128 \<and> read_virt (km k') (cr3 (mc k')) (sp - w) (length image) = Inr image)
    \<and> k' = k\<lparr>km := (km k)\<lparr>mem := mem (km k')\<rparr>\<rparr> \<and> (\<forall>x. x \<notin> a ` {..<128} \<longrightarrow> mem (km k') x = mem (km k) x)"
proof -
  have "pushed sp 128 a k [] (0, k)" using assms by (simp add: pushed_def)
  from push_args_ok [OF this] obtain w k1 where
    p: "push_args sp argc argv envp entry phdr_virt phent phnum (0, k) = Inr (w, k1)"
      "pushed sp 128 a k (stack_image argc argv envp entry phdr_virt phent phnum) (w, k1)"
    by (metis prod.exhaust)
  from align_window_ok [OF p(2)] show ?thesis unfolding p(1) andthen_Inr Let_def
    by - (elim exE conjE, intro exI conjI, assumption+)
qed

theorem elf_initial_stack_instance:
  "\<exists>w k'. andthen (push_args 0xFFFF900000001000 0 0 0 0x401000 0x400040 56 9 (0, demo_kernel)) (align_window 0xFFFF900000001000)
      = Inr (w, k') \<and> w mod 16 = 0 \<and> unat w \<le> 128"
proof -
  have "user_buffer (km demo_kernel) (cr3 (mc demo_kernel)) (0xFFFF900000001000 - 128) 128 (\<lambda>i. 0xFFFF900000001000 - 128 + of_nat i)"
    by (rule kernel_window) simp_all
  from elf_initial_stack [OF this, of 0 0 0 "0x401000" "0x400040" 56 9] show ?thesis
    unfolding Let_def by - (elim exE conjE, intro exI conjI, assumption+)
qed

text \<open>A file without contents is accepted: everything that is checked is zero.\<close>

lemma empty_file_accepted: "accepted (elf_hdr_of (replicate sizeof_ElfHdr 0))"
  by (simp add: accepted_def elf_hdr_of_def sizeof_ElfHdr_def)

end
