(* ===== verification/Syscall.thy ===== *)
theory Syscall
  imports Elf Filesystem_Properties
begin

text \<open>
  The system calls, \<open>kernel/src/syscall/syscall.c\<close>. The entry stub pushes the registers as a
  \<open>struct syscall_frame\<close> and calls the handler in the table; the handlers return a value in \<open>rax\<close>
  and an error, zero or minus one, in \<open>rdx\<close>. Buffers and strings of the program are reached through
  the page tables that \<open>cr3\<close> holds.
\<close>

record syscall_frame =
  s_r15 :: u64  s_r14 :: u64  s_r13 :: u64  s_r12 :: u64  s_rflags :: u64  s_r10 :: u64  s_r9 :: u64  s_r8 :: u64
  s_rdi :: u64  s_rsi :: u64  s_rdx :: u64  s_rip :: u64  s_rbx :: u64  s_rax :: u64  s_rbp :: u64

abbreviation MAP_PRIVATE :: u32 where "MAP_PRIVATE \<equiv> 0x02"
abbreviation MAP_FIXED :: u32 where "MAP_FIXED \<equiv> 0x10"
abbreviation MAP_ANONYMOUS :: u32 where "MAP_ANONYMOUS \<equiv> 0x20"
abbreviation PROT_EXEC :: u32 where "PROT_EXEC \<equiv> 0x04"

text \<open>\<open>frame->rdx = -1\<close>, and the success of a call with a result.\<close>

definition fails :: "syscall_frame \<Rightarrow> syscall_frame" where "fails f = f\<lparr>s_rdx := - 1\<rparr>"

definition returns :: "u64 \<Rightarrow> syscall_frame \<Rightarrow> syscall_frame" where "returns v f = f\<lparr>s_rax := v, s_rdx := 0\<rparr>"

text \<open>A register read as an \<open>int\<close>.\<close>

definition int_of_reg :: "u64 \<Rightarrow> int" where "int_of_reg v = sint (ucast v :: u32)"

section \<open>Output\<close>

text \<open>\<open>strcmp\<close> of the program's text with a literal: bytes are read up to the first difference.\<close>

fun same_text :: "kstate \<Rightarrow> u64 \<Rightarrow> u64 \<Rightarrow> u8 list \<Rightarrow> bool res" where
  "same_text s pml4 v [] = Inr True"
| "same_text s pml4 v (b # bs) =
     (case translate s pml4 v of
        None \<Rightarrow> Inl PageFault
      | Some a \<Rightarrow> if mem s a = b then same_text s pml4 (v + 1) bs else Inr False)"

definition syscall_log_mlibc :: "syscall_frame \<Rightarrow> kernel \<Rightarrow> (syscall_frame \<times> kernel) res" where
  "syscall_log_mlibc f k =
     andthen (same_text (km k) (cr3 (mc k)) (s_rsi f) (bytes_of (''MLIBC PANIC'' @ [CHR 0x0A, CHR 0x00]))) (\<lambda>same.
       if same then Inl Panicked else Inr (f, k))"

definition syscall_write :: "environment \<Rightarrow> syscall_frame \<Rightarrow> kernel \<Rightarrow> (syscall_frame \<times> kernel) res" where
  "syscall_write env f k =
     (let fd = int_of_reg (s_rsi f); buf = s_rdx f; count = s_r10 f
      in if fd = 1 then
           andthen (read_virt (km k) (cr3 (mc k)) buf (unat count)) (\<lambda>bs.
             Inr (returns count f, k\<lparr>mc := term_out (Term_write bs) (mc k)\<rparr>))
         else if fd = 2 then
           andthen (read_virt (km k) (cr3 (mc k)) buf (unat count)) (\<lambda>bs.
             Inr (returns count f, k\<lparr>mc := term_out (Term_write bs) (mc k)\<rparr>))
         else Inr (fails f, print env (''syscall_write: failure at fd: %d'' @ [CHR 0x0A]) [of_int fd] k))"

section \<open>Memory\<close>

definition syscall_mmap :: "syscall_frame \<Rightarrow> kernel \<Rightarrow> (syscall_frame \<times> kernel) res" where
  "syscall_mmap f k =
     (let hint = s_rsi f; len = s_rdx f; stuff = s_r10 f;
          flags = ucast (stuff AND 0xFFFFFFFF) :: u32;
          proto = ucast (drop_bit 32 stuff AND 0xFFFFFFFF) :: u32
      in if flags = MAP_ANONYMOUS then
           andthen (get_current_pagemap_process k) (\<lambda>pm.
             if pm = null then Inr (fails f, k)
             else andthen (on_memory (vmm_region_alloc_user pm len
                              (NYA_OS_VMM_PRESENT OR NYA_OS_VMM_USER OR NYA_OS_VMM_RW)) k)
                    (\<lambda>(memory, k'). Inr (returns memory f, k')))
         else if flags = MAP_ANONYMOUS OR MAP_FIXED \<or> flags = MAP_ANONYMOUS OR MAP_FIXED OR MAP_PRIVATE then
           andthen (get_current_pagemap_process k) (\<lambda>pm.
             if pm = null then Inr (fails f, k)
             else if proto AND PROT_EXEC \<noteq> 0 then
               andthen (on_memory (mmap_range pm hint len
                          (NYA_OS_VMM_PRESENT OR NYA_OS_VMM_USER OR NYA_OS_VMM_USER OR NYA_OS_VMM_RW)) k)
                 (\<lambda>(memory, k'). Inr (returns memory f, k'))
             else
               andthen (on_memory (mmap_range pm hint len
                          (NYA_OS_VMM_PRESENT OR NYA_OS_VMM_USER OR NYA_OS_VMM_USER OR NYA_OS_VMM_RW OR NYA_OS_VMM_XD)) k)
                 (\<lambda>(memory, k'). Inr (returns memory f, k')))
         else Inr (fails f, k))"

section \<open>Files\<close>

text \<open>The current process and the descriptor \<open>fd\<close>, which is not checked against the table.\<close>

definition current_process :: "kernel \<Rightarrow> (u64 \<times> process_info) res" where
  "current_process k =
     andthen (get_cur_process_info k) (\<lambda>p. andthen (deref (processes k) p) (\<lambda>pr. Inr (p, pr)))"

definition descriptor :: "process_info \<Rightarrow> int \<Rightarrow> file_descriptor res" where
  "descriptor pr fd =
     (if 0 \<le> fd \<and> nat fd < length (Descriptors pr) then Inr (Descriptors pr ! nat fd) else Inl Undefined)"

definition set_descriptor :: "u64 \<Rightarrow> process_info \<Rightarrow> int \<Rightarrow> file_descriptor \<Rightarrow> kernel \<Rightarrow> kernel" where
  "set_descriptor p pr fd d k =
     k\<lparr>processes := (processes k)(p \<mapsto> pr\<lparr>Descriptors := (Descriptors pr)[nat fd := d]\<rparr>)\<rparr>"

definition openat_lookup :: "environment \<Rightarrow> process_info \<Rightarrow> string \<Rightarrow> kernel \<Rightarrow> nat option res option" where
  "openat_lookup env pr pathname k =
     (case lookup_root k of
        Inl e \<Rightarrow> Some (Inl e)
      | Inr rt \<Rightarrow>
          if cur_working_directory pr = None \<and> \<not> (pathname \<noteq> [] \<and> hd pathname = CHR ''/'') then Some (Inl PageFault)
          else map_option (\<lambda>r. andthen r (\<lambda>(v, _). Inr v))
                 (vnode_path_lookup (files k) rt (past_path env)
                    (case cur_working_directory pr of None \<Rightarrow> 0 | Some d \<Rightarrow> d) pathname False False))"

definition syscall_openat :: "environment \<Rightarrow> syscall_frame \<Rightarrow> kernel \<Rightarrow> (syscall_frame \<times> kernel) res option" where
  "syscall_openat env f k =
     (let dirfd = int_of_reg (s_rsi f); pathname = s_rdx f
      in if dirfd = - 100 then
           (case current_process k of
              Inl e \<Rightarrow> Some (Inl e)
            | Inr (p, pr) \<Rightarrow>
                orelse_run (string_virt (km k) (cr3 (mc k)) pathname) (\<lambda>name.
                orelse_run (openat_lookup env pr name k) (\<lambda>v.
                  case v of
                    None \<Rightarrow> Some (Inr (fails f, k))
                  | Some vn \<Rightarrow>
                      Some (andthen (allocate_fd_from_bitmap (descriptor_bitmap pr) 256) (\<lambda>(fd, bitmap).
                        let pr' = pr\<lparr>descriptor_bitmap := bitmap\<rparr>
                        in if nat fd < length (Descriptors pr')
                           then Inr (returns (of_int fd) f, set_descriptor p pr' fd \<lparr>fd_vnode = Some vn, fd_offset = 0\<rparr> k)
                           else Inl Undefined)))))
         else Some (Inl Panicked))"

text \<open>The result of \<open>v_rdwr\<close> is an \<open>int\<close>, sign-extended when it is added and returned.\<close>

definition syscall_read :: "environment \<Rightarrow> syscall_frame \<Rightarrow> kernel \<Rightarrow> (syscall_frame \<times> kernel) res" where
  "syscall_read env f k =
     (let fd = int_of_reg (s_rsi f); buf = s_rdx f; size_of_buf = s_r10 f
      in if fd = 0 \<and> size_of_buf > 1 then
           andthen (write_user buf [10] k) (\<lambda>k'. Inr (returns 1 f, k'))
         else
           andthen (current_process k) (\<lambda>(p, pro).
           andthen (descriptor pro fd) (\<lambda>d.
             case fd_vnode d of
               None \<Rightarrow> Inr (fails f, print env (''read(): descriptor of value %d was not found'' @ [CHR 0x0A]) [of_int fd] k)
             | Some vn \<Rightarrow>
                 andthen (vnode_rdwr (\<lambda>_. 0) (files k) vn size_of_buf (fd_offset d) [] 0) (\<lambda>(hm, bytes, _).
                 andthen (write_user buf bytes k) (\<lambda>k1.
                   if hm \<noteq> - 1
                   then Inr (returns (of_int hm) f, set_descriptor p pro fd (d\<lparr>fd_offset := fd_offset d + of_int hm\<rparr>) k1)
                   else Inr (fails f, k1))))))"

definition syscall_close :: "syscall_frame \<Rightarrow> kernel \<Rightarrow> (syscall_frame \<times> kernel) res" where
  "syscall_close f k =
     (let fd = int_of_reg (s_rsi f)
      in andthen (current_process k) (\<lambda>(p, pro).
         andthen (deallocate_fd_from_bitmap (descriptor_bitmap pro) fd) (\<lambda>(_, bitmap).
         andthen (descriptor pro fd) (\<lambda>d.
           Inr (f\<lparr>s_rdx := 0\<rparr>,
                set_descriptor p (pro\<lparr>descriptor_bitmap := bitmap\<rparr>) fd \<lparr>fd_vnode = None, fd_offset = 0\<rparr> k)))))"

definition syscall_seek :: "environment \<Rightarrow> syscall_frame \<Rightarrow> kernel \<Rightarrow> (syscall_frame \<times> kernel) res" where
  "syscall_seek env f k =
     (let fd = int_of_reg (s_rsi f); offset = int_of_reg (s_rdx f); flag = int_of_reg (s_r10 f);
          seek_to = (\<lambda>p pro d off. Inr (returns off f, set_descriptor p pro fd (d\<lparr>fd_offset := off\<rparr>) k))
      in if flag = 0 then
           andthen (current_process k) (\<lambda>(p, pro). andthen (descriptor pro fd) (\<lambda>d. seek_to p pro d (of_int offset)))
         else if flag = 1 then
           andthen (current_process k) (\<lambda>(p, pro). andthen (descriptor pro fd) (\<lambda>d.
             seek_to p pro d (fd_offset d + of_int offset)))
         else if flag = 2 then
           andthen (current_process k) (\<lambda>(p, pro). andthen (descriptor pro fd) (\<lambda>d.
             case fd_vnode d of
               None \<Rightarrow> Inl PageFault
             | Some vn \<Rightarrow> andthen (vnode_filesz (files k) vn) (\<lambda>sz.
                 seek_to p pro d (of_int (int_of_reg sz + offset)))))
         else Inr (fails f, print env (''Flags are wrong?'' @ [CHR 0x0A]) [] (print env (''%d'' @ [CHR 0x0A]) [of_int flag] k)))"

section \<open>The other calls\<close>

definition syscall_fs :: "environment \<Rightarrow> syscall_frame \<Rightarrow> kernel \<Rightarrow> syscall_frame \<times> kernel" where
  "syscall_fs env f k =
     (let q = s_rsi f; k1 = print env (''syscall_fs(): setting fs base to %p'' @ [CHR 0x0A]) [q] k
      in (f, k1\<lparr>mc := writemsr 0xC0000100 q (mc k1)\<rparr>))"

definition syscall_dup :: "environment \<Rightarrow> syscall_frame \<Rightarrow> kernel \<Rightarrow> syscall_frame \<times> kernel" where
  "syscall_dup env f k =
     (let fd = int_of_reg (s_rsi f)
      in (fails f, print env (''he requested to duplicate file descriptor %d'' @ [CHR 0x0A]) [of_int fd] k))"

section \<open>The table\<close>

datatype syscall =
    Log_mlibc | Mmap | Openat | Read | Close | Seek | Fs | Write | Dup

definition RegisterSyscall :: "nat \<Rightarrow> syscall \<Rightarrow> syscall option list \<Rightarrow> syscall option list res" where
  "RegisterSyscall n func tab = (if n < 332 then Inr (tab[n := Some func]) else Inl Undefined)"

definition syscall_init :: "syscall option list \<Rightarrow> syscall option list res" where
  "syscall_init tab0 =
     andthen (RegisterSyscall 0 Log_mlibc tab0) (\<lambda>tab1.
     andthen (RegisterSyscall 1 Mmap tab1) (\<lambda>tab2.
     andthen (RegisterSyscall 2 Openat tab2) (\<lambda>tab3.
     andthen (RegisterSyscall 3 Read tab3) (\<lambda>tab4.
     andthen (RegisterSyscall 4 Close tab4) (\<lambda>tab5.
     andthen (RegisterSyscall 5 Seek tab5) (\<lambda>tab6.
     andthen (RegisterSyscall 6 Fs tab6) (\<lambda>tab7.
     andthen (RegisterSyscall 7 Write tab7) (\<lambda>tab8.
       RegisterSyscall 8 Dup tab8))))))))"

primrec run_syscall :: "environment \<Rightarrow> syscall \<Rightarrow> syscall_frame \<Rightarrow> kernel \<Rightarrow> (syscall_frame \<times> kernel) res option" where
  "run_syscall env Log_mlibc f k = Some (syscall_log_mlibc f k)"
| "run_syscall env Mmap f k = Some (syscall_mmap f k)"
| "run_syscall env Openat f k = syscall_openat env f k"
| "run_syscall env Read f k = Some (syscall_read env f k)"
| "run_syscall env Close f k = Some (syscall_close f k)"
| "run_syscall env Seek f k = Some (syscall_seek env f k)"
| "run_syscall env Fs f k = Some (Inr (syscall_fs env f k))"
| "run_syscall env Write f k = Some (syscall_write env f k)"
| "run_syscall env Dup f k = Some (Inr (syscall_dup env f k))"

text \<open>
  What \<open>syscall_handler\<close> of \<open>syscall.asm\<close> does with the table: the number is in \<open>rdi\<close> and is not
  compared with the size; a number without a handler jumps to address 0.
\<close>

definition dispatch :: "environment \<Rightarrow> syscall option list \<Rightarrow> syscall_frame \<Rightarrow> kernel \<Rightarrow> (syscall_frame \<times> kernel) res option" where
  "dispatch env tab f k =
     (if unat (s_rdi f) < length tab then
        (case tab ! unat (s_rdi f) of None \<Rightarrow> Some (Inl PageFault) | Some c \<Rightarrow> run_syscall env c f k)
      else Some (Inl Undefined))"

section \<open>Reading files\<close>

text \<open>
  The current process \<open>p\<close> has file \<open>v\<close> with the contents \<open>data\<close> open as \<open>fd\<close>, at \<open>off\<close>. The file
  is not empty, is below 2 GiB, and its buffer ends below the top of the address space.
\<close>

definition file_open :: "kernel \<Rightarrow> u64 \<Rightarrow> process_info \<Rightarrow> int \<Rightarrow> nat \<Rightarrow> u8 list \<Rightarrow> nat \<Rightarrow> bool" where
  "file_open k p pro fd v data off \<longleftrightarrow>
     current_process k = Inr (p, pro)
     \<and> descriptor pro fd = Inr \<lparr>fd_vnode = Some v, fd_offset = of_nat off\<rparr>
     \<and> vnodes (files k) v = Some \<lparr>vtype = NYAVNODE_FILE, vdata = Tmpfs_node data\<rparr>
     \<and> data \<noteq> [] \<and> length data < 2 ^ 31 \<and> off \<le> length data
     \<and> unat (buffer_at (files k) v (length data)) + length data < 2 ^ 64"

lemma current_process_null: "current_process k = Inr (p, pro) \<Longrightarrow> p \<noteq> null \<and> processes k p = Some pro"
  by (auto simp: current_process_def deref_def andthen_eq_Inr split: if_splits option.splits)

lemma current_process_update:
  assumes "current_process k = Inr (p, pro)" and "threads k' = threads k" "current_thread k' = current_thread k"
    and "processes k' p = Some pro'"
  shows "current_process k' = Inr (p, pro')"
  using assms current_process_null [OF assms(1)]
  by (auto simp: current_process_def get_cur_process_info_def andthen_eq_Inr split: if_splits)

lemma descriptor_update:
  "descriptor pr fd = Inr d \<Longrightarrow> descriptor (pr\<lparr>Descriptors := (Descriptors pr)[nat fd := d']\<rparr>) fd = Inr d'"
  by (auto simp: descriptor_def split: if_splits)

text \<open>
  C33. A read through a descriptor of a file that is not empty and is below 2 GiB, whose offset is at
  most the file's size, with a count that does not carry the pointer into the file's buffer past
  the top of the address space (and that is at most 1 through descriptor 0, where larger counts get
  a newline and no file is read), stores the bytes from the file offset on, as many as asked for
  and as there are, in the program's buffer, returns their number and moves the offset behind them;
  the file, the other descriptors and the memory outside the buffer stay as they are. (Reading an
  empty file fails instead of returning 0.)
\<close>

theorem syscall_read_correct:
  assumes "file_open k p pro fd v data off" and "fd = int_of_reg (s_rsi f)" and "fd \<noteq> 0 \<or> s_r10 f \<le> 1"
    and "user_buffer (km k) (cr3 (mc k)) (s_rdx f) N a" and "unat (s_r10 f) \<le> N"
    and "part = take (unat (s_r10 f)) (drop off data)"
    and "unat (buffer_at (files k) v (length data)) + off + unat (s_r10 f) < 2 ^ 64"
  shows "\<exists>k'. syscall_read env f k = Inr (returns (of_nat (length part)) f, k')
    \<and> file_open k' p (pro\<lparr>Descriptors := (Descriptors pro)[nat fd := \<lparr>fd_vnode = Some v, fd_offset = of_nat (off + length part)\<rparr>]\<rparr>)
        fd v data (off + length part)
    \<and> read_virt (km k') (cr3 (mc k')) (s_rdx f) (length part) = Inr part
    \<and> user_buffer (km k') (cr3 (mc k')) (s_rdx f) N a
    \<and> (\<forall>x. x \<notin> a ` {..<N} \<longrightarrow> mem (km k') x = mem (km k) x)
    \<and> files k' = files k \<and> threads k' = threads k \<and> (\<forall>q. q \<noteq> p \<longrightarrow> processes k' q = processes k q)"
proof -
  note fo = assms(1) [unfolded file_open_def]
  define d where "d = \<lparr>fd_vnode = Some v, fd_offset = (of_nat off :: u64)\<rparr>"
  have off: "unat (of_nat off :: u64) = off" using fo by (simp add: unat_of_nat)
  have len: "length part \<le> N" "length part \<le> length data - off" using assms(5,6) by simp_all
  have rd: "vnode_rdwr (\<lambda>_. 0) (files k) v (s_r10 f) (of_nat off) [] 0 = Inr (int (length part), part, files k)"
  proof -
    have "range_ok (buffer_at (files k) v (length data)) data (s_r10 f) (of_nat off)"
      using fo assms(7) off by (simp add: range_ok_def)
    then have "file_read (buffer_at (files k) v (length data)) data (s_r10 f) (of_nat off)
        = Inr (int (length part), part)"
      using file_read_bytes [of data _ "s_r10 f" "of_nat off"] fo assms(6) off by (simp add: min.commute)
    then show ?thesis using fo by (simp add: vnode_rdwr_def off)
  qed
  obtain m where m: "write_virt (cr3 (mc k)) (s_rdx f) part (km k) = Inr ((km k)\<lparr>mem := m\<rparr>)"
    "user_buffer ((km k)\<lparr>mem := m\<rparr>) (cr3 (mc k)) (s_rdx f) N a"
    "read_virt ((km k)\<lparr>mem := m\<rparr>) (cr3 (mc k)) (s_rdx f) (length part) = Inr part"
    "\<forall>x. x \<notin> a ` {..<N} \<longrightarrow> m x = mem (km k) x"
    using read_written [OF assms(4), of 0 part] len by auto
  define pro' where "pro' = pro\<lparr>Descriptors := (Descriptors pro)[nat fd := \<lparr>fd_vnode = Some v, fd_offset = of_nat (off + length part)\<rparr>]\<rparr>"
  define k' where "k' = k\<lparr>km := (km k)\<lparr>mem := m\<rparr>, processes := (processes k)(p \<mapsto> pro')\<rparr>"
  have "syscall_read env f k = Inr (returns (of_nat (length part)) f, k')"
    using assms(2,3) fo rd m(1)
    by (auto simp: syscall_read_def Let_def write_user_def set_descriptor_def k'_def pro'_def)
  moreover have "file_open k' p pro' fd v data (off + length part)"
    unfolding file_open_def
  proof (intro conjI)
    show "current_process k' = Inr (p, pro')" by (rule current_process_update [OF fo [THEN conjunct1]]) (simp_all add: k'_def)
    show "descriptor pro' fd = Inr \<lparr>fd_vnode = Some v, fd_offset = of_nat (off + length part)\<rparr>"
      using fo descriptor_update unfolding pro'_def by blast
    show "off + length part \<le> length data" using fo len(2) by auto
  qed (use fo in \<open>simp_all add: k'_def\<close>)
  ultimately show ?thesis using m unfolding pro'_def [symmetric]
    by (intro exI [of _ k']) (simp add: k'_def)
qed

text \<open>A program that reads a file piece by piece.\<close>

primrec read_loop :: "environment \<Rightarrow> syscall_frame \<Rightarrow> nat \<Rightarrow> kernel \<Rightarrow> (u8 list \<times> kernel) res" where
  "read_loop env f 0 k = Inr ([], k)"
| "read_loop env f (Suc n) k =
     andthen (syscall_read env f k) (\<lambda>(f', k1).
     andthen (read_virt (km k1) (cr3 (mc k1)) (s_rdx f) (unat (s_rax f'))) (\<lambda>bs.
     andthen (read_loop env f n k1) (\<lambda>(rest, k2). Inr (bs @ rest, k2))))"

lemma read_loop_ok:
  assumes "file_open k p pro fd v data off" and "fd = int_of_reg (s_rsi f)" and "fd \<noteq> 0 \<or> s_r10 f \<le> 1"
    and "user_buffer (km k) (cr3 (mc k)) (s_rdx f) N a" and "unat (s_r10 f) \<le> N"
    and "unat (buffer_at (files k) v (length data)) + length data + unat (s_r10 f) < 2 ^ 64"
  shows "\<exists>k'. read_loop env f n k = Inr (take (n * unat (s_r10 f)) (drop off data), k')"
  using assms(1,4,6)
proof (induction n arbitrary: k pro off)
  case (Suc n)
  define part where "part = take (unat (s_r10 f)) (drop off data)"
  obtain k1 pro1 where k1: "syscall_read env f k = Inr (returns (of_nat (length part)) f, k1)"
    "file_open k1 p pro1 fd v data (off + length part)"
    "read_virt (km k1) (cr3 (mc k1)) (s_rdx f) (length part) = Inr part"
    "user_buffer (km k1) (cr3 (mc k1)) (s_rdx f) N a" "files k1 = files k"
  proof -
    have "off \<le> length data" using Suc.prems(1) by (simp add: file_open_def)
    then have "unat (buffer_at (files k) v (length data)) + off + unat (s_r10 f) < 2 ^ 64" using Suc.prems(3) by simp
    then show ?thesis
      using syscall_read_correct [OF Suc.prems(1) assms(2,3) Suc.prems(2) assms(5) part_def] that by blast
  qed
  have "length part < 2 ^ 31" using k1(2) by (simp add: file_open_def)
  then have u: "unat (s_rax (returns (of_nat (length part)) f)) = length part" by (simp add: returns_def unat_of_nat)
  obtain k2 where k2: "read_loop env f n k1 = Inr (take (n * unat (s_r10 f)) (drop (off + length part) data), k2)"
    using Suc.IH [OF k1(2,4)] Suc.prems(3) k1(5) by auto
  have "part @ take (n * unat (s_r10 f)) (drop (off + length part) data) = take (Suc n * unat (s_r10 f)) (drop off data)"
    by (auto simp: part_def take_add min_def add.commute)
  then show ?case using k1(1,3) k2 u by (intro exI [of _ k2]) simp
qed simp

text \<open>
  C34. Opening a file that is not empty, is below 2 GiB and whose buffer ends below the top of the
  address space, by a path that names it, and reading it piece by piece through the new
  descriptor, in pieces that fit the program's buffer and do not carry the pointer into the file's
  buffer past the top of the address space, gives the contents of the file from the beginning, all of it
  when enough pieces are read; opening takes a descriptor that was free and leaves the other descriptors alone.
\<close>

theorem open_then_read:
  assumes "int_of_reg (s_rsi f) = - 100" and "current_process k = Inr (p, pr)"
    and "string_virt (km k) (cr3 (mc k)) (s_rdx f) = Some (Inr name)" and "openat_lookup env pr name k = Some (Inr (Some v))"
    and "vnodes (files k) v = Some \<lparr>vtype = NYAVNODE_FILE, vdata = Tmpfs_node data\<rparr>" and "data \<noteq> []" and "length data < 2 ^ 31"
    and "unat (buffer_at (files k) v (length data)) + length data < 2 ^ 64"
    and "bitmap_ok (descriptor_bitmap pr)" and "length (Descriptors pr) = 256"
    and "free_fds (descriptor_bitmap pr) \<noteq> {}"
  shows "\<exists>f' k' fd. syscall_openat env f k = Some (Inr (f', k')) \<and> s_rdx f' = 0 \<and> s_rax f' = of_int fd
    \<and> fd \<in> free_fds (descriptor_bitmap pr)
    \<and> (\<forall>g. g \<noteq> fd \<longrightarrow> 0 \<le> g \<longrightarrow> (\<exists>pr'. processes k' p = Some pr' \<and> descriptor pr' g = descriptor pr g))
    \<and> (\<forall>r N a n. int_of_reg (s_rsi r) = fd \<and> user_buffer (km k') (cr3 (mc k')) (s_rdx r) N a \<and> unat (s_r10 r) \<le> N
        \<and> unat (buffer_at (files k) v (length data)) + length data + unat (s_r10 r) < 2 ^ 64 \<longrightarrow>
        (\<exists>k2. read_loop env r n k' = Inr (take (n * unat (s_r10 r)) data, k2)))"
proof -
  obtain fd bitmap where al: "take_fd (descriptor_bitmap pr) = Inr (fd, bitmap)"
    using fd.take_progress [OF assms(9,11)] by blast
  have av: "fd \<in> free_fds (descriptor_bitmap pr)" using fd.take_law [OF assms(9) al] by blast
  then have fd: "2 \<le> fd" "fd < 256" by (auto simp: free_fds_def)
  define d where "d = \<lparr>fd_vnode = Some v, fd_offset = (0 :: u64)\<rparr>"
  define pr' where "pr' = pr\<lparr>descriptor_bitmap := bitmap, Descriptors := (Descriptors pr)[nat fd := d]\<rparr>"
  define k' where "k' = k\<lparr>processes := (processes k)(p \<mapsto> pr')\<rparr>"
  have op: "syscall_openat env f k = Some (Inr (returns (of_int fd) f, k'))"
    using assms(1-4,10) al fd by (simp add: syscall_openat_def orelse_run_def take_fd_def set_descriptor_def k'_def pr'_def d_def)
  have ds: "descriptor pr' fd = Inr d" using assms(10) fd by (simp add: descriptor_def pr'_def)
  have cp: "current_process k' = Inr (p, pr')"
    by (rule current_process_update [OF assms(2)]) (simp_all add: k'_def)
  have fo: "file_open k' p pr' fd v data 0"
    using cp ds assms(5-8) by (simp add: file_open_def d_def k'_def)
  show ?thesis
  proof (intro exI conjI allI impI)
    show "syscall_openat env f k = Some (Inr (returns (of_int fd) f, k'))" by (rule op)
    show "s_rdx (returns (of_int fd) f) = 0" "s_rax (returns (of_int fd) f) = of_int fd" by (simp_all add: returns_def)
    show "processes k' p = Some pr'" by (simp add: k'_def)
    show "descriptor pr' g = descriptor pr g" if "g \<noteq> fd" "0 \<le> g" for g
      using that fd by (auto simp: descriptor_def pr'_def)
    show "read_loop env r n k' = Inr (take (n * unat (s_r10 r)) data, snd (projr (read_loop env r n k')))"
      if "int_of_reg (s_rsi r) = fd \<and> user_buffer (km k') (cr3 (mc k')) (s_rdx r) N a \<and> unat (s_r10 r) \<le> N
        \<and> unat (buffer_at (files k) v (length data)) + length data + unat (s_r10 r) < 2 ^ 64" for r N a n
      using read_loop_ok [OF fo, of r N a env n] that fd by (auto simp: k'_def)
  qed (rule av)
qed

section \<open>An open file\<close>

text \<open>A kernel whose current process works in \<open>usr\<close>, with the name \<open>a\<close> in its memory.\<close>

definition demo_opener :: process_info where
  "demo_opener = demo_process\<lparr>root_vfs := Some 0, cur_working_directory := Some 1,
     Descriptors := replicate 256 \<lparr>fd_vnode = None, fd_offset = 0\<rparr>, descriptor_bitmap := replicate 256 0\<rparr>"

definition demo_files_kernel :: kernel where
  "demo_files_kernel = demo_kernel\<lparr>files := demo_fs, processes := [0x3000 \<mapsto> demo_opener],
     km := (km demo_kernel)\<lparr>mem := (\<lambda>_. 0)(0xFFFF900000000000 := 97)\<rparr>\<rparr>"

definition demo_env :: environment where
  "demo_env = \<lparr>npf = (\<lambda>_ _. []), past_path = (\<lambda>_. NUL), raw_stored = 0, raw_path = replicate 128 0,
     data_address = (\<lambda>_. 0), kthread_start = 0\<rparr>"

definition demo_call :: "u64 \<Rightarrow> u64 \<Rightarrow> u64 \<Rightarrow> syscall_frame" where
  "demo_call a b c = \<lparr>s_r15 = 0, s_r14 = 0, s_r13 = 0, s_r12 = 0, s_rflags = 0, s_r10 = c, s_r9 = 0, s_r8 = 0,
     s_rdi = 0, s_rsi = a, s_rdx = b, s_rip = 0, s_rbx = 0, s_rax = 0, s_rbp = 0\<rparr>"

lemma demo_current: "current_process demo_files_kernel = Inr (0x3000, demo_opener)"
  by (simp add: current_process_def get_cur_process_info_def demo_files_kernel_def demo_kernel_def demo_thread_def)

lemma demo_name: "string_virt (km demo_files_kernel) (cr3 (mc demo_files_kernel)) 0xFFFF900000000000 = Some (Inr ''a'')"
proof -
  have "char_of (97 :: nat) = CHR ''a''" by code_simp
  then show ?thesis by (simp add: string_virt_def string_from.simps translate_def demo_files_kernel_def demo_kernel_def)
qed

lemma demo_lookup: "openat_lookup demo_env demo_opener ''a'' demo_files_kernel = Some (Inr (Some 2))"
proof -
  have "resolve demo_fs False False 1 (components ''a'') = Inr (Done (Some 2) None)"
    by (simp add: components_def parts_Cons vnode_lookup_def demo_fs_def)
  then have "vnode_path_lookup demo_fs (Some 0) (\<lambda>_. NUL) 1 ''a'' False False = Some (Inr (Some 2, None))"
    by (intro path_lookup_done) (simp_all add: path_ok_def start_of_def)
  moreover have "lookup_root demo_files_kernel = Inr (Some 0)"
    by (simp add: lookup_root_def get_cur_process_info_def demo_files_kernel_def demo_kernel_def demo_thread_def demo_opener_def)
  ultimately show ?thesis
    by (simp add: openat_lookup_def demo_opener_def demo_env_def demo_files_kernel_def)
qed

theorem syscall_read_correct_instance:
  "\<exists>k'. syscall_read demo_env (demo_call 3 0xFFFF900000001000 1)
      (demo_files_kernel\<lparr>processes := [0x3000 \<mapsto> demo_opener\<lparr>Descriptors := (replicate 256 \<lparr>fd_vnode = None, fd_offset = 0\<rparr>)
        [3 := \<lparr>fd_vnode = Some 2, fd_offset = 1\<rparr>]\<rparr>]\<rparr>) = Inr (returns 1 (demo_call 3 0xFFFF900000001000 1), k')
    \<and> read_virt (km k') (cr3 (mc k')) 0xFFFF900000001000 1 = Inr [105]"
proof -
  define pr where "pr = demo_opener\<lparr>Descriptors := (replicate 256 \<lparr>fd_vnode = None, fd_offset = 0\<rparr>)[3 := \<lparr>fd_vnode = Some 2, fd_offset = 1\<rparr>]\<rparr>"
  define k where "k = demo_files_kernel\<lparr>processes := [0x3000 \<mapsto> pr]\<rparr>"
  have cp: "current_process k = Inr (0x3000, pr)" by (rule current_process_update [OF demo_current]) (simp_all add: k_def)
  have fo: "file_open k 0x3000 pr 3 2 [104, 105] 1"
    unfolding file_open_def using cp
    by (simp add: k_def pr_def descriptor_def demo_files_kernel_def demo_buffers demo_fs_facts)
  have "unat (buffer_at (files k) 2 (length [104, 105 :: u8])) + 1 + unat (1 :: u64) < 2 ^ 64"
    by (simp add: k_def demo_files_kernel_def demo_buffers)
  note range = this
  have u: "user_buffer (km k) (cr3 (mc k)) 0xFFFF900000001000 1 (\<lambda>i. 0xFFFF900000001000 + of_nat i)"
    by (rule kernel_window) simp_all
  show ?thesis
    using syscall_read_correct [OF fo, of "demo_call 3 0xFFFF900000001000 1" 1 "\<lambda>i. 0xFFFF900000001000 + of_nat i" "[105]" demo_env] u range
    unfolding k_def [symmetric] pr_def [symmetric]
    by (auto simp: demo_call_def int_of_reg_def)
qed

theorem open_then_read_instance:
  "\<exists>f' k' fd k2. syscall_openat demo_env (demo_call (- 100) 0xFFFF900000000000 0) demo_files_kernel = Some (Inr (f', k'))
    \<and> s_rax f' = of_int fd \<and> 2 \<le> fd \<and> read_loop demo_env (demo_call (of_int fd) 0xFFFF900000001000 1) 2 k' = Inr ([104, 105], k2)"
proof -
  have c: "int_of_reg (s_rsi (demo_call (- 100) 0xFFFF900000000000 0)) = - 100"
    "string_virt (km demo_files_kernel) (cr3 (mc demo_files_kernel)) (s_rdx (demo_call (- 100) 0xFFFF900000000000 0)) = Some (Inr ''a'')"
    using demo_name by (simp_all add: demo_call_def int_of_reg_def)
  have v: "vnodes (files demo_files_kernel) 2 = Some \<lparr>vtype = NYAVNODE_FILE, vdata = Tmpfs_node [104, 105]\<rparr>"
    by (simp add: demo_files_kernel_def demo_fs_def)
  have b: "bitmap_ok (descriptor_bitmap demo_opener)" "length (Descriptors demo_opener) = 256"
    by (simp_all add: demo_opener_def bitmap_ok_def)
  have fr: "free_fds (descriptor_bitmap demo_opener) \<noteq> {}" by (auto simp: free_fds_def demo_opener_def intro: exI [of _ 2])
  have l: "[104, 105 :: u8] \<noteq> []" "length [104, 105 :: u8] < 2 ^ 31"
    "unat (buffer_at (files demo_files_kernel) 2 (length [104, 105 :: u8])) + length [104, 105 :: u8] < 2 ^ 64"
    by (simp_all add: demo_files_kernel_def demo_buffers)
  obtain f' k' fd where o: "syscall_openat demo_env (demo_call (- 100) 0xFFFF900000000000 0) demo_files_kernel = Some (Inr (f', k'))"
    "s_rax f' = of_int fd" "fd \<in> free_fds (descriptor_bitmap demo_opener)"
    and rd: "\<forall>r N a n. int_of_reg (s_rsi r) = fd \<and> user_buffer (km k') (cr3 (mc k')) (s_rdx r) N a \<and> unat (s_r10 r) \<le> N
        \<and> unat (buffer_at (files demo_files_kernel) 2 (length [104, 105 :: u8])) + length [104, 105 :: u8] + unat (s_r10 r) < 2 ^ 64 \<longrightarrow>
        (\<exists>k2. read_loop demo_env r n k' = Inr (take (n * unat (s_r10 r)) [104, 105], k2))"
    using open_then_read [OF c(1) demo_current c(2) demo_lookup v l b fr] by (elim exE conjE) (rule that)
  have fd: "2 \<le> fd" "fd < 256" using o(3) by (auto simp: free_fds_def)
  have "user_buffer (km k') (cr3 (mc k')) 0xFFFF900000001000 1 (\<lambda>i. 0xFFFF900000001000 + of_nat i)"
    by (rule kernel_window) simp_all
  moreover have "int_of_reg (of_int fd) = fd"
  proof -
    define n where "n = nat fd"
    have n: "fd = int n" "n < 256" using fd by (simp_all add: n_def)
    have "(ucast (of_nat n :: u64) :: u32) = of_nat n"
      using n(2) by (simp add: unsigned_of_nat take_bit_nat_eq_self)
    then show ?thesis
      using n by (simp add: int_of_reg_def signed_of_nat signed_take_bit_int_eq_self)
  qed
  ultimately have "\<exists>k2. read_loop demo_env (demo_call (of_int fd) 0xFFFF900000001000 1) 2 k' = Inr ([104, 105], k2)"
    using rd [rule_format, of "demo_call (of_int fd) 0xFFFF900000001000 1" 1 "\<lambda>i. 0xFFFF900000001000 + of_nat i" 2]
    by (simp add: demo_call_def demo_files_kernel_def demo_buffers)
  then show ?thesis using o(1,2) fd(1) by blast
qed

end
