(* ===== verification/Boot.thy ===== *)
theory Boot
  imports Syscall Uacpi Tar
begin

text \<open>
  The entry point \<open>_start\<close> of \<open>kernel/src/main.c\<close>: the order in which the parts of the kernel are
  set up, each on the state that the earlier ones left. Arguments of messages that are addresses of
  string literals are left out. What the boot loader, the firmware and the
  processor report is a parameter, and so are the entry points of the ACPI library.
\<close>

record boot_params =
  revision_supported :: bool
  framebuffer_count :: "nat option"
  boot_env :: environment
  info_of_boot :: boot_info
  ts_address :: u64
  gdt_address :: u64
  interrupt_stubs :: "nat \<Rightarrow> u64"
  lib_initialize :: "u64 \<Rightarrow> machine \<Rightarrow> uacpi_status \<times> machine"
  lib_namespace_load :: "machine \<Rightarrow> uacpi_status \<times> machine"
  lib_namespace_initialize :: "machine \<Rightarrow> uacpi_status \<times> machine"
  rsdp_address :: u64
  madt_address :: u64
  hpet_table :: "u64 option"
  ps2_devices :: "uacpi_resource list option list"
  module_address :: u64
  module_size :: u64
  type_literals :: "u64 \<times> u64"
  fresh_bytes :: "nat \<Rightarrow> u8"
  file_buffers :: "nat \<Rightarrow> nat \<Rightarrow> u64"
  syscall_entry :: u64
  cpuid_ecx :: "u32 \<Rightarrow> u32 \<Rightarrow> u32"

record system =
  kern :: kernel
  gdt :: "u64 list"
  gdtr :: GDTR
  idts :: idt_state
  apic :: apic_state
  keyboard :: ps2_state
  rsp0 :: u64
  syscall_handlers :: "syscall option list"

abbreviation newline :: string where "newline \<equiv> [CHR 0x0A]"

definition on_machine :: "(machine \<Rightarrow> machine) \<Rightarrow> system \<Rightarrow> system" where
  "on_machine g y = y\<lparr>kern := (kern y)\<lparr>mc := g (mc (kern y))\<rparr>\<rparr>"

definition says :: "string \<Rightarrow> system \<Rightarrow> system" where
  "says s = on_machine (write_color (bytes_of (s @ newline)) 1)"

definition log_line :: "boot_params \<Rightarrow> string \<Rightarrow> u64 list \<Rightarrow> system \<Rightarrow> system" where
  "log_line b format args y = y\<lparr>kern := print (boot_env b) (format @ newline) args (kern y)\<rparr>"

text \<open>\<open>hcf\<close> in the checks of what the boot loader reports.\<close>

definition check_boot :: "boot_params \<Rightarrow> system \<Rightarrow> system res" where
  "check_boot b y =
     (if \<not> revision_supported b then Inl Halted
      else case framebuffer_count b of
             None \<Rightarrow> Inl Halted
           | Some n \<Rightarrow> if n < 1 then Inl Halted else Inr y)"

text \<open>What \<open>vmm_region_setup\<close> and \<open>vmm_region_walk\<close> print to the serial port.\<close>

definition print_region :: "u64 \<times> u64 \<Rightarrow> machine \<Rightarrow> machine" where
  "print_region r c =
     (let c1 = serial_print_color (bytes_of ''Region Information!: Base: '') 0 c;
          c2 = serial_print (itoah_text (fst r)) c1;
          c3 = serial_print (bytes_of '', Length: '') c2;
          c4 = serial_print (itoah_text (snd r)) c3
      in serial_print (bytes_of newline) c4)"

definition print_regions :: "(u64 \<times> u64) list \<Rightarrow> machine \<Rightarrow> machine" where
  "print_regions rs c = fold print_region rs (serial_print_color (bytes_of (''VMM Regions Init!'' @ newline)) 1 c)"

text \<open>Descriptor tables and memory.\<close>

definition early_boot :: "boot_params \<Rightarrow> system \<Rightarrow> system res" where
  "early_boot b y =
     (let (table, reg) = init_gdt (ts_address b) (gdt_address b);
          y1 = y\<lparr>gdt := table, gdtr := reg\<rparr>;
          y2 = on_machine (write_term (bytes_of (''Nya Kernel Loading...'' @ newline))) y1;
          y3 = says ''GDT Loaded!'' y2;
          y4 = on_machine (\<lambda>c. snd (init_serial c)) y3
      in andthen (init_idt (interrupt_stubs b) (idts y4)) (\<lambda>t.
         let y5 = says ''IDT Initialized!'' (y4\<lparr>idts := t\<rparr>)
         in andthen (on_memory (pmm_init (memmap (info_of_boot b))) (kern y5)) (\<lambda>(_, k1).
            let y6 = says ''PMM Initialized!'' (y5\<lparr>kern := k1\<rparr>)
            in andthen (on_memory (vmm_init (info_of_boot b)) (kern y6)) (\<lambda>((pml4, regions), k2).
                 let y7 = says ''VMM Initialized!'' (on_machine (update_cr3 pml4) (y6\<lparr>kern := k2\<rparr>))
                 in Inr (on_machine (print_regions regions) y7)))))"

text \<open>The ACPI library, the interrupt controllers, the keyboard and the file system.\<close>

definition devices_boot :: "boot_params \<Rightarrow> system \<Rightarrow> system res option" where
  "devices_boot b y =
     (let off = hhdm (km (kern y)); m = mem (km (kern y));
          y1 = on_machine (acpi_init (lib_initialize b) (lib_namespace_load b) (lib_namespace_initialize b) (rsdp_address b) off) y;
          y2 = on_machine (write_term (bytes_of ([CHR 0x1B] @ ''[mAmazing!'' @ newline))) y1;
          y3 = log_line b ''PrintF Test: %s'' [] y2
      in orelse_run (apic_init m off (madt_address b) (hpet_table b) (apic y3) (mc (kern y3))) (\<lambda>(a, c).
           case ps2_init (npf (boot_env b)) m off a (ps2_devices b) (keyboard y3) (idts y3) c of
             Inl e \<Rightarrow> Some (Inl e)
           | Inr (p, t, c') \<Rightarrow>
               orelse_run (parse_tar_and_populate_tmpfs m (fst (type_literals b)) (snd (type_literals b)) (past_path (boot_env b))
                             (fresh_bytes b) (file_buffers b) (module_address b) (module_size b)) (\<lambda>fs.
                 Some (Inr (y3\<lparr>apic := a, keyboard := p, idts := t,
                              kern := (kern y3)\<lparr>mc := c', files := fs, root_list := Some 0\<rparr>\<rparr>)))))"

text \<open>System calls, the kernel stack of the task state segment, SSE and the extended state.\<close>

definition syscalls_boot :: "boot_params \<Rightarrow> system \<Rightarrow> system res" where
  "syscalls_boot b y =
     (let y1 = log_line b ''syscall msr : %p'' [readmsr 0xC0000080 (mc (kern y))] y;
          y2 = log_line b ''Enabling syscall extention...'' [] y1;
          y3 = on_machine (enable_syscalls (syscall_entry b)) y2;
          y4 = log_line b ''Star MSR %p'' [readmsr 0xC0000081 (mc (kern y3))] y3
      in andthen (syscall_init (syscall_handlers y4)) (\<lambda>tab.
         andthen (on_memory pmm_alloc_singlep (kern y4)) (\<lambda>(page, k).
           let y5 = y4\<lparr>syscall_handlers := tab, kern := k, rsp0 := page + hhdm (km k) + 4096\<rparr>;
               y6 = log_line b ''rsp0: %p'' [rsp0 y5] y5;
               y7 = on_machine enable_sse y6;
               (area_size, c) = setup_xsave (npf (boot_env b)) (cpuid_ecx b) (mc (kern y7));
               y8 = y7\<lparr>kern := (kern y7)\<lparr>mc := c, xsave_size := area_size\<rparr>\<rparr>
           in Inr (says ''Syscalls Enabled, SSE and XSave Enabled, Entering Scheduler...'' y8))))"

text \<open>After \<open>sched_init\<close> the code waits for interrupts for ever: this is the state it waits in.\<close>

definition start :: "boot_params \<Rightarrow> system \<Rightarrow> system res option" where
  "start b y =
     orelse_run (Some (andthen (check_boot b y) (early_boot b))) (\<lambda>y1.
     orelse_run (devices_boot b y1) (\<lambda>y2.
     orelse_run (Some (syscalls_boot b y2)) (\<lambda>y3.
     orelse_run (sched_init (boot_env b) (kern y3)) (\<lambda>k.
       Some (Inr (y3\<lparr>kern := k\<rparr>))))))"

lemma start_needs_framebuffer:
  "\<not> revision_supported b \<or> framebuffer_count b \<in> {None, Some 0} \<Longrightarrow> start b y = Some (Inl Halted)"
  by (auto simp: start_def check_boot_def orelse_run_def)

end
