(* ===== verification/Spec2Isabelle.thy ===== *)
theory Spec2Isabelle
  imports Terminal_Properties Memory_Properties Cstrings Filesystem_Properties Interrupts Apic Ps2 Bump Uacpi Sched User_Memory Elf Syscall Boot
begin

text \<open>
  A model of the Nyaux kernel, a kernel for x86-64 in C (\<open>kernel/src\<close>), with the properties that
  make its parts correct.

  The program. The boot loader starts \<open>_start\<close> (\<open>main.c\<close>), which sets up the descriptor tables
  (\<open>gdt.c\<close>, \<open>idt.c\<close>), the serial line (\<open>drivers/serial.c\<close>), the page allocator and the slab
  allocator (\<open>pmm.c\<close>), the page tables and regions (\<open>vmm.c\<close>), the ACPI library through its host
  interface (\<open>ACPI/\<close>), the interrupt controllers and timers (\<open>drivers/apic.c\<close>), the keyboard
  (\<open>drivers/ps2.c\<close>), the in-memory file system from an archive (\<open>fs/\<close>), the system calls
  (\<open>syscall/\<close>), the extended processor state (\<open>fpu/\<close>) and the scheduler (\<open>sched/\<close>), which loads the
  first program (\<open>elf/\<close>). From then on timer interrupts switch threads, keyboard interrupts record
  events, and programs call the kernel.

  The theories, in the order of their imports.
  \<^item> \<open>Prelude\<close>: results and errors (\<open>res\<close>, \<open>andthen\<close>), counted loops, words, the collections of
    simplification rules. \<open>Memory\<close>: bytes, 64-bit cells, linked chains; the locale \<open>linked_memory\<close>.
    \<open>Access\<close>: fields of one to eight bytes.
  \<^item> \<open>Libc\<close> and \<open>Cstrings\<close>: the memory, string and number functions of \<open>main.c\<close>.
  \<^item> \<open>Pool\<close>: the locale \<open>resource_pool\<close>, what taking and giving back promise; interpreted on pages,
    slab objects and file descriptors. \<open>Kernel_State\<close>: the globals of the memory managers.
  \<^item> \<open>Pmm\<close>, \<open>Slab\<close>, \<open>Objects\<close>: pages, slabs, and the heap as its clients see it. \<open>Paging\<close>, \<open>Vmm\<close>: page
    tables with the abstract address space \<open>page_map\<close>, regions, \<open>kmalloc\<close>, address spaces.
    \<open>Example_Machine\<close>, \<open>Memory_Properties\<close>: a concrete machine, and the properties of these parts.
  \<^item> \<open>Name_Space\<close>: the locale of a directory tree; \<open>Tmpfs\<close> interprets it and models \<open>fs/tmpfs.c\<close>;
    \<open>Vfs\<close>: path lookup and descriptors; \<open>Tar\<close>: the archive loader; \<open>Filesystem_Properties\<close>.
  \<^item> \<open>Machine\<close>: ports, registers, serial line and terminal. \<open>Interrupts\<close>: descriptor tables, panic,
    the set-up of system calls and of the floating-point unit. \<open>Apic\<close>, \<open>Ps2\<close>, \<open>Bump\<close>, \<open>Uacpi\<close>: the
    devices, the early allocator and the host interface.
  \<^item> \<open>Sched\<close>: the state of the whole kernel (\<open>kernel\<close>), threads and context switches; \<open>User_Memory\<close>:
    windows of program memory seen through the page tables; \<open>Elf\<close>: the loader and \<open>sched_init\<close>;
    \<open>Syscall\<close>: the handlers; \<open>Boot\<close>: \<open>_start\<close> as the composition of all parts.
  \<^item> The terminal (\<open>flanterm/\<close>). \<open>Glyphs\<close>: character widths and code pages; \<open>Flanterm\<close>: the front end,
    \<open>flanterm.c\<close>, over any back end, with the locale \<open>terminal_backend\<close>; \<open>Font\<close>, \<open>Framebuffer\<close> and
    \<open>Framebuffer_Init\<close>: the back end \<open>backends/fb.c\<close>. \<open>Framebuffer_Cells\<close> (the logical screen \<open>view\<close>,
    the queue and what the operations do to it), \<open>Framebuffer_Pixels\<close> and \<open>Framebuffer_Refresh\<close> (cells
    as pixels), \<open>Framebuffer_Backend\<close> (the interpretation of the locale), \<open>Framebuffer_Boot\<close> (the
    terminal that \<open>_start\<close> makes), \<open>Terminal_Behaviour\<close> (text, new lines, UTF-8, cursor movement; the
    effect of the kernel's log of terminal operations), \<open>Terminal_Display\<close> and \<open>Terminal_Properties\<close>.

  How the code is modelled. A C function is a definition with the same name (\<open>vmm_map\<close>, \<open>vmm_unmap\<close>,
  \<open>free_obj\<close> and \<open>write_term\<close> stand for \<open>map\<close>, \<open>unmap\<close>, \<open>free\<close> and \<open>write\<close>) that maps a state to a
  result. An error ends the run: \<open>Halted\<close>, \<open>Panicked\<close>, \<open>PageFault\<close> for NULL, \<open>Undefined\<close> for undefined
  behaviour such as a write outside an array, \<open>Diverges\<close> for a loop without an end. Integers are words
  of their width. The memory managers work on raw memory with the layouts of the C structures;
  vnodes, threads, processes and contexts are records in stores, named by numbers or by the address
  that \<open>kmalloc\<close> gave. Fields that the code does not initialise come from parameters (\<open>raw_\<close>, \<open>fresh\<close>).
  Devices are functions of everything that was sent to them before, so nothing is assumed of them.
  Functions that may recurse for ever (\<open>vnode_path_lookup\<close>, \<open>tar_loop\<close>, \<open>ksleep_loop\<close>,
  \<open>load_elf_program\<close>, the searches along lists) are partial functions into \<open>option\<close>, and \<open>None\<close> means
  that the code does not return; no fuel is used.

  What is shown. Pages, objects and descriptors are never handed out twice and are not lost; the
  mapping functions refine updates of \<open>page_map\<close>, and regions stay ordered; a slab allocation
  changes no live object. Path lookup is resolution over the components, creation and lookup,
  writing and reading agree, the archive loader applies the archive's entries in order. The number
  and string functions meet their specifications. The gates and selectors fit the descriptor table;
  routing programs the entry it should; the delay returns once the counter shows the time. Every
  sequence of known scan codes is decoded to its events. The scheduler is round robin and a thread
  finds its registers and floating-point state again. The loader leaves the stack that programs
  expect, and opening and reading a file gives its contents. The terminal never fails, whatever is
  written; the screen shows the logical screen after every flush, printed text appears in the font,
  and line feeds, UTF-8 and cursor positions do what they should. Properties that state a defect of the
  code (a link that loses the rest of its path, a scan code sequence that blocks the keyboard, the
  last region that stays linked) are there because callers depend on them.

  Not modelled. The formatter (\<open>lib/nanoprintf.h\<close>) is vendored code and a parameter, and so are the
  allocator and the callback's effect that another client of the terminal could give;
  \<open>plot_char_masked\<close> is not compiled. The kernel's side keeps a log of terminal operations instead of
  the terminal itself, because nothing it does depends on the terminal's state. The buffers of files
  have addresses (\<open>buffer_at\<close>) because reading compares pointers into them. The ACPI library is not part of the sources. Assembly
  stubs, the TLB and the load instructions for tables are outside the C code. Progress messages are
  modelled where a function works on the machine (drivers, loader, system calls, boot), and left out
  in the memory managers, in the file system and, for three lines, in \<open>apic_init\<close>. Access rights of
  user pages are not checked by the translation, because the kernel maps all of them writable.
\<close>

end
